(* ===== verification/Docs_Prelude.thy ===== *)
theory Docs_Prelude
  imports Main "HOL-Library.Word"
begin

text \<open>
  Shared vocabulary of the development: C strings and bounded buffers, the \<open>ctype.h\<close>
  predicates the sources call, decimal printing, singly linked collision chains and the
  contract every chained hash table of the program relies on (\<open>chained_hash\<close>).
  A C string is the \<open>char list\<close> before its terminating NUL.
\<close>

unbundle bit_operations_syntax

named_theorems cstr_simps \<open>bounded buffers and C strings\<close>
named_theorems table_simps \<open>lookups in hash tables after an update\<close>

section \<open>C strings and bounded buffers\<close>

type_synonym cstring = string

abbreviation NUL :: char where "NUL \<equiv> CHR 0x00"

text \<open>
  \<open>strncpy (dst, s, N - 1)\<close> into a buffer of \<open>N\<close> bytes whose last byte is NUL, and
  \<open>snprintf (dst, N, \<dots>)\<close>, both keep at most \<open>N - 1\<close> characters.
\<close>

definition cbuf :: "nat \<Rightarrow> cstring \<Rightarrow> cstring" where
  "cbuf n s = take (n - 1) s"

lemma length_cbuf [cstr_simps]: "length (cbuf n s) = min (length s) (n - 1)"
  by (simp add: cbuf_def)

lemma length_cbuf_less: "0 < n \<Longrightarrow> length (cbuf n s) < n"
  by (simp add: cbuf_def)

lemma cbuf_id [cstr_simps]: "length s < n \<Longrightarrow> cbuf n s = s"
  by (simp add: cbuf_def)

lemma cbuf_idem [simp]: "cbuf n (cbuf n s) = cbuf n s"
  by (simp add: cbuf_def)

lemma cbuf_eq_iff: "length s < n \<Longrightarrow> length t < n \<Longrightarrow> cbuf n s = cbuf n t \<longleftrightarrow> s = t"
  by (simp add: cbuf_id)

text \<open>The C string found in a byte buffer: everything before the first NUL.\<close>

definition cstr_of :: "char list \<Rightarrow> cstring" where
  "cstr_of bs = takeWhile (\<lambda>c. c \<noteq> NUL) bs"

lemma cstr_of_id [cstr_simps]: "NUL \<notin> set bs \<Longrightarrow> cstr_of bs = bs"
  unfolding cstr_of_def takeWhile_eq_all_conv by blast

lemma cstr_of_no_nul: "NUL \<notin> set (cstr_of bs)"
  unfolding cstr_of_def by (blast dest: set_takeWhileD)

text \<open>Decimal output of \<open>%d\<close>, \<open>%ld\<close>, \<open>%zu\<close>.\<close>

fun show_nat :: "nat \<Rightarrow> string" where
  "show_nat n =
     (if n < 10 then [char_of (48 + n)]
      else show_nat (n div 10) @ [char_of (48 + n mod 10)])"

declare show_nat.simps [simp del]

definition show_int :: "int \<Rightarrow> string" where
  "show_int i = (if i < 0 then CHR ''-'' # show_nat (nat (- i)) else show_nat (nat i))"

lemma show_nat_nonempty [simp]: "show_nat n \<noteq> []"
  by (subst show_nat.simps) simp

lemma length_show_nat: "n < 10 ^ Suc k \<Longrightarrow> length (show_nat n) \<le> Suc k"
proof (induction k arbitrary: n)
  case (Suc k)
  show ?case
  proof (cases "n < 10")
    case False
    have "n div 10 < 10 ^ Suc k" using Suc.prems by (simp add: div_less_iff_less_mult)
    from Suc.IH [OF this] False show ?thesis by (simp add: show_nat.simps [of n])
  qed (simp add: show_nat.simps [of n])
qed (simp add: show_nat.simps)

lemma show_nat_digits: "c \<in> set (show_nat n) \<Longrightarrow> 48 \<le> (of_char c :: nat) \<and> (of_char c :: nat) \<le> 57"
proof (induction n rule: show_nat.induct)
  case (1 n)
  show ?case
  proof (cases "n < 10")
    case True
    with "1.prems" show ?thesis by (simp add: show_nat.simps [of n] of_char_of take_bit_eq_mod)
  next
    case False
    with 1 show ?thesis
      by (auto simp: show_nat.simps [of n] of_char_of take_bit_eq_mod)
  qed
qed

section \<open>Character classes\<close>

text \<open>
  \<open>char\<close> is signed on the platform the program is built for; an \<open>int\<close> obtained from a
  character is negative for bytes above 127. The \<open>ctype.h\<close> classes are those of the C locale.
\<close>

definition schar :: "char \<Rightarrow> int" where
  "schar c = (let n = int (of_char c) in if n < 128 then n else n - 256)"

definition uchar :: "char \<Rightarrow> int" where
  "uchar c = int (of_char c)"

definition isspace :: "char \<Rightarrow> bool" where
  "isspace c \<longleftrightarrow> c \<in> {CHR '' '', CHR 0x09, CHR 0x0A, CHR 0x0B, CHR 0x0C, CHR 0x0D}"

definition code_of :: "char \<Rightarrow> nat" where
  "code_of c = of_char c"

definition isupper :: "char \<Rightarrow> bool" where
  "isupper c \<longleftrightarrow> 65 \<le> code_of c \<and> code_of c \<le> 90"

definition islower :: "char \<Rightarrow> bool" where
  "islower c \<longleftrightarrow> 97 \<le> code_of c \<and> code_of c \<le> 122"

definition isdigit :: "char \<Rightarrow> bool" where
  "isdigit c \<longleftrightarrow> 48 \<le> code_of c \<and> code_of c \<le> 57"

definition isalnum :: "char \<Rightarrow> bool" where
  "isalnum c \<longleftrightarrow> isupper c \<or> islower c \<or> isdigit c"

definition tolower :: "char \<Rightarrow> char" where
  "tolower c = (if isupper c then char_of (code_of c + 32) else c)"

definition toupper :: "char \<Rightarrow> char" where
  "toupper c = (if islower c then char_of (code_of c - 32) else c)"

lemma code_of_tolower: "code_of (tolower c) = (if isupper c then code_of c + 32 else code_of c)"
  by (auto simp: tolower_def code_of_def isupper_def of_char_of take_bit_eq_mod)

lemma isupper_tolower [simp]: "\<not> isupper (tolower c)"
  by (auto simp: isupper_def code_of_tolower)

lemma tolower_idem [simp]: "tolower (tolower c) = tolower c"
  by (simp add: tolower_def [of "tolower c"])

lemma isalnum_tolower [simp]: "isalnum (tolower c) = isalnum c"
  by (auto simp: isalnum_def isupper_def islower_def isdigit_def code_of_tolower)

lemma code_of_NUL: "code_of c = 0 \<longleftrightarrow> c = NUL"
proof -
  have "(of_char NUL :: nat) = 0" by simp
  then show ?thesis unfolding code_of_def by (metis of_char_eq_iff)
qed

lemma tolower_not_nul [simp]: "c \<noteq> NUL \<Longrightarrow> tolower c \<noteq> NUL"
  using code_of_NUL [of "tolower c"] code_of_NUL [of c]
  by (auto simp: code_of_tolower split: if_splits)

section \<open>Lines and numbers\<close>

abbreviation NL :: char where "NL \<equiv> CHR 0x0A"

text \<open>\<open>fgets\<close> with a buffer of \<open>n\<close> bytes: a line with its line feed, or \<open>n - 1\<close> characters.\<close>

definition fgets :: "nat \<Rightarrow> char list \<Rightarrow> char list \<times> char list" where
  "fgets n s =
     (let l = take (n - 1) s; a = takeWhile (\<lambda>c. c \<noteq> NL) l
      in if length a = length l then (l, drop (n - 1) s) else (a @ [NL], drop (length a + 1) s))"

text \<open>A conversion \<open>%d\<close> or \<open>%ld\<close> of \<open>sscanf\<close>: blanks, a sign, digits; and what follows them.\<close>

fun digits_value :: "nat \<Rightarrow> cstring \<Rightarrow> nat" where
  "digits_value n [] = n"
| "digits_value n (c # s) = digits_value (n * 10 + (code_of c - 48)) s"

definition scan_int :: "cstring \<Rightarrow> (int \<times> cstring) option" where
  "scan_int s =
     (let s = dropWhile isspace s;
          neg = (s \<noteq> [] \<and> hd s = CHR ''-'');
          s = (if s \<noteq> [] \<and> (hd s = CHR ''-'' \<or> hd s = CHR ''+'') then tl s else s);
          ds = takeWhile isdigit s
      in if ds = [] then None
         else Some (if neg then - int (digits_value 0 ds) else int (digits_value 0 ds), dropWhile isdigit s))"

text \<open>
  \<open>atoi\<close>: a string without digits gives 0; the behaviour is undefined (\<open>None\<close>) where the value
  is no \<open>int\<close>.
\<close>

definition atoi :: "cstring \<Rightarrow> int option" where
  "atoi s =
     (case scan_int s of
        None \<Rightarrow> Some 0
      | Some (i, rest) \<Rightarrow> if - (2 ^ 31) \<le> i \<and> i < 2 ^ 31 then Some i else None)"

lemma digits_value_append: "digits_value n (s @ [c]) = digits_value n s * 10 + (code_of c - 48)"
  by (induction n s rule: digits_value.induct) simp_all

lemma digits_value_show: "digits_value 0 (show_nat n) = n"
proof (induction n rule: show_nat.induct)
  case (1 n)
  then show ?case
    by (auto simp: show_nat.simps [of n] digits_value_append code_of_def of_char_of take_bit_eq_mod)
qed

lemma show_nat_isdigit: "c \<in> set (show_nat n) \<Longrightarrow> isdigit c"
  using show_nat_digits [of c n] by (simp add: isdigit_def code_of_def)

lemma scan_digits:
  assumes "rest = [] \<or> \<not> isdigit (hd rest)"
  shows "takeWhile isdigit (show_nat n @ rest) = show_nat n" "dropWhile isdigit (show_nat n @ rest) = rest"
proof -
  have stop: "takeWhile isdigit rest = []" "dropWhile isdigit rest = rest" using assms by (cases rest; simp)+
  show "takeWhile isdigit (show_nat n @ rest) = show_nat n"
    using stop(1) by (subst takeWhile_append2) (simp_all add: show_nat_isdigit)
  show "dropWhile isdigit (show_nat n @ rest) = rest"
    using stop(2) by (subst dropWhile_append2) (simp_all add: show_nat_isdigit)
qed

section \<open>Maximal runs\<close>

text \<open>
  The maximal runs of characters of a class: skip what is not in it, take what is, go on.
\<close>

function runs :: "(char \<Rightarrow> bool) \<Rightarrow> cstring \<Rightarrow> cstring list" where
  "runs P s =
     (let s' = dropWhile (\<lambda>c. \<not> P c) s
      in if s' = [] then [] else takeWhile P s' # runs P (dropWhile P s'))"
  by pat_completeness auto
termination
proof (relation "measure (\<lambda>(P, s). length s)")
  fix P :: "char \<Rightarrow> bool" and s s' :: cstring
  assume s': "s' = dropWhile (\<lambda>c. \<not> P c) s" "s' \<noteq> []"
  then obtain c r where c: "s' = c # r" "P c"
    by (metis hd_dropWhile list.collapse)
  then have "length (dropWhile P s') \<le> length r"
    by (simp add: length_dropWhile_le)
  also have "length r < length s'" using c(1) by simp
  also have "length s' \<le> length s" unfolding s'(1) by (rule length_dropWhile_le)
  finally show "((P, dropWhile P s'), (P, s)) \<in> measure (\<lambda>(P, s). length s)" by simp
qed simp

declare runs.simps [simp del]

lemma runs_none: "dropWhile (\<lambda>c. \<not> P c) s = [] \<Longrightarrow> runs P s = []"
  by (simp only: runs.simps [of P s] Let_def if_True simp_thms)

lemma runs_some:
  assumes "dropWhile (\<lambda>c. \<not> P c) s = d" and "d \<noteq> []"
  shows "runs P s = takeWhile P d # runs P (dropWhile P d)"
  using assms(2) by (simp only: runs.simps [of P s] Let_def assms(1) if_False simp_thms)

lemma runs_Nil [simp]: "runs P [] = []"
  by (rule runs_none) simp

lemma runs_skip [simp]: "\<not> P c \<Longrightarrow> runs P (c # s) = runs P s"
  by (simp only: runs.simps [of P "c # s"] runs.simps [of P s] dropWhile.simps if_True simp_thms)

lemma runs_run:
  assumes "w \<noteq> []" and "\<And>c. c \<in> set w \<Longrightarrow> P c"
  shows "runs P (w @ s) = (w @ takeWhile P s) # runs P (dropWhile P s)"
proof -
  have "dropWhile (\<lambda>c. \<not> P c) (w @ s) = w @ s" using assms by (cases w) auto
  from runs_some [OF this] assms show ?thesis by (simp add: takeWhile_append2 dropWhile_append2)
qed

lemma runs_ok: "w \<in> set (runs P s) \<Longrightarrow> w \<noteq> [] \<and> (\<forall>c\<in>set w. P c)"
proof (induction P s rule: runs.induct)
  case (1 P s)
  let ?d = "dropWhile (\<lambda>c. \<not> P c) s"
  show ?case
  proof (cases "?d = []")
    case True
    with "1.prems" show ?thesis by (simp only: runs_none [OF True] list.set empty_iff)
  next
    case False
    then obtain c r where c: "?d = c # r" "P c"
      by (metis hd_dropWhile list.collapse)
    have "takeWhile P ?d \<noteq> [] \<and> (\<forall>c\<in>set (takeWhile P ?d). P c)"
      unfolding c(1) using c(2) by (auto dest: set_takeWhileD)
    moreover from "1.prems" have "w = takeWhile P ?d \<or> w \<in> set (runs P (dropWhile P ?d))"
      by (simp only: runs_some [OF refl False] list.set insert_iff)
    ultimately show ?thesis
    proof (elim conjE disjE)
      assume "w = takeWhile P ?d" "takeWhile P ?d \<noteq> []" "\<forall>c\<in>set (takeWhile P ?d). P c"
      then show ?thesis by (intro conjI) (rule ssubst, assumption+)+
    next
      assume "w \<in> set (runs P (dropWhile P ?d))"
      then show ?thesis by (rule "1.IH" [OF refl False])
    qed
  qed
qed

lemma dropWhile_snoc_ne: "dropWhile Q s \<noteq> [] \<Longrightarrow> dropWhile Q (s @ [c]) = dropWhile Q s @ [c]"
  by (induction s) (auto split: if_splits)

lemma dropWhile_snoc_nil: "dropWhile Q s = [] \<Longrightarrow> dropWhile Q (s @ [c]) = dropWhile Q [c]"
  by (induction s) (auto split: if_splits)

lemma takeWhile_snoc_not: "\<not> P c \<Longrightarrow> takeWhile P (s @ [c]) = takeWhile P s"
  by (induction s) auto

lemma runs_snoc: "\<not> P c \<Longrightarrow> runs P (s @ [c]) = runs P s"
proof (induction P s rule: runs.induct)
  case (1 P s)
  let ?d = "dropWhile (\<lambda>c. \<not> P c)"
  show ?case
  proof (cases "?d s = []")
    case True
    have "?d (s @ [c]) = []" unfolding dropWhile_snoc_nil [OF True] using "1.prems" by simp
    then show ?thesis by (simp only: runs_none [OF True] runs_none)
  next
    case False
    have d: "?d (s @ [c]) = ?d s @ [c]" by (rule dropWhile_snoc_ne [OF False])
    have "runs P (dropWhile P (?d s @ [c])) = runs P (dropWhile P (?d s))"
    proof (cases "dropWhile P (?d s) = []")
      case True
      show ?thesis unfolding dropWhile_snoc_nil [OF True] True using "1.prems" by simp
    next
      case ne: False
      show ?thesis unfolding dropWhile_snoc_ne [OF ne] by (rule "1.IH" [OF refl False "1.prems"])
    qed
    then show ?thesis
      by (simp only: runs_some [OF d] runs_some [OF refl False] takeWhile_snoc_not [where P = P, OF "1.prems"]
          append_is_Nil_conv list.simps simp_thms)
  qed
qed

lemma runs_all:
  assumes "r \<noteq> []" and "\<forall>c\<in>set r. P c"
  shows "runs P r = [r]"
  using runs_run [of r P "[]"] assms by simp

lemma runs_sep:
  assumes "\<not> P c" and "\<forall>x\<in>set r. P x"
  shows "runs P (r @ c # s) = (if r = [] then runs P s else r # runs P s)"
proof (cases "r = []")
  case False
  with runs_run [of r P "c # s"] assms show ?thesis by simp
qed (use assms in simp)

lemma runs_append_sep:
  assumes "\<not> P c"
  shows "runs P (s @ c # t) = runs P s @ runs P t"
proof (induction s rule: length_induct)
  case (1 s)
  define r where "r = takeWhile P s"
  define q where "q = dropWhile P s"
  have s: "s = r @ q" and r: "\<forall>x\<in>set r. P x"
    by (auto simp: r_def q_def dest: set_takeWhileD)
  show ?case
  proof (cases q)
    case Nil
    with s r have "s = r" by simp
    with runs_sep [OF assms r] show ?thesis by (cases "r = []") (simp_all add: runs_all [OF _ r])
  next
    case (Cons d q')
    then have d: "\<not> P d" using hd_dropWhile [of P s] by (simp add: q_def)
    have "length q' < length s" using Cons s by simp
    with 1 have ih: "runs P (q' @ c # t) = runs P q' @ runs P t" by blast
    have "runs P (s @ c # t) = runs P (r @ d # (q' @ c # t))" and "runs P s = runs P (r @ d # q')"
      using s Cons by simp_all
    then show ?thesis by (simp add: runs_sep [where P = P, OF d r] ih)
  qed
qed

section \<open>Collision chains\<close>

text \<open>
  Every table of the program is an array of singly linked chains, walked with
  \<open>while (cur) { if (match) \<dots> ; cur = cur->next; }\<close>. A chain is the list of the entries in
  link order. \<open>find\<close> is the search loop; \<open>update_first\<close> writes through the pointer it
  returns; \<open>remove_first\<close> unlinks that node (\<open>prev->next = cur->next\<close>).
\<close>

fun update_first :: "('e \<Rightarrow> bool) \<Rightarrow> ('e \<Rightarrow> 'e) \<Rightarrow> 'e list \<Rightarrow> 'e list" where
  "update_first P f [] = []"
| "update_first P f (x # xs) = (if P x then f x # xs else x # update_first P f xs)"

fun remove_first :: "('e \<Rightarrow> bool) \<Rightarrow> 'e list \<Rightarrow> 'e list" where
  "remove_first P [] = []"
| "remove_first P (x # xs) = (if P x then xs else x # remove_first P xs)"

lemma set_remove_first: "set (remove_first P xs) \<subseteq> set xs"
  by (induction xs) auto

lemma remove_first_none [simp]: "\<forall>x\<in>set xs. \<not> P x \<Longrightarrow> remove_first P xs = xs"
  by (induction xs) auto

lemma update_first_none [simp]: "\<forall>x\<in>set xs. \<not> P x \<Longrightarrow> update_first P f xs = xs"
  by (induction xs) auto

lemma length_update_first [simp]: "length (update_first P f xs) = length xs"
  by (induction xs) auto

lemma length_remove_first:
  "length (remove_first P xs) = (if \<exists>x\<in>set xs. P x then length xs - 1 else length xs)"
  by (induction xs) (auto simp: Suc_diff_Suc length_greater_0_conv [symmetric] simp del: length_greater_0_conv
      dest: length_pos_if_in_set)

lemma map_update_first: "(\<And>x. k (f x) = k x) \<Longrightarrow> map k (update_first P f xs) = map k xs"
  by (induction xs) auto

lemma set_update_first: "x \<in> set (update_first P f xs) \<Longrightarrow> x \<in> set xs \<or> (\<exists>y\<in>set xs. x = f y)"
  by (induction xs) (auto split: if_splits)

lemma distinct_map_remove_first: "distinct (map k xs) \<Longrightarrow> distinct (map k (remove_first P xs))"
  by (induction xs) (auto dest: subsetD [OF set_remove_first])

lemma find_remove_first_other:
  "(\<And>x. P x \<Longrightarrow> \<not> Q x) \<Longrightarrow> find Q (remove_first P xs) = find Q xs"
  by (induction xs) auto

lemma find_update_first_same:
  "(\<And>x. P (f x) = P x) \<Longrightarrow> find P (update_first P f xs) = map_option f (find P xs)"
  by (induction xs) auto

lemma find_update_first_other:
  "(\<And>x. P x \<Longrightarrow> \<not> Q x) \<Longrightarrow> (\<And>x. P x \<Longrightarrow> \<not> Q (f x)) \<Longrightarrow>
   find Q (update_first P f xs) = find Q xs"
  by (induction xs) auto

lemma distinct_key_tail: "distinct (map k (x # xs)) \<Longrightarrow> k x = a \<Longrightarrow> \<forall>y\<in>set xs. k y \<noteq> a"
  by (auto simp: image_iff)

lemma remove_first_key_filter:
  "distinct (map k xs) \<Longrightarrow> remove_first (\<lambda>x. k x = a) xs = filter (\<lambda>x. k x \<noteq> a) xs"
proof (induction xs)
  case (Cons x xs)
  show ?case
  proof (cases "k x = a")
    case True
    have "filter (\<lambda>y. k y \<noteq> a) xs = xs"
      using distinct_key_tail [OF Cons.prems True] by (simp add: filter_id_conv)
    with True show ?thesis by simp
  qed (use Cons in simp)
qed simp

lemma find_remove_first_key:
  "distinct (map k xs) \<Longrightarrow> find (\<lambda>x. k x = a) (remove_first (\<lambda>x. k x = a) xs) = None"
  by (simp add: remove_first_key_filter find_None_iff)

lemma find_Some_in: "find P xs = Some x \<Longrightarrow> x \<in> set xs \<and> P x"
  by (induction xs) (auto split: if_splits)

lemma find_key_none: "find (\<lambda>x. k x = a) xs = None \<longleftrightarrow> a \<notin> k ` set xs"
  by (auto simp: find_None_iff)

lemma find_remove_first_other_key:
  "a \<noteq> a' \<Longrightarrow> find (\<lambda>x. k x = a) (remove_first (\<lambda>x. k x = a') xs) = find (\<lambda>x. k x = a) xs"
  by (induction xs) auto

lemma find_update_first_other_key:
  "(\<And>x. k (f x) = k x) \<Longrightarrow> a \<noteq> a' \<Longrightarrow>
   find (\<lambda>x. k x = a) (update_first (\<lambda>x. k x = a') f xs) = find (\<lambda>x. k x = a) xs"
  by (induction xs) auto

lemma find_append:
  "find P (xs @ ys) = (case find P xs of None \<Rightarrow> find P ys | Some y \<Rightarrow> Some y)"
  by (induction xs) auto

lemma find_key_iff:
  "distinct (map k xs) \<Longrightarrow> find (\<lambda>x. k x = a) xs = Some e \<longleftrightarrow> e \<in> set xs \<and> k e = a"
proof (induction xs)
  case (Cons x xs)
  show ?case
  proof (cases "k x = a")
    case True
    with distinct_key_tail [OF Cons.prems True] show ?thesis by auto
  qed (use Cons in auto)
qed simp

lemma find_filter_key:
  "distinct (map k xs) \<Longrightarrow>
   find (\<lambda>x. k x = a) (filter P xs) =
     (case find (\<lambda>x. k x = a) xs of None \<Rightarrow> None | Some e \<Rightarrow> if P e then Some e else None)"
proof (induction xs)
  case (Cons x xs)
  show ?case
  proof (cases "k x = a")
    case True
    have "find (\<lambda>x. k x = a) (filter P xs) = None"
      using distinct_key_tail [OF Cons.prems True] by (auto simp: find_None_iff)
    with True show ?thesis by simp
  qed (use Cons in simp)
qed simp

section \<open>Chained hash tables\<close>

text \<open>
  A table \<open>b\<close> gives the chain of each bucket index. \<open>chain_lookup\<close> is the lookup every module
  writes out: hash the key, walk that bucket. \<open>chain_inv\<close> is the representation invariant: a
  chain holds only keys of its own bucket, and no key twice. \<open>chain_entries\<close> lists a table of
  \<open>n\<close> buckets in the order the iterating functions visit it.
\<close>

definition chain_lookup :: "('k \<Rightarrow> nat) \<Rightarrow> ('e \<Rightarrow> 'k) \<Rightarrow> (nat \<Rightarrow> 'e list) \<Rightarrow> 'k \<Rightarrow> 'e option" where
  "chain_lookup hash key b k = find (\<lambda>e. key e = k) (b (hash k))"

definition chain_inv :: "('k \<Rightarrow> nat) \<Rightarrow> ('e \<Rightarrow> 'k) \<Rightarrow> (nat \<Rightarrow> 'e list) \<Rightarrow> bool" where
  "chain_inv hash key b \<longleftrightarrow>
     (\<forall>i. distinct (map key (b i)) \<and> (\<forall>e\<in>set (b i). hash (key e) = i))"

definition chain_entries :: "nat \<Rightarrow> (nat \<Rightarrow> 'e list) \<Rightarrow> 'e list" where
  "chain_entries n b = concat (map b [0..<n])"

lemma chain_entries_split:
  assumes "i < n"
  shows "chain_entries n b = chain_entries i b @ b i @ concat (map b [Suc i..<n])"
proof -
  from assms have "[0..<n] = [0..<i] @ i # [Suc i..<n]"
    by (metis less_imp_le_nat upt_add_eq_append upt_conv_Cons le_add_diff_inverse zero_le)
  then show ?thesis by (simp add: chain_entries_def)
qed

lemma chain_entries_upd:
  "i < n \<Longrightarrow> chain_entries n (b(i := c)) =
     chain_entries i b @ c @ concat (map b [Suc i..<n])"
  by (subst chain_entries_split, assumption) (simp add: chain_entries_def)

lemma chain_entries_prefix [simp]: "i \<le> j \<Longrightarrow> chain_entries i (b(j := c)) = chain_entries i b"
  by (simp add: chain_entries_def)

lemma set_chain_entries: "set (chain_entries n b) = (\<Union>i<n. set (b i))"
  by (auto simp: chain_entries_def)

lemma chain_invI:
  "(\<And>i. distinct (map key (b i))) \<Longrightarrow> (\<And>i e. e \<in> set (b i) \<Longrightarrow> hash (key e) = i) \<Longrightarrow>
   chain_inv hash key b"
  by (simp add: chain_inv_def)

lemma chain_inv_distinct: "chain_inv hash key b \<Longrightarrow> distinct (map key (b i))"
  by (simp add: chain_inv_def)

lemma chain_inv_hash: "chain_inv hash key b \<Longrightarrow> e \<in> set (b i) \<Longrightarrow> hash (key e) = i"
  by (simp add: chain_inv_def)

lemma chain_inv_upd:
  assumes "chain_inv hash key b" and "distinct (map key c)"
    and "\<And>e. e \<in> set c \<Longrightarrow> hash (key e) = i"
  shows "chain_inv hash key (b(i := c))"
  using assms by (simp add: chain_inv_def)

locale chained_hash =
  fixes hash :: "'k \<Rightarrow> nat" and key :: "'e \<Rightarrow> 'k" and size :: nat
  assumes hash_bound: "hash k < size"
begin

lemma lookup_key: "chain_lookup hash key b k = Some e \<Longrightarrow> key e = k"
  by (auto simp: chain_lookup_def dest: find_Some_in)

lemma inv_empty: "chain_inv hash key (\<lambda>_. [])"
  by (simp add: chain_inv_def)

lemma lookup_empty: "chain_lookup hash key (\<lambda>_. []) k = None"
  by (simp add: chain_lookup_def)

lemma lookup_insert:
  assumes "key e = k"
  shows "chain_lookup hash key (b(hash k := e # b (hash k))) = (chain_lookup hash key b)(k \<mapsto> e)"
proof
  fix x
  show "chain_lookup hash key (b(hash k := e # b (hash k))) x = ((chain_lookup hash key b)(k \<mapsto> e)) x"
    using assms by (cases "x = k"; cases "hash x = hash k") (simp_all add: chain_lookup_def)
qed

lemma inv_insert:
  assumes "chain_inv hash key b" and "key e = k" and "chain_lookup hash key b k = None"
  shows "chain_inv hash key (b(hash k := e # b (hash k)))"
  using assms by (intro chain_inv_upd)
    (auto simp: chain_lookup_def find_key_none chain_inv_distinct chain_inv_hash)

lemma lookup_append:
  assumes "key e = k" and "chain_lookup hash key b k = None"
  shows "chain_lookup hash key (b(hash k := b (hash k) @ [e])) = (chain_lookup hash key b)(k \<mapsto> e)"
proof
  fix x
  show "chain_lookup hash key (b(hash k := b (hash k) @ [e])) x = ((chain_lookup hash key b)(k \<mapsto> e)) x"
    using assms by (cases "x = k"; cases "hash x = hash k")
      (simp_all add: chain_lookup_def find_append split: option.split)
qed

lemma inv_append:
  assumes "chain_inv hash key b" and "key e = k" and "chain_lookup hash key b k = None"
  shows "chain_inv hash key (b(hash k := b (hash k) @ [e]))"
  using assms by (intro chain_inv_upd)
    (auto simp: chain_lookup_def find_key_none chain_inv_distinct chain_inv_hash)

lemma lookup_update:
  assumes "\<And>e. key (f e) = key e"
  shows "chain_lookup hash key (b(hash k := update_first (\<lambda>e. key e = k) f (b (hash k)))) =
    (chain_lookup hash key b)(k := map_option f (chain_lookup hash key b k))"
proof
  fix x
  show "chain_lookup hash key (b(hash k := update_first (\<lambda>e. key e = k) f (b (hash k)))) x =
      ((chain_lookup hash key b)(k := map_option f (chain_lookup hash key b k))) x"
    using assms by (cases "x = k"; cases "hash x = hash k")
      (simp_all add: chain_lookup_def find_update_first_same find_update_first_other_key)
qed

lemma inv_update:
  assumes "chain_inv hash key b" and "\<And>e. key (f e) = key e"
  shows "chain_inv hash key (b(hash k := update_first (\<lambda>e. key e = k) f (b (hash k))))"
proof (rule chain_inv_upd [OF assms(1)])
  let ?c = "update_first (\<lambda>e. key e = k) f (b (hash k))"
  have keys: "map key ?c = map key (b (hash k))"
    using assms(2) by (rule map_update_first)
  with chain_inv_distinct [OF assms(1)] show "distinct (map key ?c)" by simp
  fix e assume "e \<in> set ?c"
  then have "key e \<in> set (map key ?c)" by simp
  then have "key e \<in> set (map key (b (hash k)))" unfolding keys .
  then show "hash (key e) = hash k" using chain_inv_hash [OF assms(1)] by auto
qed

lemma lookup_remove:
  assumes "chain_inv hash key b"
  shows "chain_lookup hash key (b(hash k := remove_first (\<lambda>e. key e = k) (b (hash k)))) =
     (chain_lookup hash key b)(k := None)"
proof
  fix x
  show "chain_lookup hash key (b(hash k := remove_first (\<lambda>e. key e = k) (b (hash k)))) x =
      ((chain_lookup hash key b)(k := None)) x"
    using chain_inv_distinct [OF assms] by (cases "x = k"; cases "hash x = hash k")
      (simp_all add: chain_lookup_def find_remove_first_key find_remove_first_other_key)
qed

lemma inv_remove:
  assumes "chain_inv hash key b"
  shows "chain_inv hash key (b(hash k := remove_first (\<lambda>e. key e = k) (b (hash k))))"
proof (rule chain_inv_upd [OF assms])
  show "distinct (map key (remove_first (\<lambda>e. key e = k) (b (hash k))))"
    by (intro distinct_map_remove_first chain_inv_distinct [OF assms])
  show "hash (key e) = hash k" if "e \<in> set (remove_first (\<lambda>e. key e = k) (b (hash k)))" for e
    by (rule chain_inv_hash [OF assms]) (rule subsetD [OF set_remove_first that])
qed

lemma entries_iff:
  assumes "chain_inv hash key b"
  shows "e \<in> set (chain_entries size b) \<longleftrightarrow> chain_lookup hash key b (key e) = Some e"
proof -
  have "chain_lookup hash key b (key e) = Some e \<longleftrightarrow> e \<in> set (b (hash (key e)))"
    unfolding chain_lookup_def find_key_iff [OF chain_inv_distinct [OF assms, of "hash (key e)"]]
    by (simp only: simp_thms)
  also have "\<dots> \<longleftrightarrow> e \<in> set (chain_entries size b)"
  proof
    show "e \<in> set (chain_entries size b)" if "e \<in> set (b (hash (key e)))"
      using that hash_bound by (auto simp: set_chain_entries)
    show "e \<in> set (b (hash (key e)))" if in_entries: "e \<in> set (chain_entries size b)"
    proof -
      from in_entries obtain i where i: "e \<in> set (b i)" by (auto simp: set_chain_entries)
      with chain_inv_hash [OF assms i] show ?thesis by simp
    qed
  qed
  finally show ?thesis by simp
qed

lemma distinct_entries:
  assumes "chain_inv hash key b"
  shows "distinct (map key (chain_entries n b))"
proof (induction n)
  case (Suc n)
  have "key e \<noteq> key e'" if "e \<in> set (chain_entries n b)" "e' \<in> set (b n)" for e e'
  proof -
    from that(1) obtain i where i: "i < n" "e \<in> set (b i)" by (auto simp: set_chain_entries)
    have "hash (key e) = i" using i(2) by (rule chain_inv_hash [OF assms])
    moreover have "hash (key e') = n" using that(2) by (rule chain_inv_hash [OF assms])
    ultimately show ?thesis using i(1) by auto
  qed
  then have "set (map key (chain_entries n b)) \<inter> set (map key (b n)) = {}"
    by auto
  with Suc chain_inv_distinct [OF assms] show ?case
    by (simp add: chain_entries_def)
qed (simp add: chain_entries_def)

lemma length_entries_upd:
  "length (chain_entries size (b(hash k := c))) + length (b (hash k)) =
   length (chain_entries size b) + length c"
  by (simp add: chain_entries_upd [OF hash_bound] chain_entries_split [OF hash_bound [of k]])

end

end
