(* ===== verification/Protocol.thy ===== *)
theory Protocol
  imports Docs_Prelude
begin

text \<open>
  \<^verbatim>\<open>common/protocol.h\<close>: the operation and error codes, the fixed-size \<open>Message\<close> that clients,
  the name server and the storage servers exchange, and the helpers of that header. A
  \<open>char[N]\<close> field is the C string it holds; \<open>msg_wf\<close> says that a received message keeps every
  such string within its array. The macros are abbreviations, so the simplifier computes with
  the numbers, as the preprocessor does.
\<close>

section \<open>Operation codes\<close>

abbreviation OP_CREATE :: int where "OP_CREATE \<equiv> 10"
abbreviation OP_READ :: int where "OP_READ \<equiv> 11"
abbreviation OP_WRITE :: int where "OP_WRITE \<equiv> 12"
abbreviation OP_DELETE :: int where "OP_DELETE \<equiv> 13"
abbreviation OP_STREAM :: int where "OP_STREAM \<equiv> 14"
abbreviation OP_UNDO :: int where "OP_UNDO \<equiv> 15"
abbreviation OP_VIEW :: int where "OP_VIEW \<equiv> 20"
abbreviation OP_INFO :: int where "OP_INFO \<equiv> 21"
abbreviation OP_LIST :: int where "OP_LIST \<equiv> 22"
abbreviation OP_ADDACCESS :: int where "OP_ADDACCESS \<equiv> 30"
abbreviation OP_REMACCESS :: int where "OP_REMACCESS \<equiv> 31"
abbreviation OP_EXEC :: int where "OP_EXEC \<equiv> 40"
abbreviation OP_REGISTER_SS :: int where "OP_REGISTER_SS \<equiv> 50"
abbreviation OP_REGISTER_CLIENT :: int where "OP_REGISTER_CLIENT \<equiv> 51"
abbreviation OP_UNREGISTER_CLIENT :: int where "OP_UNREGISTER_CLIENT \<equiv> 52"
abbreviation OP_ROUTE_INFO :: int where "OP_ROUTE_INFO \<equiv> 60"
abbreviation OP_ACK :: int where "OP_ACK \<equiv> 61"
abbreviation OP_STOP :: int where "OP_STOP \<equiv> 62"
abbreviation OP_LOCK_SENTENCE :: int where "OP_LOCK_SENTENCE \<equiv> 63"
abbreviation OP_UNLOCK_SENTENCE :: int where "OP_UNLOCK_SENTENCE \<equiv> 64"
abbreviation OP_GET_METADATA :: int where "OP_GET_METADATA \<equiv> 65"
abbreviation OP_WRITE_START :: int where "OP_WRITE_START \<equiv> 70"
abbreviation OP_WRITE_UPDATE :: int where "OP_WRITE_UPDATE \<equiv> 71"
abbreviation OP_WRITE_COMMIT :: int where "OP_WRITE_COMMIT \<equiv> 72"
abbreviation OP_CREATEFOLDER :: int where "OP_CREATEFOLDER \<equiv> 80"
abbreviation OP_MOVE :: int where "OP_MOVE \<equiv> 81"
abbreviation OP_VIEWFOLDER :: int where "OP_VIEWFOLDER \<equiv> 82"
abbreviation OP_CHECKPOINT :: int where "OP_CHECKPOINT \<equiv> 90"
abbreviation OP_VIEWCHECKPOINT :: int where "OP_VIEWCHECKPOINT \<equiv> 91"
abbreviation OP_REVERT :: int where "OP_REVERT \<equiv> 92"
abbreviation OP_LISTCHECKPOINTS :: int where "OP_LISTCHECKPOINTS \<equiv> 93"
abbreviation OP_REQUESTACCESS :: int where "OP_REQUESTACCESS \<equiv> 100"
abbreviation OP_VIEWREQUESTS :: int where "OP_VIEWREQUESTS \<equiv> 101"
abbreviation OP_APPROVEREQUEST :: int where "OP_APPROVEREQUEST \<equiv> 102"
abbreviation OP_DENYREQUEST :: int where "OP_DENYREQUEST \<equiv> 103"
abbreviation OP_REPLICATE :: int where "OP_REPLICATE \<equiv> 110"
abbreviation OP_HEARTBEAT :: int where "OP_HEARTBEAT \<equiv> 111"
abbreviation OP_SEARCH :: int where "OP_SEARCH \<equiv> 112"

section \<open>Error codes, access and view flags\<close>

abbreviation ERR_SUCCESS :: int where "ERR_SUCCESS \<equiv> 200"
abbreviation ERR_CREATED :: int where "ERR_CREATED \<equiv> 201"
abbreviation ERR_ACCEPTED :: int where "ERR_ACCEPTED \<equiv> 202"
abbreviation ERR_BAD_REQUEST :: int where "ERR_BAD_REQUEST \<equiv> 400"
abbreviation ERR_UNAUTHORIZED :: int where "ERR_UNAUTHORIZED \<equiv> 401"
abbreviation ERR_ACCESS_DENIED :: int where "ERR_ACCESS_DENIED \<equiv> 403"
abbreviation ERR_PERMISSION_DENIED :: int where "ERR_PERMISSION_DENIED \<equiv> 403"
abbreviation ERR_NOT_FOUND :: int where "ERR_NOT_FOUND \<equiv> 404"
abbreviation ERR_CONFLICT :: int where "ERR_CONFLICT \<equiv> 409"
abbreviation ERR_ALREADY_EXISTS :: int where "ERR_ALREADY_EXISTS \<equiv> 409"
abbreviation ERR_LOCKED :: int where "ERR_LOCKED \<equiv> 423"
abbreviation ERR_INDEX_ERROR :: int where "ERR_INDEX_ERROR \<equiv> 450"
abbreviation ERR_SERVER_ERROR :: int where "ERR_SERVER_ERROR \<equiv> 500"
abbreviation ERR_NOT_IMPLEMENTED :: int where "ERR_NOT_IMPLEMENTED \<equiv> 501"
abbreviation ERR_SS_UNAVAILABLE :: int where "ERR_SS_UNAVAILABLE \<equiv> 503"

abbreviation ACCESS_NONE :: int where "ACCESS_NONE \<equiv> 0"
abbreviation ACCESS_READ :: int where "ACCESS_READ \<equiv> 1"
abbreviation ACCESS_WRITE :: int where "ACCESS_WRITE \<equiv> 2"
abbreviation ACCESS_OWNER :: int where "ACCESS_OWNER \<equiv> 3"

abbreviation VIEW_FLAG_NONE :: int where "VIEW_FLAG_NONE \<equiv> 0"
abbreviation VIEW_FLAG_ALL :: int where "VIEW_FLAG_ALL \<equiv> 1"
abbreviation VIEW_FLAG_LONG :: int where "VIEW_FLAG_LONG \<equiv> 2"
abbreviation VIEW_FLAG_ALL_LONG :: int where "VIEW_FLAG_ALL_LONG \<equiv> 3"

abbreviation MAX_FILENAME_LEN :: nat where "MAX_FILENAME_LEN \<equiv> 256"
abbreviation MAX_USERNAME_LEN :: nat where "MAX_USERNAME_LEN \<equiv> 64"
abbreviation MAX_CONTENT_LEN :: nat where "MAX_CONTENT_LEN \<equiv> 4096"
abbreviation MAX_IP_LEN :: nat where "MAX_IP_LEN \<equiv> 16"
abbreviation MAX_PATH_LEN :: nat where "MAX_PATH_LEN \<equiv> 512"
abbreviation MAX_CONCURRENT_CLIENTS :: nat where "MAX_CONCURRENT_CLIENTS \<equiv> 100"
abbreviation MAX_STORAGE_SERVERS :: nat where "MAX_STORAGE_SERVERS \<equiv> 10"

section \<open>The message\<close>

record Message =
  m_operation :: int
  m_error_code :: int
  m_sender_id :: cstring
  m_target_user :: cstring
  m_filename :: cstring
  m_sentence_num :: int
  m_word_index :: int
  m_content :: cstring
  m_access_type :: int
  m_view_flags :: int
  m_folder_name :: cstring
  m_checkpoint_tag :: cstring
  m_replica_index :: int
  m_is_primary :: int
  m_ss_ip :: cstring
  m_ss_port :: int
  m_timestamp :: int
  m_content_length :: nat
  m_sequence_num :: int
  m_ip_address :: cstring
  m_nm_port :: int
  m_client_port :: int

definition INIT_MESSAGE :: "int \<Rightarrow> Message" where
  "INIT_MESSAGE now =
     \<lparr>m_operation = 0, m_error_code = ERR_SUCCESS, m_sender_id = [], m_target_user = [],
      m_filename = [], m_sentence_num = 0, m_word_index = 0, m_content = [],
      m_access_type = 0, m_view_flags = 0, m_folder_name = [], m_checkpoint_tag = [],
      m_replica_index = 0, m_is_primary = 0, m_ss_ip = [], m_ss_port = 0,
      m_timestamp = now, m_content_length = 0, m_sequence_num = 0,
      m_ip_address = [], m_nm_port = 0, m_client_port = 0\<rparr>"

definition msg_wf :: "Message \<Rightarrow> bool" where
  "msg_wf m \<longleftrightarrow>
     length (m_sender_id m) < MAX_USERNAME_LEN \<and> length (m_target_user m) < MAX_USERNAME_LEN \<and>
     length (m_filename m) < MAX_FILENAME_LEN \<and> length (m_content m) < MAX_CONTENT_LEN \<and>
     length (m_folder_name m) < MAX_FILENAME_LEN \<and> length (m_checkpoint_tag m) < MAX_FILENAME_LEN \<and>
     length (m_ss_ip m) < MAX_IP_LEN \<and> length (m_ip_address m) < MAX_IP_LEN"

text \<open>
  Writing the text of a reply: \<open>snprintf (response.content, sizeof (response.content), \<dots>)\<close>
  keeps what fits; the \<open>strcpy\<close> calls copy short literals and are written as field updates.
\<close>

definition put_content :: "cstring \<Rightarrow> Message \<Rightarrow> Message" where
  "put_content s m = m\<lparr>m_content := cbuf MAX_CONTENT_LEN s\<rparr>"

text \<open>The \<^verbatim>\<open>'%s'\<close> of the format strings.\<close>

definition quoted :: "cstring \<Rightarrow> cstring" where
  "quoted s = [CHR 0x27] @ s @ [CHR 0x27]"

lemma put_content_sel [simp]:
  "m_operation (put_content s m) = m_operation m"
  "m_error_code (put_content s m) = m_error_code m"
  "m_content (put_content s m) = cbuf MAX_CONTENT_LEN s"
  "m_ss_ip (put_content s m) = m_ss_ip m"
  "m_ss_port (put_content s m) = m_ss_port m"
  by (simp_all add: put_content_def)

lemma INIT_MESSAGE_sel [simp]:
  "m_operation (INIT_MESSAGE now) = 0"
  "m_error_code (INIT_MESSAGE now) = ERR_SUCCESS"
  "m_content (INIT_MESSAGE now) = []"
  by (simp_all add: INIT_MESSAGE_def)

section \<open>Helpers of the header\<close>

definition IS_SUCCESS :: "int \<Rightarrow> bool" where
  "IS_SUCCESS err \<longleftrightarrow> err \<ge> 200 \<and> err < 300"

definition IS_CLIENT_ERROR :: "int \<Rightarrow> bool" where
  "IS_CLIENT_ERROR err \<longleftrightarrow> err \<ge> 400 \<and> err < 500"

definition IS_SERVER_ERROR :: "int \<Rightarrow> bool" where
  "IS_SERVER_ERROR err \<longleftrightarrow> err \<ge> 500 \<and> err < 600"

definition get_error_message :: "int \<Rightarrow> string" where
  "get_error_message error_code =
     (if error_code = ERR_SUCCESS then ''Success''
      else if error_code = ERR_CREATED then ''Created successfully''
      else if error_code = ERR_ACCEPTED then ''Request accepted''
      else if error_code = ERR_BAD_REQUEST then ''Bad request format''
      else if error_code = ERR_UNAUTHORIZED then ''Not authorized - register first''
      else if error_code = ERR_ACCESS_DENIED then ''Access denied - insufficient permissions''
      else if error_code = ERR_NOT_FOUND then ''File or resource not found''
      else if error_code = ERR_CONFLICT then ''Resource already exists''
      else if error_code = ERR_LOCKED then ''Sentence locked by another user''
      else if error_code = ERR_INDEX_ERROR then ''Invalid sentence or word index''
      else if error_code = ERR_SERVER_ERROR then ''Internal server error''
      else if error_code = ERR_NOT_IMPLEMENTED then ''Feature not implemented''
      else if error_code = ERR_SS_UNAVAILABLE then ''Storage server unavailable''
      else ''Unknown error'')"

definition get_operation_name :: "int \<Rightarrow> string" where
  "get_operation_name operation =
     (case map_of
        [(OP_CREATE, ''CREATE''), (OP_READ, ''READ''), (OP_WRITE, ''WRITE''),
         (OP_DELETE, ''DELETE''), (OP_STREAM, ''STREAM''), (OP_UNDO, ''UNDO''),
         (OP_VIEW, ''VIEW''), (OP_INFO, ''INFO''), (OP_LIST, ''LIST''),
         (OP_ADDACCESS, ''ADDACCESS''), (OP_REMACCESS, ''REMACCESS''), (OP_EXEC, ''EXEC''),
         (OP_REGISTER_SS, ''REGISTER_SS''), (OP_REGISTER_CLIENT, ''REGISTER_CLIENT''),
         (OP_ROUTE_INFO, ''ROUTE_INFO''), (OP_ACK, ''ACK''), (OP_STOP, ''STOP''),
         (OP_LOCK_SENTENCE, ''LOCK_SENTENCE''), (OP_UNLOCK_SENTENCE, ''UNLOCK_SENTENCE''),
         (OP_GET_METADATA, ''GET_METADATA''), (OP_WRITE_START, ''WRITE_START''),
         (OP_WRITE_UPDATE, ''WRITE_UPDATE''), (OP_WRITE_COMMIT, ''WRITE_COMMIT''),
         (OP_CREATEFOLDER, ''CREATEFOLDER''), (OP_MOVE, ''MOVE''), (OP_VIEWFOLDER, ''VIEWFOLDER''),
         (OP_CHECKPOINT, ''CHECKPOINT''), (OP_VIEWCHECKPOINT, ''VIEWCHECKPOINT''),
         (OP_REVERT, ''REVERT''), (OP_LISTCHECKPOINTS, ''LISTCHECKPOINTS''),
         (OP_REQUESTACCESS, ''REQUESTACCESS''), (OP_VIEWREQUESTS, ''VIEWREQUESTS''),
         (OP_APPROVEREQUEST, ''APPROVEREQUEST''), (OP_DENYREQUEST, ''DENYREQUEST''),
         (OP_REPLICATE, ''REPLICATE''), (OP_HEARTBEAT, ''HEARTBEAT''), (OP_SEARCH, ''SEARCH'')]
        operation of
        Some name \<Rightarrow> name
      | None \<Rightarrow> ''UNKNOWN'')"

end
