(* ===== verification/File_System.thy ===== *)
theory File_System
  imports Protocol
begin

text \<open>
  The POSIX calls through which the storage server reaches its disk (\<open>stat\<close>, \<open>fopen\<close>,
  \<open>fread\<close>, \<open>fwrite\<close>, \<open>unlink\<close>, \<open>mkdir\<close>, \<open>rename\<close>, \<open>opendir\<close>) on a tree of directories
  and regular files, and the contract \<open>byte_store\<close> that the components working on whole
  files use. A file is a byte list. Paths are resolved name by name, \<open>..\<close> lexically; there are
  no symbolic links, permissions are never missing and the disk is never full.
\<close>

section \<open>The tree\<close>

datatype FNode = FDir | FReg "char list"

record FS =
  fs_cwd :: "cstring list"
  fs_nodes :: "cstring list \<rightharpoonup> FNode"

abbreviation SLASH :: char where "SLASH \<equiv> CHR ''/''"
abbreviation NAME_MAX :: nat where "NAME_MAX \<equiv> 255"

fun path_step :: "cstring list \<Rightarrow> cstring \<Rightarrow> cstring list" where
  "path_step acc c = (if c = ''.'' then acc else if c = ''..'' then butlast acc else acc @ [c])"

definition resolve :: "FS \<Rightarrow> cstring \<Rightarrow> cstring list" where
  "resolve fs s = foldl path_step (if s \<noteq> [] \<and> hd s = SLASH then [] else fs_cwd fs)
     (runs (\<lambda>c. c \<noteq> SLASH) s)"

text \<open>\<open>stat\<close>: the empty path names nothing, a trailing slash names a directory only.\<close>

definition fs_lookup :: "FS \<Rightarrow> cstring \<Rightarrow> FNode option" where
  "fs_lookup fs s =
     (if s = [] then None
      else case fs_nodes fs (resolve fs s) of
             None \<Rightarrow> None
           | Some FDir \<Rightarrow> Some FDir
           | Some (FReg bs) \<Rightarrow> if last s = SLASH then None else Some (FReg bs))"

definition stat_ok :: "FS \<Rightarrow> cstring \<Rightarrow> bool" where
  "stat_ok fs s \<longleftrightarrow> fs_lookup fs s \<noteq> None"

definition is_dir :: "FS \<Rightarrow> cstring \<Rightarrow> bool" where
  "is_dir fs s \<longleftrightarrow> fs_lookup fs s = Some FDir"

definition is_reg :: "FS \<Rightarrow> cstring \<Rightarrow> bool" where
  "is_reg fs s \<longleftrightarrow> (\<exists>bs. fs_lookup fs s = Some (FReg bs))"

lemma is_reg_code [code]:
  "is_reg fs s = (case fs_lookup fs s of Some (FReg bs) \<Rightarrow> True | _ \<Rightarrow> False)"
  by (auto simp: is_reg_def split: option.split FNode.split)

text \<open>A new name can be made in an existing directory if it is not too long.\<close>

definition can_make :: "FS \<Rightarrow> cstring \<Rightarrow> bool" where
  "can_make fs s \<longleftrightarrow>
     (let p = resolve fs s
      in s \<noteq> [] \<and> last s \<noteq> SLASH \<and> p \<noteq> [] \<and> length (last p) \<le> NAME_MAX \<and>
         fs_nodes fs (butlast p) = Some FDir)"

definition set_node :: "FS \<Rightarrow> cstring \<Rightarrow> FNode option \<Rightarrow> FS" where
  "set_node fs s n = fs\<lparr>fs_nodes := (fs_nodes fs)(resolve fs s := n)\<rparr>"

text \<open>\<open>fopen (s, "w")\<close> truncates a regular file or makes an empty one.\<close>

definition fopen_w :: "FS \<Rightarrow> cstring \<Rightarrow> FS option" where
  "fopen_w fs s =
     (case fs_lookup fs s of
        Some FDir \<Rightarrow> None
      | Some (FReg bs) \<Rightarrow> Some (set_node fs s (Some (FReg [])))
      | None \<Rightarrow> if can_make fs s then Some (set_node fs s (Some (FReg []))) else None)"

text \<open>\<open>fwrite\<close> on the stream of the file \<open>s\<close> opened for writing appends what is written.\<close>

definition fwrite :: "FS \<Rightarrow> cstring \<Rightarrow> char list \<Rightarrow> FS" where
  "fwrite fs s bytes =
     (case fs_nodes fs (resolve fs s) of
        Some (FReg bs) \<Rightarrow> set_node fs s (Some (FReg (bs @ bytes)))
      | _ \<Rightarrow> fs)"

text \<open>\<open>fopen (s, "r")\<close> gives the bytes a stream will deliver; a directory opens and reads as empty.\<close>

definition fopen_r :: "FS \<Rightarrow> cstring \<Rightarrow> char list option" where
  "fopen_r fs s =
     (case fs_lookup fs s of
        None \<Rightarrow> None
      | Some FDir \<Rightarrow> Some []
      | Some (FReg bs) \<Rightarrow> Some bs)"

definition unlink :: "FS \<Rightarrow> cstring \<Rightarrow> FS option" where
  "unlink fs s =
     (case fs_lookup fs s of
        Some (FReg bs) \<Rightarrow> Some (set_node fs s None)
      | _ \<Rightarrow> None)"

definition mkdir :: "FS \<Rightarrow> cstring \<Rightarrow> FS option" where
  "mkdir fs s =
     (if fs_nodes fs (resolve fs s) = None \<and> can_make fs s
      then Some (set_node fs s (Some FDir)) else None)"

text \<open>\<open>rename\<close> of a regular file; the program renames nothing else.\<close>

definition rename_file :: "FS \<Rightarrow> cstring \<Rightarrow> cstring \<Rightarrow> FS option" where
  "rename_file fs src dst =
     (case fs_lookup fs src of
        Some (FReg bs) \<Rightarrow>
          if resolve fs src = resolve fs dst then Some fs
          else if fs_lookup fs dst = Some FDir \<or> (fs_lookup fs dst = None \<and> \<not> can_make fs dst) then None
          else Some (set_node (set_node fs src None) dst (Some (FReg bs)))
      | _ \<Rightarrow> None)"

text \<open>
  The names \<open>readdir\<close> delivers for a directory: dot, dot-dot and the names in it, each once,
  in an order the file system chooses.
\<close>

definition readdir_of :: "FS \<Rightarrow> cstring \<Rightarrow> cstring list \<Rightarrow> bool" where
  "readdir_of fs s names \<longleftrightarrow> distinct names \<and>
     set names = {''.'', ''..''} \<union> {n. fs_nodes fs (resolve fs s @ [n]) \<noteq> None}"

section \<open>Names inside a directory\<close>

definition plain_name :: "cstring \<Rightarrow> bool" where
  "plain_name n \<longleftrightarrow> n \<noteq> [] \<and> n \<noteq> ''.'' \<and> n \<noteq> ''..'' \<and> SLASH \<notin> set n"

lemma plain_runs: "plain_name n \<Longrightarrow> runs (\<lambda>c. c \<noteq> SLASH) n = [n]"
  by (rule runs_all) (auto simp: plain_name_def)

lemma resolve_child:
  assumes "d \<noteq> []" and "plain_name n"
  shows "resolve fs (d @ SLASH # n) = resolve fs d @ [n]"
proof -
  have "runs (\<lambda>c. c \<noteq> SLASH) (d @ SLASH # n) = runs (\<lambda>c. c \<noteq> SLASH) d @ [n]"
    by (simp add: runs_append_sep plain_runs [OF assms(2)])
  with assms show ?thesis by (simp add: resolve_def plain_name_def)
qed

lemma last_child: "plain_name n \<Longrightarrow> last (d @ SLASH # n) \<noteq> SLASH"
  unfolding plain_name_def by (metis last_appendR last_ConsR last_in_set list.distinct(1))

lemma lookup_child:
  assumes "d \<noteq> []" and "plain_name n"
  shows "fs_lookup fs (d @ SLASH # n) = fs_nodes fs (resolve fs d @ [n])"
  using assms last_child [of n d] unfolding fs_lookup_def
  by (simp add: resolve_child split: option.split FNode.split)

lemma can_make_child:
  assumes "d \<noteq> []" and "plain_name n"
  shows "can_make fs (d @ SLASH # n) \<longleftrightarrow>
    length n \<le> NAME_MAX \<and> fs_nodes fs (resolve fs d) = Some FDir"
  using assms last_child [of n d] unfolding can_make_def
  by (simp add: resolve_child)

lemma fs_cwd_set_node [simp]: "fs_cwd (set_node fs s n) = fs_cwd fs"
  by (simp add: set_node_def)

lemma fs_nodes_set_node [simp]: "fs_nodes (set_node fs s n) = (fs_nodes fs)(resolve fs s := n)"
  by (simp add: set_node_def)

lemma resolve_set_node [simp]: "resolve (set_node fs s n) t = resolve fs t"
  by (simp add: resolve_def)

lemma set_node_twice [simp]: "set_node (set_node fs s n) s m = set_node fs s m"
  by (simp add: set_node_def resolve_def)

lemma lookup_set_node [simp]: "s \<noteq> [] \<Longrightarrow> last s \<noteq> SLASH \<Longrightarrow> fs_lookup (set_node fs s n) s = n"
  by (simp add: fs_lookup_def split: option.split FNode.split)

text \<open>The usual sequence: open for writing, write once, close.\<close>

definition write_new :: "FS \<Rightarrow> cstring \<Rightarrow> char list \<Rightarrow> FS option" where
  "write_new fs s bytes = map_option (\<lambda>fs'. fwrite fs' s bytes) (fopen_w fs s)"

lemma write_new_child:
  assumes "d \<noteq> []" and "plain_name n"
  shows "write_new fs (d @ SLASH # n) bytes =
    (case fs_nodes fs (resolve fs d @ [n]) of
       Some FDir \<Rightarrow> None
     | Some (FReg bs) \<Rightarrow> Some (set_node fs (d @ SLASH # n) (Some (FReg bytes)))
     | None \<Rightarrow> if length n \<le> NAME_MAX \<and> fs_nodes fs (resolve fs d) = Some FDir
               then Some (set_node fs (d @ SLASH # n) (Some (FReg bytes))) else None)"
  unfolding write_new_def fopen_w_def fwrite_def
  by (simp add: lookup_child [OF assms] can_make_child [OF assms] resolve_child [OF assms]
      split: option.split FNode.split)

section \<open>The contract of a store of named files\<close>

text \<open>
  \<open>content\<close> reads a file by its key, \<open>put\<close> overwrites it, \<open>drop\<close> deletes it. What the clients
  rely on: an existing file can be overwritten, and an operation changes its own file only.
\<close>

locale byte_store =
  fixes content :: "'s \<Rightarrow> 'k \<Rightarrow> 'v option"
    and put :: "'s \<Rightarrow> 'k \<Rightarrow> 'v \<Rightarrow> 's option"
    and drop :: "'s \<Rightarrow> 'k \<Rightarrow> 's option"
    and ok :: "'s \<Rightarrow> bool" and key_ok :: "'k \<Rightarrow> bool"
  assumes put_defined: "ok s \<Longrightarrow> key_ok k \<Longrightarrow> content s k \<noteq> None \<Longrightarrow> put s k v \<noteq> None"
    and put_ok: "ok s \<Longrightarrow> key_ok k \<Longrightarrow> put s k v = Some s' \<Longrightarrow> ok s'"
    and put_content: "ok s \<Longrightarrow> key_ok k \<Longrightarrow> key_ok j \<Longrightarrow> put s k v = Some s' \<Longrightarrow>
      content s' j = (if j = k then Some v else content s j)"
    and drop_defined: "ok s \<Longrightarrow> key_ok k \<Longrightarrow> drop s k \<noteq> None \<longleftrightarrow> content s k \<noteq> None"
    and drop_ok: "ok s \<Longrightarrow> key_ok k \<Longrightarrow> drop s k = Some s' \<Longrightarrow> ok s'"
    and drop_content: "ok s \<Longrightarrow> key_ok k \<Longrightarrow> key_ok j \<Longrightarrow> drop s k = Some s' \<Longrightarrow>
      content s' j = (if j = k then None else content s j)"
begin

lemma put_same: "ok s \<Longrightarrow> key_ok k \<Longrightarrow> put s k v = Some s' \<Longrightarrow> content s' k = Some v"
  by (simp add: put_content)

lemma put_put:
  assumes "ok s" and "key_ok k" and "put s k v = Some s'"
  obtains s'' where "put s' k w = Some s''" and "ok s''" and "content s'' k = Some w"
    and "\<And>j. key_ok j \<Longrightarrow> j \<noteq> k \<Longrightarrow> content s'' j = content s j"
proof -
  have ok': "ok s'" by (rule put_ok [OF assms])
  have "content s' k \<noteq> None" using assms by (simp add: put_same)
  from put_defined [OF ok' assms(2) this, of w] obtain s'' where s'': "put s' k w = Some s''" by auto
  show thesis
  proof (rule that [OF s''])
    show "ok s''" by (rule put_ok [OF ok' assms(2) s''])
    show "content s'' k = Some w" by (rule put_same [OF ok' assms(2) s''])
    show "content s'' j = content s j" if "key_ok j" "j \<noteq> k" for j
      using put_content [OF ok' assms(2) that(1) s''] put_content [OF assms(1,2) that(1) assms(3)] that(2)
      by simp
  qed
qed

text \<open>Writing back what was there restores the store, as a reader sees it.\<close>

lemma put_back:
  assumes "ok s" and "key_ok k" and "content s k = Some u" and "put s k v = Some s'"
  shows "\<exists>s''. put s' k u = Some s'' \<and> ok s'' \<and> (\<forall>j. key_ok j \<longrightarrow> content s'' j = content s j)"
proof -
  from put_put [OF assms(1,2,4), of u] obtain s'' where s'': "put s' k u = Some s''" "ok s''"
    "content s'' k = Some u" and other: "\<And>j. key_ok j \<Longrightarrow> j \<noteq> k \<Longrightarrow> content s'' j = content s j"
    by blast
  have "content s'' j = content s j" if "key_ok j" for j
    using other [OF that] s''(3) assms(3) by (cases "j = k") simp_all
  with s'' show ?thesis by blast
qed

end

end
