(* ===== verification/Acl.thy ===== *)
theory Acl
  imports File_System
begin

text \<open>
  \<^verbatim>\<open>nameserver/acl.c\<close>: who may read and write which file, kept in a chained hash table and
  saved to a text file. The contract \<open>access_control\<close> is what the name server relies on; the
  reload of a saved table is characterised exactly.
\<close>

section \<open>State\<close>

abbreviation ACL_MAX_USERS :: nat where "ACL_MAX_USERS \<equiv> 50"
abbreviation ACL_HASH_SIZE :: nat where "ACL_HASH_SIZE \<equiv> 1009"

record AclEntry =
  ae_filename :: cstring
  ae_owner :: cstring
  ae_read_users :: "cstring list"
  ae_write_users :: "cstring list"
  ae_created_time :: int

record AclTable =
  at_buckets :: "nat \<Rightarrow> AclEntry list"
  at_file_count :: int

section \<open>Operations\<close>

fun acl_hash_loop :: "64 word \<Rightarrow> cstring \<Rightarrow> 64 word" where
  "acl_hash_loop hash [] = hash"
| "acl_hash_loop hash (c # str) =
     acl_hash_loop ((push_bit 5 hash + hash) + word_of_int (schar c)) str"

definition acl_hash :: "cstring \<Rightarrow> nat" where
  "acl_hash str = unat (acl_hash_loop 5381 str) mod ACL_HASH_SIZE"

definition acl_find_entry :: "AclTable \<Rightarrow> cstring \<Rightarrow> AclEntry option" where
  "acl_find_entry acl filename =
     find (\<lambda>e. ae_filename e = filename) (at_buckets acl (acl_hash filename))"

text \<open>Writing through the pointer \<open>acl_find_entry\<close> returns.\<close>

definition acl_upd_entry :: "AclTable \<Rightarrow> cstring \<Rightarrow> (AclEntry \<Rightarrow> AclEntry) \<Rightarrow> AclTable" where
  "acl_upd_entry acl filename f =
     acl\<lparr>at_buckets := (at_buckets acl)(acl_hash filename :=
       update_first (\<lambda>e. ae_filename e = filename) f (at_buckets acl (acl_hash filename)))\<rparr>"

definition is_in_list :: "cstring list \<Rightarrow> cstring \<Rightarrow> bool" where
  "is_in_list users username \<longleftrightarrow> username \<in> set users"

definition add_to_list :: "cstring list \<Rightarrow> nat \<Rightarrow> cstring \<Rightarrow> int \<times> cstring list" where
  "add_to_list users max_count username =
     (if is_in_list users username then (0, users)
      else if length users \<ge> max_count then (- 1, users)
      else (1, users @ [cbuf MAX_USERNAME_LEN username]))"

definition remove_from_list :: "cstring list \<Rightarrow> cstring \<Rightarrow> bool \<times> cstring list" where
  "remove_from_list users username =
     (if username \<in> set users then (True, remove1 username users) else (False, users))"

definition acl_init :: AclTable where
  "acl_init = \<lparr>at_buckets = (\<lambda>i. []), at_file_count = 0\<rparr>"

definition acl_add_file :: "bool \<Rightarrow> int \<Rightarrow> AclTable \<Rightarrow> cstring \<Rightarrow> cstring \<Rightarrow> int \<times> AclTable" where
  "acl_add_file mem now acl filename owner =
     (if acl_find_entry acl filename \<noteq> None then (- 1, acl)
      else if \<not> mem then (- 1, acl)
      else
        let new_node = \<lparr>ae_filename = cbuf MAX_FILENAME_LEN filename, ae_owner = cbuf MAX_USERNAME_LEN owner,
              ae_read_users = [], ae_write_users = [], ae_created_time = now\<rparr>;
            index = acl_hash filename
        in (0, acl\<lparr>at_buckets := (at_buckets acl)(index := new_node # at_buckets acl index),
                   at_file_count := at_file_count acl + 1\<rparr>))"

definition acl_check_read :: "AclTable \<Rightarrow> cstring \<Rightarrow> cstring \<Rightarrow> bool" where
  "acl_check_read acl filename username =
     (case acl_find_entry acl filename of
        None \<Rightarrow> False
      | Some entry \<Rightarrow>
          if ae_owner entry = username then True
          else if is_in_list (ae_read_users entry) username then True
          else if is_in_list (ae_write_users entry) username then True
          else False)"

definition acl_check_write :: "AclTable \<Rightarrow> cstring \<Rightarrow> cstring \<Rightarrow> bool" where
  "acl_check_write acl filename username =
     (case acl_find_entry acl filename of
        None \<Rightarrow> False
      | Some entry \<Rightarrow>
          if ae_owner entry = username then True
          else if is_in_list (ae_write_users entry) username then True
          else False)"

definition acl_check_owner :: "AclTable \<Rightarrow> cstring \<Rightarrow> cstring \<Rightarrow> bool" where
  "acl_check_owner acl filename username =
     (case acl_find_entry acl filename of None \<Rightarrow> False | Some entry \<Rightarrow> ae_owner entry = username)"

definition acl_add_access :: "AclTable \<Rightarrow> cstring \<Rightarrow> cstring \<Rightarrow> int \<Rightarrow> int \<times> AclTable" where
  "acl_add_access acl filename username access_type =
     (case acl_find_entry acl filename of
        None \<Rightarrow> (- 1, acl)
      | Some entry \<Rightarrow>
          if access_type = ACCESS_READ then
            (let (result, users) = add_to_list (ae_read_users entry) ACL_MAX_USERS username
             in (if result \<ge> 0 then 0 else - 1,
                 acl_upd_entry acl filename (\<lambda>e. e\<lparr>ae_read_users := users\<rparr>)))
          else if access_type = ACCESS_WRITE then
            (let (result, users) = add_to_list (ae_write_users entry) ACL_MAX_USERS username
             in (if result \<ge> 0 then 0 else - 1,
                 acl_upd_entry acl filename (\<lambda>e. e\<lparr>ae_write_users := users\<rparr>)))
          else (- 1, acl))"

definition acl_remove_access :: "AclTable \<Rightarrow> cstring \<Rightarrow> cstring \<Rightarrow> int \<times> AclTable" where
  "acl_remove_access acl filename username =
     (case acl_find_entry acl filename of
        None \<Rightarrow> (- 1, acl)
      | Some entry \<Rightarrow>
          (let (removed_read, reads) = remove_from_list (ae_read_users entry) username;
               (removed_write, writes) = remove_from_list (ae_write_users entry) username
           in (if removed_read \<or> removed_write then 0 else - 1,
               acl_upd_entry acl filename (\<lambda>e. e\<lparr>ae_read_users := reads, ae_write_users := writes\<rparr>))))"

definition acl_remove_file :: "AclTable \<Rightarrow> cstring \<Rightarrow> int \<times> AclTable" where
  "acl_remove_file acl filename =
     (let index = acl_hash filename; chain = at_buckets acl index; this = (\<lambda>e. ae_filename e = filename)
      in case find this chain of
           Some e \<Rightarrow>
             (0, acl\<lparr>at_buckets := (at_buckets acl)(index := remove_first this chain),
                     at_file_count := at_file_count acl - 1\<rparr>)
         | None \<Rightarrow> (- 1, acl))"

definition acl_get_owner :: "AclTable \<Rightarrow> cstring \<Rightarrow> nat \<Rightarrow> cstring option" where
  "acl_get_owner acl filename buf_size =
     map_option (\<lambda>entry. cbuf buf_size (ae_owner entry)) (acl_find_entry acl filename)"

text \<open>
  The parts of an access list, and the loop that prints them into a buffer of
  \<open>MAX_CONTENT_LEN\<close> bytes: \<open>sizeof (temp) - offset\<close> wraps once the offset is past the buffer,
  and the next print is outside it (\<open>None\<close>).
\<close>

definition access_parts :: "AclEntry \<Rightarrow> cstring list" where
  "access_parts entry =
     (ae_owner entry @ '' (RW)'') #
     map (\<lambda>u. '', '' @ u @ '' (RW)'') (ae_write_users entry) @
     map (\<lambda>u. '', '' @ u @ '' (R)'')
       (filter (\<lambda>u. \<not> is_in_list (ae_write_users entry) u) (ae_read_users entry))"

fun print_parts :: "cstring \<Rightarrow> cstring list \<Rightarrow> cstring option" where
  "print_parts temp [] = Some (cbuf MAX_CONTENT_LEN temp)"
| "print_parts temp (p # parts) =
     (if length temp > MAX_CONTENT_LEN then None else print_parts (temp @ p) parts)"

text \<open>The outer option is undefined behaviour, the inner one the result \<open>-1\<close>.\<close>

definition acl_get_access_list :: "AclTable \<Rightarrow> cstring \<Rightarrow> nat \<Rightarrow> cstring option option" where
  "acl_get_access_list acl filename buf_size =
     (case acl_find_entry acl filename of
        None \<Rightarrow> Some None
      | Some entry \<Rightarrow> map_option (\<lambda>temp. Some (cbuf buf_size temp)) (print_parts [] (access_parts entry)))"

definition acl_get_all_files :: "AclTable \<Rightarrow> nat \<Rightarrow> cstring list" where
  "acl_get_all_files acl max_files =
     take max_files (map (\<lambda>e. cbuf MAX_FILENAME_LEN (ae_filename e)) (chain_entries ACL_HASH_SIZE (at_buckets acl)))"

definition entry_accessible :: "cstring \<Rightarrow> AclEntry \<Rightarrow> bool" where
  "entry_accessible username entry \<longleftrightarrow>
     ae_owner entry = username \<or> is_in_list (ae_read_users entry) username \<or>
     is_in_list (ae_write_users entry) username"

definition acl_get_accessible_files :: "AclTable \<Rightarrow> cstring \<Rightarrow> nat \<Rightarrow> cstring list" where
  "acl_get_accessible_files acl username max_files =
     take max_files (map (\<lambda>e. cbuf MAX_FILENAME_LEN (ae_filename e))
       (filter (entry_accessible username) (chain_entries ACL_HASH_SIZE (at_buckets acl))))"

definition add_user_once :: "nat \<Rightarrow> cstring \<Rightarrow> cstring list \<Rightarrow> cstring list" where
  "add_user_once max_users u users =
     (if length users < max_users \<and> u \<notin> set users then users @ [cbuf MAX_USERNAME_LEN u] else users)"

definition acl_get_all_users :: "AclTable \<Rightarrow> nat \<Rightarrow> cstring list" where
  "acl_get_all_users acl max_users =
     fold (\<lambda>e users. fold (add_user_once max_users) (ae_owner e # ae_read_users e @ ae_write_users e) users)
       (chain_entries ACL_HASH_SIZE (at_buckets acl)) []"

definition acl_can_access :: "AclTable \<Rightarrow> cstring \<Rightarrow> cstring \<Rightarrow> bool" where
  "acl_can_access acl filename username \<longleftrightarrow>
     acl_check_read acl filename username \<or> acl_check_write acl filename username \<or>
     acl_check_owner acl filename username"

definition acl_is_owner :: "AclTable \<Rightarrow> cstring \<Rightarrow> cstring \<Rightarrow> bool" where
  "acl_is_owner acl filename username = acl_check_owner acl filename username"

definition acl_add_user :: "AclTable \<Rightarrow> cstring \<Rightarrow> cstring \<Rightarrow> int \<times> AclTable" where
  "acl_add_user acl filename username = acl_add_access acl filename username ACCESS_READ"

section \<open>Saving and loading\<close>

abbreviation BAR :: char where "BAR \<equiv> CHR ''|''"
abbreviation COMMA :: char where "COMMA \<equiv> CHR '',''"

fun comma_join :: "cstring list \<Rightarrow> cstring" where
  "comma_join [] = []"
| "comma_join [u] = u"
| "comma_join (u # us) = u @ COMMA # comma_join us"

definition entry_line :: "AclEntry \<Rightarrow> cstring" where
  "entry_line entry = ae_filename entry @ BAR # ae_owner entry @ BAR #
     comma_join (ae_read_users entry) @ BAR # comma_join (ae_write_users entry) @ [NL]"

definition acl_header :: "int \<Rightarrow> cstring" where
  "acl_header file_count =
     ''# ACL Data File - Docs++'' @ NL # ''# Format: filename|owner|read_users|write_users'' @ NL #
     ''# Version: 1.0'' @ NL # ''file_count='' @ show_int file_count @ [NL]"

definition acl_text :: "AclTable \<Rightarrow> cstring" where
  "acl_text acl = acl_header (at_file_count acl) @
     concat (map entry_line (chain_entries ACL_HASH_SIZE (at_buckets acl)))"

definition acl_save :: "AclTable \<Rightarrow> FS \<Rightarrow> cstring \<Rightarrow> int \<times> FS" where
  "acl_save acl fs filepath =
     (case fopen_w fs filepath of
        None \<Rightarrow> (- 1, fs)
      | Some fs' \<Rightarrow> (0, fwrite fs' filepath (acl_text acl)))"

function fgets_lines :: "char list \<Rightarrow> char list list" where
  "fgets_lines s =
     (if s = [] then []
      else fst (fgets MAX_CONTENT_LEN s) # fgets_lines (snd (fgets MAX_CONTENT_LEN s)))"
  by pat_completeness auto
termination
  by (relation "measure length") (auto simp: fgets_def Let_def)

declare fgets_lines.simps [simp del]

text \<open>A conversion \<open>%n[\<dots>]\<close> of \<open>sscanf\<close>: at least one and at most \<open>n\<close> characters of the set.\<close>

definition scan_field :: "nat \<Rightarrow> char \<Rightarrow> cstring \<Rightarrow> (cstring \<times> cstring) option" where
  "scan_field n stop s =
     (let f = take n (takeWhile (\<lambda>c. c \<noteq> stop) s)
      in if f = [] then None else Some (f, drop (length f) s))"

fun scan_bar :: "cstring \<Rightarrow> cstring option" where
  "scan_bar [] = None"
| "scan_bar (c # s) = (if c = BAR then Some s else None)"

text \<open>The fields a line gives: at least file name and owner, else \<open>None\<close>.\<close>

definition parse_entry :: "cstring \<Rightarrow> (cstring \<times> cstring \<times> cstring option \<times> cstring option) option" where
  "parse_entry line =
     (case scan_field 255 BAR line of
        None \<Rightarrow> None
      | Some (filename, s1) \<Rightarrow>
          (case Option.bind (scan_bar s1) (scan_field 63 BAR) of
             None \<Rightarrow> None
           | Some (owner, s2) \<Rightarrow>
               (case Option.bind (scan_bar s2) (scan_field 4095 BAR) of
                  None \<Rightarrow> Some (filename, owner, None, None)
                | Some (reads, s3) \<Rightarrow>
                    (case Option.bind (scan_bar s3) (scan_field 4095 NL) of
                       None \<Rightarrow> Some (filename, owner, Some reads, None)
                     | Some (writes, s4) \<Rightarrow> Some (filename, owner, Some reads, Some writes)))))"

text \<open>\<open>strtok_r (s, ",")\<close> delivers the maximal runs of other characters.\<close>

definition tokens_of :: "cstring \<Rightarrow> cstring list" where
  "tokens_of s = runs (\<lambda>c. c \<noteq> COMMA) s"

fun grant_all :: "AclTable \<Rightarrow> cstring \<Rightarrow> int \<Rightarrow> cstring list \<Rightarrow> AclTable" where
  "grant_all acl filename access_type [] = acl"
| "grant_all acl filename access_type (u # us) =
     grant_all (snd (acl_add_access acl filename u access_type)) filename access_type us"

text \<open>\<open>mem\<close> is whether the \<open>malloc\<close> of \<open>acl_add_file\<close> succeeds; a line for which it fails is skipped.\<close>

definition load_line :: "bool \<Rightarrow> int \<Rightarrow> AclTable \<Rightarrow> cstring \<Rightarrow> AclTable" where
  "load_line mem now acl line =
     (if line \<noteq> [] \<and> (hd line = CHR ''#'' \<or> hd line = NL) then acl
      else if take 11 line = ''file_count='' then acl
      else case parse_entry line of
             None \<Rightarrow> acl
           | Some (filename, owner, reads, writes) \<Rightarrow>
               (case acl_add_file mem now acl filename owner of
                  (code, acl1) \<Rightarrow>
                    if code \<noteq> 0 then acl1
                    else
                      let acl2 = (case reads of Some r \<Rightarrow> grant_all acl1 filename ACCESS_READ (tokens_of r) | None \<Rightarrow> acl1)
                      in (case writes of Some w \<Rightarrow> grant_all acl2 filename ACCESS_WRITE (tokens_of w) | None \<Rightarrow> acl2)))"

text \<open>The lines of the file in order, and for each the outcome of its allocation.\<close>

fun load_loop :: "(nat \<Rightarrow> bool) \<Rightarrow> int \<Rightarrow> nat \<Rightarrow> AclTable \<Rightarrow> cstring list \<Rightarrow> AclTable" where
  "load_loop mem now i acl [] = acl"
| "load_loop mem now i acl (line # lines) =
     load_loop mem now (Suc i) (load_line (mem i) now acl (cstr_of line)) lines"

definition acl_load :: "(nat \<Rightarrow> bool) \<Rightarrow> int \<Rightarrow> AclTable \<Rightarrow> FS \<Rightarrow> cstring \<Rightarrow> int \<times> AclTable" where
  "acl_load mem now acl fs filepath =
     (case fopen_r fs filepath of
        None \<Rightarrow> (- 1, acl)
      | Some bytes \<Rightarrow> (0, load_loop mem now 0 acl (fgets_lines bytes)))"

section \<open>The access control contract\<close>

text \<open>
  Rights give each known file its owner, its readers and its writers. The operations are those
  the server's requests cause; \<open>concerns\<close> says which of them may touch one user's access to
  one file.
\<close>

type_synonym ('f, 'u) rights = "'f \<rightharpoonup> 'u \<times> 'u list \<times> 'u list"

datatype ('f, 'u) acl_op = AddFile 'f 'u | Grant 'f 'u int | Revoke 'f 'u | RemoveFile 'f

definition limited_add :: "'u \<Rightarrow> 'u list \<Rightarrow> 'u list" where
  "limited_add u us = (if u \<in> set us \<or> length us \<ge> ACL_MAX_USERS then us else us @ [u])"

fun spec_step :: "('f, 'u) rights \<Rightarrow> ('f, 'u) acl_op \<Rightarrow> ('f, 'u) rights" where
  "spec_step R (AddFile f u) = (if R f = None then R(f \<mapsto> (u, [], [])) else R)"
| "spec_step R (Grant f u a) = R(f := map_option (\<lambda>(own, rs, ws).
     if a = ACCESS_READ then (own, limited_add u rs, ws)
     else if a = ACCESS_WRITE then (own, rs, limited_add u ws) else (own, rs, ws)) (R f))"
| "spec_step R (Revoke f u) = R(f := map_option (\<lambda>(own, rs, ws). (own, remove1 u rs, remove1 u ws)) (R f))"
| "spec_step R (RemoveFile f) = R(f := None)"

definition rights_sets :: "('f, 'u) rights \<Rightarrow> bool" where
  "rights_sets R \<longleftrightarrow> (\<forall>f own rs ws. R f = Some (own, rs, ws) \<longrightarrow> distinct rs \<and> distinct ws)"

definition can_write :: "('u \<times> 'u list \<times> 'u list) option \<Rightarrow> 'u \<Rightarrow> bool" where
  "can_write r u = (case r of None \<Rightarrow> False | Some (own, rs, ws) \<Rightarrow> own = u \<or> u \<in> set ws)"

definition can_read :: "('u \<times> 'u list \<times> 'u list) option \<Rightarrow> 'u \<Rightarrow> bool" where
  "can_read r u = (case r of None \<Rightarrow> False | Some (own, rs, ws) \<Rightarrow> own = u \<or> u \<in> set rs \<or> u \<in> set ws)"

fun concerns :: "'f \<Rightarrow> 'u \<Rightarrow> ('f, 'u) acl_op \<Rightarrow> bool" where
  "concerns f u (AddFile g v) \<longleftrightarrow> g = f"
| "concerns f u (Grant g v a) \<longleftrightarrow> g = f \<and> v = u"
| "concerns f u (Revoke g v) \<longleftrightarrow> g = f \<and> v = u"
| "concerns f u (RemoveFile g) \<longleftrightarrow> g = f"

lemma rights_sets_upd:
  assumes "rights_sets R" and "\<And>own rs ws. r = Some (own, rs, ws) \<Longrightarrow> distinct rs \<and> distinct ws"
  shows "rights_sets (R(f := r))"
  using assms by (auto simp: rights_sets_def)

lemma distinct_limited_add: "distinct us \<Longrightarrow> distinct (limited_add u us)"
  by (simp add: limited_add_def)

lemma spec_sets:
  assumes "rights_sets R"
  shows "rights_sets (spec_step R op)"
proof -
  have d: "distinct rs \<and> distinct ws" if "R f = Some (own, rs, ws)" for f own rs ws
    using assms that unfolding rights_sets_def by blast
  show ?thesis
  proof (cases op)
    case (AddFile f u)
    then show ?thesis using assms by (auto intro!: rights_sets_upd)
  next
    case (Grant f u a)
    show ?thesis unfolding Grant spec_step.simps
      by (rule rights_sets_upd [OF assms]) (auto dest!: d intro: distinct_limited_add split: if_splits)
  next
    case (Revoke f u)
    show ?thesis unfolding Revoke spec_step.simps by (rule rights_sets_upd [OF assms]) (auto dest!: d)
  next
    case (RemoveFile f)
    then show ?thesis using assms by (auto intro!: rights_sets_upd)
  qed
qed

locale access_control =
  fixes rights :: "'s \<Rightarrow> ('f, 'u) rights"
    and step :: "'s \<Rightarrow> ('f, 'u) acl_op \<Rightarrow> 's"
    and inv :: "'s \<Rightarrow> bool" and op_ok :: "('f, 'u) acl_op \<Rightarrow> bool"
  assumes step_inv: "inv s \<Longrightarrow> op_ok op \<Longrightarrow> inv (step s op)"
    and step_rights: "inv s \<Longrightarrow> op_ok op \<Longrightarrow> rights (step s op) = spec_step (rights s) op"
    and rights_bounded: "inv s \<Longrightarrow> rights s f = Some (own, rs, ws) \<Longrightarrow>
      length rs \<le> ACL_MAX_USERS \<and> length ws \<le> ACL_MAX_USERS"
begin

lemma steps_inv: "inv s \<Longrightarrow> list_all op_ok ops \<Longrightarrow> inv (fold (\<lambda>op s. step s op) ops s)"
  by (induction ops arbitrary: s) (auto simp: step_inv)

lemma steps_rights:
  "inv s \<Longrightarrow> list_all op_ok ops \<Longrightarrow>
   rights (fold (\<lambda>op s. step s op) ops s) = fold (\<lambda>op R. spec_step R op) ops (rights s)"
  by (induction ops arbitrary: s) (auto simp: step_inv step_rights)

lemma step_sets: "inv s \<Longrightarrow> op_ok op \<Longrightarrow> rights_sets (rights s) \<Longrightarrow> rights_sets (rights (step s op))"
  using spec_sets [of "rights s" op] by (simp add: step_rights)

lemma steps_sets:
  "inv s \<Longrightarrow> list_all op_ok ops \<Longrightarrow> rights_sets (rights s) \<Longrightarrow> rights_sets (rights (fold (\<lambda>op s. step s op) ops s))"
  by (induction ops arbitrary: s) (auto simp: step_inv step_sets)

lemma unconcerned_step:
  assumes "\<not> concerns f u op"
  shows "can_read (spec_step R op f) u = can_read (R f) u" "can_write (spec_step R op f) u = can_write (R f) u"
  using assms by (cases op; cases "R f";
    auto simp: can_read_def can_write_def limited_add_def split: option.split if_splits)+

lemma unconcerned:
  assumes "inv s" and "list_all op_ok ops" and "list_all (\<lambda>op. \<not> concerns f u op) ops"
  shows "can_read (rights (fold (\<lambda>op s. step s op) ops s) f) u = can_read (rights s f) u \<and>
    can_write (rights (fold (\<lambda>op s. step s op) ops s) f) u = can_write (rights s f) u"
proof -
  have "can_read (fold (\<lambda>op R. spec_step R op) ops R f) u = can_read (R f) u \<and>
      can_write (fold (\<lambda>op R. spec_step R op) ops R f) u = can_write (R f) u" for R
    using assms(3) by (induction ops arbitrary: R) (auto simp: unconcerned_step)
  then show ?thesis unfolding steps_rights [OF assms(1,2)] by blast
qed

lemma revoked:
  assumes "inv s" and "op_ok (Revoke f u)" and "rights s f = Some (own, rs, ws)" and "own \<noteq> u"
    and "rights_sets (rights s)"
  shows "\<not> can_read (rights (step s (Revoke f u)) f) u \<and> \<not> can_write (rights (step s (Revoke f u)) f) u"
  using assms by (auto simp: step_rights can_read_def can_write_def rights_sets_def)

end

section \<open>The table implements the contract\<close>

interpretation acl_chain: chained_hash acl_hash ae_filename ACL_HASH_SIZE
  by unfold_locales (simp add: acl_hash_def)

definition entry_ok :: "AclEntry \<Rightarrow> bool" where
  "entry_ok e \<longleftrightarrow> length (ae_filename e) < MAX_FILENAME_LEN \<and> length (ae_owner e) < MAX_USERNAME_LEN \<and>
     (\<forall>u\<in>set (ae_read_users e) \<union> set (ae_write_users e). length u < MAX_USERNAME_LEN) \<and>
     length (ae_read_users e) \<le> ACL_MAX_USERS \<and> length (ae_write_users e) \<le> ACL_MAX_USERS"

definition acl_inv :: "AclTable \<Rightarrow> bool" where
  "acl_inv t \<longleftrightarrow> chain_inv acl_hash ae_filename (at_buckets t) \<and>
     at_file_count t = int (length (chain_entries ACL_HASH_SIZE (at_buckets t))) \<and>
     (\<forall>f e. acl_find_entry t f = Some e \<longrightarrow> entry_ok e)"

definition acl_rights :: "AclTable \<Rightarrow> (cstring, cstring) rights" where
  "acl_rights t f = map_option (\<lambda>e. (ae_owner e, ae_read_users e, ae_write_users e)) (acl_find_entry t f)"

text \<open>
  No user twice on a list. A table that is built by requests has this; one that is read from a
  file not written by \<open>acl_save\<close>, or with a \<open>|\<close> in a name, need not.
\<close>

abbreviation acl_sets :: "AclTable \<Rightarrow> bool" where
  "acl_sets t \<equiv> rights_sets (acl_rights t)"

fun acl_step :: "AclTable \<Rightarrow> (cstring, cstring) acl_op \<Rightarrow> AclTable" where
  "acl_step t (AddFile f u) = snd (acl_add_file True 0 t f u)"
| "acl_step t (Grant f u a) = snd (acl_add_access t f u a)"
| "acl_step t (Revoke f u) = snd (acl_remove_access t f u)"
| "acl_step t (RemoveFile f) = snd (acl_remove_file t f)"

text \<open>Names that fit the entries, as those of a message do.\<close>

fun acl_op_ok :: "(cstring, cstring) acl_op \<Rightarrow> bool" where
  "acl_op_ok (AddFile f u) \<longleftrightarrow> length f < MAX_FILENAME_LEN \<and> length u < MAX_USERNAME_LEN"
| "acl_op_ok (Grant f u a) \<longleftrightarrow> length u < MAX_USERNAME_LEN"
| "acl_op_ok (Revoke f u) \<longleftrightarrow> True"
| "acl_op_ok (RemoveFile f) \<longleftrightarrow> True"

lemma acl_find_chain: "acl_find_entry t = chain_lookup acl_hash ae_filename (at_buckets t)"
  by (simp add: acl_find_entry_def chain_lookup_def fun_eq_iff)

lemma acl_inv_init: "acl_inv acl_init"
proof -
  have "concat (map (\<lambda>i. []) xs) = []" for xs :: "nat list" by (induction xs) auto
  then show ?thesis
    unfolding acl_inv_def acl_init_def acl_find_chain chain_entries_def
    by (simp only: acl_chain.inv_empty acl_chain.lookup_empty AclTable.select_convs) simp
qed

lemma acl_rights_init: "acl_rights acl_init = Map.empty"
  by (simp add: acl_rights_def acl_init_def acl_find_chain acl_chain.lookup_empty fun_eq_iff)

lemma acl_count_update:
  "length (chain_entries ACL_HASH_SIZE (b(acl_hash k := update_first P f (b (acl_hash k))))) =
   length (chain_entries ACL_HASH_SIZE b)"
  using acl_chain.length_entries_upd [of b k "update_first P f (b (acl_hash k))"]
  by (simp only: length_update_first)

lemma acl_count_insert:
  "length (chain_entries ACL_HASH_SIZE (b(acl_hash k := e # b (acl_hash k)))) =
   Suc (length (chain_entries ACL_HASH_SIZE b))"
  using acl_chain.length_entries_upd [of b k "e # b (acl_hash k)"] by (simp only: list.size)

lemma acl_find_upd:
  assumes "\<And>e. ae_filename (f e) = ae_filename e"
  shows "acl_find_entry (acl_upd_entry t g f) = (acl_find_entry t)(g := map_option f (acl_find_entry t g))"
  by (simp add: acl_find_chain acl_upd_entry_def acl_chain.lookup_update [OF assms])

lemma acl_upd_inv:
  assumes inv: "acl_inv t" and key: "\<And>e. ae_filename (f e) = ae_filename e"
    and ok: "\<And>e. acl_find_entry t g = Some e \<Longrightarrow> entry_ok (f e)"
  shows "acl_inv (acl_upd_entry t g f)"
  unfolding acl_inv_def acl_find_upd [OF key]
proof (intro conjI)
  show "chain_inv acl_hash ae_filename (at_buckets (acl_upd_entry t g f))"
    unfolding acl_upd_entry_def using inv acl_chain.inv_update [of _ f, OF _ key] by (simp add: acl_inv_def)
  show "at_file_count (acl_upd_entry t g f) =
      int (length (chain_entries ACL_HASH_SIZE (at_buckets (acl_upd_entry t g f))))"
    unfolding acl_upd_entry_def using inv by (simp add: acl_count_update acl_inv_def)
  show "\<forall>h e. ((acl_find_entry t)(g := map_option f (acl_find_entry t g))) h = Some e \<longrightarrow> entry_ok e"
    using inv ok by (auto simp: acl_inv_def)
qed

lemma acl_add_file_inv:
  assumes inv: "acl_inv t" and len: "length f < MAX_FILENAME_LEN"
  shows "acl_inv (snd (acl_add_file mem now t f u))"
proof (cases "acl_find_entry t f = None \<and> mem")
  case True
  let ?e = "\<lparr>ae_filename = f, ae_owner = cbuf MAX_USERNAME_LEN u, ae_read_users = [], ae_write_users = [],
    ae_created_time = now\<rparr>"
  let ?t = "t\<lparr>at_buckets := (at_buckets t)(acl_hash f := ?e # at_buckets t (acl_hash f)),
    at_file_count := at_file_count t + 1\<rparr>"
  have eq: "snd (acl_add_file mem now t f u) = ?t"
    using True len by (simp add: acl_add_file_def Let_def cbuf_id)
  have look: "acl_find_entry ?t = (acl_find_entry t)(f \<mapsto> ?e)"
    by (simp add: acl_find_chain acl_chain.lookup_insert)
  show ?thesis unfolding eq acl_inv_def look
  proof (intro conjI)
    show "chain_inv acl_hash ae_filename (at_buckets ?t)"
      using inv True acl_chain.inv_insert [of "at_buckets t" ?e f] by (simp add: acl_inv_def acl_find_chain)
    show "at_file_count ?t = int (length (chain_entries ACL_HASH_SIZE (at_buckets ?t)))"
      using inv by (simp add: acl_count_insert acl_inv_def)
    show "\<forall>g e. ((acl_find_entry t)(f \<mapsto> ?e)) g = Some e \<longrightarrow> entry_ok e"
      using inv len length_cbuf_less [of MAX_USERNAME_LEN u] by (auto simp: acl_inv_def entry_ok_def)
  qed
qed (use inv in \<open>auto simp: acl_add_file_def\<close>)

lemma acl_remove_file_inv:
  assumes inv: "acl_inv t"
  shows "acl_inv (snd (acl_remove_file t f)) \<and>
    acl_find_entry (snd (acl_remove_file t f)) = (acl_find_entry t)(f := None)"
proof (cases "acl_find_entry t f")
  case None
  then have "snd (acl_remove_file t f) = t"
    by (simp add: acl_remove_file_def Let_def acl_find_entry_def)
  with inv None show ?thesis by (simp add: fun_upd_idem)
next
  case (Some e)
  let ?c = "remove_first (\<lambda>e. ae_filename e = f) (at_buckets t (acl_hash f))"
  let ?t = "t\<lparr>at_buckets := (at_buckets t)(acl_hash f := ?c), at_file_count := at_file_count t - 1\<rparr>"
  have eq: "snd (acl_remove_file t f) = ?t"
    using Some by (simp add: acl_remove_file_def Let_def acl_find_entry_def)
  have chain: "chain_inv acl_hash ae_filename (at_buckets t)" using inv by (simp add: acl_inv_def)
  have look: "acl_find_entry ?t = (acl_find_entry t)(f := None)"
    using acl_chain.lookup_remove [OF chain] by (simp add: acl_find_chain)
  have "\<exists>x\<in>set (at_buckets t (acl_hash f)). ae_filename x = f"
    using Some find_Some_in [of "\<lambda>e. ae_filename e = f"] by (auto simp: acl_find_entry_def)
  then have len: "Suc (length ?c) = length (at_buckets t (acl_hash f))"
    by (auto simp: length_remove_first dest: length_pos_if_in_set)
  have "acl_inv ?t" unfolding acl_inv_def look
  proof (intro conjI)
    show "chain_inv acl_hash ae_filename (at_buckets ?t)"
      using acl_chain.inv_remove [OF chain] by simp
    have "length (chain_entries ACL_HASH_SIZE ((at_buckets t)(acl_hash f := ?c))) + Suc (length ?c) =
        length (chain_entries ACL_HASH_SIZE (at_buckets t)) + length ?c"
      unfolding len by (rule acl_chain.length_entries_upd)
    then have "length (chain_entries ACL_HASH_SIZE (at_buckets t)) =
        Suc (length (chain_entries ACL_HASH_SIZE ((at_buckets t)(acl_hash f := ?c))))" by linarith
    then show "at_file_count ?t = int (length (chain_entries ACL_HASH_SIZE (at_buckets ?t)))"
      using inv by (simp add: acl_inv_def)
    show "\<forall>g e. ((acl_find_entry t)(f := None)) g = Some e \<longrightarrow> entry_ok e"
      using inv by (auto simp: acl_inv_def)
  qed
  with look show ?thesis unfolding eq by blast
qed

lemma add_to_list_ok:
  "length u < MAX_USERNAME_LEN \<Longrightarrow> snd (add_to_list us ACL_MAX_USERS u) = limited_add u us"
  by (simp add: add_to_list_def is_in_list_def limited_add_def cbuf_id)

lemma limited_add_ok: "length us \<le> ACL_MAX_USERS \<Longrightarrow> length (limited_add u us) \<le> ACL_MAX_USERS"
  by (simp add: limited_add_def)

lemma set_limited_add: "v \<in> set (limited_add u us) \<Longrightarrow> v = u \<or> v \<in> set us"
  by (auto simp: limited_add_def split: if_splits)

lemma remove_from_list_eq: "snd (remove_from_list us u) = remove1 u us"
  by (simp add: remove_from_list_def remove1_idem)

lemma acl_add_access_eq:
  assumes "length u < MAX_USERNAME_LEN"
  shows "snd (acl_add_access t f u a) =
    (case acl_find_entry t f of None \<Rightarrow> t
     | Some e \<Rightarrow>
         if a = ACCESS_READ then acl_upd_entry t f (\<lambda>x. x\<lparr>ae_read_users := limited_add u (ae_read_users e)\<rparr>)
         else if a = ACCESS_WRITE then acl_upd_entry t f (\<lambda>x. x\<lparr>ae_write_users := limited_add u (ae_write_users e)\<rparr>)
         else t)"
  using add_to_list_ok [OF assms] by (simp add: acl_add_access_def case_prod_beta split: option.split)

lemma acl_remove_access_eq:
  "snd (acl_remove_access t f u) =
    (case acl_find_entry t f of None \<Rightarrow> t
     | Some e \<Rightarrow> acl_upd_entry t f (\<lambda>x. x\<lparr>ae_read_users := remove1 u (ae_read_users e),
         ae_write_users := remove1 u (ae_write_users e)\<rparr>))"
  by (simp add: acl_remove_access_def case_prod_beta remove_from_list_eq split: option.split)

lemma acl_entry_ok: "acl_inv t \<Longrightarrow> acl_find_entry t f = Some e \<Longrightarrow> entry_ok e"
  by (simp add: acl_inv_def)

lemma acl_add_access_inv:
  assumes "acl_inv t" and "length u < MAX_USERNAME_LEN"
  shows "acl_inv (snd (acl_add_access t f u a))"
proof (cases "acl_find_entry t f")
  case (Some e)
  note ok = acl_entry_ok [OF assms(1) Some, unfolded entry_ok_def]
  show ?thesis
    using assms(1) ok Some limited_add_ok [of "ae_read_users e" u] limited_add_ok [of "ae_write_users e" u]
      assms(2)
    by (auto simp: acl_add_access_eq [OF assms(2)] entry_ok_def intro!: acl_upd_inv dest!: set_limited_add)
qed (use assms in \<open>simp add: acl_add_access_eq\<close>)

lemma length_remove1_le: "length (remove1 x xs) \<le> length xs"
  by (simp add: length_remove1)

lemma acl_remove_access_inv:
  assumes "acl_inv t"
  shows "acl_inv (snd (acl_remove_access t f u))"
proof (cases "acl_find_entry t f")
  case (Some e)
  note ok = acl_entry_ok [OF assms Some, unfolded entry_ok_def]
  show ?thesis using assms ok Some
    by (auto simp: acl_remove_access_eq entry_ok_def intro!: acl_upd_inv
        intro: order_trans [OF length_remove1_le] dest!: subsetD [OF set_remove1_subset])
qed (use assms in \<open>simp add: acl_remove_access_eq\<close>)

lemma acl_step_rights:
  assumes inv: "acl_inv t" and ok: "acl_op_ok op"
  shows "acl_rights (acl_step t op) = spec_step (acl_rights t) op"
proof (cases op)
  case (AddFile f u)
  with ok show ?thesis
    by (auto simp: acl_rights_def acl_add_file_def acl_find_chain Let_def cbuf_id acl_chain.lookup_insert fun_eq_iff)
next
  case (Grant f u a)
  with ok show ?thesis
    by (cases "acl_find_entry t f")
      (auto simp: acl_rights_def acl_add_access_eq acl_find_upd fun_eq_iff)
next
  case (Revoke f u)
  then show ?thesis
    by (cases "acl_find_entry t f")
      (auto simp: acl_rights_def acl_remove_access_eq acl_find_upd fun_eq_iff)
next
  case (RemoveFile f)
  with acl_remove_file_inv [OF inv, of f] show ?thesis by (auto simp: acl_rights_def fun_eq_iff)
qed

interpretation file_acl: access_control acl_rights acl_step acl_inv acl_op_ok
proof unfold_locales
  fix t op
  assume inv: "acl_inv t" and ok: "acl_op_ok op"
  show "acl_inv (acl_step t op)"
    using inv ok acl_add_file_inv [OF inv] acl_add_access_inv [OF inv] acl_remove_access_inv [OF inv]
      acl_remove_file_inv [OF inv] by (cases op) simp_all
  show "acl_rights (acl_step t op) = spec_step (acl_rights t) op"
    by (rule acl_step_rights [OF inv ok])
next
  fix t f own rs ws
  assume "acl_inv t" "acl_rights t f = Some (own, rs, ws)"
  then show "length rs \<le> ACL_MAX_USERS \<and> length ws \<le> ACL_MAX_USERS"
    by (auto simp: acl_rights_def dest: acl_entry_ok simp: entry_ok_def)
qed

lemma acl_check_rights:
  "acl_check_read t f u = can_read (acl_rights t f) u" "acl_check_write t f u = can_write (acl_rights t f) u"
  by (auto simp: acl_check_read_def acl_check_write_def acl_rights_def can_read_def can_write_def is_in_list_def
      split: option.split)

section \<open>Properties\<close>

fun acl_steps :: "AclTable \<Rightarrow> (cstring, cstring) acl_op list \<Rightarrow> AclTable" where
  "acl_steps t [] = t"
| "acl_steps t (op # ops) = acl_steps (acl_step t op) ops"

lemma acl_steps_fold: "acl_steps t ops = fold (\<lambda>op s. acl_step s op) ops t"
  by (induction t ops rule: acl_steps.induct) simp_all

text \<open>
  C28. The access control table is exact: over any sequence of operations (files added and
  removed, access granted and revoked, the full lists and unknown files included) the rights
  in the table are those of the specification started from the same rights, the table keeps its
  invariant (every list within 50 users), and lists free of duplicates stay so.
\<close>

theorem acl_refines_rights:
  assumes "acl_inv t" and "list_all acl_op_ok ops"
  shows "acl_inv (acl_steps t ops) \<and> (acl_sets t \<longrightarrow> acl_sets (acl_steps t ops)) \<and>
    acl_rights (acl_steps t ops) = fold (\<lambda>op R. spec_step R op) ops (acl_rights t)"
  using file_acl.steps_inv [OF assms] file_acl.steps_rights [OF assms] file_acl.steps_sets [OF assms] by (simp add: acl_steps_fold)

definition sample_acl_ops :: "(cstring, cstring) acl_op list" where
  "sample_acl_ops = [AddFile ''a'' ''bob'', Grant ''a'' ''eve'' ACCESS_WRITE, AddFile ''b'' ''eve'']"

lemma sample_acl_ops_ok: "list_all acl_op_ok sample_acl_ops"
  by (simp add: sample_acl_ops_def)

theorem acl_refines_rights_witness:
  "acl_rights (acl_steps acl_init sample_acl_ops) ''a'' = Some (''bob'', [], [''eve''])"
  using acl_refines_rights [OF acl_inv_init sample_acl_ops_ok]
  by (simp add: acl_rights_init) (simp add: sample_acl_ops_def limited_add_def)

text \<open>
  No operation gives or takes access it does not name: over any sequence of operations none
  of which adds or removes the file or grants or revokes that user's access to it, what the
  user may read and write of the file stays the same, whatever happens to other users and
  other files.
\<close>

theorem acl_noninterference:
  assumes "acl_inv t" and "list_all acl_op_ok ops" and "list_all (\<lambda>op. \<not> concerns f u op) ops"
  shows "acl_check_read (acl_steps t ops) f u = acl_check_read t f u \<and>
    acl_check_write (acl_steps t ops) f u = acl_check_write t f u"
  using file_acl.unconcerned [OF assms] by (simp add: acl_check_rights acl_steps_fold)

theorem acl_noninterference_witness:
  "acl_check_write (acl_steps acl_init [AddFile ''a'' ''bob'', Grant ''b'' ''eve'' ACCESS_WRITE]) ''c'' ''eve'' =
   acl_check_write acl_init ''c'' ''eve''"
  using acl_noninterference [OF acl_inv_init,
      of "[AddFile ''a'' ''bob'', Grant ''b'' ''eve'' ACCESS_WRITE]" "''c''" "''eve''"] by simp

text \<open>
  Granting and revoking do what they say: a successful grant of write access lets the user
  write and read, of read access lets the user read; a revoke leaves a user who is not the
  owner with neither; the owner keeps both whatever is revoked.
\<close>

theorem acl_grant_revoke:
  assumes inv: "acl_inv t" and sets: "acl_sets t" and u: "length u < MAX_USERNAME_LEN"
  shows "(fst (acl_add_access t f u ACCESS_WRITE) = 0 \<longrightarrow>
       acl_check_write (snd (acl_add_access t f u ACCESS_WRITE)) f u \<and>
       acl_check_read (snd (acl_add_access t f u ACCESS_WRITE)) f u) \<and>
    (fst (acl_add_access t f u ACCESS_READ) = 0 \<longrightarrow> acl_check_read (snd (acl_add_access t f u ACCESS_READ)) f u) \<and>
    (acl_check_read (snd (acl_remove_access t f u)) f u \<longrightarrow> acl_check_owner t f u) \<and>
    (acl_check_owner t f u \<longrightarrow> acl_check_write (snd (acl_remove_access t f v)) f u)"
proof (cases "acl_find_entry t f")
  case (Some e)
  note ok = acl_entry_ok [OF inv Some, unfolded entry_ok_def]
  have d: "distinct (ae_read_users e)" "distinct (ae_write_users e)"
    using sets [unfolded rights_sets_def, rule_format, of f "ae_owner e" "ae_read_users e" "ae_write_users e"] Some
    by (simp_all add: acl_rights_def)
  have w: "fst (acl_add_access t f u ACCESS_WRITE) = 0 \<Longrightarrow> u \<in> set (limited_add u (ae_write_users e))"
    and r: "fst (acl_add_access t f u ACCESS_READ) = 0 \<Longrightarrow> u \<in> set (limited_add u (ae_read_users e))"
    using Some by (auto simp: acl_add_access_def add_to_list_def is_in_list_def limited_add_def split: if_splits)
  show ?thesis using Some ok d w r
    by (simp add: acl_add_access_eq [OF u] acl_remove_access_eq acl_check_rights acl_check_owner_def
        acl_rights_def acl_find_upd can_read_def can_write_def)
qed (simp add: acl_add_access_def acl_remove_access_def acl_check_read_def acl_check_owner_def)

theorem acl_grant_revoke_witness:
  "acl_check_write (snd (acl_add_access (acl_steps acl_init [AddFile ''a'' ''bob'']) ''a'' ''eve'' ACCESS_WRITE)) ''a'' ''eve''"
proof -
  have t: "acl_find_entry (acl_steps acl_init [AddFile ''a'' ''bob'']) ''a'' \<noteq> None"
    by (simp add: acl_add_file_def acl_init_def acl_find_entry_def Let_def cbuf_id)
  have inv: "acl_inv (acl_steps acl_init [AddFile ''a'' ''bob''])"
    using acl_add_file_inv [OF acl_inv_init] by simp
  have sets: "acl_sets (acl_steps acl_init [AddFile ''a'' ''bob''])"
    using file_acl.step_sets [OF acl_inv_init, of "AddFile ''a'' ''bob''"] by (simp add: acl_rights_init rights_sets_def)
  have "acl_find_entry (acl_steps acl_init [AddFile ''a'' ''bob'']) ''a'' =
      Some \<lparr>ae_filename = ''a'', ae_owner = ''bob'', ae_read_users = [], ae_write_users = [], ae_created_time = 0\<rparr>"
    by (simp add: acl_add_file_def acl_init_def acl_find_entry_def Let_def cbuf_id)
  then have "fst (acl_add_access (acl_steps acl_init [AddFile ''a'' ''bob'']) ''a'' ''eve'' ACCESS_WRITE) = 0"
    by (simp add: acl_add_access_def add_to_list_def is_in_list_def del: acl_steps.simps)
  with acl_grant_revoke [OF inv sets, of "''eve''" "''a''"] show ?thesis by simp
qed

section \<open>The files of a user\<close>

lemma acl_entry_in: "acl_inv t \<Longrightarrow>
    e \<in> set (chain_entries ACL_HASH_SIZE (at_buckets t)) \<longleftrightarrow> acl_find_entry t (ae_filename e) = Some e"
  unfolding acl_find_chain acl_inv_def by (intro acl_chain.entries_iff) simp

text \<open>
  The list of a user's files is right: if no more than \<open>max_files\<close> files are accessible to
  the user, \<open>acl_get_accessible_files\<close> returns each file the user may read, once, and nothing
  else.
\<close>

theorem acl_accessible_files_exact:
  assumes inv: "acl_inv t"
    and room: "length (filter (entry_accessible u) (chain_entries ACL_HASH_SIZE (at_buckets t))) \<le> max_files"
  shows "distinct (acl_get_accessible_files t u max_files) \<and>
    set (acl_get_accessible_files t u max_files) = {f. acl_check_read t f u}"
proof -
  let ?es = "filter (entry_accessible u) (chain_entries ACL_HASH_SIZE (at_buckets t))"
  have chain: "chain_inv acl_hash ae_filename (at_buckets t)" using inv by (simp add: acl_inv_def)
  have len: "cbuf MAX_FILENAME_LEN (ae_filename e) = ae_filename e" if "e \<in> set ?es" for e
    using that acl_entry_in [OF inv] acl_entry_ok [OF inv] by (auto simp: entry_ok_def intro: cbuf_id)
  have "map (\<lambda>e. cbuf MAX_FILENAME_LEN (ae_filename e)) ?es = map ae_filename ?es"
    by (rule map_cong [OF refl len])
  with room have eq: "acl_get_accessible_files t u max_files = map ae_filename ?es"
    by (simp add: acl_get_accessible_files_def)
  have "f \<in> set (map ae_filename ?es) \<longleftrightarrow> acl_check_read t f u" for f
  proof
    assume "f \<in> set (map ae_filename ?es)"
    then obtain e where "e \<in> set ?es" "f = ae_filename e" by auto
    with acl_entry_in [OF inv, of e] show "acl_check_read t f u"
      by (auto simp: acl_check_read_def entry_accessible_def)
  next
    assume "acl_check_read t f u"
    then obtain e where e: "acl_find_entry t f = Some e" "entry_accessible u e"
      by (auto simp: acl_check_read_def entry_accessible_def split: option.splits if_splits)
    moreover from e(1) have "ae_filename e = f" by (auto simp: acl_find_chain dest: acl_chain.lookup_key)
    ultimately show "f \<in> set (map ae_filename ?es)" using acl_entry_in [OF inv, of e] by force
  qed
  moreover have "distinct (map ae_filename ?es)"
    by (rule distinct_map_filter [OF acl_chain.distinct_entries [OF chain]])
  ultimately show ?thesis unfolding eq by blast
qed

theorem acl_accessible_files_exact_witness:
  "''a'' \<in> set (acl_get_accessible_files (acl_steps acl_init sample_acl_ops) ''eve'' 100)"
proof -
  let ?t = "acl_steps acl_init sample_acl_ops"
  have inv: "acl_inv ?t"
    using file_acl.steps_inv [OF acl_inv_init sample_acl_ops_ok] by (simp add: acl_steps_fold)
  have "at_file_count ?t \<le> 2"
    by (simp add: sample_acl_ops_def acl_add_file_def acl_add_access_def acl_init_def acl_upd_entry_def Let_def
        case_prod_beta split: option.split)
  moreover have "at_file_count ?t = int (length (chain_entries ACL_HASH_SIZE (at_buckets ?t)))"
    using inv unfolding acl_inv_def by (elim conjE)
  ultimately have "length (chain_entries ACL_HASH_SIZE (at_buckets ?t)) \<le> 2" by linarith
  then have "length (filter (entry_accessible ''eve'') (chain_entries ACL_HASH_SIZE (at_buckets ?t))) \<le> 100"
    using length_filter_le [of "entry_accessible ''eve''" "chain_entries ACL_HASH_SIZE (at_buckets ?t)"] by linarith
  from acl_accessible_files_exact [OF inv this]
  have "set (acl_get_accessible_files ?t ''eve'' 100) = {f. acl_check_read ?t f ''eve''}" by (rule conjunct2)
  moreover have "acl_check_read ?t ''a'' ''eve''"
    unfolding acl_check_rights acl_steps_fold file_acl.steps_rights [OF acl_inv_init sample_acl_ops_ok]
    by (simp add: acl_rights_init sample_acl_ops_def limited_add_def can_read_def)
  ultimately show ?thesis by simp
qed

lemma print_parts_eq:
  "print_parts temp parts =
    (if \<forall>i<length parts. length (temp @ concat (take i parts)) \<le> MAX_CONTENT_LEN
     then Some (cbuf MAX_CONTENT_LEN (temp @ concat parts)) else None)"
proof (induction temp parts rule: print_parts.induct)
  case (2 temp p parts)
  have "(\<forall>i<length (p # parts). length (temp @ concat (take i (p # parts))) \<le> MAX_CONTENT_LEN) \<longleftrightarrow>
      length temp \<le> MAX_CONTENT_LEN \<and>
      (\<forall>i<length parts. length ((temp @ p) @ concat (take i parts)) \<le> MAX_CONTENT_LEN)"
    by (simp only: list.size add_Suc_right add_0_right All_less_Suc2) simp
  with 2 show ?case by auto
qed simp

text \<open>
  Printing the access list of a file is safe exactly as long as no part starts past the
  4096-byte buffer; with the lists the table admits (50 writers and 50 readers of up to 63
  characters) it can run past it, and the code then writes outside the buffer.
\<close>

theorem acl_access_list_bounds:
  assumes "acl_find_entry t f = Some e"
  shows "acl_get_access_list t f k =
    (if \<forall>i<length (access_parts e). length (concat (take i (access_parts e))) \<le> MAX_CONTENT_LEN
     then Some (Some (cbuf k (cbuf MAX_CONTENT_LEN (concat (access_parts e))))) else None)"
  using assms by (simp add: acl_get_access_list_def print_parts_eq)

theorem acl_access_list_bounds_witness:
  "\<exists>t f. acl_get_access_list t f 4096 = None"
proof -
  define u :: cstring where "u = replicate 63 CHR ''u''"
  define e where "e = \<lparr>ae_filename = ''a'', ae_owner = ''bob'', ae_read_users = [],
    ae_write_users = map (\<lambda>i. take i u @ u) [0..<48], ae_created_time = 0\<rparr>"
  define t where "t = acl_init\<lparr>at_buckets := (\<lambda>i. [e])\<rparr>"
  have f: "acl_find_entry t ''a'' = Some e" by (simp add: t_def acl_find_entry_def e_def)
  have "4088 < (\<Sum>x\<leftarrow>[0..<47]. 70 + min x (63::nat))" by code_simp
  then have "4096 < length (concat (take 48 (access_parts e)))"
    by (simp add: access_parts_def e_def u_def length_concat comp_def take_map sum_list_triv)
  moreover have "48 < length (access_parts e)" by (simp add: access_parts_def e_def)
  ultimately have "\<not> (\<forall>i<length (access_parts e). length (concat (take i (access_parts e))) \<le> MAX_CONTENT_LEN)"
    by (metis not_le)
  with acl_access_list_bounds [OF f, of 4096] show ?thesis by (metis (no_types))
qed

section \<open>Reloading a saved table\<close>

text \<open>Whatever bytes the file holds, what is loaded from it is a table in order.\<close>

lemma add_access_inv: "acl_inv t \<Longrightarrow> acl_inv (snd (acl_add_access t f u a))"
proof (cases "acl_find_entry t f")
  case (Some e)
  assume inv: "acl_inv t"
  note ok = acl_entry_ok [OF inv Some, unfolded entry_ok_def]
  have "entry_ok (e\<lparr>ae_read_users := snd (add_to_list (ae_read_users e) ACL_MAX_USERS u)\<rparr>)"
    "entry_ok (e\<lparr>ae_write_users := snd (add_to_list (ae_write_users e) ACL_MAX_USERS u)\<rparr>)"
    using ok length_cbuf_less [of MAX_USERNAME_LEN u] by (auto simp: add_to_list_def entry_ok_def)
  then show ?thesis using inv Some
    by (auto simp: acl_add_access_def case_prod_beta intro!: acl_upd_inv)
qed (simp add: acl_add_access_def)

lemma grant_all_inv: "acl_inv t \<Longrightarrow> acl_inv (grant_all t f a us)"
  by (induction t f a us rule: grant_all.induct) (simp_all add: add_access_inv)

lemma scan_field_length: "scan_field n stop s = Some (f, r) \<Longrightarrow> length f \<le> n"
  by (auto simp: scan_field_def Let_def split: if_splits)

lemma parse_entry_length: "parse_entry line = Some (f, u, rs, ws) \<Longrightarrow> length f < MAX_FILENAME_LEN"
  by (auto simp: parse_entry_def split: option.splits prod.splits dest!: scan_field_length)

lemma load_line_inv:
  assumes "acl_inv t"
  shows "acl_inv (load_line mem now t line)"
proof -
  have "acl_inv (case acl_add_file mem now t f u of (code, acl1) \<Rightarrow>
      if code \<noteq> 0 then acl1
      else let acl2 = (case rs of Some r \<Rightarrow> grant_all acl1 f ACCESS_READ (tokens_of r) | None \<Rightarrow> acl1)
           in (case ws of Some w \<Rightarrow> grant_all acl2 f ACCESS_WRITE (tokens_of w) | None \<Rightarrow> acl2))"
    if "parse_entry line = Some (f, u, rs, ws)" for f u rs ws
  proof (cases "acl_add_file mem now t f u")
    case (Pair code t1)
    have "acl_inv t1" using acl_add_file_inv [OF assms parse_entry_length [OF that], of mem now u] Pair by simp
    then show ?thesis by (cases rs; cases ws) (simp_all add: Pair grant_all_inv)
  qed
  with assms show ?thesis by (simp add: load_line_def split: option.split prod.split)
qed

lemma load_loop_inv: "acl_inv t \<Longrightarrow> acl_inv (load_loop mem now i t lines)"
  by (induction mem now i t lines rule: load_loop.induct) (simp_all add: load_line_inv)

lemma acl_load_inv: "acl_inv (snd (acl_load mem now acl_init fs p))"
  by (simp add: acl_load_def acl_inv_init load_loop_inv split: option.split)

text \<open>Entries whose line can be read back: no separator in a name, and a line that fits the buffer.\<close>

definition clean_name :: "cstring \<Rightarrow> bool" where
  "clean_name s \<longleftrightarrow> s \<noteq> [] \<and> BAR \<notin> set s \<and> NL \<notin> set s \<and> NUL \<notin> set s"

definition entry_clean :: "AclEntry \<Rightarrow> bool" where
  "entry_clean e \<longleftrightarrow> clean_name (ae_filename e) \<and> clean_name (ae_owner e) \<and>
     (\<forall>u\<in>set (ae_read_users e) \<union> set (ae_write_users e). clean_name u \<and> COMMA \<notin> set u) \<and>
     hd (ae_filename e) \<noteq> CHR ''#'' \<and> take 11 (entry_line e) \<noteq> ''file_count='' \<and>
     length (entry_line e) < MAX_CONTENT_LEN"

text \<open>What a reload makes of an entry: without readers, the writers are lost.\<close>

definition reloaded :: "int \<Rightarrow> AclEntry \<Rightarrow> AclEntry" where
  "reloaded now e = e\<lparr>ae_write_users := (if ae_read_users e = [] then [] else ae_write_users e),
     ae_created_time := now\<rparr>"

lemma fgets_line:
  assumes "NL \<notin> set l" and "length l + 1 < MAX_CONTENT_LEN"
  shows "fgets_lines (l @ NL # rest) = (l @ [NL]) # fgets_lines rest"
proof -
  have "takeWhile (\<lambda>c. c \<noteq> NL) (take (MAX_CONTENT_LEN - 1) (l @ NL # rest)) = l"
    using assms by (auto simp: take_append takeWhile_append take_Cons' dest: set_takeWhileD)
  moreover have "length l \<noteq> length (take (MAX_CONTENT_LEN - 1) (l @ NL # rest))" using assms(2) by simp
  ultimately have "fgets MAX_CONTENT_LEN (l @ NL # rest) = (l @ [NL], rest)"
    by (simp only: fgets_def Let_def if_False) simp
  then show ?thesis by (subst fgets_lines.simps) simp
qed

lemma fgets_lines_Nil [simp]: "fgets_lines [] = []"
  by (subst fgets_lines.simps) simp

lemma scan_field_stop:
  "f \<noteq> [] \<Longrightarrow> stop \<notin> set f \<Longrightarrow> length f \<le> n \<Longrightarrow> scan_field n stop (f @ stop # rest) = Some (f, stop # rest)"
  by (auto simp: scan_field_def Let_def takeWhile_append)

lemma scan_field_empty [simp]: "scan_field n stop (stop # rest) = None"
  by (simp add: scan_field_def)

lemma tokens_comma_join:
  "\<forall>u\<in>set us. u \<noteq> [] \<and> COMMA \<notin> set u \<Longrightarrow> tokens_of (comma_join us) = us"
proof (induction us rule: comma_join.induct)
  case (2 u)
  then show ?case unfolding tokens_of_def by (auto intro!: runs_all)
next
  case (3 u v us)
  have "\<forall>c\<in>set u. c \<noteq> COMMA" using "3.prems" by auto
  from runs_sep [where P = "\<lambda>c. c \<noteq> COMMA" and c = COMMA, OF _ this]
  have "tokens_of (comma_join (u # v # us)) = u # tokens_of (comma_join (v # us))"
    using "3.prems" by (simp add: tokens_of_def)
  with 3 show ?case by simp
qed (simp add: tokens_of_def)

lemma set_comma_join: "set (comma_join us) \<subseteq> insert COMMA (\<Union> (set ` set us))"
  by (induction us rule: comma_join.induct) auto

lemma comma_join_Nil: "\<forall>u\<in>set us. u \<noteq> [] \<Longrightarrow> comma_join us = [] \<longleftrightarrow> us = []"
  by (induction us rule: comma_join.induct) auto

lemma grant_all_find:
  assumes "\<forall>u\<in>set us. length u < MAX_USERNAME_LEN" and "acl_find_entry t f = Some e"
    and "a = ACCESS_READ \<or> a = ACCESS_WRITE"
  shows "acl_find_entry (grant_all t f a us) = (acl_find_entry t)(f \<mapsto>
    (if a = ACCESS_READ then e\<lparr>ae_read_users := fold limited_add us (ae_read_users e)\<rparr>
     else e\<lparr>ae_write_users := fold limited_add us (ae_write_users e)\<rparr>))"
  using assms
proof (induction us arbitrary: t e)
  case (Cons u us)
  have u: "length u < MAX_USERNAME_LEN" and us: "\<forall>u\<in>set us. length u < MAX_USERNAME_LEN" using Cons.prems by auto
  let ?t = "snd (acl_add_access t f u a)"
  let ?e = "if a = ACCESS_READ then e\<lparr>ae_read_users := limited_add u (ae_read_users e)\<rparr>
    else e\<lparr>ae_write_users := limited_add u (ae_write_users e)\<rparr>"
  have find: "acl_find_entry ?t = (acl_find_entry t)(f \<mapsto> ?e)"
    using Cons.prems by (auto simp: acl_add_access_eq [OF u] acl_find_upd)
  have "acl_find_entry ?t f = Some ?e" by (simp add: find)
  from Cons.IH [OF us this Cons.prems(3)] show ?case by (auto simp: find)
qed (simp add: map_upd_triv)

lemma fold_limited_add:
  "distinct (vs @ us) \<Longrightarrow> length (vs @ us) \<le> ACL_MAX_USERS \<Longrightarrow> fold limited_add us vs = vs @ us"
proof (induction us arbitrary: vs)
  case (Cons u us)
  then have "limited_add u vs = vs @ [u]" by (simp add: limited_add_def)
  with Cons.IH [of "vs @ [u]"] Cons.prems show ?case by simp
qed simp

lemma parse_entry_line:
  assumes "entry_clean e" and "entry_ok e"
  shows "parse_entry (entry_line e) =
    Some (ae_filename e, ae_owner e,
      if ae_read_users e = [] then None else Some (comma_join (ae_read_users e)),
      if ae_read_users e = [] \<or> ae_write_users e = [] then None else Some (comma_join (ae_write_users e)))"
proof -
  let ?r = "comma_join (ae_read_users e)" and ?w = "comma_join (ae_write_users e)"
  note c = assms(1) [unfolded entry_clean_def clean_name_def] and o = assms(2) [unfolded entry_ok_def]
  have r: "BAR \<notin> set ?r" and w: "NL \<notin> set ?w"
    using c set_comma_join [of "ae_read_users e"] set_comma_join [of "ae_write_users e"] by auto
  have len: "length ?r \<le> 4095" "length ?w \<le> 4095" using c by (simp_all add: entry_line_def)
  have r0: "?r = [] \<longleftrightarrow> ae_read_users e = []" and w0: "?w = [] \<longleftrightarrow> ae_write_users e = []"
    using c by (auto intro!: comma_join_Nil)
  have f: "scan_field 255 BAR (entry_line e) = Some (ae_filename e, BAR # ae_owner e @ BAR # ?r @ BAR # ?w @ [NL])"
    using c o by (simp add: entry_line_def scan_field_stop)
  have ow: "scan_field 63 BAR (ae_owner e @ BAR # ?r @ BAR # ?w @ [NL]) =
      Some (ae_owner e, BAR # ?r @ BAR # ?w @ [NL])"
    using c o by (intro scan_field_stop) auto
  have re: "scan_field 4095 BAR (?r @ BAR # ?w @ [NL]) =
      (if ae_read_users e = [] then None else Some (?r, BAR # ?w @ [NL]))"
    using r0 r len by (cases "ae_read_users e = []") (auto intro: scan_field_stop)
  have we: "scan_field 4095 NL (?w @ [NL]) = (if ae_write_users e = [] then None else Some (?w, [NL]))"
    using w0 w len scan_field_stop [of ?w NL 4095 "[]"] by (cases "ae_write_users e = []") auto
  show ?thesis by (simp add: parse_entry_def f ow re we)
qed

lemma load_entry_line:
  assumes clean: "entry_clean e" and ok: "entry_ok e" and new: "acl_find_entry t (ae_filename e) = None"
    and sets: "distinct (ae_read_users e)" "distinct (ae_write_users e)"
  shows "acl_find_entry (load_line True now t (entry_line e)) = (acl_find_entry t)(ae_filename e \<mapsto> reloaded now e)"
proof -
  let ?f = "ae_filename e"
  note c = clean [unfolded entry_clean_def clean_name_def] and o = ok [unfolded entry_ok_def]
  let ?new = "\<lparr>ae_filename = ?f, ae_owner = ae_owner e, ae_read_users = [], ae_write_users = [], ae_created_time = now\<rparr>"
  obtain t1 where add: "acl_add_file True now t ?f (ae_owner e) = (0, t1)"
    and t1: "acl_find_entry t1 = (acl_find_entry t)(?f \<mapsto> ?new)"
    using new o by (auto simp: acl_add_file_def Let_def cbuf_id acl_find_chain acl_chain.lookup_insert)
  have toks: "tokens_of (comma_join (ae_read_users e)) = ae_read_users e"
    "tokens_of (comma_join (ae_write_users e)) = ae_write_users e"
    using c by (auto intro!: tokens_comma_join)
  have lens: "\<forall>u\<in>set (ae_read_users e). length u < MAX_USERNAME_LEN"
    "\<forall>u\<in>set (ae_write_users e). length u < MAX_USERNAME_LEN" using o by auto
  have folds: "fold limited_add (ae_read_users e) [] = ae_read_users e"
    "fold limited_add (ae_write_users e) [] = ae_write_users e"
    using o sets by (auto intro!: fold_limited_add [of "[]", simplified])
  let ?t2 = "grant_all t1 ?f ACCESS_READ (ae_read_users e)"
  have t2: "acl_find_entry ?t2 = (acl_find_entry t)(?f \<mapsto> ?new\<lparr>ae_read_users := ae_read_users e\<rparr>)"
    using grant_all_find [OF lens(1), of t1 ?f ?new ACCESS_READ] by (simp add: t1 folds)
  have t3: "acl_find_entry (grant_all ?t2 ?f ACCESS_WRITE (ae_write_users e)) =
      (acl_find_entry t)(?f \<mapsto> ?new\<lparr>ae_read_users := ae_read_users e, ae_write_users := ae_write_users e\<rparr>)"
    using grant_all_find [OF lens(2), of ?t2 ?f "?new\<lparr>ae_read_users := ae_read_users e\<rparr>" ACCESS_WRITE]
    by (simp add: t2 folds)
  have line: "entry_line e \<noteq> []" "hd (entry_line e) \<noteq> CHR ''#''" "hd (entry_line e) \<noteq> NL"
    using c hd_in_set [of "ae_filename e"] by (auto simp: entry_line_def hd_append simp del: hd_in_set)
  have "load_line True now t (entry_line e) =
      (if ae_read_users e = [] then t1
       else if ae_write_users e = [] then ?t2 else grant_all ?t2 ?f ACCESS_WRITE (ae_write_users e))"
    using line c by (simp add: load_line_def parse_entry_line [OF clean ok] add toks Let_def)
  moreover have "reloaded now e = ?new\<lparr>ae_read_users := ae_read_users e,
      ae_write_users := (if ae_read_users e = [] then [] else ae_write_users e)\<rparr>"
    by (simp add: reloaded_def)
  ultimately show ?thesis using t1 t2 t3 by simp
qed

lemma load_entries:
  assumes "distinct (map ae_filename es)"
    and "\<forall>e\<in>set es. entry_clean e \<and> entry_ok e \<and> distinct (ae_read_users e) \<and> distinct (ae_write_users e)"
    and "\<forall>e\<in>set es. acl_find_entry t (ae_filename e) = None"
  shows "acl_find_entry (fold (\<lambda>e t. load_line True now t (entry_line e)) es t) f =
    (case find (\<lambda>e. ae_filename e = f) es of Some e \<Rightarrow> Some (reloaded now e) | None \<Rightarrow> acl_find_entry t f)"
  using assms
proof (induction es arbitrary: t)
  case (Cons e es)
  let ?t = "load_line True now t (entry_line e)"
  have l: "acl_find_entry ?t = (acl_find_entry t)(ae_filename e \<mapsto> reloaded now e)"
    using Cons.prems by (intro load_entry_line) auto
  have "\<forall>e'\<in>set es. ae_filename e' \<noteq> ae_filename e" using distinct_key_tail [OF Cons.prems(1) refl] .
  then have "\<forall>e\<in>set es. acl_find_entry ?t (ae_filename e) = None" using Cons.prems by (simp add: l)
  from Cons.IH [OF _ _ this] Cons.prems show ?case
    by (auto simp: l find_None_iff split: option.split dest!: find_Some_in)
qed simp

lemma entry_line_parts:
  assumes "entry_clean e"
  shows "\<exists>l. entry_line e = l @ [NL] \<and> NL \<notin> set l \<and> NUL \<notin> set (entry_line e) \<and> length l + 1 < MAX_CONTENT_LEN"
proof -
  note c = assms [unfolded entry_clean_def clean_name_def]
  let ?l = "ae_filename e @ BAR # ae_owner e @ BAR # comma_join (ae_read_users e) @ BAR # comma_join (ae_write_users e)"
  have "NL \<notin> set ?l \<and> NUL \<notin> set ?l"
    using c set_comma_join [of "ae_read_users e"] set_comma_join [of "ae_write_users e"] by auto
  moreover have "entry_line e = ?l @ [NL]" by (simp add: entry_line_def)
  moreover from this have "length ?l + 1 < MAX_CONTENT_LEN" using c by simp
  ultimately show ?thesis by (intro exI [of _ ?l]) auto
qed

lemma fgets_entries:
  "\<forall>e\<in>set es. entry_clean e \<Longrightarrow> fgets_lines (concat (map entry_line es)) = map entry_line es"
proof (induction es)
  case (Cons e es)
  then obtain l where l: "entry_line e = l @ [NL]" "NL \<notin> set l" "length l + 1 < MAX_CONTENT_LEN"
    using entry_line_parts [of e] by auto
  with Cons fgets_line [OF l(2,3)] show ?case by simp
qed simp

lemma show_int_plain:
  assumes "0 \<le> i"
  shows "NL \<notin> set (show_int i) \<and> NUL \<notin> set (show_int i)"
  using assms show_nat_digits [of NL "nat i"] show_nat_digits [of NUL "nat i"] by (auto simp: show_int_def)

lemma fgets_header:
  assumes "0 \<le> n" and "n < 10 ^ 10"
  shows "fgets_lines (acl_header n @ rest) =
    [''# ACL Data File - Docs++'' @ [NL], ''# Format: filename|owner|read_users|write_users'' @ [NL],
     ''# Version: 1.0'' @ [NL], (''file_count='' @ show_int n) @ [NL]] @ fgets_lines rest"
proof -
  have "nat n < 10 ^ Suc 9" using assms by simp
  from length_show_nat [OF this] have len: "length (show_int n) \<le> 10" using assms by (simp add: show_int_def)
  have d: "NL \<notin> set (''file_count='' @ show_int n)" using show_int_plain [OF assms(1)] by simp
  have h: "acl_header n @ rest = ''# ACL Data File - Docs++'' @ NL # (''# Format: filename|owner|read_users|write_users'' @
      NL # (''# Version: 1.0'' @ NL # ((''file_count='' @ show_int n) @ NL # rest)))"
    by (simp only: acl_header_def append_assoc append_Cons append_Nil)
  have f1: "fgets_lines (''# ACL Data File - Docs++'' @ NL # r) = (''# ACL Data File - Docs++'' @ [NL]) # fgets_lines r"
    and f2: "fgets_lines (''# Format: filename|owner|read_users|write_users'' @ NL # r) =
      (''# Format: filename|owner|read_users|write_users'' @ [NL]) # fgets_lines r"
    and f3: "fgets_lines (''# Version: 1.0'' @ NL # r) = (''# Version: 1.0'' @ [NL]) # fgets_lines r" for r
    by (rule fgets_line; simp)+
  have f4: "fgets_lines ((''file_count='' @ show_int n) @ NL # rest) =
      ((''file_count='' @ show_int n) @ [NL]) # fgets_lines rest"
    by (rule fgets_line [OF d]) (use len in simp)
  show ?thesis unfolding h f1 f2 f3 f4 by (simp only: append_Cons append_Nil)
qed

lemma load_loop_fold: "load_loop (\<lambda>_. True) now i t lines = fold (\<lambda>line t. load_line True now t (cstr_of line)) lines t"
  by (induction lines arbitrary: i t) simp_all

lemma load_lines:
  assumes "\<forall>e\<in>set es. entry_clean e" and "0 \<le> n" and "n < 10 ^ 10"
  shows "load_loop (\<lambda>_. True) now 0 acl_init (fgets_lines (acl_header n @ concat (map entry_line es))) =
    fold (\<lambda>e t. load_line True now t (entry_line e)) es acl_init"
proof -
  have skip: "load_line True now t (cstr_of (CHR ''#'' # l)) = t" for t l
    by (simp add: load_line_def cstr_of_def)
  have "NUL \<notin> set ((''file_count='' @ show_int n) @ [NL])"
    using show_int_plain [OF assms(2)] by simp
  then have "load_line True now t (cstr_of ((''file_count='' @ show_int n) @ [NL])) = t" for t
    by (simp add: load_line_def cstr_of_id)
  moreover have "cstr_of (entry_line e) = entry_line e" if "e \<in> set es" for e
    using entry_line_parts [of e] that assms(1) by (auto intro: cstr_of_id)
  then have "fold (\<lambda>line t. load_line True now t (cstr_of line)) (map entry_line es) t =
      fold (\<lambda>e t. load_line True now t (entry_line e)) es t" for t
    by (simp add: fold_map comp_def cong: fold_cong)
  ultimately show ?thesis
    using fgets_entries [OF assms(1)] by (simp add: load_loop_fold fgets_header [OF assms(2,3)] skip)
qed

lemma fopen_w_write_read:
  assumes "fopen_w fs p = Some fs1"
  shows "fopen_r (fwrite fs1 p c) p = Some c"
proof -
  from assms have "fs1 = set_node fs p (Some (FReg [])) \<and> p \<noteq> [] \<and> last p \<noteq> SLASH"
    by (auto simp: fopen_w_def fs_lookup_def can_make_def Let_def split: option.splits FNode.splits if_splits)
  then show ?thesis by (simp add: fwrite_def fopen_r_def)
qed

text \<open>
  C31. What a restart of the name server keeps: reading back a saved table restores every file
  with its owner and its readers, and its writers exactly when the file has at least one reader.
  A file with writers and no readers comes back without its writers, because the scanner does not
  match an empty field. The conditions: no name is empty or holds a bar or a line feed, no user
  a comma; no file name starts with a hash sign, and no line with \<open>file_count=\<close> (such lines are
  skipped, and the file is lost); each line fits the buffer; no list names a user twice; there are
  fewer than ten thousand million files, and memory for each entry read back.
\<close>

theorem acl_save_load:
  assumes inv: "acl_inv t" and sets: "acl_sets t" and clean: "\<forall>f e. acl_find_entry t f = Some e \<longrightarrow> entry_clean e"
    and count: "at_file_count t < 10 ^ 10" and saved: "acl_save t fs p = (0, fs')"
  shows "fst (acl_load (\<lambda>_. True) now acl_init fs' p) = 0 \<and>
    acl_find_entry (snd (acl_load (\<lambda>_. True) now acl_init fs' p)) f = map_option (reloaded now) (acl_find_entry t f)"
proof -
  let ?es = "chain_entries ACL_HASH_SIZE (at_buckets t)"
  have chain: "chain_inv acl_hash ae_filename (at_buckets t)" using inv by (simp add: acl_inv_def)
  have "distinct (ae_read_users e) \<and> distinct (ae_write_users e)" if "acl_find_entry t (ae_filename e) = Some e" for e
    using sets [unfolded rights_sets_def, rule_format, of "ae_filename e" "ae_owner e"] that by (simp add: acl_rights_def)
  then have es: "\<forall>e\<in>set ?es. entry_clean e \<and> entry_ok e \<and> distinct (ae_read_users e) \<and> distinct (ae_write_users e)"
    using acl_entry_in [OF inv] acl_entry_ok [OF inv] clean by blast
  have d: "distinct (map ae_filename ?es)" by (rule acl_chain.distinct_entries [OF chain])
  have find: "find (\<lambda>e. ae_filename e = f) ?es = acl_find_entry t f"
  proof (cases "acl_find_entry t f")
    case None
    then have "f \<notin> ae_filename ` set ?es" using acl_entry_in [OF inv] by (metis imageE option.distinct(1))
    with None show ?thesis by (simp add: find_key_none)
  next
    case (Some e)
    moreover have "ae_filename e = f" using Some by (auto simp: acl_find_chain dest: acl_chain.lookup_key)
    ultimately show ?thesis using acl_entry_in [OF inv, of e] by (simp add: find_key_iff [OF d])
  qed
  have n: "0 \<le> at_file_count t" using inv unfolding acl_inv_def by linarith
  obtain fs1 where fs1: "fopen_w fs p = Some fs1" "fs' = fwrite fs1 p (acl_text t)"
    using saved by (auto simp: acl_save_def split: option.splits)
  have none: "\<forall>e\<in>set ?es. acl_find_entry acl_init (ae_filename e) = None"
    by (simp add: acl_find_entry_def acl_init_def)
  have "snd (acl_load (\<lambda>_. True) now acl_init fs' p) = fold (\<lambda>e t. load_line True now t (entry_line e)) ?es acl_init"
    unfolding fs1(2) acl_load_def fopen_w_write_read [OF fs1(1)] acl_text_def
    using load_lines [OF _ n count, of ?es now] es by simp
  moreover have "fst (acl_load (\<lambda>_. True) now acl_init fs' p) = 0"
    unfolding fs1(2) acl_load_def fopen_w_write_read [OF fs1(1)] by simp
  moreover have "acl_find_entry acl_init f = None" by (simp add: acl_find_entry_def acl_init_def)
  ultimately show ?thesis
    using load_entries [OF d es none, of now f] find by (simp split: option.split)
qed

definition root_fs :: FS where
  "root_fs = \<lparr>fs_cwd = [], fs_nodes = [[] \<mapsto> FDir]\<rparr>"

lemma root_fopen: "fopen_w root_fs ''acl.dat'' \<noteq> None"
proof -
  have "runs (\<lambda>c. c \<noteq> SLASH) ''acl.dat'' = [''acl.dat'']" by (rule runs_all) simp_all
  then have "resolve root_fs ''acl.dat'' = [''acl.dat'']" by (simp add: resolve_def root_fs_def)
  then show ?thesis by (simp add: fopen_w_def fs_lookup_def can_make_def root_fs_def split: option.split)
qed

theorem acl_save_load_witness:
  "\<exists>fs'. acl_save (acl_steps acl_init sample_acl_ops) root_fs ''acl.dat'' = (0, fs') \<and>
    acl_rights (acl_steps acl_init sample_acl_ops) ''a'' = Some (''bob'', [], [''eve'']) \<and>
    acl_rights (snd (acl_load (\<lambda>_. True) 7 acl_init fs' ''acl.dat'')) ''a'' = Some (''bob'', [], [])"
proof -
  let ?t = "acl_steps acl_init sample_acl_ops"
  have inv: "acl_inv ?t"
    using file_acl.steps_inv [OF acl_inv_init sample_acl_ops_ok] by (simp add: acl_steps_fold)
  have sets: "acl_sets ?t"
    using file_acl.steps_sets [OF acl_inv_init sample_acl_ops_ok] by (simp add: acl_steps_fold acl_rights_init rights_sets_def)
  have rights: "acl_rights ?t = fold (\<lambda>op R. spec_step R op) sample_acl_ops Map.empty"
    unfolding acl_steps_fold file_acl.steps_rights [OF acl_inv_init sample_acl_ops_ok] acl_rights_init ..
  have ra: "acl_rights ?t ''a'' = Some (''bob'', [], [''eve''])"
    unfolding rights by (simp add: sample_acl_ops_def limited_add_def)
  have clean: "\<forall>f e. acl_find_entry ?t f = Some e \<longrightarrow> entry_clean e"
  proof (intro allI impI)
    fix f e assume e: "acl_find_entry ?t f = Some e"
    then have f: "ae_filename e = f" by (auto simp: acl_find_chain dest: acl_chain.lookup_key)
    have "acl_rights ?t f = Some (ae_owner e, ae_read_users e, ae_write_users e)"
      using e by (simp add: acl_rights_def)
    then have "f = ''a'' \<and> ae_owner e = ''bob'' \<and> ae_read_users e = [] \<and> ae_write_users e = [''eve''] \<or>
        f = ''b'' \<and> ae_owner e = ''eve'' \<and> ae_read_users e = [] \<and> ae_write_users e = []"
      unfolding rights by (auto simp: sample_acl_ops_def limited_add_def split: if_splits)
    then show "entry_clean e" using f
      by (auto simp: entry_clean_def clean_name_def entry_line_def)
  qed
  have count: "at_file_count ?t < 10 ^ 10"
    by (simp add: sample_acl_ops_def acl_add_file_def acl_add_access_def acl_init_def acl_upd_entry_def Let_def
        case_prod_beta split: option.split)
  obtain fs' where s: "acl_save ?t root_fs ''acl.dat'' = (0, fs')"
    using root_fopen by (auto simp: acl_save_def)
  from acl_save_load [OF inv sets clean count s, of 7 "''a''"] ra s show ?thesis
    by (auto simp: acl_rights_def reloaded_def simp del: acl_steps.simps)
qed

end
