(* ===== verification/Refinement.thy ===== *)
theory Refinement
  imports Docs_Prelude
begin

text \<open>
  The contract by which a component of the program implements its specification: one step
  function per side, each giving an answer and a next state, an abstraction that the concrete
  step commutes with, and an invariant it keeps. A client of the component needs only the
  conclusion for whole runs: the same answers in the same order.
\<close>

fun run_ops :: "('s \<Rightarrow> 'op \<Rightarrow> 'o \<times> 's) \<Rightarrow> 's \<Rightarrow> 'op list \<Rightarrow> 'o list \<times> 's" where
  "run_ops step s [] = ([], s)"
| "run_ops step s (op # ops) =
     (let (out, s') = step s op; (outs, t) = run_ops step s' ops in (out # outs, t))"

lemma run_ops_append:
  "run_ops step s (xs @ ys) =
     (let (o1, s1) = run_ops step s xs; (o2, s2) = run_ops step s1 ys in (o1 @ o2, s2))"
  by (induction xs arbitrary: s) (simp_all add: Let_def case_prod_beta)

locale op_refinement =
  fixes inv :: "'s \<Rightarrow> bool" and ok :: "'op \<Rightarrow> bool" and abs :: "'s \<Rightarrow> 'a"
    and cstep :: "'s \<Rightarrow> 'op \<Rightarrow> 'o \<times> 's" and astep :: "'a \<Rightarrow> 'op \<Rightarrow> 'o \<times> 'a"
  assumes step_inv: "inv s \<Longrightarrow> ok op \<Longrightarrow> inv (snd (cstep s op))"
    and step_out: "inv s \<Longrightarrow> ok op \<Longrightarrow> fst (cstep s op) = fst (astep (abs s) op)"
    and step_abs: "inv s \<Longrightarrow> ok op \<Longrightarrow> abs (snd (cstep s op)) = snd (astep (abs s) op)"
begin

lemma runs:
  assumes "inv s" and "list_all ok ops"
  shows "inv (snd (run_ops cstep s ops)) \<and>
    fst (run_ops cstep s ops) = fst (run_ops astep (abs s) ops) \<and>
    abs (snd (run_ops cstep s ops)) = snd (run_ops astep (abs s) ops)"
  using assms
proof (induction ops arbitrary: s)
  case (Cons op ops)
  have ok: "ok op" "list_all ok ops" using Cons.prems(2) by simp_all
  have "inv (snd (cstep s op))" by (rule step_inv [OF Cons.prems(1) ok(1)])
  from Cons.IH [OF this ok(2)] show ?case
    by (simp add: Let_def case_prod_beta step_out [OF Cons.prems(1) ok(1)]
        step_abs [OF Cons.prems(1) ok(1)])
qed simp

lemmas run_inv = runs [THEN conjunct1]
lemmas run_out = runs [THEN conjunct2, THEN conjunct1]
lemmas run_abs = runs [THEN conjunct2, THEN conjunct2]

end

end
