(* ===== verification/Access_Requests.thy ===== *)
theory Access_Requests
  imports Protocol Refinement
begin

text \<open>
  \<^verbatim>\<open>nameserver/access_requests.c\<close>: the table of access requests waiting for the owners of
  files. The table is the list of the slots in use (\<open>requests[0 .. count - 1]\<close>); a slot is
  never given back, approving or denying only clears its \<open>is_pending\<close> flag. The
  specification is a book of pending requests, with the number of requests ever accepted.
\<close>

section \<open>The table\<close>

abbreviation MAX_REQUESTS :: nat where "MAX_REQUESTS \<equiv> 100"

record AccessRequest =
  ar_filename :: cstring
  ar_requester :: cstring
  ar_owner :: cstring
  ar_request_time :: int
  ar_access_type :: int
  ar_is_pending :: bool

record RequestTable =
  rt_requests :: "AccessRequest list"

definition request_table_init :: RequestTable where
  "request_table_init = \<lparr>rt_requests = []\<rparr>"

definition request_add :: "int \<Rightarrow> RequestTable \<Rightarrow> cstring \<Rightarrow> cstring \<Rightarrow> cstring \<Rightarrow> int \<Rightarrow> int \<times> RequestTable" where
  "request_add now table filename requester owner access_type =
     (if length (rt_requests table) \<ge> MAX_REQUESTS then (ERR_SERVER_ERROR, table)
      else if \<exists>q\<in>set (rt_requests table). ar_is_pending q \<and> ar_filename q = filename \<and> ar_requester q = requester
      then (ERR_CONFLICT, table)
      else (ERR_SUCCESS,
            table\<lparr>rt_requests := rt_requests table @
              [\<lparr>ar_filename = cbuf MAX_FILENAME_LEN filename, ar_requester = cbuf MAX_USERNAME_LEN requester,
                ar_owner = cbuf MAX_USERNAME_LEN owner, ar_request_time = now,
                ar_access_type = access_type, ar_is_pending = True\<rparr>]\<rparr>))"

definition request_get_for_owner :: "RequestTable \<Rightarrow> cstring \<Rightarrow> nat \<Rightarrow> AccessRequest list" where
  "request_get_for_owner table owner max_requests =
     take max_requests (filter (\<lambda>q. ar_is_pending q \<and> ar_owner q = owner) (rt_requests table))"

text \<open>The condition under which approving and denying take a slot.\<close>

definition request_matches :: "cstring \<Rightarrow> cstring \<Rightarrow> cstring \<Rightarrow> AccessRequest \<Rightarrow> bool" where
  "request_matches filename requester owner q \<longleftrightarrow>
     ar_is_pending q \<and> ar_filename q = filename \<and> ar_requester q = requester \<and> ar_owner q = owner"

definition request_approve :: "RequestTable \<Rightarrow> cstring \<Rightarrow> cstring \<Rightarrow> cstring \<Rightarrow> int \<times> RequestTable" where
  "request_approve table filename requester owner =
     (case find (request_matches filename requester owner) (rt_requests table) of
        None \<Rightarrow> (ERR_NOT_FOUND, table)
      | Some _ \<Rightarrow>
          (ERR_SUCCESS,
           table\<lparr>rt_requests := update_first (request_matches filename requester owner)
                    (\<lambda>q. q\<lparr>ar_is_pending := False\<rparr>) (rt_requests table)\<rparr>))"

definition request_deny :: "RequestTable \<Rightarrow> cstring \<Rightarrow> cstring \<Rightarrow> cstring \<Rightarrow> int \<times> RequestTable" where
  "request_deny table filename requester owner =
     (case find (request_matches filename requester owner) (rt_requests table) of
        None \<Rightarrow> (ERR_NOT_FOUND, table)
      | Some _ \<Rightarrow>
          (ERR_SUCCESS,
           table\<lparr>rt_requests := update_first (request_matches filename requester owner)
                    (\<lambda>q. q\<lparr>ar_is_pending := False\<rparr>) (rt_requests table)\<rparr>))"

section \<open>Specification\<close>

datatype request_op = AddRequest cstring cstring cstring int int | Approve cstring cstring cstring | Deny cstring cstring cstring

type_synonym request_book = "(cstring \<times> cstring \<rightharpoonup> cstring) \<times> nat"

definition decide_spec :: "request_book \<Rightarrow> cstring \<Rightarrow> cstring \<Rightarrow> cstring \<Rightarrow> int \<times> request_book" where
  "decide_spec book f r own =
     (if fst book (f, r) = Some own then (ERR_SUCCESS, (fst book)((f, r) := None), snd book)
      else (ERR_NOT_FOUND, book))"

fun book_step :: "request_book \<Rightarrow> request_op \<Rightarrow> int \<times> request_book" where
  "book_step book (AddRequest f r own acc now) =
     (if snd book \<ge> MAX_REQUESTS then (ERR_SERVER_ERROR, book)
      else if fst book (f, r) \<noteq> None then (ERR_CONFLICT, book)
      else (ERR_SUCCESS, (fst book)((f, r) \<mapsto> own), Suc (snd book)))"
| "book_step book (Approve f r own) = decide_spec book f r own"
| "book_step book (Deny f r own) = decide_spec book f r own"

fun request_step :: "RequestTable \<Rightarrow> request_op \<Rightarrow> int \<times> RequestTable" where
  "request_step t (AddRequest f r own acc now) = request_add now t f r own acc"
| "request_step t (Approve f r own) = request_approve t f r own"
| "request_step t (Deny f r own) = request_deny t f r own"

text \<open>Names come from a message, so they fit the arrays they are copied to.\<close>

fun request_op_ok :: "request_op \<Rightarrow> bool" where
  "request_op_ok (AddRequest f r own acc now) \<longleftrightarrow>
     length f < MAX_FILENAME_LEN \<and> length r < MAX_USERNAME_LEN \<and> length own < MAX_USERNAME_LEN"
| "request_op_ok (Approve f r own) \<longleftrightarrow> True"
| "request_op_ok (Deny f r own) \<longleftrightarrow> True"

definition request_key :: "AccessRequest \<Rightarrow> cstring \<times> cstring" where
  "request_key q = (ar_filename q, ar_requester q)"

definition pending :: "RequestTable \<Rightarrow> AccessRequest list" where
  "pending t = filter ar_is_pending (rt_requests t)"

definition request_book_of :: "RequestTable \<Rightarrow> request_book" where
  "request_book_of t =
     (\<lambda>k. map_option ar_owner (find (\<lambda>q. request_key q = k) (pending t)), length (rt_requests t))"

definition request_inv :: "RequestTable \<Rightarrow> bool" where
  "request_inv t \<longleftrightarrow> length (rt_requests t) \<le> MAX_REQUESTS \<and> distinct (map request_key (pending t)) \<and>
     (\<forall>q\<in>set (rt_requests t). length (ar_filename q) < MAX_FILENAME_LEN \<and>
       length (ar_requester q) < MAX_USERNAME_LEN \<and> length (ar_owner q) < MAX_USERNAME_LEN)"

section \<open>The table implements the book\<close>

lemma request_inv_init: "request_inv request_table_init"
  by (simp add: request_inv_def request_table_init_def pending_def)

lemma request_book_init: "request_book_of request_table_init = (Map.empty, 0)"
  by (simp add: request_book_of_def request_table_init_def pending_def)

lemma pending_clear_first:
  "pending (t\<lparr>rt_requests := update_first (request_matches f r own) (\<lambda>q. q\<lparr>ar_is_pending := False\<rparr>) qs\<rparr>) =
   remove_first (request_matches f r own) (filter ar_is_pending qs)"
  unfolding pending_def by (induction qs) (auto simp: request_matches_def)

lemma find_matches_pending:
  "find (request_matches f r own) qs = find (request_matches f r own) (filter ar_is_pending qs)"
  by (induction qs) (auto simp: request_matches_def)

text \<open>On distinct pending requests, matching with the owner is matching the key and then checking the owner.\<close>

lemma find_matches_key:
  assumes "distinct (map request_key qs)" and "\<forall>q\<in>set qs. ar_is_pending q"
  shows "find (request_matches f r own) qs =
    (case find (\<lambda>q. request_key q = (f, r)) qs of None \<Rightarrow> None | Some q \<Rightarrow> if ar_owner q = own then Some q else None)"
  using assms
proof (induction qs)
  case (Cons q qs)
  show ?case
  proof (cases "request_key q = (f, r)")
    case True
    then have "\<forall>p\<in>set qs. request_key p \<noteq> (f, r)" by (rule distinct_key_tail [OF Cons.prems(1)])
    then have "find (request_matches f r own) qs = None"
      by (auto simp: find_None_iff request_matches_def request_key_def)
    moreover have "request_matches f r own q \<longleftrightarrow> ar_owner q = own"
      using True Cons.prems(2) by (auto simp: request_matches_def request_key_def)
    ultimately show ?thesis using True by simp
  qed (use Cons in \<open>auto simp: request_matches_def request_key_def\<close>)
qed simp

lemma remove_matches_key:
  assumes "distinct (map request_key qs)" and "\<forall>q\<in>set qs. ar_is_pending q"
    and "find (\<lambda>q. request_key q = (f, r)) qs = Some q0" and "ar_owner q0 = own"
  shows "remove_first (request_matches f r own) qs = remove_first (\<lambda>q. request_key q = (f, r)) qs"
  using assms
proof (induction qs)
  case (Cons q qs)
  then show ?case by (cases "request_key q = (f, r)") (auto simp: request_matches_def request_key_def)
qed simp

lemma request_decide:
  assumes inv: "request_inv t"
  shows "request_inv (snd (request_approve t f r own))"
    and "fst (request_approve t f r own) = fst (decide_spec (request_book_of t) f r own)"
    and "request_book_of (snd (request_approve t f r own)) = snd (decide_spec (request_book_of t) f r own)"
proof -
  have d: "distinct (map request_key (pending t))" and p: "\<forall>q\<in>set (pending t). ar_is_pending q"
    and l: "length (rt_requests t) \<le> MAX_REQUESTS"
    using inv by (auto simp: request_inv_def pending_def)
  let ?m = "request_matches f r own"
  have find: "find ?m (rt_requests t) =
      (case find (\<lambda>q. request_key q = (f, r)) (pending t) of None \<Rightarrow> None | Some q \<Rightarrow> if ar_owner q = own then Some q else None)"
    using find_matches_key [OF d p] find_matches_pending [of f r own "rt_requests t"] by (simp add: pending_def)
  have "request_inv (snd (request_approve t f r own)) \<and>
      fst (request_approve t f r own) = fst (decide_spec (request_book_of t) f r own) \<and>
      request_book_of (snd (request_approve t f r own)) = snd (decide_spec (request_book_of t) f r own)"
  proof (cases "fst (request_book_of t) (f, r) = Some own")
    case True
    then obtain q where q: "find (\<lambda>q. request_key q = (f, r)) (pending t) = Some q" "ar_owner q = own"
      by (auto simp: request_book_of_def)
    let ?t = "t\<lparr>rt_requests := update_first ?m (\<lambda>q. q\<lparr>ar_is_pending := False\<rparr>) (rt_requests t)\<rparr>"
    have run: "request_approve t f r own = (ERR_SUCCESS, ?t)"
      using find q by (simp add: request_approve_def)
    have pend: "pending ?t = remove_first (\<lambda>q. request_key q = (f, r)) (pending t)"
      using remove_matches_key [OF d p q] by (simp add: pending_clear_first) (simp add: pending_def)
    have "fst (request_book_of ?t) = (fst (request_book_of t))((f, r) := None)"
      by (rule ext) (simp add: request_book_of_def pend find_remove_first_key [OF d] find_remove_first_other_key)
    moreover have "request_inv ?t"
      using d l inv by (auto simp: request_inv_def pend distinct_map_remove_first dest!: set_update_first)
    moreover have "snd (request_book_of ?t) = snd (request_book_of t)" by (simp add: request_book_of_def)
    ultimately show ?thesis using True unfolding run decide_spec_def
      by (simp add: prod_eq_iff)
  next
    case False
    then have "find ?m (rt_requests t) = None"
      unfolding find by (auto simp: request_book_of_def split: option.split)
    then have "request_approve t f r own = (ERR_NOT_FOUND, t)" by (simp add: request_approve_def)
    with False inv show ?thesis by (simp add: decide_spec_def)
  qed
  then show "request_inv (snd (request_approve t f r own))"
    and "fst (request_approve t f r own) = fst (decide_spec (request_book_of t) f r own)"
    and "request_book_of (snd (request_approve t f r own)) = snd (decide_spec (request_book_of t) f r own)"
    by blast+
qed

lemma request_add_refines:
  assumes inv: "request_inv t" and ok: "request_op_ok (AddRequest f r own acc now)"
  shows "request_inv (snd (request_add now t f r own acc)) \<and>
    fst (request_add now t f r own acc) = fst (book_step (request_book_of t) (AddRequest f r own acc now)) \<and>
    request_book_of (snd (request_add now t f r own acc)) = snd (book_step (request_book_of t) (AddRequest f r own acc now))"
proof -
  have dup: "(\<exists>q\<in>set (rt_requests t). ar_is_pending q \<and> ar_filename q = f \<and> ar_requester q = r) \<longleftrightarrow>
      fst (request_book_of t) (f, r) \<noteq> None"
    by (auto simp: request_book_of_def pending_def request_key_def find_None_iff)
  consider "length (rt_requests t) \<ge> MAX_REQUESTS"
    | "\<not> length (rt_requests t) \<ge> MAX_REQUESTS" "fst (request_book_of t) (f, r) \<noteq> None"
    | "\<not> length (rt_requests t) \<ge> MAX_REQUESTS" "fst (request_book_of t) (f, r) = None" by blast
  then show ?thesis
  proof cases
    case 1
    then show ?thesis using inv by (simp add: request_add_def request_book_of_def)
  next
    case 2
    then have "request_add now t f r own acc = (ERR_CONFLICT, t)"
      using dup by (simp add: request_add_def)
    with 2 inv show ?thesis by (simp add: request_book_of_def)
  next
    case 3
    let ?q = "\<lparr>ar_filename = f, ar_requester = r, ar_owner = own, ar_request_time = now,
      ar_access_type = acc, ar_is_pending = True\<rparr>"
    let ?t = "t\<lparr>rt_requests := rt_requests t @ [?q]\<rparr>"
    have run: "request_add now t f r own acc = (ERR_SUCCESS, ?t)"
      using 3 dup ok by (simp add: request_add_def cbuf_id)
    have pend: "pending ?t = pending t @ [?q]" by (simp add: pending_def)
    have new: "find (\<lambda>q. request_key q = (f, r)) (pending t) = None"
      using 3(2) by (simp add: request_book_of_def)
    then have "distinct (map request_key (pending ?t))"
      using inv unfolding find_key_none
      by (auto simp: pend request_inv_def request_key_def)
    moreover have "fst (request_book_of ?t) = (fst (request_book_of t))((f, r) \<mapsto> own)"
      using new by (auto simp: fun_eq_iff request_book_of_def pend find_append request_key_def split: option.split)
    ultimately show ?thesis using 3 unfolding run
      by (simp add: request_inv_def prod_eq_iff) (use inv ok in \<open>auto simp: request_book_of_def request_inv_def\<close>)
  qed
qed

lemma request_deny_approve: "request_deny = request_approve"
  by (intro ext) (simp add: request_deny_def request_approve_def)

interpretation request_book: op_refinement request_inv request_op_ok request_book_of request_step book_step
proof unfold_locales
  fix t op assume inv: "request_inv t" and ok: "request_op_ok op"
  show "request_inv (snd (request_step t op))"
    by (cases op) (use request_add_refines [OF inv] ok request_decide(1) [OF inv] in \<open>auto simp: request_deny_approve\<close>)
  show "fst (request_step t op) = fst (book_step (request_book_of t) op)"
    by (cases op) (use request_add_refines [OF inv] ok request_decide(2) [OF inv] in \<open>auto simp: request_deny_approve\<close>)
  show "request_book_of (snd (request_step t op)) = snd (book_step (request_book_of t) op)"
    by (cases op) (use request_add_refines [OF inv] ok request_decide(3) [OF inv] in \<open>auto simp: request_deny_approve\<close>)
qed
section \<open>Properties\<close>

text \<open>
  C29. The request table answers as the book of pending requests does: over any sequence of
  additions, approvals and denials every answer (accepted, conflict, full, not found) and every
  pending request with its owner agree with the specification. So no file and requester has two
  pending requests, only the recorded owner's decision takes one, and once 100 requests have
  been accepted every later one is refused, however many were decided meanwhile.
\<close>

theorem request_table_refines_book:
  assumes "request_inv t" and "list_all request_op_ok ops"
  shows "fst (run_ops request_step t ops) = fst (run_ops book_step (request_book_of t) ops) \<and>
    request_book_of (snd (run_ops request_step t ops)) = snd (run_ops book_step (request_book_of t) ops) \<and>
    request_inv (snd (run_ops request_step t ops))"
  using request_book.runs [OF assms] by blast

theorem request_table_refines_book_witness:
  "fst (run_ops request_step request_table_init
     [AddRequest ''a'' ''bob'' ''eve'' 1 0, AddRequest ''a'' ''bob'' ''eve'' 1 5, Approve ''a'' ''bob'' ''mal'',
      Approve ''a'' ''bob'' ''eve'', Deny ''a'' ''bob'' ''eve'']) =
   [ERR_SUCCESS, ERR_CONFLICT, ERR_NOT_FOUND, ERR_SUCCESS, ERR_NOT_FOUND]"
  using request_table_refines_book [OF request_inv_init,
      of "[AddRequest ''a'' ''bob'' ''eve'' 1 0, AddRequest ''a'' ''bob'' ''eve'' 1 5, Approve ''a'' ''bob'' ''mal'',
        Approve ''a'' ''bob'' ''eve'', Deny ''a'' ''bob'' ''eve'']"]
  by (simp add: request_book_init decide_spec_def)

text \<open>
  The answer to VIEWREQUESTS is complete: what \<open>request_get_for_owner\<close> returns, for a limit
  of at least the table's 100 slots, is exactly the owner's pending requests, each once.
\<close>

theorem request_get_for_owner_exact:
  assumes inv: "request_inv t" and max: "MAX_REQUESTS \<le> n"
  shows "distinct (map request_key (request_get_for_owner t own n)) \<and>
    (\<forall>f r. (f, r) \<in> request_key ` set (request_get_for_owner t own n) \<longleftrightarrow>
      fst (request_book_of t) (f, r) = Some own)"
proof -
  have d: "distinct (map request_key (pending t))" and l: "length (rt_requests t) \<le> MAX_REQUESTS"
    using inv by (auto simp: request_inv_def)
  have "length (filter (\<lambda>q. ar_is_pending q \<and> ar_owner q = own) (rt_requests t)) \<le> n"
    using l max by (meson le_trans length_filter_le)
  then have get: "request_get_for_owner t own n = filter (\<lambda>q. ar_owner q = own) (pending t)"
    by (simp add: request_get_for_owner_def pending_def conj_commute)
  have "(f, r) \<in> request_key ` set (filter (\<lambda>q. ar_owner q = own) (pending t)) \<longleftrightarrow>
      (\<exists>q. q \<in> set (pending t) \<and> request_key q = (f, r) \<and> ar_owner q = own)" for f r
    by (auto simp: image_iff)
  also have "\<dots> f r \<longleftrightarrow> fst (request_book_of t) (f, r) = Some own" for f r
    by (auto simp: request_book_of_def find_key_iff [OF d])
  finally show ?thesis unfolding get using d by (simp add: distinct_map_filter)
qed

theorem request_get_for_owner_exact_witness:
  "\<forall>f r. (f, r) \<in> request_key `
       set (request_get_for_owner (snd (request_add 0 request_table_init ''a'' ''bob'' ''eve'' 1)) ''eve'' 100) \<longleftrightarrow>
     f = ''a'' \<and> r = ''bob''"
proof -
  let ?op = "AddRequest ''a'' ''bob'' ''eve'' 1 0"
  let ?t = "snd (request_add 0 request_table_init ''a'' ''bob'' ''eve'' 1)"
  have "request_inv ?t"
    using request_book.step_inv [OF request_inv_init, of ?op] by simp
  moreover have "fst (request_book_of ?t) = [(''a'', ''bob'') \<mapsto> ''eve'']"
    using request_book.step_abs [OF request_inv_init, of ?op] by (simp add: request_book_init)
  ultimately show ?thesis
    using request_get_for_owner_exact [of ?t 100 "''eve''"] by (simp del: set_map)
qed

end
