(* ===== verification/LRU_Cache.thy ===== *)
theory LRU_Cache
  imports Protocol Refinement "HOL-Library.Monad_Syntax"
begin

text \<open>
  The cache of file locations of \<^verbatim>\<open>nameserver/nameserver.c\<close>: a doubly linked list of nodes,
  the most recently used first, written pointer by pointer as the code does. A node's address
  is a block number; \<open>malloc\<close> hands out the next one and no number is handed out twice, so a
  read or write through a freed or null pointer finds no node. Every operation is therefore
  partial: \<open>None\<close> is undefined behaviour. The specification is a list of pairs; the refinement
  at the end shows that no operation goes wrong and that the two agree.
\<close>

abbreviation LRU_CACHE_SIZE :: nat where "LRU_CACHE_SIZE \<equiv> 100"

type_synonym addr = nat

record LRUNode =
  ln_filename :: cstring
  ln_ss_index :: int
  ln_prev :: "addr option"
  ln_next :: "addr option"

record LRUCache =
  lc_heap :: "addr \<rightharpoonup> LRUNode"
  lc_fresh :: addr
  lc_head :: "addr option"
  lc_tail :: "addr option"
  lc_size :: nat
  lc_hits :: nat
  lc_misses :: nat

definition lru_init :: LRUCache where
  "lru_init = \<lparr>lc_heap = Map.empty, lc_fresh = 0, lc_head = None, lc_tail = None, lc_size = 0,
     lc_hits = 0, lc_misses = 0\<rparr>"

section \<open>Access through a pointer\<close>

definition deref :: "addr \<Rightarrow> LRUCache \<Rightarrow> LRUNode option" where
  "deref a c = lc_heap c a"

definition write_node :: "addr \<Rightarrow> (LRUNode \<Rightarrow> LRUNode) \<Rightarrow> LRUCache \<Rightarrow> LRUCache option" where
  "write_node a f c =
     (case lc_heap c a of None \<Rightarrow> None | Some n \<Rightarrow> Some (c\<lparr>lc_heap := (lc_heap c)(a \<mapsto> f n)\<rparr>))"

text \<open>\<open>if (p) p->next = v\<close> and \<open>if (p) p->prev = v\<close>.\<close>

definition write_next_if :: "addr option \<Rightarrow> addr option \<Rightarrow> LRUCache \<Rightarrow> LRUCache option" where
  "write_next_if p v c = (case p of None \<Rightarrow> Some c | Some a \<Rightarrow> write_node a (\<lambda>n. n\<lparr>ln_next := v\<rparr>) c)"

definition write_prev_if :: "addr option \<Rightarrow> addr option \<Rightarrow> LRUCache \<Rightarrow> LRUCache option" where
  "write_prev_if p v c = (case p of None \<Rightarrow> Some c | Some a \<Rightarrow> write_node a (\<lambda>n. n\<lparr>ln_prev := v\<rparr>) c)"

text \<open>\<open>free (p)\<close>.\<close>

definition free_node :: "addr \<Rightarrow> LRUCache \<Rightarrow> LRUCache option" where
  "free_node a c =
     (case lc_heap c a of None \<Rightarrow> None | Some _ \<Rightarrow> Some (c\<lparr>lc_heap := (lc_heap c)(a := None)\<rparr>))"

section \<open>The operations\<close>

definition lru_move_to_front :: "addr \<Rightarrow> LRUCache \<Rightarrow> LRUCache option" where
  "lru_move_to_front node c =
     (if Some node = lc_head c then Some c
      else do {
        n \<leftarrow> deref node c;
        c \<leftarrow> write_next_if (ln_prev n) (ln_next n) c;
        n \<leftarrow> deref node c;
        c \<leftarrow> write_prev_if (ln_next n) (ln_prev n) c;
        n \<leftarrow> deref node c;
        c \<leftarrow> Some (if Some node = lc_tail c then c\<lparr>lc_tail := ln_prev n\<rparr> else c);
        c \<leftarrow> write_node node (\<lambda>n. n\<lparr>ln_prev := None\<rparr>) c;
        c \<leftarrow> write_node node (\<lambda>n. n\<lparr>ln_next := lc_head c\<rparr>) c;
        c \<leftarrow> write_prev_if (lc_head c) (Some node) c;
        c \<leftarrow> Some (c\<lparr>lc_head := Some node\<rparr>);
        Some (if lc_tail c = None then c\<lparr>lc_tail := Some node\<rparr> else c)
      })"

text \<open>
  The loop \<open>while (current) { if (strcmp \<dots> == 0) \<dots>; current = current->next; }\<close>: it may run
  forever on a cyclic list, so it is a partial function; its result is the node found.
\<close>

partial_function (option) lru_walk :: "LRUCache \<Rightarrow> cstring \<Rightarrow> addr option \<Rightarrow> addr option option" where
  "lru_walk c filename current =
     (case current of
        None \<Rightarrow> Some None
      | Some a \<Rightarrow>
          Option.bind (deref a c) (\<lambda>n.
            if ln_filename n = filename then Some (Some a) else lru_walk c filename (ln_next n)))"

definition lru_get :: "cstring \<Rightarrow> LRUCache \<Rightarrow> (int \<times> LRUCache) option" where
  "lru_get filename c =
     do {
       found \<leftarrow> lru_walk c filename (lc_head c);
       (case found of
          Some current \<Rightarrow>
            do {
              c \<leftarrow> lru_move_to_front current (c\<lparr>lc_hits := lc_hits c + 1\<rparr>);
              n \<leftarrow> deref current c;
              Some (ln_ss_index n, c)
            }
        | None \<Rightarrow> Some (-1, c\<lparr>lc_misses := lc_misses c + 1\<rparr>))
     }"

text \<open>The eviction at the end of \<open>lru_put\<close>.\<close>

definition lru_evict :: "LRUCache \<Rightarrow> LRUCache option" where
  "lru_evict c =
     (if lc_size c > LRU_CACHE_SIZE then
        do {
          old \<leftarrow> lc_tail c;
          n \<leftarrow> deref old c;
          c \<leftarrow> Some (c\<lparr>lc_tail := ln_prev n\<rparr>);
          c \<leftarrow> (case lc_tail c of
                  Some _ \<Rightarrow> write_next_if (lc_tail c) None c
                | None \<Rightarrow> Some (c\<lparr>lc_head := None\<rparr>));
          c \<leftarrow> free_node old c;
          Some (c\<lparr>lc_size := lc_size c - 1\<rparr>)
        }
      else Some c)"

text \<open>\<open>mem\<close> says whether \<open>malloc\<close> finds memory.\<close>

definition lru_put :: "bool \<Rightarrow> cstring \<Rightarrow> int \<Rightarrow> LRUCache \<Rightarrow> LRUCache option" where
  "lru_put mem filename ss_index c =
     do {
       found \<leftarrow> lru_walk c filename (lc_head c);
       (case found of
          Some current \<Rightarrow>
            do {
              c \<leftarrow> write_node current (\<lambda>n. n\<lparr>ln_ss_index := ss_index\<rparr>) c;
              lru_move_to_front current c
            }
        | None \<Rightarrow>
            if \<not> mem then Some c
            else do {
              node \<leftarrow> Some (lc_fresh c);
              c \<leftarrow> Some (c\<lparr>lc_fresh := Suc node,
                lc_heap := (lc_heap c)(node \<mapsto> \<lparr>ln_filename = cbuf MAX_FILENAME_LEN filename,
                  ln_ss_index = ss_index, ln_prev = None, ln_next = lc_head c\<rparr>)\<rparr>);
              c \<leftarrow> write_prev_if (lc_head c) (Some node) c;
              c \<leftarrow> Some (c\<lparr>lc_head := Some node\<rparr>);
              c \<leftarrow> Some (if lc_tail c = None then c\<lparr>lc_tail := Some node\<rparr> else c);
              lru_evict (c\<lparr>lc_size := lc_size c + 1\<rparr>)
            })
     }"

definition lru_invalidate :: "cstring \<Rightarrow> LRUCache \<Rightarrow> LRUCache option" where
  "lru_invalidate filename c =
     do {
       found \<leftarrow> lru_walk c filename (lc_head c);
       (case found of
          None \<Rightarrow> Some c
        | Some current \<Rightarrow>
            do {
              n \<leftarrow> deref current c;
              c \<leftarrow> write_next_if (ln_prev n) (ln_next n) c;
              n \<leftarrow> deref current c;
              c \<leftarrow> write_prev_if (ln_next n) (ln_prev n) c;
              n \<leftarrow> deref current c;
              c \<leftarrow> Some (if Some current = lc_head c then c\<lparr>lc_head := ln_next n\<rparr> else c);
              c \<leftarrow> Some (if Some current = lc_tail c then c\<lparr>lc_tail := ln_prev n\<rparr> else c);
              c \<leftarrow> free_node current c;
              Some (c\<lparr>lc_size := lc_size c - 1\<rparr>)
            })
     }"

section \<open>Specification\<close>

datatype lru_op = LGet cstring | LPut bool cstring int | LInvalidate cstring

text \<open>The cache as a list of file names and locations, the most recently used first.\<close>

fun lru_spec :: "(cstring \<times> int) list \<Rightarrow> lru_op \<Rightarrow> int option \<times> (cstring \<times> int) list" where
  "lru_spec es (LGet f) =
     (case map_of es f of
        Some i \<Rightarrow> (Some i, (f, i) # filter (\<lambda>e. fst e \<noteq> f) es)
      | None \<Rightarrow> (Some (- 1), es))"
| "lru_spec es (LPut mem f i) =
     (Some 0,
      if map_of es f \<noteq> None then (f, i) # filter (\<lambda>e. fst e \<noteq> f) es
      else if mem then take LRU_CACHE_SIZE ((f, i) # es)
      else es)"
| "lru_spec es (LInvalidate f) = (Some 0, filter (\<lambda>e. fst e \<noteq> f) es)"

text \<open>One call on the cache; \<open>None\<close> in the answer is undefined behaviour.\<close>

fun lru_step :: "LRUCache \<Rightarrow> lru_op \<Rightarrow> int option \<times> LRUCache" where
  "lru_step c (LGet f) = (case lru_get f c of None \<Rightarrow> (None, c) | Some (i, c') \<Rightarrow> (Some i, c'))"
| "lru_step c (LPut mem f i) = (case lru_put mem f i c of None \<Rightarrow> (None, c) | Some c' \<Rightarrow> (Some 0, c'))"
| "lru_step c (LInvalidate f) = (case lru_invalidate f c of None \<Rightarrow> (None, c) | Some c' \<Rightarrow> (Some 0, c'))"

fun lru_op_ok :: "lru_op \<Rightarrow> bool" where
  "lru_op_ok (LGet f) \<longleftrightarrow> True"
| "lru_op_ok (LPut mem f i) \<longleftrightarrow> length f < MAX_FILENAME_LEN"
| "lru_op_ok (LInvalidate f) \<longleftrightarrow> True"

section \<open>Doubly linked segments\<close>

type_synonym cell = "addr \<times> cstring \<times> int"

definition first_of :: "cell list \<Rightarrow> addr option \<Rightarrow> addr option" where
  "first_of ns nx = (case ns of [] \<Rightarrow> nx | (a, _) # _ \<Rightarrow> Some a)"

definition last_of :: "addr option \<Rightarrow> cell list \<Rightarrow> addr option" where
  "last_of p ns = (if ns = [] then p else Some (fst (last ns)))"

text \<open>
  \<open>dlseg h p ns nx\<close>: the cells \<open>ns\<close> lie in \<open>h\<close> in this order, linked both ways, the first
  one's \<open>prev\<close> being \<open>p\<close> and the last one's \<open>next\<close> being \<open>nx\<close>.
\<close>

fun dlseg :: "(addr \<rightharpoonup> LRUNode) \<Rightarrow> addr option \<Rightarrow> cell list \<Rightarrow> addr option \<Rightarrow> bool" where
  "dlseg h p [] nx \<longleftrightarrow> True"
| "dlseg h p ((a, f, i) # ns) nx \<longleftrightarrow>
     h a = Some \<lparr>ln_filename = f, ln_ss_index = i, ln_prev = p, ln_next = first_of ns nx\<rparr> \<and>
     dlseg h (Some a) ns nx"

definition lru_rep :: "LRUCache \<Rightarrow> cell list \<Rightarrow> bool" where
  "lru_rep c ns \<longleftrightarrow>
     dlseg (lc_heap c) None ns None \<and> distinct (map fst ns) \<and> dom (lc_heap c) = fst ` set ns \<and>
     (\<forall>a\<in>fst ` set ns. a < lc_fresh c) \<and>
     lc_head c = first_of ns None \<and> lc_tail c = last_of None ns \<and> lc_size c = length ns"

lemma first_of_simps [simp]:
  "first_of [] nx = nx" "first_of ((a, d) # ns) nx = Some a"
  by (simp_all add: first_of_def)

lemma first_of_append [simp]: "first_of (xs @ ys) nx = first_of xs (first_of ys nx)"
  by (cases xs) auto

lemma last_of_simps [simp]:
  "last_of p [] = p" "last_of p (n # ns) = last_of (Some (fst n)) ns" "last_of p (ns @ [n]) = Some (fst n)"
  by (simp_all add: last_of_def)

lemma last_of_append [simp]: "last_of p (xs @ ys) = last_of (last_of p xs) ys"
  by (simp add: last_of_def)

lemma dlseg_append [simp]:
  "dlseg h p (xs @ ys) nx \<longleftrightarrow> dlseg h p xs (first_of ys nx) \<and> dlseg h (last_of p xs) ys nx"
  by (induction h p xs nx rule: dlseg.induct) auto

lemma dlseg_frame [simp]: "a \<notin> fst ` set ns \<Longrightarrow> dlseg (h(a := v)) p ns nx \<longleftrightarrow> dlseg h p ns nx"
  by (induction h p ns nx rule: dlseg.induct) auto

lemma dlseg_in: "dlseg h p ns nx \<Longrightarrow> (a, f, i) \<in> set ns \<Longrightarrow> \<exists>n. h a = Some n \<and> ln_filename n = f \<and> ln_ss_index n = i"
  by (induction h p ns nx rule: dlseg.induct) auto

lemma dlseg_cong: "\<forall>a\<in>fst ` set ns. h a = h' a \<Longrightarrow> dlseg h p ns nx \<longleftrightarrow> dlseg h' p ns nx"
  by (induction h p ns nx rule: dlseg.induct) auto

text \<open>Writing the \<open>next\<close> of a segment's last node and the \<open>prev\<close> of its first node.\<close>

lemma write_next_last:
  assumes "dlseg (lc_heap c) p xs nx" and "distinct (map fst xs)"
  obtains h where "write_next_if (last_of None xs) v c = Some (c\<lparr>lc_heap := h\<rparr>)" "dlseg h p xs v"
    "\<forall>b. b \<notin> fst ` set xs \<longrightarrow> h b = lc_heap c b" "dom h = dom (lc_heap c)"
proof (cases xs rule: rev_cases)
  case Nil
  then show ?thesis by (intro that [of "lc_heap c"]) (simp_all add: write_next_if_def)
next
  case (snoc ys y)
  obtain a f i where y: "y = (a, f, i)" by (cases y)
  have a: "a \<notin> fst ` set ys" and h: "lc_heap c a =
      Some \<lparr>ln_filename = f, ln_ss_index = i, ln_prev = last_of p ys, ln_next = nx\<rparr>"
    using assms by (auto simp: snoc y)
  show ?thesis
    by (rule that [of "(lc_heap c)(a \<mapsto> \<lparr>ln_filename = f, ln_ss_index = i, ln_prev = last_of p ys, ln_next = v\<rparr>)"])
      (use assms a h in \<open>auto simp: snoc y write_next_if_def write_node_def\<close>)
qed

lemma write_prev_first:
  assumes "dlseg (lc_heap c) p ys nx" and "distinct (map fst ys)"
  obtains h where "write_prev_if (first_of ys None) v c = Some (c\<lparr>lc_heap := h\<rparr>)" "dlseg h v ys nx"
    "\<forall>b. b \<notin> fst ` set ys \<longrightarrow> h b = lc_heap c b" "dom h = dom (lc_heap c)"
proof (cases ys)
  case Nil
  then show ?thesis by (intro that [of "lc_heap c"]) (simp_all add: write_prev_if_def)
next
  case (Cons y zs)
  obtain a f i where y: "y = (a, f, i)" by (cases y)
  have a: "a \<notin> fst ` set zs" and h: "lc_heap c a =
      Some \<lparr>ln_filename = f, ln_ss_index = i, ln_prev = p, ln_next = first_of zs nx\<rparr>"
    using assms by (auto simp: Cons y)
  show ?thesis
    by (rule that [of "(lc_heap c)(a \<mapsto> \<lparr>ln_filename = f, ln_ss_index = i, ln_prev = v, ln_next = first_of zs nx\<rparr>)"])
      (use assms a h in \<open>auto simp: Cons y write_prev_if_def write_node_def\<close>)
qed

text \<open>The two writes that take a node out of the list.\<close>

lemma unlink_node:
  assumes rep: "lru_rep c (xs @ (a, f, i) # ys)"
    and n: "n = \<lparr>ln_filename = f, ln_ss_index = i, ln_prev = last_of None xs, ln_next = first_of ys None\<rparr>"
  obtains h1 h where
    "write_next_if (last_of None xs) (first_of ys None) c = Some (c\<lparr>lc_heap := h1\<rparr>)"
    "write_prev_if (first_of ys None) (last_of None xs) (c\<lparr>lc_heap := h1\<rparr>) = Some (c\<lparr>lc_heap := h\<rparr>)"
    "lc_heap c a = Some n" "h1 a = Some n" "h a = Some n"
    "dlseg h None (xs @ ys) None" "dom h = dom (lc_heap c)"
proof -
  have seg: "dlseg (lc_heap c) None xs (Some a)" "dlseg (lc_heap c) (Some a) ys None" "lc_heap c a = Some n"
    and d: "distinct (map fst xs)" "distinct (map fst ys)" "a \<notin> fst ` set xs" "a \<notin> fst ` set ys"
      "fst ` set xs \<inter> fst ` set ys = {}"
    using rep n by (auto simp: lru_rep_def)
  obtain h1 where h1: "write_next_if (last_of None xs) (first_of ys None) c = Some (c\<lparr>lc_heap := h1\<rparr>)"
    "dlseg h1 None xs (first_of ys None)" "\<forall>b. b \<notin> fst ` set xs \<longrightarrow> h1 b = lc_heap c b" "dom h1 = dom (lc_heap c)"
    by (rule write_next_last [OF seg(1) d(1), of "first_of ys None"])
  have ys: "dlseg h1 (Some a) ys None"
    using seg(2) h1(3) d(5) dlseg_cong [of ys h1 "lc_heap c"] by blast
  have "dlseg (lc_heap (c\<lparr>lc_heap := h1\<rparr>)) (Some a) ys None" using ys by simp
  then obtain h where "write_prev_if (first_of ys None) (last_of None xs) (c\<lparr>lc_heap := h1\<rparr>) = Some ((c\<lparr>lc_heap := h1\<rparr>)\<lparr>lc_heap := h\<rparr>)"
    "dlseg h (last_of None xs) ys None" "\<forall>b. b \<notin> fst ` set ys \<longrightarrow> h b = lc_heap (c\<lparr>lc_heap := h1\<rparr>) b"
    "dom h = dom (lc_heap (c\<lparr>lc_heap := h1\<rparr>))"
    by (rule write_prev_first [OF _ d(2)])
  then have h: "write_prev_if (first_of ys None) (last_of None xs) (c\<lparr>lc_heap := h1\<rparr>) = Some (c\<lparr>lc_heap := h\<rparr>)"
    "dlseg h (last_of None xs) ys None" "\<forall>b. b \<notin> fst ` set ys \<longrightarrow> h b = h1 b" "dom h = dom h1"
    by simp_all
  have "dlseg h None xs (first_of ys None)"
    using h1(2) h(3) d(5) dlseg_cong [of xs h h1] by blast
  with h show ?thesis using that [of h1 h] h1 seg(3) d(3,4) by auto
qed


text \<open>The write that completes the insertion of a node before the head.\<close>

lemma link_front:
  assumes "dlseg (lc_heap c) None ns None" and "distinct (map fst ns)" and a: "a \<notin> fst ` set ns"
    and node: "lc_heap c a = Some \<lparr>ln_filename = f, ln_ss_index = i, ln_prev = None, ln_next = first_of ns None\<rparr>"
  obtains h where "write_prev_if (first_of ns None) (Some a) c = Some (c\<lparr>lc_heap := h\<rparr>)"
    "dlseg h None ((a, f, i) # ns) None" "dom h = dom (lc_heap c)"
proof -
  obtain h where h: "write_prev_if (first_of ns None) (Some a) c = Some (c\<lparr>lc_heap := h\<rparr>)" "dlseg h (Some a) ns None"
    "\<forall>b. b \<notin> fst ` set ns \<longrightarrow> h b = lc_heap c b" "dom h = dom (lc_heap c)"
    by (rule write_prev_first [OF assms(1,2), of "Some a"])
  then show ?thesis using that [of h] node a by simp
qed

lemma last_of_nonempty: "xs \<noteq> [] \<Longrightarrow> last_of p xs = last_of q xs"
  by (simp add: last_of_def)

lemma first_of_nonempty: "xs \<noteq> [] \<Longrightarrow> first_of xs p = first_of xs q"
  by (cases xs) auto

lemma move_to_front_refines:
  assumes rep: "lru_rep c (xs @ (a, f, i) # ys)"
  shows "\<exists>c'. lru_move_to_front a c = Some c' \<and> lru_rep c' ((a, f, i) # xs @ ys)"
proof (cases "xs = []")
  case True
  then show ?thesis using rep by (intro exI [of _ c]) (simp add: lru_move_to_front_def lru_rep_def)
next
  case False
  let ?n = "\<lparr>ln_filename = f, ln_ss_index = i, ln_prev = last_of None xs, ln_next = first_of ys None\<rparr>"
  obtain h1 h where u: "write_next_if (last_of None xs) (first_of ys None) c = Some (c\<lparr>lc_heap := h1\<rparr>)"
    "write_prev_if (first_of ys None) (last_of None xs) (c\<lparr>lc_heap := h1\<rparr>) = Some (c\<lparr>lc_heap := h\<rparr>)"
    "lc_heap c a = Some ?n" "h1 a = Some ?n" "h a = Some ?n" "dlseg h None (xs @ ys) None" "dom h = dom (lc_heap c)"
    using unlink_node [OF rep refl] by metis
  have d: "distinct (map fst (xs @ ys))" "a \<notin> fst ` set (xs @ ys)" using rep by (auto simp: lru_rep_def)
  have head: "lc_head c = first_of (xs @ ys) None" "lc_head c \<noteq> Some a"
    using rep False d by (cases xs; auto simp: lru_rep_def)+
  have tail: "(if Some a = lc_tail c then last_of None xs else lc_tail c) = last_of None (xs @ ys)"
    "last_of None (xs @ ys) \<noteq> None"
    using rep False d by (cases ys rule: rev_cases; auto simp: lru_rep_def last_of_def)+
  let ?t = "last_of None (xs @ ys)"
  let ?h = "h(a \<mapsto> \<lparr>ln_filename = f, ln_ss_index = i, ln_prev = None, ln_next = lc_head c\<rparr>)"
  let ?c = "c\<lparr>lc_tail := ?t, lc_heap := ?h\<rparr>"
  have seg: "dlseg (lc_heap ?c) None (xs @ ys) None" using u(6) d(2) by (simp del: dlseg_append set_append)
  have node: "lc_heap ?c a = Some \<lparr>ln_filename = f, ln_ss_index = i, ln_prev = None, ln_next = first_of (xs @ ys) None\<rparr>"
    using head(1) by simp
  obtain g where g: "write_prev_if (first_of (xs @ ys) None) (Some a) ?c = Some (?c\<lparr>lc_heap := g\<rparr>)"
    "dlseg g None ((a, f, i) # xs @ ys) None" "dom g = dom (lc_heap ?c)"
    by (rule link_front [OF seg d node])
  have "lru_move_to_front a c = Some (?c\<lparr>lc_heap := g, lc_head := Some a\<rparr>)"
  proof (cases "Some a = lc_tail c")
    case True
    then have "last_of None xs = ?t" using tail(1) by simp
    with True u head(2) g(1) tail(2) show ?thesis
      by (auto simp add: lru_move_to_front_def deref_def write_node_def head(1) [symmetric] simp del: last_of_append first_of_append)
  next
    case False
    then have "lc_tail c = ?t" using tail(1) by simp
    then have "c\<lparr>lc_tail := ?t\<rparr> = c" "lc_tail c \<noteq> None" using tail(2) by (cases c; simp)+
    with False u head(2) g(1) tail(2) show ?thesis
      by (auto simp add: lru_move_to_front_def deref_def write_node_def head(1) [symmetric] simp del: last_of_append first_of_append)
  qed
  moreover have "lru_rep (?c\<lparr>lc_heap := g, lc_head := Some a\<rparr>) ((a, f, i) # xs @ ys)"
    using rep g(2,3) u(5,7) last_of_nonempty [OF False, of None "Some a"] by (auto simp: lru_rep_def)
  ultimately show ?thesis by blast
qed


section \<open>The operations refine the list\<close>

lemma walk_segment:
  "dlseg (lc_heap c) p ns None \<Longrightarrow>
   lru_walk c f (first_of ns None) = Some (map_option fst (find (\<lambda>n. fst (snd n) = f) ns))"
proof (induction ns arbitrary: p)
  case Nil
  then show ?case by (simp add: lru_walk.simps)
next
  case (Cons n ns)
  obtain a g i where n: "n = (a, g, i)" by (cases n)
  have "dlseg (lc_heap c) (Some a) ns None" using Cons.prems by (simp add: n)
  from Cons.IH [OF this] Cons.prems show ?case
    by (simp add: n lru_walk.simps [of c f "Some a"] deref_def)
qed

lemma walk_rep: "lru_rep c ns \<Longrightarrow> lru_walk c f (lc_head c) = Some (map_option fst (find (\<lambda>n. fst (snd n) = f) ns))"
  by (auto simp: lru_rep_def dest: walk_segment)

lemma find_split: "find P xs = Some x \<Longrightarrow> \<exists>ys zs. xs = ys @ x # zs \<and> P x \<and> (\<forall>y\<in>set ys. \<not> P y)"
  by (induction xs) (auto split: if_splits intro: exI [of _ "[]"] append_Cons [symmetric], metis Cons_eq_appendI set_ConsD)

lemma invalidate_refines:
  assumes rep: "lru_rep c ns"
  shows "\<exists>c'. lru_invalidate f c = Some c' \<and> lru_rep c' (remove_first (\<lambda>n. fst (snd n) = f) ns)"
proof (cases "find (\<lambda>n. fst (snd n) = f) ns")
  case None
  then have "\<forall>n\<in>set ns. fst (snd n) \<noteq> f" unfolding find_None_iff by blast
  then have "remove_first (\<lambda>n. fst (snd n) = f) ns = ns" by (rule remove_first_none)
  then show ?thesis using walk_rep [OF rep, of f] None rep by (simp add: lru_invalidate_def)
next
  case (Some n)
  then obtain xs ys a i where ns: "ns = xs @ (a, f, i) # ys" and xs: "\<forall>n\<in>set xs. fst (snd n) \<noteq> f"
    and n: "n = (a, f, i)"
    by (cases n) (auto dest!: find_split)
  have rem: "remove_first (\<lambda>n. fst (snd n) = f) ns = xs @ ys"
    unfolding ns using xs by (induction xs) auto
  let ?n = "\<lparr>ln_filename = f, ln_ss_index = i, ln_prev = last_of None xs, ln_next = first_of ys None\<rparr>"
  obtain h1 h where u: "write_next_if (last_of None xs) (first_of ys None) c = Some (c\<lparr>lc_heap := h1\<rparr>)"
    "write_prev_if (first_of ys None) (last_of None xs) (c\<lparr>lc_heap := h1\<rparr>) = Some (c\<lparr>lc_heap := h\<rparr>)"
    "lc_heap c a = Some ?n" "h1 a = Some ?n" "h a = Some ?n" "dlseg h None (xs @ ys) None" "dom h = dom (lc_heap c)"
    using unlink_node [OF rep [unfolded ns] refl] by metis
  have d: "distinct (map fst (xs @ ys))" "a \<notin> fst ` set (xs @ ys)" using rep by (auto simp: ns lru_rep_def)
  have head: "(if Some a = lc_head c then first_of ys None else lc_head c) = first_of (xs @ ys) None"
    using rep d(2) by (cases xs) (auto simp: ns lru_rep_def)
  have tail: "(if Some a = lc_tail c then last_of None xs else lc_tail c) = last_of None (xs @ ys)"
    using rep d(2) by (cases ys rule: rev_cases) (auto simp: ns lru_rep_def last_of_def)
  obtain c' where c': "lru_invalidate f c = Some c'" "lc_heap c' = h(a := None)" "lc_head c' = first_of (xs @ ys) None"
    "lc_tail c' = last_of None (xs @ ys)" "lc_size c' = lc_size c - 1" "lc_fresh c' = lc_fresh c"
    using walk_rep [OF rep, of f] Some n u head tail
    by (auto simp: lru_invalidate_def deref_def free_node_def simp del: last_of_append first_of_append split: if_splits)
  have seg: "dlseg (h(a := None)) None (xs @ ys) None" using u(6) d(2) by (simp del: dlseg_append set_append)
  have "lru_rep c' (xs @ ys)" unfolding lru_rep_def c'(2-6)
    using seg d rep u(7) by (auto simp: ns lru_rep_def simp del: dlseg_append)
  with c'(1) rem show ?thesis by auto
qed


lemma get_refines:
  assumes rep: "lru_rep c ns"
  shows "\<exists>c'. lru_get f c =
      Some (case find (\<lambda>n. fst (snd n) = f) ns of None \<Rightarrow> - 1 | Some n \<Rightarrow> snd (snd n), c') \<and>
    lru_rep c' (case find (\<lambda>n. fst (snd n) = f) ns of None \<Rightarrow> ns
      | Some n \<Rightarrow> n # remove_first (\<lambda>n. fst (snd n) = f) ns)"
proof (cases "find (\<lambda>n. fst (snd n) = f) ns")
  case None
  then show ?thesis using walk_rep [OF rep, of f] rep by (simp add: lru_get_def lru_rep_def)
next
  case (Some n)
  then obtain xs ys a i where ns: "ns = xs @ (a, f, i) # ys" and xs: "\<forall>n\<in>set xs. fst (snd n) \<noteq> f"
    and n: "n = (a, f, i)"
    by (cases n) (auto dest!: find_split)
  have rem: "remove_first (\<lambda>n. fst (snd n) = f) ns = xs @ ys"
    unfolding ns using xs by (induction xs) auto
  have "lru_rep (c\<lparr>lc_hits := lc_hits c + 1\<rparr>) (xs @ (a, f, i) # ys)"
    using rep by (simp add: ns lru_rep_def)
  from move_to_front_refines [OF this] obtain c' where
    c': "lru_move_to_front a (c\<lparr>lc_hits := lc_hits c + 1\<rparr>) = Some c'" "lru_rep c' ((a, f, i) # xs @ ys)"
    by blast
  have "deref a c' = Some \<lparr>ln_filename = f, ln_ss_index = i, ln_prev = None, ln_next = first_of (xs @ ys) None\<rparr>"
    using c'(2) by (simp add: deref_def lru_rep_def)
  then show ?thesis using walk_rep [OF rep, of f] Some n c' rem by (simp add: lru_get_def)
qed

lemma evict_refines:
  assumes rep: "lru_rep c ns" and bound: "length ns \<le> Suc LRU_CACHE_SIZE"
  shows "\<exists>c'. lru_evict c = Some c' \<and> lru_rep c' (take LRU_CACHE_SIZE ns)"
proof (cases "length ns \<le> LRU_CACHE_SIZE")
  case True
  with rep show ?thesis by (simp add: lru_evict_def lru_rep_def)
next
  case False
  then obtain ms x where ns: "ns = ms @ [x]" and ms: "length ms = LRU_CACHE_SIZE"
    using bound by (cases ns rule: rev_cases) auto
  obtain a f i where x: "x = (a, f, i)" by (cases x)
  have "ms \<noteq> []" using ms by auto
  then obtain b where b: "last_of None ms = Some b" by (auto simp: last_of_def)
  have seg: "dlseg (lc_heap c) None ms (Some a)" "distinct (map fst ms)" "a \<notin> fst ` set ms"
    "lc_heap c a = Some \<lparr>ln_filename = f, ln_ss_index = i, ln_prev = Some b, ln_next = None\<rparr>"
    "lc_tail c = Some a" "lc_size c = Suc LRU_CACHE_SIZE"
    using rep b ms by (auto simp: ns x lru_rep_def)
  let ?c = "c\<lparr>lc_tail := Some b\<rparr>"
  have "dlseg (lc_heap ?c) None ms (Some a)" using seg(1) by simp
  then obtain h where h: "write_next_if (last_of None ms) None ?c = Some (?c\<lparr>lc_heap := h\<rparr>)" "dlseg h None ms None"
    "\<forall>b. b \<notin> fst ` set ms \<longrightarrow> h b = lc_heap ?c b" "dom h = dom (lc_heap ?c)"
    by (rule write_next_last [OF _ seg(2)])
  have "h a = lc_heap c a" using h(3) seg(3) by simp
  then have "lru_evict c = Some (?c\<lparr>lc_heap := h(a := None), lc_size := LRU_CACHE_SIZE\<rparr>)"
    using seg(4-6) h(1) b by (simp add: lru_evict_def deref_def free_node_def)
  moreover have "lru_rep (?c\<lparr>lc_heap := h(a := None), lc_size := LRU_CACHE_SIZE\<rparr>) ms"
    using rep h(2,4) seg(2,3) ms b first_of_nonempty [OF \<open>ms \<noteq> []\<close>, of "Some a" None]
    by (auto simp: ns x lru_rep_def)
  ultimately show ?thesis using ms by (simp add: ns)
qed

lemma put_refines:
  assumes rep: "lru_rep c ns" and len: "length f < MAX_FILENAME_LEN" and bound: "length ns \<le> LRU_CACHE_SIZE"
  shows "\<exists>c' a. lru_put mem f i c = Some c' \<and>
    lru_rep c' (if find (\<lambda>n. fst (snd n) = f) ns \<noteq> None then (a, f, i) # remove_first (\<lambda>n. fst (snd n) = f) ns
      else if mem then take LRU_CACHE_SIZE ((a, f, i) # ns) else ns)"
proof (cases "find (\<lambda>n. fst (snd n) = f) ns")
  case (Some n)
  then obtain xs ys a j where ns: "ns = xs @ (a, f, j) # ys" and xs: "\<forall>n\<in>set xs. fst (snd n) \<noteq> f"
    and n: "n = (a, f, j)"
    by (cases n) (auto dest!: find_split)
  have rem: "remove_first (\<lambda>n. fst (snd n) = f) ns = xs @ ys"
    unfolding ns using xs by (induction xs) auto
  have d: "a \<notin> fst ` set xs" "a \<notin> fst ` set ys" using rep by (auto simp: ns lru_rep_def)
  let ?c = "c\<lparr>lc_heap := (lc_heap c)(a \<mapsto> \<lparr>ln_filename = f, ln_ss_index = i,
    ln_prev = last_of None xs, ln_next = first_of ys None\<rparr>)\<rparr>"
  have w: "write_node a (\<lambda>n. n\<lparr>ln_ss_index := i\<rparr>) c = Some ?c"
    using rep by (simp add: ns lru_rep_def write_node_def)
  have "lru_rep ?c (xs @ (a, f, i) # ys)"
    using rep d by (auto simp: ns lru_rep_def last_of_def)
  from move_to_front_refines [OF this] show ?thesis
    using walk_rep [OF rep, of f] Some n w rem by (auto simp: lru_put_def)
next
  case None
  show ?thesis
  proof (cases mem)
    case False
    then show ?thesis using walk_rep [OF rep, of f] None rep by (simp add: lru_put_def)
  next
    case True
    let ?a = "lc_fresh c"
    have new: "?a \<notin> fst ` set ns" using rep by (auto simp: lru_rep_def)
    let ?n = "\<lparr>ln_filename = f, ln_ss_index = i, ln_prev = None, ln_next = first_of ns None\<rparr>"
    let ?c = "c\<lparr>lc_fresh := Suc ?a, lc_heap := (lc_heap c)(?a \<mapsto> ?n)\<rparr>"
    have seg: "dlseg (lc_heap ?c) None ns None" "distinct (map fst ns)" "lc_heap ?c ?a = Some ?n"
      using rep new by (simp_all add: lru_rep_def)
    obtain h where h: "write_prev_if (first_of ns None) (Some ?a) ?c = Some (?c\<lparr>lc_heap := h\<rparr>)"
      "dlseg h None ((?a, f, i) # ns) None" "dom h = dom (lc_heap ?c)"
      by (rule link_front [OF seg(1,2) new seg(3)])
    have head: "lc_head c = first_of ns None" and tail: "lc_tail c = last_of None ns" and size: "lc_size c = length ns"
      using rep by (simp_all add: lru_rep_def)
    let ?d = "?c\<lparr>lc_heap := h, lc_head := Some ?a, lc_tail := last_of None ((?a, f, i) # ns), lc_size := Suc (length ns)\<rparr>"
    have "(if lc_tail c = None then Some ?a else lc_tail c) = last_of None ((?a, f, i) # ns)"
      unfolding tail by (cases ns rule: rev_cases) simp_all
    then have "lru_put mem f i c = lru_evict ?d"
      using walk_rep [OF rep, of f] None True h(1) [folded head] len size
      by (cases c) (auto simp: lru_put_def cbuf_id split: if_splits)
    moreover have "lru_rep ?d ((?a, f, i) # ns)"
      using rep h(2,3) new by (auto simp: lru_rep_def)
    ultimately show ?thesis using evict_refines [of ?d "(?a, f, i) # ns"] bound None True by auto
  qed
qed


section \<open>Refinement of whole runs\<close>

text \<open>The list held by a cache, read along the \<open>next\<close> pointers for at most \<open>size\<close> nodes.\<close>

fun collect :: "nat \<Rightarrow> (addr \<rightharpoonup> LRUNode) \<Rightarrow> addr option \<Rightarrow> (cstring \<times> int) list" where
  "collect 0 h p = []"
| "collect (Suc k) h p =
     (case p of
        None \<Rightarrow> []
      | Some a \<Rightarrow>
          (case h a of
             None \<Rightarrow> []
           | Some n \<Rightarrow> (ln_filename n, ln_ss_index n) # collect k h (ln_next n)))"

definition lru_entries :: "LRUCache \<Rightarrow> (cstring \<times> int) list" where
  "lru_entries c = collect (lc_size c) (lc_heap c) (lc_head c)"

definition lru_inv :: "LRUCache \<Rightarrow> bool" where
  "lru_inv c \<longleftrightarrow>
     (\<exists>ns. lru_rep c ns \<and> distinct (map (\<lambda>n. fst (snd n)) ns) \<and> length ns \<le> LRU_CACHE_SIZE)"

lemma collect_segment: "dlseg h p ns None \<Longrightarrow> collect (length ns) h (first_of ns None) = map snd ns"
proof (induction ns arbitrary: p)
  case (Cons n ns)
  obtain a g i where n: "n = (a, g, i)" by (cases n)
  have "dlseg h (Some a) ns None" using Cons.prems by (simp add: n)
  from Cons.IH [OF this] Cons.prems show ?case by (simp add: n)
qed simp

lemma lru_entries_rep: "lru_rep c ns \<Longrightarrow> lru_entries c = map snd ns"
  by (auto simp: lru_entries_def lru_rep_def collect_segment)

lemma find_map_of: "map_of (map snd ns) f = map_option (\<lambda>n. snd (snd n)) (find (\<lambda>n. fst (snd n) = f) ns)"
  by (induction ns) auto

lemma lru_inv_init: "lru_inv lru_init" and lru_entries_init: "lru_entries lru_init = []"
  by (auto simp: lru_inv_def lru_rep_def lru_init_def lru_entries_def intro: exI [of _ "[]"])

lemma filter_entries:
  "distinct (map (\<lambda>n. fst (snd n)) ns) \<Longrightarrow>
   map snd (remove_first (\<lambda>n. fst (snd n) = f) ns) = filter (\<lambda>e. fst e \<noteq> f) (map snd ns)"
  by (simp add: remove_first_key_filter [where k = "\<lambda>n. fst (snd n)"] filter_map comp_def)

text \<open>One operation, on the cells and on the list.\<close>

lemma lru_step_refines:
  assumes inv: "lru_inv c" and ok: "lru_op_ok op"
  shows "lru_inv (snd (lru_step c op)) \<and>
    fst (lru_step c op) = fst (lru_spec (lru_entries c) op) \<and>
    lru_entries (snd (lru_step c op)) = snd (lru_spec (lru_entries c) op)"
proof -
  obtain ns where rep: "lru_rep c ns" and d: "distinct (map (\<lambda>n. fst (snd n)) ns)" and len: "length ns \<le> LRU_CACHE_SIZE"
    using inv by (auto simp: lru_inv_def)
  note es = lru_entries_rep [OF rep]
  let ?rem = "\<lambda>f. remove_first (\<lambda>n. fst (snd n) = f) ns"
  note r = remove_first_key_filter [where k = "\<lambda>n. fst (snd n)", OF d]
  have rem: "distinct (map (\<lambda>n. fst (snd n)) (?rem f))" "f \<notin> (\<lambda>n. fst (snd n)) ` set (?rem f)"
    "length (?rem f) \<le> LRU_CACHE_SIZE" for f
    using d by (simp add: distinct_map_remove_first, auto simp: r) (use len length_filter_le le_trans in blast)
  have less: "length (?rem f) < LRU_CACHE_SIZE" if "find (\<lambda>n. fst (snd n) = f) ns \<noteq> None" for f
    using that len length_pos_if_in_set [of _ ns] unfolding length_remove_first find_None_iff
    by (auto simp: less_diff_conv2)
  have goal: ?thesis if "fst (lru_step c op) = fst (lru_spec (lru_entries c) op)" "lru_rep (snd (lru_step c op)) ms"
    "distinct (map (\<lambda>n. fst (snd n)) ms)" "length ms \<le> LRU_CACHE_SIZE"
    "map snd ms = snd (lru_spec (lru_entries c) op)" for ms
    using that lru_entries_rep [OF that(2)] by (auto simp: lru_inv_def)
  show ?thesis
  proof (cases op)
    case (LGet f)
    let ?r = "find (\<lambda>n. fst (snd n) = f) ns"
    obtain c' where c': "lru_get f c = Some (case ?r of None \<Rightarrow> - 1 | Some n \<Rightarrow> snd (snd n), c')"
      "lru_rep c' (case ?r of None \<Rightarrow> ns | Some n \<Rightarrow> n # ?rem f)"
      using get_refines [OF rep, of f] by blast
    show ?thesis
    proof (cases ?r)
      case None
      with c' d len LGet es show ?thesis by (intro goal [of ns]) (simp_all add: find_map_of)
    next
      case (Some n)
      then have "fst (snd n) = f" by (auto dest: find_Some_in)
      with Some c' LGet es rem(1,2) [of f] less [of f] show ?thesis
        by (intro goal [of "n # ?rem f"]) (auto simp: find_map_of filter_entries [OF d] prod_eq_iff)
    qed
  next
    case (LInvalidate f)
    obtain c' where "lru_invalidate f c = Some c'" "lru_rep c' (?rem f)"
      using invalidate_refines [OF rep, of f] by blast
    with LInvalidate es rem(1,3) [of f] show ?thesis
      by (intro goal [of "?rem f"]) (simp_all add: filter_entries [OF d])
  next
    case (LPut mem f i)
    let ?r = "find (\<lambda>n. fst (snd n) = f) ns"
    obtain c' a where c': "lru_put mem f i c = Some c'"
      "lru_rep c' (if ?r \<noteq> None then (a, f, i) # ?rem f else if mem then take LRU_CACHE_SIZE ((a, f, i) # ns) else ns)"
      using put_refines [OF rep _ len, of f mem i] ok LPut by auto
    consider "?r \<noteq> None" | "?r = None" "mem" | "?r = None" "\<not> mem" by blast
    then show ?thesis
    proof cases
      case 1
      with c' LPut es rem(1,2) [of f] less [OF 1] show ?thesis
        by (intro goal [of "(a, f, i) # ?rem f"]) (auto simp: find_map_of filter_entries [OF d])
    next
      case 2
      then have "distinct (map (\<lambda>n. fst (snd n)) ((a, f, i) # ns))" using d by (simp add: find_key_none)
      then have "distinct (map (\<lambda>n. fst (snd n)) (take LRU_CACHE_SIZE ((a, f, i) # ns)))"
        by (simp only: take_map [symmetric] distinct_take)
      with 2 c' LPut es show ?thesis
        by (intro goal [of "take LRU_CACHE_SIZE ((a, f, i) # ns)"]) (simp_all add: find_map_of take_map [symmetric] take_Cons')
    next
      case 3
      with c' LPut es d len show ?thesis by (intro goal [of ns]) (simp_all add: find_map_of)
    qed
  qed
qed

interpretation lru: op_refinement lru_inv lru_op_ok lru_entries lru_step lru_spec
  by unfold_locales (simp_all add: lru_step_refines)

section \<open>Properties\<close>

text \<open>
  C27. The pointer manipulation of the cache is memory safe and correct: from any well-formed
  cache, over any sequence of lookups, insertions and invalidations no operation reads or writes
  through a null or freed pointer or loops (no answer is \<open>None\<close>, as the specification's never
  is), every lookup gives the answer of a most-recently-used list of 100 entries, and the list
  in memory stays well linked in both directions, free of duplicates and of leaks.
\<close>

theorem lru_cache_refines_list:
  assumes "lru_inv c" and "list_all lru_op_ok ops"
  shows "fst (run_ops lru_step c ops) = fst (run_ops lru_spec (lru_entries c) ops) \<and>
    lru_entries (snd (run_ops lru_step c ops)) = snd (run_ops lru_spec (lru_entries c) ops) \<and>
    lru_inv (snd (run_ops lru_step c ops)) \<and>
    None \<notin> set (fst (run_ops lru_step c ops))"
proof -
  have ans: "\<exists>v. fst (lru_spec es op) = Some v" for es op
    by (cases op) (auto split: option.split)
  have "None \<notin> set (fst (run_ops lru_spec es ops))" for es
  proof (induction ops arbitrary: es)
    case (Cons op ops)
    obtain v where "fst (lru_spec es op) = Some v" using ans by blast
    with Cons show ?case by (simp add: Let_def case_prod_beta)
  qed simp
  with lru.runs [OF assms] show ?thesis by metis
qed

theorem lru_cache_refines_list_witness:
  "fst (run_ops lru_step lru_init
     [LPut True ''a'' 0, LPut True ''b'' 1, LGet ''a'', LPut True ''c'' 2, LInvalidate ''b'', LGet ''b'', LGet ''c'']) =
   [Some 0, Some 0, Some 0, Some 0, Some 0, Some (- 1), Some 2]"
  using lru_cache_refines_list [OF lru_inv_init,
      of "[LPut True ''a'' 0, LPut True ''b'' 1, LGet ''a'', LPut True ''c'' 2, LInvalidate ''b'', LGet ''b'', LGet ''c'']"]
  by (simp add: lru_entries_init)

end
