(* ===== verification/NS_Registry.thy ===== *)
theory NS_Registry
  imports Acl Access_Requests LRU_Cache
begin

text \<open>
  The registries of \<^verbatim>\<open>nameserver/nameserver.c\<close> and the functions over them: the hash map from
  files to storage servers, the location cache in front of it, the replication map, the tables
  of storage servers and clients. The globals of the file form one record; an index into the
  server table is an \<open>int\<close>, \<open>-1\<close> meaning none, as in the code. The record's last field is the
  rest of the world, which only the network calls of the request handlers change.
\<close>

section \<open>State\<close>

abbreviation MAX_FILES :: nat where "MAX_FILES \<equiv> 1000"
abbreviation HASH_TABLE_SIZE :: nat where "HASH_TABLE_SIZE \<equiv> 1009"
abbreviation HEARTBEAT_TIMEOUT :: int where "HEARTBEAT_TIMEOUT \<equiv> 15"
abbreviation ACL_DATA_FILE :: cstring where "ACL_DATA_FILE \<equiv> ''acl_data.db''"

record HashNode =
  hn_filename :: cstring
  hn_ss_index :: int

record HashMap =
  hm_buckets :: "nat \<Rightarrow> HashNode list"
  hm_size :: int

record ExtendedSSInfo =
  es_ip :: cstring
  es_nm_port :: int
  es_client_port :: int
  es_is_alive :: bool
  es_last_heartbeat :: int
  es_files :: "cstring list"

record ReplicationEntry =
  re_filename :: cstring
  re_primary_ss :: int
  re_replica_ss :: int

record ClientInfo =
  ci_username :: cstring
  ci_ip :: cstring
  ci_port :: int
  ci_connected_time :: int
  ci_is_active :: bool

text \<open>\<open>ss_count\<close>, \<open>client_count\<close> and \<open>replication_count\<close> are the lengths of the lists.\<close>

record 'w NS =
  ns_file_map :: HashMap
  ns_lru :: LRUCache
  ns_acl :: AclTable
  ns_servers :: "ExtendedSSInfo list"
  ns_clients :: "ClientInfo list"
  ns_replication :: "ReplicationEntry list"
  ns_last_used :: int
  ns_requests :: RequestTable
  ns_fs :: FS
  ns_world :: 'w

text \<open>
  What a handler learns from outside: the clock, whether an allocation for a file's node
  succeeds, and what happens when it contacts a storage server, runs a command or formats a time.
  A contact may fail at each of its four calls; from the send on, the message is what
  \<open>receive_message\<close> leaves in the buffer (all zero when the peer closed without an answer).
\<close>

datatype Contact = NoSocket | NoConnection | NotSent Message | NoReply Message | Replied Message

record 'w NsEnv =
  ne_now :: int
  ne_mem_hash :: "cstring \<Rightarrow> bool"
  ne_mem_lru :: "cstring \<Rightarrow> bool"
  ne_mem_acl :: bool
  ne_contact :: "'w \<Rightarrow> cstring \<Rightarrow> int \<Rightarrow> Message \<Rightarrow> Contact \<times> 'w"
  ne_popen :: "'w \<Rightarrow> cstring \<Rightarrow> (cstring \<times> int) option \<times> 'w"
  ne_time_short :: "int \<Rightarrow> cstring option"
  ne_time_long :: "int \<Rightarrow> cstring option"

definition ss_count :: "'w NS \<Rightarrow> int" where
  "ss_count ns = int (length (ns_servers ns))"

text \<open>\<open>storage_servers[i].base.is_alive\<close>; the slots past \<open>ss_count\<close> are zero.\<close>

definition ss_alive :: "'w NS \<Rightarrow> int \<Rightarrow> bool" where
  "ss_alive ns i \<longleftrightarrow> 0 \<le> i \<and> i < ss_count ns \<and> es_is_alive (ns_servers ns ! nat i)"

definition upd_server :: "int \<Rightarrow> (ExtendedSSInfo \<Rightarrow> ExtendedSSInfo) \<Rightarrow> 'w NS \<Rightarrow> 'w NS" where
  "upd_server i f ns = ns\<lparr>ns_servers := (ns_servers ns)[nat i := f (ns_servers ns ! nat i)]\<rparr>"

section \<open>Input validation\<close>

definition contains_invalid_chars :: "cstring \<Rightarrow> bool" where
  "contains_invalid_chars str \<longleftrightarrow> BAR \<in> set str \<or> COMMA \<in> set str"

section \<open>Replication map\<close>

definition find_replica_ss :: "cstring \<Rightarrow> 'w NS \<Rightarrow> int" where
  "find_replica_ss filename ns =
     (case find (\<lambda>r. re_filename r = filename) (ns_replication ns) of
        Some r \<Rightarrow> re_replica_ss r
      | None \<Rightarrow> - 1)"

definition add_replication_entry :: "cstring \<Rightarrow> int \<Rightarrow> int \<Rightarrow> 'w NS \<Rightarrow> 'w NS" where
  "add_replication_entry filename primary replica ns =
     (if length (ns_replication ns) \<ge> MAX_FILES then ns
      else if \<exists>r\<in>set (ns_replication ns). re_filename r = filename then
        ns\<lparr>ns_replication := update_first (\<lambda>r. re_filename r = filename)
             (\<lambda>r. r\<lparr>re_replica_ss := replica\<rparr>) (ns_replication ns)\<rparr>
      else
        ns\<lparr>ns_replication := ns_replication ns @
             [\<lparr>re_filename = cbuf MAX_FILENAME_LEN filename, re_primary_ss = primary, re_replica_ss = replica\<rparr>]\<rparr>)"

section \<open>The file map\<close>

fun hash_string_loop :: "64 word \<Rightarrow> cstring \<Rightarrow> 64 word" where
  "hash_string_loop hash [] = hash"
| "hash_string_loop hash (c # str) =
     hash_string_loop ((push_bit 5 hash + hash) + word_of_int (schar c)) str"

definition hash_string :: "cstring \<Rightarrow> nat" where
  "hash_string str = unat (hash_string_loop 5381 str) mod HASH_TABLE_SIZE"

definition hashmap_add :: "'w NsEnv \<Rightarrow> cstring \<Rightarrow> int \<Rightarrow> 'w NS \<Rightarrow> 'w NS option" where
  "hashmap_add env filename ss_index ns =
     do {
       cache \<leftarrow> lru_invalidate filename (ns_lru ns);
       let m = ns_file_map ns;
           index = hash_string filename;
           this = (\<lambda>n. hn_filename n = filename);
           ns = ns\<lparr>ns_lru := cache\<rparr>
       in if find this (hm_buckets m index) \<noteq> None then
            Some (ns\<lparr>ns_file_map := m\<lparr>hm_buckets := (hm_buckets m)(index :=
              update_first this (\<lambda>n. n\<lparr>hn_ss_index := ss_index\<rparr>) (hm_buckets m index))\<rparr>\<rparr>)
          else if \<not> ne_mem_hash env filename then Some ns
          else
            Some (ns\<lparr>ns_file_map :=
              \<lparr>hm_buckets = (hm_buckets m)(index :=
                 \<lparr>hn_filename = cbuf MAX_FILENAME_LEN filename, hn_ss_index = ss_index\<rparr> # hm_buckets m index),
               hm_size = hm_size m + 1\<rparr>\<rparr>)
     }"

definition hashmap_find :: "cstring \<Rightarrow> 'w NS \<Rightarrow> int" where
  "hashmap_find filename ns =
     (case find (\<lambda>n. hn_filename n = filename) (hm_buckets (ns_file_map ns) (hash_string filename)) of
        Some n \<Rightarrow> hn_ss_index n
      | None \<Rightarrow> - 1)"

definition hashmap_remove :: "cstring \<Rightarrow> 'w NS \<Rightarrow> 'w NS option" where
  "hashmap_remove filename ns =
     do {
       cache \<leftarrow> lru_invalidate filename (ns_lru ns);
       let m = ns_file_map ns;
           index = hash_string filename;
           this = (\<lambda>n. hn_filename n = filename);
           ns = ns\<lparr>ns_lru := cache\<rparr>
       in if find this (hm_buckets m index) = None then Some ns
          else
            Some (ns\<lparr>ns_file_map :=
              \<lparr>hm_buckets = (hm_buckets m)(index := remove_first this (hm_buckets m index)),
               hm_size = hm_size m - 1\<rparr>\<rparr>)
     }"

section \<open>File lookup\<close>

definition find_ss_for_file :: "'w NsEnv \<Rightarrow> cstring \<Rightarrow> 'w NS \<Rightarrow> (int \<times> 'w NS) option" where
  "find_ss_for_file env filename ns =
     do {
       (cached, cache) \<leftarrow> lru_get filename (ns_lru ns);
       let ns = ns\<lparr>ns_lru := cache\<rparr>
       in if cached \<ge> 0 \<and> ss_alive ns cached then Some (cached, ns)
          else
            let ss_index = hashmap_find filename ns;
                replica = find_replica_ss filename ns
            in if ss_index \<ge> 0 \<and> \<not> ss_alive ns ss_index \<and> \<not> (replica \<ge> 0 \<and> ss_alive ns replica)
               then Some (- 1, ns)
               else
                 let ss_index = (if ss_index \<ge> 0 \<and> \<not> ss_alive ns ss_index then replica else ss_index)
                 in if ss_index \<ge> 0 then
                      do {
                        cache \<leftarrow> lru_put (ne_mem_lru env filename) filename ss_index (ns_lru ns);
                        Some (ss_index, ns\<lparr>ns_lru := cache\<rparr>)
                      }
                    else Some (ss_index, ns)
     }"

text \<open>The round-robin loop over the candidates \<open>(start_idx + i) % ss_count\<close>.\<close>

definition find_available_ss :: "'w NS \<Rightarrow> int \<times> 'w NS" where
  "find_available_ss ns =
     (if ss_count ns = 0 then (- 1, ns)
      else
        let start_idx = (ns_last_used ns + 1) mod ss_count ns
        in case find (ss_alive ns) (map (\<lambda>i. (start_idx + int i) mod ss_count ns) [0..<length (ns_servers ns)]) of
             Some idx \<Rightarrow> (idx, ns\<lparr>ns_last_used := idx\<rparr>)
           | None \<Rightarrow> (- 1, ns))"

definition add_file_to_ss :: "'w NsEnv \<Rightarrow> int \<Rightarrow> cstring \<Rightarrow> 'w NS \<Rightarrow> 'w NS option" where
  "add_file_to_ss env ss_index filename ns =
     (if ss_index < 0 \<or> ss_index \<ge> ss_count ns then Some ns
      else if length (es_files (ns_servers ns ! nat ss_index)) < MAX_FILES then
        hashmap_add env filename ss_index
          (upd_server ss_index (\<lambda>s. s\<lparr>es_files := es_files s @ [cbuf MAX_FILENAME_LEN filename]\<rparr>) ns)
      else Some ns)"

text \<open>\<open>file_exists\<close> of the name server.\<close>

definition ns_file_exists :: "'w NsEnv \<Rightarrow> cstring \<Rightarrow> 'w NS \<Rightarrow> (bool \<times> 'w NS) option" where
  "ns_file_exists env filename ns =
     map_option (\<lambda>(i, ns). (i \<ge> 0, ns)) (find_ss_for_file env filename ns)"

section \<open>Users\<close>

definition user_exists :: "cstring \<Rightarrow> 'w NS \<Rightarrow> bool" where
  "user_exists username ns \<longleftrightarrow> username \<in> ci_username ` set (ns_clients ns)"

definition mark_client_disconnected :: "cstring \<Rightarrow> int \<Rightarrow> 'w NS \<Rightarrow> 'w NS" where
  "mark_client_disconnected client_ip client_port ns =
     ns\<lparr>ns_clients := update_first (\<lambda>c. ci_is_active c \<and> ci_ip c = client_ip \<and> ci_port c = client_port)
          (\<lambda>c. c\<lparr>ci_is_active := False\<rparr>) (ns_clients ns)\<rparr>"

section \<open>Start-up and failure detection\<close>

definition init_registries :: "(nat \<Rightarrow> bool) \<Rightarrow> int \<Rightarrow> FS \<Rightarrow> 'w \<Rightarrow> 'w NS" where
  "init_registries mem now fs world =
     \<lparr>ns_file_map = \<lparr>hm_buckets = (\<lambda>i. []), hm_size = 0\<rparr>, ns_lru = lru_init,
      ns_acl = snd (acl_load mem now acl_init fs ACL_DATA_FILE), ns_servers = [], ns_clients = [],
      ns_replication = [], ns_last_used = - 1, ns_requests = request_table_init, ns_fs = fs,
      ns_world = world\<rparr>"

text \<open>One round of \<open>failure_detection_thread\<close>.\<close>

definition failure_detection_round :: "int \<Rightarrow> 'w NS \<Rightarrow> 'w NS" where
  "failure_detection_round current_time ns =
     ns\<lparr>ns_servers := map (\<lambda>s.
          if es_is_alive s \<and> current_time - es_last_heartbeat s > HEARTBEAT_TIMEOUT
          then s\<lparr>es_is_alive := False\<rparr> else s) (ns_servers ns)\<rparr>"

section \<open>What a client of the cache needs\<close>

text \<open>
  The registry uses the cache only through its three operations; all it needs is how each
  changes the partial map of cached locations.
\<close>

locale location_cache =
  fixes inv :: "'c \<Rightarrow> bool" and view :: "'c \<Rightarrow> 'k \<rightharpoonup> int" and key_ok :: "'k \<Rightarrow> bool"
    and get :: "'k \<Rightarrow> 'c \<Rightarrow> (int \<times> 'c) option"
    and put :: "bool \<Rightarrow> 'k \<Rightarrow> int \<Rightarrow> 'c \<Rightarrow> 'c option"
    and invalidate :: "'k \<Rightarrow> 'c \<Rightarrow> 'c option"
  assumes get_law: "inv c \<Longrightarrow>
      \<exists>c'. get f c = Some (case view c f of Some i \<Rightarrow> i | None \<Rightarrow> - 1, c') \<and> inv c' \<and> view c' = view c"
    and put_law: "inv c \<Longrightarrow> key_ok f \<Longrightarrow>
      \<exists>c'. put mem f i c = Some c' \<and> inv c' \<and>
        (\<forall>g j. view c' g = Some j \<longrightarrow> g = f \<and> j = i \<or> view c g = Some j) \<and>
        (mem \<longrightarrow> view c' f = Some i)"
    and invalidate_law: "inv c \<Longrightarrow>
      \<exists>c'. invalidate f c = Some c' \<and> inv c' \<and> view c' = (view c)(f := None)"
begin

lemma get_after_invalidate:
  "inv c \<Longrightarrow> \<exists>c1 c2. invalidate f c = Some c1 \<and> get f c1 = Some (- 1, c2)"
  using invalidate_law [of c f] get_law [of _ f] by (metis fun_upd_same option.simps(4))

lemma get_after_put:
  "inv c \<Longrightarrow> key_ok f \<Longrightarrow> \<exists>c1 c2. put True f i c = Some c1 \<and> get f c1 = Some (i, c2)"
  using put_law [of c f True i] get_law [of _ f] by (metis option.simps(5))

text \<open>A set of admissible entries that covers the cache still covers it after every operation.\<close>

lemma covered_put:
  assumes "inv c" and "key_ok f" and "put mem f i c = Some c'" and "P f i"
    and "\<forall>g j. view c g = Some j \<longrightarrow> P g j"
  shows "inv c' \<and> (\<forall>g j. view c' g = Some j \<longrightarrow> P g j)"
  using put_law [OF assms(1,2), of mem i] assms(3-5) by (metis option.inject)

end

definition cache_map :: "LRUCache \<Rightarrow> cstring \<rightharpoonup> int" where
  "cache_map c = map_of (lru_entries c)"

lemma map_of_filter_key: "map_of (filter (\<lambda>e. fst e \<noteq> f) es) = (map_of es)(f := None)"
  by (rule ext) (induction es, auto)

lemma map_of_take: "map_of (take n es) g = Some j \<Longrightarrow> distinct (map fst es) \<Longrightarrow> map_of es g = Some j"
  by (meson in_set_takeD map_of_SomeD map_of_is_SomeI)

lemma cache_init [simp]: "cache_map lru_init = Map.empty"
  by (simp add: cache_map_def lru_entries_init)

lemma lru_get_map:
  assumes inv: "lru_inv c"
  obtains c' where "lru_get f c = Some (case cache_map c f of Some i \<Rightarrow> i | None \<Rightarrow> - 1, c')"
    "lru_inv c'" "cache_map c' = cache_map c"
proof -
  have out: "fst (lru_step c (LGet f)) = Some (case cache_map c f of Some i \<Rightarrow> i | None \<Rightarrow> - 1)"
    using lru.step_out [OF inv, of "LGet f"] by (auto simp: cache_map_def split: option.split)
  then obtain c' where c': "lru_get f c = Some (case cache_map c f of Some i \<Rightarrow> i | None \<Rightarrow> - 1, c')"
    by (auto split: option.splits prod.splits)
  have "lru_inv c'" using lru.step_inv [OF inv, of "LGet f"] c' by simp
  moreover have "cache_map c' = cache_map c"
    using lru.step_abs [OF inv, of "LGet f"] c'
    by (auto simp: cache_map_def map_of_filter_key fun_eq_iff split: option.splits)
  ultimately show ?thesis using that c' by blast
qed

lemma lru_put_map:
  assumes inv: "lru_inv c" and len: "length f < MAX_FILENAME_LEN"
  obtains c' where "lru_put mem f i c = Some c'" "lru_inv c'"
    "\<And>g j. cache_map c' g = Some j \<Longrightarrow> g = f \<and> j = i \<or> cache_map c g = Some j"
    "mem \<Longrightarrow> cache_map c' f = Some i"
proof -
  have out: "fst (lru_step c (LPut mem f i)) = Some 0"
    using lru.step_out [OF inv, of "LPut mem f i"] len by simp
  then obtain c' where c': "lru_put mem f i c = Some c'" by (auto split: option.splits)
  have "lru_inv c'" using lru.step_inv [OF inv, of "LPut mem f i"] c' len by simp
  moreover have "g = f \<and> j = i \<or> cache_map c g = Some j" if "cache_map c' g = Some j" for g j
  proof -
    have d: "distinct (map fst (lru_entries c))"
      using inv by (auto simp: lru_inv_def comp_def dest!: lru_entries_rep)
    have "lru_entries c' = snd (lru_spec (lru_entries c) (LPut mem f i))"
      using lru.step_abs [OF inv, of "LPut mem f i"] c' len by simp
    moreover have "map_of ((f, i) # lru_entries c) g = Some j"
      if "map_of (take LRU_CACHE_SIZE ((f, i) # lru_entries c)) g = Some j" "map_of (lru_entries c) f = None"
      by (rule map_of_take [OF that(1)]) (use d that(2) in \<open>simp add: map_of_eq_None_iff\<close>)
    ultimately show ?thesis using that
      by (auto simp: cache_map_def map_of_filter_key split: if_splits)
  qed
  moreover have "cache_map c' f = Some i" if mem
    using lru.step_abs [OF inv, of "LPut mem f i"] c' len that
    by (auto simp: cache_map_def map_of_filter_key)
  ultimately show ?thesis using that c' by blast
qed

lemma lru_invalidate_map:
  assumes inv: "lru_inv c"
  obtains c' where "lru_invalidate f c = Some c'" "lru_inv c'" "cache_map c' = (cache_map c)(f := None)"
proof -
  have "fst (lru_step c (LInvalidate f)) = Some 0"
    using lru.step_out [OF inv, of "LInvalidate f"] by simp
  then obtain c' where c': "lru_invalidate f c = Some c'" by (auto split: option.splits)
  have "lru_inv c'" using lru.step_inv [OF inv, of "LInvalidate f"] c' by simp
  moreover have "cache_map c' = (cache_map c)(f := None)"
    using lru.step_abs [OF inv, of "LInvalidate f"] c' by (simp add: cache_map_def map_of_filter_key)
  ultimately show ?thesis using that c' by blast
qed

interpretation locations_cache: location_cache lru_inv cache_map "\<lambda>f. length f < MAX_FILENAME_LEN"
  lru_get lru_put lru_invalidate
proof unfold_locales
  fix c f mem i assume inv: "lru_inv c"
  show "\<exists>c'. lru_get f c = Some (case cache_map c f of Some i \<Rightarrow> i | None \<Rightarrow> - 1, c') \<and> lru_inv c' \<and>
      cache_map c' = cache_map c"
    by (rule lru_get_map [OF inv, of f]) blast
  show "\<exists>c'. lru_invalidate f c = Some c' \<and> lru_inv c' \<and> cache_map c' = (cache_map c)(f := None)"
    by (rule lru_invalidate_map [OF inv, of f]) blast
  assume len: "length f < MAX_FILENAME_LEN"
  show "\<exists>c'. lru_put mem f i c = Some c' \<and> lru_inv c' \<and>
      (\<forall>g j. cache_map c' g = Some j \<longrightarrow> g = f \<and> j = i \<or> cache_map c g = Some j) \<and>
      (mem \<longrightarrow> cache_map c' f = Some i)"
    by (rule lru_put_map [OF inv len, of mem i]) blast
qed

section \<open>The file map\<close>

interpretation file_chain: chained_hash hash_string hn_filename HASH_TABLE_SIZE
  by unfold_locales (simp add: hash_string_def)

definition map_view :: "HashMap \<Rightarrow> cstring \<rightharpoonup> int" where
  "map_view m f = map_option hn_ss_index (chain_lookup hash_string hn_filename (hm_buckets m) f)"

definition map_ok :: "HashMap \<Rightarrow> bool" where
  "map_ok m \<longleftrightarrow> chain_inv hash_string hn_filename (hm_buckets m) \<and>
     hm_size m = int (length (chain_entries HASH_TABLE_SIZE (hm_buckets m)))"

lemma hashmap_find_view: "hashmap_find f ns = (case map_view (ns_file_map ns) f of Some i \<Rightarrow> i | None \<Rightarrow> - 1)"
  by (simp add: hashmap_find_def map_view_def chain_lookup_def split: option.split)

lemma map_ok_empty: "map_ok \<lparr>hm_buckets = \<lambda>i. [], hm_size = 0\<rparr>"
proof -
  have "chain_entries HASH_TABLE_SIZE (\<lambda>i. []) = []"
    using set_chain_entries [of HASH_TABLE_SIZE "\<lambda>i. []"] by auto
  then show ?thesis by (simp add: map_ok_def file_chain.inv_empty)
qed

lemma hashmap_add_run:
  assumes m: "map_ok (ns_file_map ns)" and c: "lru_inv (ns_lru ns)" and len: "length f < MAX_FILENAME_LEN"
  obtains m' c' where "hashmap_add env f i ns = Some (ns\<lparr>ns_lru := c', ns_file_map := m'\<rparr>)" "map_ok m'" "lru_inv c'"
    "map_view m' = (if map_view (ns_file_map ns) f \<noteq> None \<or> ne_mem_hash env f
       then (map_view (ns_file_map ns))(f \<mapsto> i) else map_view (ns_file_map ns))"
    "cache_map c' = (cache_map (ns_lru ns))(f := None)"
proof -
  let ?m = "ns_file_map ns" and ?k = "hash_string f" and ?is = "\<lambda>n. hn_filename n = f"
  let ?b = "hm_buckets ?m"
  have chain: "chain_inv hash_string hn_filename ?b" and size: "hm_size ?m = int (length (chain_entries HASH_TABLE_SIZE ?b))"
    using m by (simp_all add: map_ok_def)
  have look: "chain_lookup hash_string hn_filename ?b f = find ?is (?b ?k)" by (simp add: chain_lookup_def)
  obtain c' where c': "lru_invalidate f (ns_lru ns) = Some c'" "lru_inv c'" "cache_map c' = (cache_map (ns_lru ns))(f := None)"
    by (rule lru_invalidate_map [OF c])
  consider (old) "find ?is (?b ?k) \<noteq> None" | (fail) "find ?is (?b ?k) = None" "\<not> ne_mem_hash env f"
    | (new) "find ?is (?b ?k) = None" "ne_mem_hash env f" by blast
  then show ?thesis
  proof cases
    case old
    let ?c = "update_first ?is (\<lambda>n. n\<lparr>hn_ss_index := i\<rparr>) (?b ?k)"
    let ?m' = "?m\<lparr>hm_buckets := ?b(?k := ?c)\<rparr>"
    have "length (chain_entries HASH_TABLE_SIZE (?b(?k := ?c))) = length (chain_entries HASH_TABLE_SIZE ?b)"
      using file_chain.length_entries_upd [of ?b f ?c] by (simp only: length_update_first)
    then have "map_ok ?m'" using size file_chain.inv_update [OF chain, of "\<lambda>n. n\<lparr>hn_ss_index := i\<rparr>" f]
      by (simp add: map_ok_def)
    moreover have "map_view ?m' = (map_view ?m)(f \<mapsto> i)"
      using old by (auto simp: map_view_def fun_eq_iff file_chain.lookup_update look)
    moreover have "map_view ?m f \<noteq> None" using old by (simp add: map_view_def look)
    ultimately show ?thesis using that [of ?m' c'] c' old by (simp add: hashmap_add_def Let_def)
  next
    case fail
    then have "map_view ?m f = None" by (simp add: map_view_def look)
    then show ?thesis using that [of ?m c'] c' fail m by (simp add: hashmap_add_def Let_def)
  next
    case new
    let ?n = "\<lparr>hn_filename = f, hn_ss_index = i\<rparr>"
    let ?m' = "\<lparr>hm_buckets = ?b(?k := ?n # ?b ?k), hm_size = hm_size ?m + 1\<rparr>"
    have "length (chain_entries HASH_TABLE_SIZE (?b(?k := ?n # ?b ?k))) = Suc (length (chain_entries HASH_TABLE_SIZE ?b))"
      using file_chain.length_entries_upd [of ?b f "?n # ?b ?k"] by (simp only: list.size)
    then have "map_ok ?m'" using size file_chain.inv_insert [of ?b ?n f] chain new by (simp add: map_ok_def look)
    moreover have "map_view ?m' = (map_view ?m)(f \<mapsto> i)"
      by (simp add: map_view_def fun_eq_iff file_chain.lookup_insert)
    ultimately show ?thesis using that [of ?m' c'] c' new len by (simp add: hashmap_add_def Let_def cbuf_id)
  qed
qed

lemma hashmap_remove_run:
  assumes m: "map_ok (ns_file_map ns)" and c: "lru_inv (ns_lru ns)"
  obtains m' c' where "hashmap_remove f ns = Some (ns\<lparr>ns_lru := c', ns_file_map := m'\<rparr>)" "map_ok m'" "lru_inv c'"
    "map_view m' = (map_view (ns_file_map ns))(f := None)" "cache_map c' = (cache_map (ns_lru ns))(f := None)"
proof -
  let ?m = "ns_file_map ns" and ?k = "hash_string f" and ?is = "\<lambda>n. hn_filename n = f"
  let ?b = "hm_buckets ?m"
  have chain: "chain_inv hash_string hn_filename ?b" and size: "hm_size ?m = int (length (chain_entries HASH_TABLE_SIZE ?b))"
    using m by (simp_all add: map_ok_def)
  have look: "chain_lookup hash_string hn_filename ?b f = find ?is (?b ?k)" by (simp add: chain_lookup_def)
  obtain c' where c': "lru_invalidate f (ns_lru ns) = Some c'" "lru_inv c'" "cache_map c' = (cache_map (ns_lru ns))(f := None)"
    by (rule lru_invalidate_map [OF c])
  show ?thesis
  proof (cases "find ?is (?b ?k)")
    case None
    then have "map_view ?m = (map_view ?m)(f := None)" by (simp add: map_view_def look fun_upd_idem)
    then show ?thesis using that [of ?m c'] c' None m by (simp add: hashmap_remove_def Let_def)
  next
    case (Some n)
    let ?c = "remove_first ?is (?b ?k)"
    let ?m' = "\<lparr>hm_buckets = ?b(?k := ?c), hm_size = hm_size ?m - 1\<rparr>"
    have "\<exists>x\<in>set (?b ?k). hn_filename x = f" using Some by (auto dest: find_Some_in)
    then have "Suc (length ?c) = length (?b ?k)"
      by (auto simp: length_remove_first dest: length_pos_if_in_set)
    then have "Suc (length (chain_entries HASH_TABLE_SIZE (?b(?k := ?c)))) = length (chain_entries HASH_TABLE_SIZE ?b)"
      using file_chain.length_entries_upd [of ?b f ?c] by linarith
    then have "map_ok ?m'" using size file_chain.inv_remove [OF chain, of f] by (simp add: map_ok_def)
    moreover have "map_view ?m' = (map_view ?m)(f := None)"
      by (simp add: map_view_def fun_eq_iff file_chain.lookup_remove [OF chain])
    ultimately show ?thesis using that [of ?m' c'] c' Some by (simp add: hashmap_remove_def Let_def)
  qed
qed

section \<open>Invariant of the registries\<close>

abbreviation locations :: "'w NS \<Rightarrow> cstring \<rightharpoonup> int" where
  "locations ns \<equiv> map_view (ns_file_map ns)"

abbreviation cached :: "'w NS \<Rightarrow> cstring \<rightharpoonup> int" where
  "cached ns \<equiv> cache_map (ns_lru ns)"

definition index_ok :: "'w NS \<Rightarrow> int \<Rightarrow> bool" where
  "index_ok ns i \<longleftrightarrow> 0 \<le> i \<and> i < ss_count ns"

text \<open>
  Every table is well-formed; every index stored anywhere names a registered server, and only
  files of the file map are cached.
\<close>

definition tables_ok :: "'w NS \<Rightarrow> bool" where
  "tables_ok ns \<longleftrightarrow>
     map_ok (ns_file_map ns) \<and> lru_inv (ns_lru ns) \<and> acl_inv (ns_acl ns) \<and> request_inv (ns_requests ns)"

definition indexes_ok :: "'w NS \<Rightarrow> bool" where
  "indexes_ok ns \<longleftrightarrow>
     (\<forall>f i. locations ns f = Some i \<longrightarrow> index_ok ns i) \<and>
     (\<forall>f i. cached ns f = Some i \<longrightarrow> index_ok ns i \<and> locations ns f \<noteq> None) \<and>
     (\<forall>r\<in>set (ns_replication ns). index_ok ns (re_replica_ss r))"

definition sizes_ok :: "'w NS \<Rightarrow> bool" where
  "sizes_ok ns \<longleftrightarrow>
     length (ns_servers ns) \<le> MAX_STORAGE_SERVERS \<and> length (ns_clients ns) \<le> MAX_CONCURRENT_CLIENTS \<and>
     length (ns_replication ns) \<le> MAX_FILES \<and> (\<forall>s\<in>set (ns_servers ns). length (es_files s) \<le> MAX_FILES) \<and>
     - 1 \<le> ns_last_used ns \<and> ns_last_used ns < int MAX_STORAGE_SERVERS"

definition ns_inv :: "'w NS \<Rightarrow> bool" where
  "ns_inv ns \<longleftrightarrow> tables_ok ns \<and> indexes_ok ns \<and> sizes_ok ns"


lemma index_ok_frame [simp]:
  "index_ok (ns\<lparr>ns_lru := c\<rparr>) i = index_ok ns i" "index_ok (ns\<lparr>ns_file_map := m\<rparr>) i = index_ok ns i"
  "index_ok (ns\<lparr>ns_acl := t\<rparr>) i = index_ok ns i" "index_ok (ns\<lparr>ns_fs := fs\<rparr>) i = index_ok ns i"
  "index_ok (ns\<lparr>ns_world := w\<rparr>) i = index_ok ns i" "index_ok (ns\<lparr>ns_requests := q\<rparr>) i = index_ok ns i"
  "index_ok (ns\<lparr>ns_last_used := u\<rparr>) i = index_ok ns i" "index_ok (ns\<lparr>ns_clients := cs\<rparr>) i = index_ok ns i"
  "index_ok (ns\<lparr>ns_replication := rs\<rparr>) i = index_ok ns i"
  by (simp_all add: index_ok_def ss_count_def)

lemma ss_alive_frame [simp]:
  "ss_alive (ns\<lparr>ns_lru := c\<rparr>) i = ss_alive ns i" "ss_alive (ns\<lparr>ns_file_map := m\<rparr>) i = ss_alive ns i"
  "ss_alive (ns\<lparr>ns_world := w\<rparr>) i = ss_alive ns i" "ss_alive (ns\<lparr>ns_last_used := u\<rparr>) i = ss_alive ns i"
  by (simp_all add: ss_alive_def ss_count_def)

lemma find_replica_frame [simp]:
  "find_replica_ss f (ns\<lparr>ns_lru := c\<rparr>) = find_replica_ss f ns"
  "find_replica_ss f (ns\<lparr>ns_file_map := m\<rparr>) = find_replica_ss f ns"
  by (simp_all add: find_replica_ss_def)

lemma ss_alive_index: "ss_alive ns i \<Longrightarrow> index_ok ns i"
  by (simp add: ss_alive_def index_ok_def)

text \<open>Fields that the invariant does not read, or reads only through a table's own invariant.\<close>

lemma ns_inv_world [simp]: "ns_inv (ns\<lparr>ns_world := w\<rparr>) = ns_inv ns" "ns_inv (ns\<lparr>ns_fs := fs\<rparr>) = ns_inv ns"
  by (simp_all add: ns_inv_def tables_ok_def indexes_ok_def sizes_ok_def)

lemma ns_inv_acl: "ns_inv ns \<Longrightarrow> acl_inv t \<Longrightarrow> ns_inv (ns\<lparr>ns_acl := t\<rparr>)"
  by (simp add: ns_inv_def tables_ok_def indexes_ok_def sizes_ok_def)

lemma ns_inv_requests: "ns_inv ns \<Longrightarrow> request_inv q \<Longrightarrow> ns_inv (ns\<lparr>ns_requests := q\<rparr>)"
  by (simp add: ns_inv_def tables_ok_def indexes_ok_def sizes_ok_def)

lemma ns_inv_last_used: "ns_inv ns \<Longrightarrow> index_ok ns i \<Longrightarrow> ns_inv (ns\<lparr>ns_last_used := i\<rparr>)"
  by (auto simp add: ns_inv_def tables_ok_def indexes_ok_def sizes_ok_def index_ok_def ss_count_def)

lemma ns_inv_clients: "ns_inv ns \<Longrightarrow> length cs \<le> MAX_CONCURRENT_CLIENTS \<Longrightarrow> ns_inv (ns\<lparr>ns_clients := cs\<rparr>)"
  by (simp add: ns_inv_def tables_ok_def indexes_ok_def sizes_ok_def)

lemma ns_inv_lru:
  assumes "ns_inv ns" and "lru_inv c" and "\<forall>g j. cache_map c g = Some j \<longrightarrow> index_ok ns j \<and> locations ns g \<noteq> None"
  shows "ns_inv (ns\<lparr>ns_lru := c\<rparr>)"
  using assms by (simp add: ns_inv_def tables_ok_def indexes_ok_def sizes_ok_def)

lemma ns_inv_maps:
  assumes "ns_inv ns" and "lru_inv c" and "map_ok m" and "\<forall>g j. map_view m g = Some j \<longrightarrow> index_ok ns j"
    and "\<forall>g j. cache_map c g = Some j \<longrightarrow> index_ok ns j \<and> map_view m g \<noteq> None"
  shows "ns_inv (ns\<lparr>ns_lru := c, ns_file_map := m\<rparr>)"
  using assms by (simp add: ns_inv_def tables_ok_def indexes_ok_def sizes_ok_def)

lemma ns_invD:
  assumes "ns_inv ns"
  shows "map_ok (ns_file_map ns)" "lru_inv (ns_lru ns)" "acl_inv (ns_acl ns)" "request_inv (ns_requests ns)"
    "locations ns f = Some i \<Longrightarrow> index_ok ns i" "cached ns f = Some i \<Longrightarrow> index_ok ns i"
    "cached ns f = Some i \<Longrightarrow> locations ns f \<noteq> None"
    "r \<in> set (ns_replication ns) \<Longrightarrow> index_ok ns (re_replica_ss r)"
    "length (ns_servers ns) \<le> MAX_STORAGE_SERVERS" "length (ns_clients ns) \<le> MAX_CONCURRENT_CLIENTS"
    "length (ns_replication ns) \<le> MAX_FILES" "s \<in> set (ns_servers ns) \<Longrightarrow> length (es_files s) \<le> MAX_FILES"
    "- 1 \<le> ns_last_used ns"
  using assms by (auto simp: ns_inv_def tables_ok_def indexes_ok_def sizes_ok_def)

text \<open>Changing a server's entry without adding or removing one.\<close>

lemma ns_inv_servers:
  assumes "ns_inv ns" and "length ss = length (ns_servers ns)" and "\<forall>s\<in>set ss. length (es_files s) \<le> MAX_FILES"
  shows "ns_inv (ns\<lparr>ns_servers := ss\<rparr>)"
  using assms by (simp add: ns_inv_def tables_ok_def indexes_ok_def sizes_ok_def index_ok_def ss_count_def)

section \<open>Lookup, insertion and removal of a file\<close>

definition backing :: "'w NS \<Rightarrow> cstring \<Rightarrow> int" where
  "backing ns f =
     (case locations ns f of
        None \<Rightarrow> - 1
      | Some p \<Rightarrow>
          if ss_alive ns p then p
          else if ss_alive ns (find_replica_ss f ns) then find_replica_ss f ns else - 1)"

text \<open>What a lookup answers: a cached live server, else the primary, else the replica.\<close>

definition lookup_result :: "'w NS \<Rightarrow> cstring \<Rightarrow> int" where
  "lookup_result ns f =
     (case cached ns f of
        Some i \<Rightarrow> if ss_alive ns i then i else backing ns f
      | None \<Rightarrow> backing ns f)"

lemma backing_cases: "backing ns f = - 1 \<or> ss_alive ns (backing ns f) \<and> locations ns f \<noteq> None"
  by (auto simp: backing_def split: option.split)

lemma lookup_cases:
  assumes "ns_inv ns"
  shows "lookup_result ns f = - 1 \<or>
    ss_alive ns (lookup_result ns f) \<and> index_ok ns (lookup_result ns f) \<and> locations ns f \<noteq> None"
  using backing_cases [of ns f] ns_invD(7) [OF assms, of f]
  by (auto simp: lookup_result_def ss_alive_index split: option.split)

lemma lookup_nonneg: "ns_inv ns \<Longrightarrow> lookup_result ns f \<ge> 0 \<longleftrightarrow> lookup_result ns f \<noteq> - 1"
  using lookup_cases [of ns f] by (auto simp: index_ok_def)

lemma find_ss_run_cache:
  assumes inv: "ns_inv ns" and len: "length f < MAX_FILENAME_LEN"
  obtains c where "find_ss_for_file env f ns = Some (lookup_result ns f, ns\<lparr>ns_lru := c\<rparr>)" "ns_inv (ns\<lparr>ns_lru := c\<rparr>)"
    "\<And>g j. cache_map c g = Some j \<Longrightarrow> cached ns g = Some j \<or> g = f \<and> j = lookup_result ns f \<and> j \<noteq> - 1"
proof -
  obtain c where c: "lru_get f (ns_lru ns) = Some (case cached ns f of Some i \<Rightarrow> i | None \<Rightarrow> - 1, c)"
    "lru_inv c" "cache_map c = cached ns"
    by (rule lru_get_map [OF ns_invD(2) [OF inv]])
  let ?got = "case cached ns f of Some i \<Rightarrow> i | None \<Rightarrow> - 1"
  have alive0: "ss_alive ns i \<Longrightarrow> 0 \<le> i" for i by (simp add: ss_alive_def)
  have invc: "ns_inv (ns\<lparr>ns_lru := c\<rparr>)"
    by (rule ns_inv_lru [OF inv c(2)]) (use c(3) ns_invD(6,7) [OF inv] in auto)
  show ?thesis
  proof (cases "?got \<ge> 0 \<and> ss_alive ns ?got")
    case True
    then show ?thesis using that [of c] c(1,3) invc
      by (auto simp: find_ss_for_file_def lookup_result_def split: option.splits)
  next
    case False
    then have res: "lookup_result ns f = backing ns f"
      by (auto simp: lookup_result_def ss_alive_def split: option.splits)
    show ?thesis
    proof (cases "backing ns f = - 1")
      case True
      have "find_ss_for_file env f ns = Some (- 1, ns\<lparr>ns_lru := c\<rparr>)"
        using c(1) False True ns_invD(5) [OF inv, of f]
        by (auto simp: find_ss_for_file_def backing_def hashmap_find_view index_ok_def Let_def
            split: option.splits if_splits dest: alive0)
      with that [of c] c(3) invc res True show ?thesis by simp
    next
      case b: False
      then have live: "ss_alive ns (backing ns f)" "locations ns f \<noteq> None" using backing_cases [of ns f] by auto
      obtain c' where c': "lru_put (ne_mem_lru env f) f (backing ns f) c = Some c'" "lru_inv c'"
        "\<And>g j. cache_map c' g = Some j \<Longrightarrow> g = f \<and> j = backing ns f \<or> cache_map c g = Some j"
        by (rule lru_put_map [OF c(2) len]) blast
      have "find_ss_for_file env f ns = Some (backing ns f, ns\<lparr>ns_lru := c'\<rparr>)"
        using c(1) False b c'(1) ns_invD(5) [OF inv, of f]
        by (auto simp: find_ss_for_file_def backing_def hashmap_find_view index_ok_def Let_def
            split: option.splits if_splits dest: alive0)
      moreover have "ns_inv (ns\<lparr>ns_lru := c'\<rparr>)"
        by (rule ns_inv_lru [OF inv c'(2)])
          (use c'(3) c(3) live ss_alive_index [OF live(1)] ns_invD(6,7) [OF inv] in metis)
      moreover have "cached ns g = Some j \<or> g = f \<and> j = lookup_result ns f \<and> j \<noteq> - 1" if "cache_map c' g = Some j" for g j
        using c'(3) [OF that] c(3) res b by auto
      ultimately show ?thesis using that [of c'] res by metis
    qed
  qed
qed

lemma find_ss_run:
  assumes "ns_inv ns" and "length f < MAX_FILENAME_LEN"
  obtains c where "find_ss_for_file env f ns = Some (lookup_result ns f, ns\<lparr>ns_lru := c\<rparr>)" "ns_inv (ns\<lparr>ns_lru := c\<rparr>)"
  by (rule find_ss_run_cache [OF assms, of env], rule that)

lemma hashmap_add_inv:
  assumes inv: "ns_inv ns" and len: "length f < MAX_FILENAME_LEN" and i: "index_ok ns i"
  obtains m c where "hashmap_add env f i ns = Some (ns\<lparr>ns_lru := c, ns_file_map := m\<rparr>)"
    "ns_inv (ns\<lparr>ns_lru := c, ns_file_map := m\<rparr>)"
    "map_view m = (if locations ns f \<noteq> None \<or> ne_mem_hash env f then (locations ns)(f \<mapsto> i) else locations ns)"
    "cache_map c = (cached ns)(f := None)"
proof -
  obtain m c where run: "hashmap_add env f i ns = Some (ns\<lparr>ns_lru := c, ns_file_map := m\<rparr>)"
    and m: "map_ok m" "lru_inv c"
    and v: "map_view m = (if locations ns f \<noteq> None \<or> ne_mem_hash env f then (locations ns)(f \<mapsto> i) else locations ns)"
    and k: "cache_map c = (cached ns)(f := None)"
    by (rule hashmap_add_run [OF ns_invD(1,2) [OF inv] len])
  have "ns_inv (ns\<lparr>ns_lru := c, ns_file_map := m\<rparr>)"
    by (rule ns_inv_maps [OF inv m(2,1)]) (use ns_invD(5-7) [OF inv] i in \<open>auto simp: v k\<close>)
  with that run v k show ?thesis by blast
qed

lemma hashmap_remove_inv:
  assumes inv: "ns_inv ns"
  obtains m c where "hashmap_remove f ns = Some (ns\<lparr>ns_lru := c, ns_file_map := m\<rparr>)"
    "ns_inv (ns\<lparr>ns_lru := c, ns_file_map := m\<rparr>)" "map_view m = (locations ns)(f := None)"
    "cache_map c = (cached ns)(f := None)"
proof -
  obtain m c where run: "hashmap_remove f ns = Some (ns\<lparr>ns_lru := c, ns_file_map := m\<rparr>)"
    and m: "map_ok m" "lru_inv c" and v: "map_view m = (locations ns)(f := None)" and k: "cache_map c = (cached ns)(f := None)"
    by (rule hashmap_remove_run [OF ns_invD(1,2) [OF inv]])
  have "ns_inv (ns\<lparr>ns_lru := c, ns_file_map := m\<rparr>)"
    by (rule ns_inv_maps [OF inv m(2,1)]) (use ns_invD(5-7) [OF inv] in \<open>auto simp: v k\<close>)
  with that run v k show ?thesis by blast
qed

lemma upd_server_frame [simp]:
  "ns_file_map (upd_server i f ns) = ns_file_map ns" "ns_lru (upd_server i f ns) = ns_lru ns"
  "ns_acl (upd_server i f ns) = ns_acl ns" "ns_requests (upd_server i f ns) = ns_requests ns"
  "ns_replication (upd_server i f ns) = ns_replication ns" "ns_world (upd_server i f ns) = ns_world ns"
  "ss_count (upd_server i f ns) = ss_count ns" "index_ok (upd_server i f ns) j = index_ok ns j"
  "length (ns_servers (upd_server i f ns)) = length (ns_servers ns)"
  "ns_fs (upd_server i f ns) = ns_fs ns" "ns_clients (upd_server i f ns) = ns_clients ns"
  by (simp_all add: upd_server_def ss_count_def index_ok_def)

lemma upd_server_inv:
  assumes inv: "ns_inv ns" and f: "\<And>s. length (es_files s) \<le> MAX_FILES \<Longrightarrow> length (es_files (f s)) \<le> MAX_FILES"
    and i: "index_ok ns i"
  shows "ns_inv (upd_server i f ns)"
  unfolding upd_server_def
proof (rule ns_inv_servers [OF inv])
  have "nat i < length (ns_servers ns)" using i by (auto simp: index_ok_def ss_count_def)
  then have "length (es_files (f (ns_servers ns ! nat i))) \<le> MAX_FILES"
    by (intro f ns_invD(12) [OF inv] nth_mem)
  then show "\<forall>s\<in>set ((ns_servers ns)[nat i := f (ns_servers ns ! nat i)]). length (es_files s) \<le> MAX_FILES"
    using ns_invD(12) [OF inv] set_update_subset_insert [of "ns_servers ns" "nat i" "f (ns_servers ns ! nat i)"] by blast
qed simp

lemma add_file_to_ss_room:
  assumes inv: "ns_inv ns" and len: "length f < MAX_FILENAME_LEN" and i: "index_ok ns i"
    and room: "length (es_files (ns_servers ns ! nat i)) < MAX_FILES"
    and added: "ns1 = upd_server i (\<lambda>s. s\<lparr>es_files := es_files s @ [cbuf MAX_FILENAME_LEN f]\<rparr>) ns"
  obtains m c where "add_file_to_ss env i f ns = Some (ns1\<lparr>ns_lru := c, ns_file_map := m\<rparr>)"
    "ns_inv (ns1\<lparr>ns_lru := c, ns_file_map := m\<rparr>)"
    "map_view m = (if locations ns f \<noteq> None \<or> ne_mem_hash env f then (locations ns)(f \<mapsto> i) else locations ns)"
    "cache_map c = (cached ns)(f := None)"
proof -
  let ?add = "\<lambda>s. s\<lparr>es_files := es_files s @ [cbuf MAX_FILENAME_LEN f]\<rparr>"
  have inv1: "ns_inv ns1" unfolding added upd_server_def
  proof (rule ns_inv_servers [OF inv])
    show "\<forall>s\<in>set ((ns_servers ns)[nat i := ?add (ns_servers ns ! nat i)]). length (es_files s) \<le> MAX_FILES"
      using ns_invD(12) [OF inv] room set_update_subset_insert [of "ns_servers ns" "nat i" "?add (ns_servers ns ! nat i)"]
      by fastforce
  qed simp
  have "index_ok ns1 i" using i by (simp add: added)
  then obtain m c where add: "hashmap_add env f i ns1 = Some (ns1\<lparr>ns_lru := c, ns_file_map := m\<rparr>)"
    "ns_inv (ns1\<lparr>ns_lru := c, ns_file_map := m\<rparr>)"
    "map_view m = (if locations ns1 f \<noteq> None \<or> ne_mem_hash env f then (locations ns1)(f \<mapsto> i) else locations ns1)"
    "cache_map c = (cached ns1)(f := None)"
    by (rule hashmap_add_inv [OF inv1 len])
  have loc: "locations ns1 = locations ns" "cached ns1 = cached ns" by (simp_all add: added)
  show ?thesis using that [of m c] room i add(1,2) add(3,4) [unfolded loc]
    by (simp add: add_file_to_ss_def index_ok_def added)
qed

text \<open>The address by which the name server and the clients reach each server.\<close>

definition addresses :: "'w NS \<Rightarrow> (cstring \<times> int \<times> int) list" where
  "addresses ns = map (\<lambda>s. (es_ip s, es_nm_port s, es_client_port s)) (ns_servers ns)"

lemma add_file_to_ss_inv:
  assumes inv: "ns_inv ns" and len: "length f < MAX_FILENAME_LEN" and i: "index_ok ns i"
  obtains ns' where "add_file_to_ss env i f ns = Some ns'" "ns_inv ns'"
    "locations ns' = (if length (es_files (ns_servers ns ! nat i)) < MAX_FILES \<and>
       (locations ns f \<noteq> None \<or> ne_mem_hash env f) then (locations ns)(f \<mapsto> i) else locations ns)"
    "ns_acl ns' = ns_acl ns" "ns_requests ns' = ns_requests ns" "\<And>j. ss_alive ns' j = ss_alive ns j"
    "addresses ns' = addresses ns"
proof (cases "length (es_files (ns_servers ns ! nat i)) < MAX_FILES")
  case False
  then show ?thesis using that [of ns] inv i by (simp add: add_file_to_ss_def index_ok_def)
next
  case True
  let ?ns = "upd_server i (\<lambda>s. s\<lparr>es_files := es_files s @ [cbuf MAX_FILENAME_LEN f]\<rparr>) ns"
  have n: "nat i < length (ns_servers ns)" using i by (auto simp: index_ok_def ss_count_def)
  have alive: "ss_alive ?ns j = ss_alive ns j" for j
    using n by (cases "nat j = nat i") (simp_all add: ss_alive_def ss_count_def upd_server_def)
  have addr: "addresses ?ns = addresses ns"
    using n by (simp add: addresses_def upd_server_def map_update list_update_same_conv)
  obtain m c where add: "add_file_to_ss env i f ns = Some (?ns\<lparr>ns_lru := c, ns_file_map := m\<rparr>)"
    "ns_inv (?ns\<lparr>ns_lru := c, ns_file_map := m\<rparr>)"
    "map_view m = (if locations ns f \<noteq> None \<or> ne_mem_hash env f then (locations ns)(f \<mapsto> i) else locations ns)"
    by (rule add_file_to_ss_room [OF inv len i True refl]) blast
  have "addresses (?ns\<lparr>ns_lru := c, ns_file_map := m\<rparr>) = addresses ns"
    using addr by (simp add: addresses_def)
  then show ?thesis using that [of "?ns\<lparr>ns_lru := c, ns_file_map := m\<rparr>"] True alive add by simp
qed

lemma find_available_cases:
  assumes inv: "ns_inv ns"
  shows "(fst (find_available_ss ns) = - 1 \<and> (\<forall>i. \<not> ss_alive ns i) \<and> snd (find_available_ss ns) = ns) \<or>
    (ss_alive ns (fst (find_available_ss ns)) \<and>
     snd (find_available_ss ns) = ns\<lparr>ns_last_used := fst (find_available_ss ns)\<rparr>)"
proof (cases "ss_count ns = 0")
  case True
  then show ?thesis by (simp add: find_available_ss_def ss_alive_def)
next
  case False
  let ?n = "ss_count ns" and ?s = "(ns_last_used ns + 1) mod ss_count ns"
  let ?c = "map (\<lambda>i. (?s + int i) mod ?n) [0..<length (ns_servers ns)]"
  have n: "?n = int (length (ns_servers ns))" "?n > 0" using False by (simp_all add: ss_count_def)
  have all: "\<exists>i\<in>set [0..<length (ns_servers ns)]. (?s + int i) mod ?n = j" if "0 \<le> j" "j < ?n" for j
  proof -
    let ?i = "nat ((j - ?s) mod ?n)"
    have "(?s + (j - ?s) mod ?n) mod ?n = j" using that by (simp add: mod_simps)
    moreover have "0 \<le> (j - ?s) mod ?n" "(j - ?s) mod ?n < ?n" using n(2) by simp_all
    then have "?i < length (ns_servers ns)" "int ?i = (j - ?s) mod ?n" unfolding n(1) by linarith+
    ultimately show ?thesis by force
  qed
  show ?thesis
  proof (cases "find (ss_alive ns) ?c")
    case None
    then have "\<not> ss_alive ns j" for j
      using all [of j] by (force simp: find_None_iff ss_alive_def)
    with None False show ?thesis by (simp add: find_available_ss_def Let_def)
  next
    case (Some j)
    then show ?thesis using find_Some_in [OF Some] False by (simp add: find_available_ss_def Let_def)
  qed
qed

lemma find_available_run:
  assumes inv: "ns_inv ns"
  obtains "find_available_ss ns = (- 1, ns)" "\<forall>i. \<not> ss_alive ns i"
    | i where "find_available_ss ns = (i, ns\<lparr>ns_last_used := i\<rparr>)" "ss_alive ns i" "index_ok ns i"
        "ns_inv (ns\<lparr>ns_last_used := i\<rparr>)"
  using find_available_cases [OF inv] ss_alive_index [of ns "fst (find_available_ss ns)"]
    ns_inv_last_used [OF inv, of "fst (find_available_ss ns)"] by (metis prod.collapse)


section \<open>Properties\<close>

text \<open>The cache is coherent when it holds, for each file, its location or its replica.\<close>

definition cache_coherent :: "'w NS \<Rightarrow> bool" where
  "cache_coherent ns \<longleftrightarrow>
     (\<forall>f i. cached ns f = Some i \<longrightarrow> locations ns f = Some i \<or> find_replica_ss f ns = i)"

lemma lookup_location:
  assumes "lookup_result ns f \<noteq> - 1"
  shows "cached ns f = Some (lookup_result ns f) \<or> locations ns f = Some (lookup_result ns f) \<or>
    find_replica_ss f ns = lookup_result ns f"
  using assms by (auto simp: lookup_result_def backing_def split: option.splits if_splits)

lemma hashmap_add_coherent:
  assumes "ns_inv ns" and "length f < MAX_FILENAME_LEN" and "index_ok ns i" and "cache_coherent ns"
    and "hashmap_add env f i ns = Some ns'"
  shows "cache_coherent ns'"
  by (rule hashmap_add_inv [OF assms(1-3), of env])
    (use assms(4,5) in \<open>auto simp: cache_coherent_def find_replica_ss_def split: if_splits\<close>)

lemma hashmap_remove_coherent:
  assumes "ns_inv ns" and "cache_coherent ns" and "hashmap_remove f ns = Some ns'"
  shows "cache_coherent ns'"
  by (rule hashmap_remove_inv [OF assms(1), of f])
    (use assms(2,3) in \<open>auto simp: cache_coherent_def find_replica_ss_def split: if_splits\<close>)

text \<open>
  C30. Locating a file is safe and sound: with the registries in order the lookup through the
  cache, the map and the failover never goes wrong, changes nothing but the cache and keeps the
  invariant. Its answer is determined: a live server the cache holds for the file; else the
  server of the file map, if it is alive; else the replica, if the file is registered and the
  replica is alive; else \<open>-1\<close>. If the cache holds only locations and replicas, so does it after the
  lookup, and the answer, when it is not \<open>-1\<close>, is the file's location or its replica.
\<close>

theorem file_lookup_sound:
  assumes "ns_inv ns" and "length f < MAX_FILENAME_LEN"
  shows "\<exists>i c. find_ss_for_file env f ns = Some (i, ns\<lparr>ns_lru := c\<rparr>) \<and> ns_inv (ns\<lparr>ns_lru := c\<rparr>) \<and>
    (i = - 1 \<or> ss_alive ns i \<and> locations ns f \<noteq> None) \<and>
    (\<forall>j. cached ns f = Some j \<and> ss_alive ns j \<longrightarrow> i = j) \<and>
    ((\<forall>j. cached ns f = Some j \<longrightarrow> \<not> ss_alive ns j) \<longrightarrow>
      (locations ns f = None \<longrightarrow> i = - 1) \<and>
      (\<forall>p. locations ns f = Some p \<and> ss_alive ns p \<longrightarrow> i = p) \<and>
      (\<forall>p. locations ns f = Some p \<and> \<not> ss_alive ns p \<and> ss_alive ns (find_replica_ss f ns) \<longrightarrow>
        i = find_replica_ss f ns) \<and>
      (\<forall>p. locations ns f = Some p \<and> \<not> ss_alive ns p \<and> \<not> ss_alive ns (find_replica_ss f ns) \<longrightarrow> i = - 1)) \<and>
    (cache_coherent ns \<longrightarrow> cache_coherent (ns\<lparr>ns_lru := c\<rparr>) \<and>
      (i \<noteq> - 1 \<longrightarrow> locations ns f = Some i \<or> find_replica_ss f ns = i))"
proof -
  let ?i = "lookup_result ns f"
  obtain c where run: "find_ss_for_file env f ns = Some (?i, ns\<lparr>ns_lru := c\<rparr>)" "ns_inv (ns\<lparr>ns_lru := c\<rparr>)"
    and cache: "\<And>g j. cache_map c g = Some j \<Longrightarrow> cached ns g = Some j \<or> g = f \<and> j = ?i \<and> j \<noteq> - 1"
    by (rule find_ss_run_cache [OF assms, of env]) blast
  have loc: "?i \<noteq> - 1 \<longrightarrow> locations ns f = Some ?i \<or> find_replica_ss f ns = ?i" if "cache_coherent ns"
    using lookup_location [of ns f] that by (auto simp: cache_coherent_def)
  moreover have "cache_coherent (ns\<lparr>ns_lru := c\<rparr>)" if "cache_coherent ns"
    using cache loc [OF that] that unfolding cache_coherent_def by (auto simp: find_replica_ss_def)
  moreover have "\<forall>j. cached ns f = Some j \<and> ss_alive ns j \<longrightarrow> ?i = j" by (simp add: lookup_result_def)
  moreover have "?i = backing ns f" if "\<forall>j. cached ns f = Some j \<longrightarrow> \<not> ss_alive ns j"
    using that by (simp add: lookup_result_def split: option.split)
  moreover have "?i = - 1 \<or> ss_alive ns ?i \<and> locations ns f \<noteq> None" using lookup_cases [OF assms(1), of f] by blast
  ultimately show ?thesis using run
    by (intro exI [of _ ?i] exI [of _ c]) (simp add: backing_def)
qed

definition sample_server :: "int \<Rightarrow> ExtendedSSInfo" where
  "sample_server port = \<lparr>es_ip = ''10.0.0.1'', es_nm_port = port, es_client_port = port + 1, es_is_alive = True,
     es_last_heartbeat = 0, es_files = []\<rparr>"

definition sample_env :: "'w NsEnv" where
  "sample_env = \<lparr>ne_now = 0, ne_mem_hash = (\<lambda>_. True), ne_mem_lru = (\<lambda>_. True), ne_mem_acl = True,
     ne_contact = (\<lambda>w ip port m. (NoConnection, w)), ne_popen = (\<lambda>w c. (None, w)),
     ne_time_short = (\<lambda>t. Some (show_int t)), ne_time_long = (\<lambda>t. Some (show_int t))\<rparr>"

definition sample_ns :: "unit NS" where
  "sample_ns = (init_registries (\<lambda>_. True) 0 \<lparr>fs_cwd = [], fs_nodes = [[] \<mapsto> FDir]\<rparr> ())
     \<lparr>ns_servers := [sample_server 8081, sample_server 8082, sample_server 8083]\<rparr>"

text \<open>A name server that starts satisfies the invariant, whatever the file of access rights holds.\<close>

lemma init_registries_inv: "ns_inv (init_registries mem now fs w)"
  using acl_load_inv [of mem now fs ACL_DATA_FILE] lru_inv_init request_inv_init map_ok_empty
  by (simp add: ns_inv_def tables_ok_def indexes_ok_def sizes_ok_def init_registries_def map_view_def
      file_chain.lookup_empty)

lemma acl_load_missing: "fopen_r fs p = None \<Longrightarrow> snd (acl_load mem now acl_init fs p) = acl_init"
  by (simp add: acl_load_def)

text \<open>On an empty disk there is nothing to load.\<close>

lemma empty_disk_load:
  "snd (acl_load mem now acl_init \<lparr>fs_cwd = [], fs_nodes = [[] \<mapsto> FDir]\<rparr> ACL_DATA_FILE) = acl_init"
proof -
  let ?fs = "\<lparr>fs_cwd = [], fs_nodes = [[] \<mapsto> FDir]\<rparr>"
  have "runs (\<lambda>c. c \<noteq> SLASH) ACL_DATA_FILE = [ACL_DATA_FILE]" by (rule runs_all) simp_all
  then have "resolve ?fs ACL_DATA_FILE = [ACL_DATA_FILE]" by (simp add: resolve_def)
  then have "fopen_r ?fs ACL_DATA_FILE = None" by (simp add: fopen_r_def fs_lookup_def)
  then show ?thesis by (rule acl_load_missing)
qed

lemma sample_ns_inv: "ns_inv sample_ns"
proof -
  let ?fs = "\<lparr>fs_cwd = [], fs_nodes = [[] \<mapsto> FDir]\<rparr>"
  have "ns_inv (init_registries (\<lambda>_. True) 0 ?fs ())" by (rule init_registries_inv)
  then show ?thesis unfolding sample_ns_def
    by (auto simp: ns_inv_def tables_ok_def indexes_ok_def sizes_ok_def init_registries_def sample_server_def
        map_view_def file_chain.lookup_empty)
qed

theorem file_lookup_sound_witness:
  "\<exists>ns c. hashmap_add sample_env ''a'' 1 sample_ns = Some ns \<and> locations ns ''a'' = Some 1 \<and>
     find_ss_for_file (sample_env :: unit NsEnv) ''a'' ns = Some (1, ns\<lparr>ns_lru := c\<rparr>) \<and>
     ns_inv (ns\<lparr>ns_lru := c\<rparr>)"
proof -
  have alive: "ss_alive sample_ns 1" by (simp add: ss_alive_def ss_count_def sample_ns_def sample_server_def)
  obtain m c where add: "hashmap_add sample_env ''a'' 1 sample_ns = Some (sample_ns\<lparr>ns_lru := c, ns_file_map := m\<rparr>)"
    "ns_inv (sample_ns\<lparr>ns_lru := c, ns_file_map := m\<rparr>)"
    "map_view m = (if locations sample_ns ''a'' \<noteq> None \<or> ne_mem_hash (sample_env :: unit NsEnv) ''a''
      then (locations sample_ns)(''a'' \<mapsto> 1) else locations sample_ns)" "cache_map c = (cached sample_ns)(''a'' := None)"
    by (rule hashmap_add_inv [OF sample_ns_inv _ ss_alive_index [OF alive], of "''a''" sample_env]) simp_all
  let ?ns = "sample_ns\<lparr>ns_lru := c, ns_file_map := m\<rparr>"
  have loc: "locations ?ns ''a'' = Some 1" using add(3) by (simp add: sample_env_def)
  obtain i k where run: "find_ss_for_file (sample_env :: unit NsEnv) ''a'' ?ns = Some (i, ?ns\<lparr>ns_lru := k\<rparr>)"
      "ns_inv (?ns\<lparr>ns_lru := k\<rparr>)"
    and found: "(\<forall>j. cached ?ns ''a'' = Some j \<longrightarrow> \<not> ss_alive ?ns j) \<longrightarrow> ss_alive ?ns 1 \<longrightarrow> i = 1"
    using file_lookup_sound [OF add(2), of "''a''" sample_env] loc by auto
  have "ss_alive ?ns 1" using alive by (simp add: ss_alive_def ss_count_def)
  with found add(4) have "i = 1" by simp
  with add(1) loc run show ?thesis by blast
qed

text \<open>The servers chosen by the next \<open>k\<close> placements.\<close>

fun place :: "nat \<Rightarrow> 'w NS \<Rightarrow> int list" where
  "place 0 ns = []"
| "place (Suc k) ns = (case find_available_ss ns of (i, ns') \<Rightarrow> i # place k ns')"

lemma available_all_alive:
  assumes "ss_count ns > 0" and "\<forall>i. 0 \<le> i \<and> i < ss_count ns \<longrightarrow> ss_alive ns i"
  shows "find_available_ss ns = ((ns_last_used ns + 1) mod ss_count ns, ns\<lparr>ns_last_used := (ns_last_used ns + 1) mod ss_count ns\<rparr>)"
proof -
  let ?n = "ss_count ns" and ?s = "(ns_last_used ns + 1) mod ss_count ns"
  have "find (ss_alive ns) (map (\<lambda>i. (?s + int i) mod ?n) [0..<length (ns_servers ns)]) = Some ?s"
    using assms by (auto simp: ss_count_def upt_conv_Cons)
  then show ?thesis using assms(1) by (simp add: find_available_ss_def Let_def)
qed

lemma place_all_alive:
  assumes "ss_count ns > 0" and "\<forall>i. 0 \<le> i \<and> i < ss_count ns \<longrightarrow> ss_alive ns i"
  shows "place k ns = map (\<lambda>j. (ns_last_used ns + 1 + int j) mod ss_count ns) [0..<k]"
  using assms
proof (induction k arbitrary: ns)
  case (Suc k)
  let ?n = "ss_count ns" and ?s = "(ns_last_used ns + 1) mod ss_count ns"
  have run: "find_available_ss ns = (?s, ns\<lparr>ns_last_used := ?s\<rparr>)" by (rule available_all_alive [OF Suc.prems])
  let ?ns = "ns\<lparr>ns_last_used := ?s\<rparr>"
  have count: "ss_count ?ns = ss_count ns" by (simp add: ss_count_def)
  have "place k ?ns = map (\<lambda>j. (?s + 1 + int j) mod ?n) [0..<k]"
    using Suc.IH [of ?ns] Suc.prems by (simp add: count)
  moreover have "(?s + 1 + int j) mod ?n = (ns_last_used ns + 1 + int (Suc j)) mod ?n" for j
  proof -
    have "(?s + (1 + int j)) mod ?n = (ns_last_used ns + 1 + (1 + int j)) mod ?n" by (rule mod_add_left_eq)
    then show ?thesis by (simp add: add_ac)
  qed
  ultimately have "place (Suc k) ns = ?s # map (\<lambda>j. (ns_last_used ns + 1 + int (Suc j)) mod ?n) [0..<k]"
    by (simp only: place.simps run prod.case)
  then show ?case by (simp add: upt_conv_Cons map_Suc_upt [symmetric] comp_def del: upt_Suc)
qed simp

text \<open>
  Placement is fair: while all \<open>n\<close> registered servers are alive, any \<open>n\<close> consecutive
  choices of a server for a new file or replica take every server exactly once.
\<close>

theorem round_robin_fair:
  assumes "ss_count ns > 0" and "\<forall>i. 0 \<le> i \<and> i < ss_count ns \<longrightarrow> ss_alive ns i"
  shows "distinct (place (nat (ss_count ns)) ns) \<and> set (place (nat (ss_count ns)) ns) = {0 ..< ss_count ns}"
proof -
  let ?n = "ss_count ns" and ?u = "ns_last_used ns + 1"
  have inj: "inj_on (\<lambda>j. (?u + int j) mod ?n) (set [0..<nat ?n])"
  proof (rule inj_onI)
    fix a b assume ab: "a \<in> set [0..<nat ?n]" "b \<in> set [0..<nat ?n]" and eq: "(?u + int a) mod ?n = (?u + int b) mod ?n"
    from eq have "int a mod ?n = int b mod ?n" by (metis add_diff_cancel_left' mod_diff_cong)
    with ab assms(1) show "a = b" by simp
  qed
  have p: "place (nat ?n) ns = map (\<lambda>j. (?u + int j) mod ?n) [0..<nat ?n]"
    by (rule place_all_alive [OF assms])
  have d: "distinct (place (nat ?n) ns)" unfolding p using inj by (simp add: distinct_map)
  have "set (place (nat ?n) ns) \<subseteq> {0 ..< ?n}" unfolding p using assms(1) by auto
  moreover have "card (set (place (nat ?n) ns)) = card {0 ..< ?n}"
    using d distinct_card by (fastforce simp: p)
  ultimately have "set (place (nat ?n) ns) = {0 ..< ?n}" by (simp add: card_subset_eq)
  with d show ?thesis by blast
qed

theorem round_robin_fair_witness:
  "distinct (place 3 sample_ns) \<and> set (place 3 sample_ns) = {0, 1, 2}"
proof -
  have count: "ss_count sample_ns = 3" by (simp add: ss_count_def sample_ns_def)
  have "\<forall>i. 0 \<le> i \<and> i < ss_count sample_ns \<longrightarrow> ss_alive sample_ns i"
  proof (intro allI impI)
    fix i :: int assume "0 \<le> i \<and> i < ss_count sample_ns"
    then have "i = 0 \<or> i = 1 \<or> i = 2" by (auto simp: count)
    then show "ss_alive sample_ns i" by (auto simp: ss_alive_def count) (auto simp: sample_ns_def sample_server_def)
  qed
  with round_robin_fair [of sample_ns] show ?thesis by (auto simp: count)
qed

end
