(* ===== verification/Name_Server.thy ===== *)
theory Name_Server
  imports NS_Registry
begin

text \<open>
  The request handlers of \<^verbatim>\<open>nameserver/nameserver.c\<close> and their dispatch. A handler takes the
  state and a message and returns the messages it sends to the client with the new state;
  \<open>None\<close> is undefined behaviour. The conversation with a storage server (socket, connect,
  send, receive) is one call of the environment's \<open>ne_contact\<close>, which may change the world.
  The main thread handles one connection at a time, so a handler is one step.
\<close>

section \<open>Answers and contacts\<close>

type_synonym 'w ns_result = "(Message list \<times> 'w NS) option"

definition ns_reply :: "'w NsEnv \<Rightarrow> int \<Rightarrow> cstring \<Rightarrow> Message" where
  "ns_reply env code txt =
     put_content txt ((INIT_MESSAGE (ne_now env))\<lparr>m_operation := OP_ACK, m_error_code := code\<rparr>)"

definition answer :: "'w NsEnv \<Rightarrow> int \<Rightarrow> cstring \<Rightarrow> 'w NS \<Rightarrow> 'w ns_result" where
  "answer env code txt ns = Some ([ns_reply env code txt], ns)"

abbreviation server :: "'w NS \<Rightarrow> int \<Rightarrow> ExtendedSSInfo" where
  "server ns i \<equiv> ns_servers ns ! nat i"

definition route_info :: "'w NsEnv \<Rightarrow> int \<Rightarrow> cstring \<Rightarrow> 'w NS \<Rightarrow> Message" where
  "route_info env i purpose ns =
     (let ip = cbuf MAX_IP_LEN (es_ip (server ns i)); port = es_client_port (server ns i)
      in (put_content (''Connect to SS at '' @ ip @ '':'' @ show_int port @ purpose)
           ((INIT_MESSAGE (ne_now env))\<lparr>m_operation := OP_ROUTE_INFO, m_error_code := ERR_SUCCESS\<rparr>))
         \<lparr>m_ss_ip := ip, m_ss_port := port\<rparr>)"

definition contact_nm :: "'w NsEnv \<Rightarrow> int \<Rightarrow> Message \<Rightarrow> 'w NS \<Rightarrow> Contact \<times> 'w NS" where
  "contact_nm env i msg ns =
     (let (r, w) = ne_contact env (ns_world ns) (es_ip (server ns i)) (es_nm_port (server ns i)) msg
      in (r, ns\<lparr>ns_world := w\<rparr>))"

definition contact_client_port :: "'w NsEnv \<Rightarrow> int \<Rightarrow> Message \<Rightarrow> 'w NS \<Rightarrow> Contact \<times> 'w NS" where
  "contact_client_port env i msg ns =
     (let (r, w) = ne_contact env (ns_world ns) (es_ip (server ns i)) (es_client_port (server ns i)) msg
      in (r, ns\<lparr>ns_world := w\<rparr>))"

text \<open>\<open>acl_save (&acl_table, ACL_DATA_FILE)\<close>; its result is ignored everywhere.\<close>

definition persist_acl :: "'w NS \<Rightarrow> 'w NS" where
  "persist_acl ns = ns\<lparr>ns_fs := snd (acl_save (ns_acl ns) (ns_fs ns) ACL_DATA_FILE)\<rparr>"

section \<open>Registration\<close>

fun hashmap_add_all :: "'w NsEnv \<Rightarrow> int \<Rightarrow> cstring list \<Rightarrow> 'w NS \<Rightarrow> 'w NS option" where
  "hashmap_add_all env i [] ns = Some ns"
| "hashmap_add_all env i (token # tokens) ns =
     Option.bind (hashmap_add env token i ns) (hashmap_add_all env i tokens)"

text \<open>The registered server with the message's address: first match in the table.\<close>

definition find_server :: "Message \<Rightarrow> 'w NS \<Rightarrow> int" where
  "find_server msg ns =
     (case find (\<lambda>i. es_ip (ns_servers ns ! i) = m_ip_address msg \<and> es_nm_port (ns_servers ns ! i) = m_nm_port msg)
             [0..<length (ns_servers ns)] of
        Some i \<Rightarrow> int i
      | None \<Rightarrow> - 1)"

text \<open>\<open>strtok (temp_content, "|")\<close>, at most \<open>MAX_FILES\<close> tokens.\<close>

definition listed_files :: "Message \<Rightarrow> cstring list" where
  "listed_files msg = take MAX_FILES (runs (\<lambda>c. c \<noteq> BAR) (cbuf MAX_CONTENT_LEN (m_content msg)))"

definition handle_ss_registration :: "'w NsEnv \<Rightarrow> 'w NS \<Rightarrow> Message \<Rightarrow> 'w ns_result" where
  "handle_ss_registration env ns msg =
     (let existing_ss = find_server msg ns;
          files = listed_files msg;
          stored = map (cbuf MAX_FILENAME_LEN) files
      in if existing_ss \<ge> 0 then
           do {
             ns \<leftarrow> Some (upd_server existing_ss (\<lambda>s. s\<lparr>es_is_alive := True, es_last_heartbeat := ne_now env,
                     es_client_port := m_client_port msg\<rparr>) ns);
             ns \<leftarrow> hashmap_add_all env existing_ss files ns;
             ns \<leftarrow> Some (upd_server existing_ss (\<lambda>s. s\<lparr>es_files := stored\<rparr>) ns);
             answer env ERR_SUCCESS (''Storage Server recovered as SS['' @ show_int existing_ss @ ''] with '' @
               show_nat (length files) @ '' files'') ns
           }
         else if length (ns_servers ns) \<ge> MAX_STORAGE_SERVERS then
           answer env ERR_SERVER_ERROR ''Maximum storage servers reached'' ns
         else
           do {
             ss_index \<leftarrow> Some (ss_count ns);
             ns \<leftarrow> hashmap_add_all env ss_index files ns;
             ns \<leftarrow> Some (ns\<lparr>ns_servers := ns_servers ns @
                     [\<lparr>es_ip = cbuf MAX_IP_LEN (m_ip_address msg), es_nm_port = m_nm_port msg,
                       es_client_port = m_client_port msg, es_is_alive = True,
                       es_last_heartbeat = ne_now env, es_files = stored\<rparr>]\<rparr>);
             answer env ERR_SUCCESS (''Storage Server registered successfully as SS['' @ show_int ss_index @
               ''] with '' @ show_nat (length files) @ '' files'') ns
           })"

definition handle_client_registration :: "'w NsEnv \<Rightarrow> 'w NS \<Rightarrow> Message \<Rightarrow> 'w ns_result" where
  "handle_client_registration env ns msg =
     (if contains_invalid_chars (m_sender_id msg) then
        answer env ERR_BAD_REQUEST ''Invalid username: cannot contain | or , characters'' ns
      else if length (ns_clients ns) \<ge> MAX_CONCURRENT_CLIENTS then
        answer env ERR_SERVER_ERROR ''Maximum clients reached'' ns
      else
        answer env ERR_SUCCESS (''Welcome '' @ m_sender_id msg @ ''! Connected to Name Server'')
          (ns\<lparr>ns_clients := ns_clients ns @
            [\<lparr>ci_username = cbuf MAX_USERNAME_LEN (m_sender_id msg), ci_ip = cbuf MAX_IP_LEN (m_ip_address msg),
              ci_port = m_nm_port msg, ci_connected_time = ne_now env, ci_is_active = True\<rparr>]\<rparr>))"

definition handle_heartbeat :: "'w NsEnv \<Rightarrow> 'w NS \<Rightarrow> Message \<Rightarrow> 'w ns_result" where
  "handle_heartbeat env ns msg =
     (let ss_index = find_server msg ns
      in if ss_index = - 1 then answer env ERR_NOT_FOUND ''Storage server not registered'' ns
         else answer env ERR_SUCCESS []
           (upd_server ss_index (\<lambda>s. s\<lparr>es_last_heartbeat := ne_now env, es_is_alive := True\<rparr>) ns))"

section \<open>Creating and deleting files\<close>

definition replicate_msg :: "'w NsEnv \<Rightarrow> Message \<Rightarrow> Message" where
  "replicate_msg env msg =
     (INIT_MESSAGE (ne_now env))\<lparr>m_operation := OP_REPLICATE, m_filename := cbuf MAX_FILENAME_LEN (m_filename msg),
       m_sender_id := cbuf MAX_USERNAME_LEN (m_sender_id msg)\<rparr>"

text \<open>The replication part: the answer to the replication request is not waited for.\<close>

definition replicate_file :: "'w NsEnv \<Rightarrow> int \<Rightarrow> Message \<Rightarrow> 'w NS \<Rightarrow> 'w NS option" where
  "replicate_file env ss_index msg ns =
     (if ss_count ns > 1 then
        let (replica_ss, ns) = find_available_ss ns
        in if replica_ss \<ge> 0 \<and> replica_ss \<noteq> ss_index then
             let ns = add_replication_entry (m_filename msg) ss_index replica_ss ns;
                 (r, ns) = contact_nm env replica_ss (replicate_msg env msg) ns
             in if r = NoSocket \<or> r = NoConnection then Some ns
                else add_file_to_ss env replica_ss (m_filename msg) ns
           else Some ns
      else Some ns)"

text \<open>What the name server records once the storage server has created the file.\<close>

definition register_created :: "'w NsEnv \<Rightarrow> int \<Rightarrow> Message \<Rightarrow> 'w NS \<Rightarrow> 'w NS option" where
  "register_created env ss_index msg ns =
     do {
       ns \<leftarrow> add_file_to_ss env ss_index (m_filename msg) ns;
       let (added, acl) = acl_add_file (ne_mem_acl env) (ne_now env) (ns_acl ns) (m_filename msg) (m_sender_id msg);
           ns = ns\<lparr>ns_acl := acl\<rparr>
       in replicate_file env ss_index msg (if added = 0 then persist_acl ns else ns)
     }"

definition handle_create_request :: "'w NsEnv \<Rightarrow> 'w NS \<Rightarrow> Message \<Rightarrow> 'w ns_result" where
  "handle_create_request env ns msg =
     (if contains_invalid_chars (m_filename msg) then
        answer env ERR_BAD_REQUEST ''Invalid filename: cannot contain | or , characters'' ns
      else do {
        (exists, ns) \<leftarrow> ns_file_exists env (m_filename msg) ns;
        if exists then
          answer env ERR_CONFLICT (''File '' @ quoted (m_filename msg) @ '' already exists'') ns
        else
          let (ss_index, ns) = find_available_ss ns
          in if ss_index < 0 then answer env ERR_SS_UNAVAILABLE ''No storage servers available'' ns
             else
               let (r, ns) = contact_nm env ss_index msg ns
               in case r of
                    NoSocket \<Rightarrow> answer env ERR_SERVER_ERROR ''Failed to contact storage server'' ns
                  | NoConnection \<Rightarrow> answer env ERR_SS_UNAVAILABLE ''Failed to contact storage server'' ns
                  | NotSent _ \<Rightarrow> answer env ERR_SERVER_ERROR ''Failed to contact storage server'' ns
                  | NoReply _ \<Rightarrow> answer env ERR_SERVER_ERROR ''Storage server did not respond'' ns
                  | Replied ss_response \<Rightarrow>
                      if m_error_code ss_response = ERR_SUCCESS \<or> m_error_code ss_response = ERR_CREATED
                      then do {
                        ns \<leftarrow> register_created env ss_index msg ns;
                        Some ([ss_response], ns)
                      }
                      else Some ([ss_response], ns)
      })"

definition handle_delete_request :: "'w NsEnv \<Rightarrow> 'w NS \<Rightarrow> Message \<Rightarrow> 'w ns_result" where
  "handle_delete_request env ns msg =
     (if \<not> acl_check_write (ns_acl ns) (m_filename msg) (m_sender_id msg) then
        answer env ERR_ACCESS_DENIED
          (''Access denied: You don'' @ [CHR 0x27] @ ''t have permission to delete '' @ quoted (m_filename msg)) ns
      else do {
        (ss_index, ns) \<leftarrow> find_ss_for_file env (m_filename msg) ns;
        if ss_index < 0 then answer env ERR_NOT_FOUND (''File '' @ quoted (m_filename msg) @ '' not found'') ns
        else
          let (r, ns) = contact_nm env ss_index msg ns
          in case r of
               NoSocket \<Rightarrow> answer env ERR_SERVER_ERROR ''Failed to contact storage server'' ns
             | NoConnection \<Rightarrow> answer env ERR_SERVER_ERROR ''Failed to contact storage server'' ns
             | NotSent _ \<Rightarrow> answer env ERR_SERVER_ERROR ''Failed to contact storage server'' ns
             | NoReply _ \<Rightarrow> answer env ERR_SERVER_ERROR ''Storage server did not respond'' ns
             | Replied ss_response \<Rightarrow>
                 if m_error_code ss_response = ERR_SUCCESS then do {
                   ns \<leftarrow> hashmap_remove (m_filename msg) ns;
                   let (removed, acl) = acl_remove_file (ns_acl ns) (m_filename msg);
                       ns = ns\<lparr>ns_acl := acl\<rparr>;
                       ns = (if removed = 0 then persist_acl ns else ns)
                   in Some ([ss_response],
                        upd_server ss_index (\<lambda>s. s\<lparr>es_files := remove1 (m_filename msg) (es_files s)\<rparr>) ns)
                 }
                 else Some ([ss_response], ns)
      })"

section \<open>Routing a client to the storage server\<close>

definition ns_handle_read_request :: "'w NsEnv \<Rightarrow> 'w NS \<Rightarrow> Message \<Rightarrow> 'w ns_result" where
  "ns_handle_read_request env ns msg =
     do {
       (ss_index, ns) \<leftarrow> find_ss_for_file env (m_filename msg) ns;
       if ss_index < 0 then answer env ERR_NOT_FOUND (''File '' @ quoted (m_filename msg) @ '' not found'') ns
       else if \<not> acl_check_read (ns_acl ns) (m_filename msg) (m_sender_id msg) then
         answer env ERR_ACCESS_DENIED (''Access denied: You don'' @ [CHR 0x27] @ ''t have permission to read '' @
           quoted (m_filename msg)) ns
       else Some ([route_info env ss_index [] ns], ns)
     }"

definition ns_handle_write_request :: "'w NsEnv \<Rightarrow> 'w NS \<Rightarrow> Message \<Rightarrow> 'w ns_result" where
  "ns_handle_write_request env ns msg =
     do {
       (ss_index, ns) \<leftarrow> find_ss_for_file env (m_filename msg) ns;
       if ss_index < 0 then answer env ERR_NOT_FOUND (''File '' @ quoted (m_filename msg) @ '' not found'') ns
       else if \<not> acl_check_write (ns_acl ns) (m_filename msg) (m_sender_id msg) then
         answer env ERR_ACCESS_DENIED (''Access denied: You don'' @ [CHR 0x27] @ ''t have permission to write '' @
           quoted (m_filename msg)) ns
       else Some ([route_info env ss_index '' for WRITE'' ns], ns)
     }"

definition ns_handle_undo_request :: "'w NsEnv \<Rightarrow> 'w NS \<Rightarrow> Message \<Rightarrow> 'w ns_result" where
  "ns_handle_undo_request env ns msg =
     do {
       (ss_index, ns) \<leftarrow> find_ss_for_file env (m_filename msg) ns;
       if ss_index < 0 then answer env ERR_NOT_FOUND (''File '' @ quoted (m_filename msg) @ '' not found'') ns
       else if \<not> acl_check_write (ns_acl ns) (m_filename msg) (m_sender_id msg) then
         answer env ERR_ACCESS_DENIED (''Access denied: You don'' @ [CHR 0x27] @ ''t have permission to undo '' @
           quoted (m_filename msg)) ns
       else Some ([route_info env ss_index '' for UNDO'' ns], ns)
     }"

definition ns_handle_stream_request :: "'w NsEnv \<Rightarrow> 'w NS \<Rightarrow> Message \<Rightarrow> 'w ns_result" where
  "ns_handle_stream_request env ns msg =
     do {
       (ss_index, ns) \<leftarrow> find_ss_for_file env (m_filename msg) ns;
       if ss_index < 0 then answer env ERR_NOT_FOUND (''File '' @ quoted (m_filename msg) @ '' not found'') ns
       else if \<not> acl_check_read (ns_acl ns) (m_filename msg) (m_sender_id msg) then
         answer env ERR_ACCESS_DENIED (''Access denied: You don'' @ [CHR 0x27] @ ''t have permission to read '' @
           quoted (m_filename msg)) ns
       else Some ([route_info env ss_index '' for STREAM'' ns], ns)
     }"

section \<open>Executing a file\<close>

text \<open>The loop that reads the command's output in lines of at most 255 characters.\<close>

function exec_output :: "char list \<Rightarrow> cstring \<Rightarrow> cstring" where
  "exec_output s output =
     (if s = [] then output
      else
        let line = cstr_of (fst (fgets 256 s))
        in if length output + length line < MAX_CONTENT_LEN - 1
           then exec_output (snd (fgets 256 s)) (output @ line)
           else output)"
  by pat_completeness auto
termination
  by (relation "measure (\<lambda>(s, output). length s)") (auto simp: fgets_def Let_def)

declare exec_output.simps [simp del]

definition handle_exec_request :: "'w NsEnv \<Rightarrow> 'w NS \<Rightarrow> Message \<Rightarrow> 'w ns_result" where
  "handle_exec_request env ns msg =
     do {
       (ss_index, ns) \<leftarrow> find_ss_for_file env (m_filename msg) ns;
       if ss_index < 0 then answer env ERR_NOT_FOUND (''File '' @ quoted (m_filename msg) @ '' not found'') ns
       else if \<not> acl_check_read (ns_acl ns) (m_filename msg) (m_sender_id msg) then
         answer env ERR_ACCESS_DENIED (''Access denied: You don'' @ [CHR 0x27] @ ''t have permission to read '' @
           quoted (m_filename msg)) ns
       else
         let read_req = (INIT_MESSAGE (ne_now env))\<lparr>m_operation := OP_READ,
               m_filename := cbuf MAX_FILENAME_LEN (m_filename msg)\<rparr>;
             (r, ns) = contact_nm env ss_index read_req ns
         in case r of
              NoSocket \<Rightarrow> answer env ERR_SS_UNAVAILABLE ''Storage server unavailable'' ns
            | NoConnection \<Rightarrow> answer env ERR_SS_UNAVAILABLE ''Storage server unavailable'' ns
            | NotSent _ \<Rightarrow> answer env ERR_SERVER_ERROR ''Failed to read file from SS'' ns
            | NoReply _ \<Rightarrow> answer env ERR_SERVER_ERROR ''Failed to read file from SS'' ns
            | Replied ss_response \<Rightarrow>
                if m_error_code ss_response \<noteq> ERR_SUCCESS
                then answer env ERR_SERVER_ERROR ''Failed to read file from SS'' ns
                else
                  let (run, w) = ne_popen env (ns_world ns) (cbuf MAX_CONTENT_LEN (m_content ss_response));
                      ns = ns\<lparr>ns_world := w\<rparr>
                  in case run of
                       None \<Rightarrow> answer env ERR_SERVER_ERROR ''Failed to execute command'' ns
                     | Some (bytes, exit_status) \<Rightarrow>
                         let output = exec_output bytes []
                         in if exit_status = 0 then
                              answer env ERR_SUCCESS
                                (if output \<noteq> [] then output else ''(command produced no output)'') ns
                            else
                              answer env ERR_SERVER_ERROR (''Command failed with exit code '' @
                                show_int exit_status @ ''. Output: '' @ (if output \<noteq> [] then output else ''(none)'')) ns
     }"

section \<open>Access control commands\<close>

definition handle_addaccess_request :: "'w NsEnv \<Rightarrow> 'w NS \<Rightarrow> Message \<Rightarrow> 'w ns_result" where
  "handle_addaccess_request env ns msg =
     (let fn = m_filename msg; user = m_target_user msg; acc = m_access_type msg
      in if contains_invalid_chars user then
           answer env ERR_BAD_REQUEST ''Invalid username: cannot contain | or , characters'' ns
         else if \<not> user_exists user ns then
           answer env ERR_BAD_REQUEST (''User '' @ quoted user @
             '' does not exist. User must be registered to grant access.'') ns
         else if \<not> acl_check_owner (ns_acl ns) fn (m_sender_id msg) then
           answer env ERR_ACCESS_DENIED (''Access denied: Only the owner can grant access to '' @ quoted fn) ns
         else if acc \<noteq> ACCESS_READ \<and> acc \<noteq> ACCESS_WRITE then
           answer env ERR_BAD_REQUEST ''Invalid access type. Use -R for read or -W for write'' ns
         else
           let (result, acl) = acl_add_access (ns_acl ns) fn user acc;
               ns = ns\<lparr>ns_acl := acl\<rparr>
           in if result < 0 then answer env ERR_SERVER_ERROR (''Failed to grant access to '' @ quoted user) ns
              else answer env ERR_SUCCESS (''Granted '' @ (if acc = ACCESS_READ then ''READ'' else ''WRITE'') @
                '' access to '' @ quoted fn @ '' for user '' @ quoted user) (persist_acl ns))"

definition handle_remaccess_request :: "'w NsEnv \<Rightarrow> 'w NS \<Rightarrow> Message \<Rightarrow> 'w ns_result" where
  "handle_remaccess_request env ns msg =
     (let fn = m_filename msg; user = m_target_user msg
      in if \<not> acl_check_owner (ns_acl ns) fn (m_sender_id msg) then
           answer env ERR_ACCESS_DENIED (''Access denied: Only the owner can revoke access to '' @ quoted fn) ns
         else
           let (result, acl) = acl_remove_access (ns_acl ns) fn user;
               ns = ns\<lparr>ns_acl := acl\<rparr>
           in if result < 0 then
                answer env ERR_NOT_FOUND (''User '' @ quoted user @ '' doesn'' @ [CHR 0x27] @ ''t have access to '' @ quoted fn) ns
              else answer env ERR_SUCCESS (''Revoked access to '' @ quoted fn @ '' for user '' @ quoted user)
                (persist_acl ns))"

section \<open>Access requests\<close>

definition handle_requestaccess_request :: "'w NsEnv \<Rightarrow> 'w NS \<Rightarrow> Message \<Rightarrow> 'w ns_result" where
  "handle_requestaccess_request env ns msg =
     (let fn = m_filename msg; user = m_sender_id msg
      in if hashmap_find fn ns < 0 then answer env ERR_NOT_FOUND ''File not found'' ns
         else if acl_can_access (ns_acl ns) fn user then
           answer env ERR_ALREADY_EXISTS ''You already have access to this file'' ns
         else
           case acl_get_owner (ns_acl ns) fn MAX_USERNAME_LEN of
             None \<Rightarrow> answer env ERR_NOT_FOUND ''File owner not found'' ns
           | Some owner \<Rightarrow>
               let (result, requests) = request_add (ne_now env) (ns_requests ns) fn user owner ACCESS_READ;
                   ns = ns\<lparr>ns_requests := requests\<rparr>
               in if result = ERR_SUCCESS
                  then answer env ERR_SUCCESS ''Access request submitted. Owner will be notified.'' ns
                  else answer env ERR_SERVER_ERROR ''Failed to submit request'' ns)"

text \<open>
  The printing loops over a buffer of \<open>MAX_CONTENT_LEN\<close> bytes: \<open>offset\<close> counts the full length
  of what was printed, so the buffer read back is a prefix; the loop goes on while it is below
  a limit.
\<close>

fun print_while :: "nat \<Rightarrow> cstring \<Rightarrow> cstring list \<Rightarrow> cstring" where
  "print_while limit buf [] = buf"
| "print_while limit buf (line # rest) =
     (if length buf < limit then print_while limit (buf @ line) rest else buf)"

definition handle_viewrequests_request :: "'w NsEnv \<Rightarrow> 'w NS \<Rightarrow> Message \<Rightarrow> 'w ns_result" where
  "handle_viewrequests_request env ns msg =
     (let fn = m_filename msg; user = m_sender_id msg
      in if \<not> acl_is_owner (ns_acl ns) fn user then
           answer env ERR_PERMISSION_DENIED ''Permission denied: Only owner can view requests'' ns
         else
           let requests = request_get_for_owner (ns_requests ns) user 100;
               lines = map (\<lambda>q. ar_requester q @ '' requests access to '' @ ar_filename q @ [NL])
                 (filter (\<lambda>q. ar_filename q = fn) requests)
           in if requests = [] then answer env ERR_SUCCESS ''No pending access requests for this file'' ns
              else if lines = [] then answer env ERR_SUCCESS ''No pending requests for this specific file'' ns
              else answer env ERR_SUCCESS (print_while (MAX_CONTENT_LEN - 50) [] lines) ns)"

definition handle_approverequest_request :: "'w NsEnv \<Rightarrow> 'w NS \<Rightarrow> Message \<Rightarrow> 'w ns_result" where
  "handle_approverequest_request env ns msg =
     (let fn = m_filename msg; owner = m_sender_id msg; user = m_content msg
      in if \<not> acl_is_owner (ns_acl ns) fn owner then
           answer env ERR_PERMISSION_DENIED ''Permission denied: Only owner can approve requests'' ns
         else
           let (result, requests) = request_approve (ns_requests ns) fn user owner;
               ns = ns\<lparr>ns_requests := requests\<rparr>
           in if result = ERR_SUCCESS then
                let (added, acl) = acl_add_user (ns_acl ns) fn user;
                    ns = ns\<lparr>ns_acl := acl\<rparr>
                in if added = 0 then answer env ERR_SUCCESS (''Access granted to '' @ user) ns
                   else answer env ERR_SERVER_ERROR ''Failed to grant access'' ns
              else answer env ERR_NOT_FOUND ''Request not found'' ns)"

definition handle_denyrequest_request :: "'w NsEnv \<Rightarrow> 'w NS \<Rightarrow> Message \<Rightarrow> 'w ns_result" where
  "handle_denyrequest_request env ns msg =
     (let fn = m_filename msg; owner = m_sender_id msg; user = m_content msg
      in if \<not> acl_is_owner (ns_acl ns) fn owner then
           answer env ERR_PERMISSION_DENIED ''Permission denied: Only owner can deny requests'' ns
         else
           let (result, requests) = request_deny (ns_requests ns) fn user owner;
               ns = ns\<lparr>ns_requests := requests\<rparr>
           in if result = ERR_SUCCESS then answer env ERR_SUCCESS (''Request denied for '' @ user) ns
              else answer env ERR_NOT_FOUND ''Request not found'' ns)"

section \<open>Lists of users and files\<close>

definition is_user_duplicate :: "cstring \<Rightarrow> cstring list \<Rightarrow> bool" where
  "is_user_duplicate username users \<longleftrightarrow> username \<in> set users"

text \<open>The combined list of the users in the access lists and of the active clients.\<close>

definition add_active_client :: "ClientInfo \<Rightarrow> cstring list \<Rightarrow> cstring list" where
  "add_active_client c users =
     (if length users < MAX_CONCURRENT_CLIENTS * 2 \<and> ci_is_active c \<and> \<not> is_user_duplicate (ci_username c) users
      then users @ [cbuf MAX_USERNAME_LEN (ci_username c)] else users)"

definition all_users :: "'w NS \<Rightarrow> cstring list" where
  "all_users ns = fold add_active_client (ns_clients ns)
     (map (cbuf MAX_USERNAME_LEN) (acl_get_all_users (ns_acl ns) MAX_CONCURRENT_CLIENTS))"

definition list_item :: "cstring \<Rightarrow> cstring" where
  "list_item name = ''  - '' @ name @ [NL]"

definition handle_list_request :: "'w NsEnv \<Rightarrow> 'w NS \<Rightarrow> Message \<Rightarrow> 'w ns_result" where
  "handle_list_request env ns msg =
     (let users = all_users ns
      in answer env ERR_SUCCESS
           (print_while (MAX_CONTENT_LEN - 100) (''Users in system ('' @ show_nat (length users) @ ''):'' @ [NL])
             (map list_item users)) ns)"

text \<open>
  \<open>%-20s\<close> pads on the right; \<open>%ld|%d|%d|%ld\<close> scans integers separated by bars. A number
  that its object (\<open>long\<close> of 64 bits, \<open>int\<close> of 32) cannot hold is undefined behaviour: \<open>None\<close>.
\<close>

datatype Conversion = ConvLD | ConvD

fun conv_fits :: "Conversion \<Rightarrow> int \<Rightarrow> bool" where
  "conv_fits ConvLD i \<longleftrightarrow> - (2 ^ 63) \<le> i \<and> i < 2 ^ 63"
| "conv_fits ConvD i \<longleftrightarrow> - (2 ^ 31) \<le> i \<and> i < 2 ^ 31"

definition pad_right :: "nat \<Rightarrow> cstring \<Rightarrow> cstring" where
  "pad_right n s = s @ replicate (n - length s) (CHR '' '')"

fun scan_ints :: "Conversion list \<Rightarrow> cstring \<Rightarrow> int list option" where
  "scan_ints [] s = Some []"
| "scan_ints (c # cs) s =
     (case scan_int s of
        None \<Rightarrow> Some []
      | Some (i, s') \<Rightarrow>
          if conv_fits c i
          then (case scan_bar s' of
                  None \<Rightarrow> Some [i]
                | Some s'' \<Rightarrow> map_option (Cons i) (scan_ints cs s''))
          else None)"

abbreviation VIEW_FORMAT :: "Conversion list" where
  "VIEW_FORMAT \<equiv> [ConvLD, ConvD, ConvD, ConvLD]"

abbreviation INFO_FORMAT :: "Conversion list" where
  "INFO_FORMAT \<equiv> [ConvLD, ConvD, ConvD, ConvLD, ConvLD, ConvLD]"

definition view_row :: "cstring \<Rightarrow> cstring \<Rightarrow> cstring \<Rightarrow> cstring \<Rightarrow> cstring \<Rightarrow> cstring" where
  "view_row a b c d e = pad_right 30 a @ '' '' @ pad_right 10 b @ '' '' @ pad_right 20 c @ '' '' @
     pad_right 10 d @ '' '' @ pad_right 10 e @ [NL]"

definition metadata_req :: "'w NsEnv \<Rightarrow> cstring \<Rightarrow> Message" where
  "metadata_req env filename =
     (INIT_MESSAGE (ne_now env))\<lparr>m_operation := OP_GET_METADATA, m_filename := cbuf MAX_FILENAME_LEN filename\<rparr>"

text \<open>
  One round of the metadata loop: the row to print, if the file's server answers in the expected
  form. \<open>localtime\<close> gives no calendar time for a year out of range, and the code passes its null
  pointer on to \<open>strftime\<close>: \<open>None\<close>.
\<close>

definition metadata_row :: "'w NsEnv \<Rightarrow> cstring \<Rightarrow> 'w NS \<Rightarrow> (cstring \<times> 'w NS) option" where
  "metadata_row env filename ns =
     do {
       (ss_index, ns) \<leftarrow> find_ss_for_file env filename ns;
       if ss_index < 0 then Some ([], ns)
       else
         let (r, ns) = contact_nm env ss_index (metadata_req env filename) ns
         in case r of
              Replied metadata_resp \<Rightarrow>
                if m_error_code metadata_resp = ERR_SUCCESS then do {
                  vs \<leftarrow> scan_ints VIEW_FORMAT (m_content metadata_resp);
                  if length vs = 4 then do {
                    time_str \<leftarrow> ne_time_short env (vs ! 3);
                    Some (view_row filename (show_int (vs ! 0)) time_str (show_int (vs ! 1)) (show_int (vs ! 2)), ns)
                  }
                  else Some ([], ns)
                }
                else Some ([], ns)
            | _ \<Rightarrow> Some ([], ns)
     }"

fun view_rows :: "'w NsEnv \<Rightarrow> cstring list \<Rightarrow> cstring \<Rightarrow> 'w NS \<Rightarrow> (cstring \<times> 'w NS) option" where
  "view_rows env [] buf ns = Some (buf, ns)"
| "view_rows env (f # fs) buf ns =
     (if length buf < MAX_CONTENT_LEN - 200 then
        Option.bind (metadata_row env f ns) (\<lambda>(row, ns). view_rows env fs (buf @ row) ns)
      else Some (buf, ns))"

definition handle_view_request :: "'w NsEnv \<Rightarrow> 'w NS \<Rightarrow> Message \<Rightarrow> 'w ns_result" where
  "handle_view_request env ns msg =
     (let all = (m_view_flags msg AND VIEW_FLAG_ALL \<noteq> 0);
          files = (if all then acl_get_all_files (ns_acl ns) MAX_FILES
                   else acl_get_accessible_files (ns_acl ns) (m_sender_id msg) MAX_FILES);
          header = (if all then ''All files ('' else ''Accessible files ('') @ show_nat (length files) @ ''):'' @ [NL]
      in if m_view_flags msg AND VIEW_FLAG_LONG \<noteq> 0 then
           do {
             (buf, ns) \<leftarrow> view_rows env files
               (header @ view_row ''Filename'' ''Size'' ''Modified'' ''Words'' ''Chars'' @
                replicate 76 (CHR ''-'') @ [NL]) ns;
             answer env ERR_SUCCESS buf ns
           }
         else
           answer env ERR_SUCCESS (print_while (MAX_CONTENT_LEN - 100) header (map list_item files)) ns)"

section \<open>Information about a file\<close>

definition info_text :: "Message \<Rightarrow> cstring \<Rightarrow> cstring \<Rightarrow> int list \<Rightarrow> cstring \<Rightarrow> cstring \<Rightarrow> cstring \<Rightarrow> int \<Rightarrow>
    'w NS \<Rightarrow> cstring" where
  "info_text msg owner access_list vs created_str modified_str accessed_str ss_index ns =
     ''File Information: '' @ m_filename msg @ [NL] @
     replicate 42 (CHR ''='') @ [NL] @
     ''Owner:          '' @ owner @ [NL] @
     ''Access:         '' @ access_list @ [NL] @
     ''Size:           '' @ show_int (vs ! 0) @ '' bytes'' @ [NL] @
     ''Word Count:     '' @ show_int (vs ! 1) @ [NL] @
     ''Char Count:     '' @ show_int (vs ! 2) @ [NL] @
     ''Created:        '' @ created_str @ [NL] @
     ''Last Modified:  '' @ modified_str @ [NL] @
     ''Last Accessed:  '' @ accessed_str @ [NL] @
     ''Location:       SS['' @ show_int ss_index @ ''] at '' @ es_ip (server ns ss_index) @ '':'' @
       show_int (es_client_port (server ns ss_index)) @ [NL]"

definition failed_metadata :: "Message \<Rightarrow> int \<Rightarrow> Message" where
  "failed_metadata response code = response\<lparr>m_error_code := code, m_content := ''Failed to retrieve file metadata''\<rparr>"

definition handle_info_request :: "'w NsEnv \<Rightarrow> 'w NS \<Rightarrow> Message \<Rightarrow> 'w ns_result" where
  "handle_info_request env ns msg =
     (let fn = m_filename msg
      in if \<not> acl_check_read (ns_acl ns) fn (m_sender_id msg) then
           answer env ERR_ACCESS_DENIED (''Access denied: You don'' @ [CHR 0x27] @
             ''t have permission to view info for '' @ quoted fn) ns
         else do {
           (ss_index, ns) \<leftarrow> find_ss_for_file env fn ns;
           if ss_index < 0 then answer env ERR_NOT_FOUND (''File '' @ quoted fn @ '' not found'') ns
           else do {
             listing \<leftarrow> acl_get_access_list (ns_acl ns) fn 512;
             let owner = (case acl_get_owner (ns_acl ns) fn MAX_USERNAME_LEN of Some u \<Rightarrow> u | None \<Rightarrow> ''unknown'');
                 access_list = (case listing of Some l \<Rightarrow> l | None \<Rightarrow> ''No access information'');
                 (r, ns) = contact_nm env ss_index (metadata_req env fn) ns
             in case r of
                  NoSocket \<Rightarrow> answer env ERR_SS_UNAVAILABLE ''Failed to retrieve file metadata'' ns
                | NoConnection \<Rightarrow> answer env ERR_SS_UNAVAILABLE ''Failed to retrieve file metadata'' ns
                | NotSent _ \<Rightarrow> answer env ERR_SERVER_ERROR ''Failed to retrieve file metadata'' ns
                | NoReply buffer \<Rightarrow> Some ([failed_metadata buffer ERR_SERVER_ERROR], ns)
                | Replied response \<Rightarrow>
                    if m_error_code response \<noteq> ERR_SUCCESS then Some ([response], ns)
                    else do {
                      vs \<leftarrow> scan_ints INFO_FORMAT (m_content response);
                      if length vs = 6 then do {
                        created_str \<leftarrow> ne_time_long env (vs ! 3);
                        modified_str \<leftarrow> ne_time_long env (vs ! 4);
                        accessed_str \<leftarrow> ne_time_long env (vs ! 5);
                        Some ([put_content (info_text msg owner access_list vs created_str modified_str accessed_str
                          ss_index ns) response], ns)
                      }
                      else Some ([response], ns)
                    }
           }
         })"

section \<open>Folders and moves\<close>

text \<open>\<open>send_message\<close> and \<open>receive_message\<close> are not checked here: the client gets the buffer as it is.\<close>

definition forward :: "'w NsEnv \<Rightarrow> int \<Rightarrow> Message \<Rightarrow> 'w NS \<Rightarrow> 'w ns_result" where
  "forward env ss_index msg ns =
     (let (r, ns) = contact_nm env ss_index msg ns
      in case r of
           NoSocket \<Rightarrow> answer env ERR_SS_UNAVAILABLE ''Storage server unavailable'' ns
         | NoConnection \<Rightarrow> answer env ERR_SS_UNAVAILABLE ''Storage server unavailable'' ns
         | NotSent response \<Rightarrow> Some ([response], ns)
         | NoReply response \<Rightarrow> Some ([response], ns)
         | Replied response \<Rightarrow> Some ([response], ns))"

definition first_alive :: "'w NS \<Rightarrow> int" where
  "first_alive ns =
     (case find (\<lambda>i. es_is_alive (ns_servers ns ! i)) [0..<length (ns_servers ns)] of
        Some i \<Rightarrow> int i
      | None \<Rightarrow> - 1)"

definition ns_handle_createfolder_request :: "'w NsEnv \<Rightarrow> 'w NS \<Rightarrow> Message \<Rightarrow> 'w ns_result" where
  "ns_handle_createfolder_request env ns msg =
     (let ss_index = first_alive ns
      in if ss_index < 0 then answer env ERR_SS_UNAVAILABLE ''No storage servers available'' ns
         else forward env ss_index msg ns)"

definition ns_handle_viewfolder_request :: "'w NsEnv \<Rightarrow> 'w NS \<Rightarrow> Message \<Rightarrow> 'w ns_result" where
  "ns_handle_viewfolder_request env ns msg =
     (let ss_index = first_alive ns
      in if ss_index < 0 then answer env ERR_SS_UNAVAILABLE ''No storage servers available'' ns
         else forward env ss_index msg ns)"

definition ns_handle_move_request :: "'w NsEnv \<Rightarrow> 'w NS \<Rightarrow> Message \<Rightarrow> 'w ns_result" where
  "ns_handle_move_request env ns msg =
     (if \<not> acl_is_owner (ns_acl ns) (m_filename msg) (m_sender_id msg) then
        answer env ERR_PERMISSION_DENIED ''Permission denied: Only owner can move files'' ns
      else
        let ss_index = hashmap_find (m_filename msg) ns
        in if ss_index < 0 then answer env ERR_NOT_FOUND ''File not found'' ns
           else forward env ss_index msg ns)"

section \<open>Content search over all servers\<close>

definition search_msg :: "'w NsEnv \<Rightarrow> Message \<Rightarrow> Message" where
  "search_msg env msg =
     (INIT_MESSAGE (ne_now env))\<lparr>m_operation := OP_SEARCH, m_sender_id := cbuf MAX_USERNAME_LEN (m_sender_id msg),
       m_content := cbuf MAX_CONTENT_LEN (m_content msg)\<rparr>"

text \<open>
  What one answer adds to \<open>all_results\<close>: the text after the 18 characters of
  \<open>Files containing '\<close>, and once more the text from its first line feed.
\<close>

definition append_results :: "cstring \<Rightarrow> cstring \<Rightarrow> cstring" where
  "append_results results content =
     (if results \<noteq> [] then results @ [NL] else results) @ drop 18 content @ dropWhile (\<lambda>c. c \<noteq> NL) content"

text \<open>The loop over the servers; \<open>None\<close> when the \<open>strcat\<close> calls overrun the 8192-byte buffer.\<close>

fun search_loop :: "'w NsEnv \<Rightarrow> Message \<Rightarrow> nat list \<Rightarrow> cstring \<Rightarrow> nat \<Rightarrow> nat \<Rightarrow> 'w NS \<Rightarrow>
    (cstring \<times> nat \<times> nat \<times> 'w NS) option" where
  "search_loop env msg [] results total_files queried ns = Some (results, total_files, queried, ns)"
| "search_loop env msg (i # idxs) results total_files queried ns =
     (if \<not> es_is_alive (ns_servers ns ! i) then search_loop env msg idxs results total_files queried ns
      else
        let (r, ns) = contact_client_port env (int i) (search_msg env msg) ns
        in case r of
             NoSocket \<Rightarrow> search_loop env msg idxs results total_files queried ns
           | NoConnection \<Rightarrow> search_loop env msg idxs results total_files queried ns
           | NotSent _ \<Rightarrow> search_loop env msg idxs results total_files queried ns
           | NoReply _ \<Rightarrow> search_loop env msg idxs results total_files (queried + 1) ns
           | Replied ss_response \<Rightarrow>
               if m_error_code ss_response = ERR_SUCCESS then
                 let results' = append_results results (m_content ss_response)
                 in if length results' \<ge> MAX_CONTENT_LEN * 2 then None
                    else search_loop env msg idxs results'
                      (if NL \<in> set (m_content ss_response) then total_files + 1 else total_files) (queried + 1) ns
               else search_loop env msg idxs results total_files (queried + 1) ns)"

definition ns_handle_search_request :: "'w NsEnv \<Rightarrow> 'w NS \<Rightarrow> Message \<Rightarrow> 'w ns_result" where
  "ns_handle_search_request env ns msg =
     do {
       (results, total_files, ss_queried, ns) \<leftarrow> search_loop env msg [0..<length (ns_servers ns)] [] 0 0 ns;
       if ss_queried = 0 then answer env ERR_SS_UNAVAILABLE ''No storage servers available'' ns
       else if total_files = 0 then answer env ERR_NOT_FOUND (''No files found containing '' @ quoted (m_content msg)) ns
       else answer env ERR_SUCCESS (''Files containing '' @ quoted (m_content msg) @ '':'' @ [NL] @ results) ns
     }"

section \<open>Dispatch\<close>

text \<open>What the first receive on a connection gives: a closed connection, an error or a message.\<close>

datatype Received = Closed | ReceiveFailed | Received Message

definition dispatch :: "'w NsEnv \<Rightarrow> 'w NS \<Rightarrow> Message \<Rightarrow> 'w ns_result" where
  "dispatch env ns msg =
     (let op = m_operation msg
      in if op = OP_REGISTER_SS then handle_ss_registration env ns msg
         else if op = OP_REGISTER_CLIENT then handle_client_registration env ns msg
         else if op = OP_UNREGISTER_CLIENT then Some ([], mark_client_disconnected (m_ip_address msg) (m_nm_port msg) ns)
         else if op = OP_CREATE then handle_create_request env ns msg
         else if op = OP_READ then ns_handle_read_request env ns msg
         else if op = OP_DELETE then handle_delete_request env ns msg
         else if op = OP_WRITE then ns_handle_write_request env ns msg
         else if op = OP_UNDO then ns_handle_undo_request env ns msg
         else if op = OP_ADDACCESS then handle_addaccess_request env ns msg
         else if op = OP_REMACCESS then handle_remaccess_request env ns msg
         else if op = OP_LIST then handle_list_request env ns msg
         else if op = OP_VIEW then handle_view_request env ns msg
         else if op = OP_INFO then handle_info_request env ns msg
         else if op = OP_STREAM then ns_handle_stream_request env ns msg
         else if op = OP_EXEC then handle_exec_request env ns msg
         else if op = OP_CREATEFOLDER then ns_handle_createfolder_request env ns msg
         else if op = OP_MOVE then ns_handle_move_request env ns msg
         else if op = OP_VIEWFOLDER then ns_handle_viewfolder_request env ns msg
         else if op = OP_REQUESTACCESS then handle_requestaccess_request env ns msg
         else if op = OP_VIEWREQUESTS then handle_viewrequests_request env ns msg
         else if op = OP_APPROVEREQUEST then handle_approverequest_request env ns msg
         else if op = OP_DENYREQUEST then handle_denyrequest_request env ns msg
         else if op = OP_HEARTBEAT then handle_heartbeat env ns msg
         else if op = OP_SEARCH then ns_handle_search_request env ns msg
         else answer env ERR_NOT_IMPLEMENTED ''Operation not implemented'' ns)"

definition handle_connection :: "'w NsEnv \<Rightarrow> 'w NS \<Rightarrow> Received \<Rightarrow> cstring \<Rightarrow> int \<Rightarrow> 'w ns_result" where
  "handle_connection env ns received client_ip client_port =
     (case received of
        Closed \<Rightarrow> Some ([], mark_client_disconnected client_ip client_port ns)
      | ReceiveFailed \<Rightarrow> Some ([], ns)
      | Received msg \<Rightarrow> dispatch env ns msg)"

end
