(* ===== verification/NS_Invariant.thy ===== *)
theory NS_Invariant
  imports Name_Server
begin

text \<open>
  Every handler of the name server keeps the registries in order, sends only well-formed
  messages, and changes access rights only where the sender is entitled to: one pass over the
  handlers with rules that follow their structure (\<open>returns\<close>: the handler is defined and its
  answer and next state satisfy a predicate).
\<close>

named_theorems handler_rules \<open>rules that follow the structure of a handler\<close>

section \<open>Rules for handlers\<close>

definition returns :: "(Message list \<Rightarrow> 'w NS \<Rightarrow> bool) \<Rightarrow> 'w ns_result \<Rightarrow> bool" where
  "returns P r \<longleftrightarrow> (case r of None \<Rightarrow> False | Some (out, ns) \<Rightarrow> P out ns)"

text \<open>The same for a handler that may overrun a buffer: what it returns, if it is defined.\<close>

definition gives :: "(Message list \<Rightarrow> 'w NS \<Rightarrow> bool) \<Rightarrow> 'w ns_result \<Rightarrow> bool" where
  "gives P r \<longleftrightarrow> (case r of None \<Rightarrow> True | Some (out, ns) \<Rightarrow> P out ns)"

lemma returns_gives: "returns P r \<Longrightarrow> gives P r"
  by (auto simp: returns_def gives_def split: option.splits)

lemma returns_SomeD: "returns P (Some (out, ns)) \<longleftrightarrow> P out ns" and gives_SomeD: "gives P (Some (out, ns)) \<longleftrightarrow> P out ns"
  and gives_None: "gives P None"
  by (simp_all add: returns_def gives_def)

lemma returns_answer: "P [ns_reply env code txt] ns \<Longrightarrow> returns P (answer env code txt ns)"
  by (simp add: returns_def answer_def)

lemma returns_Some: "P out ns \<Longrightarrow> returns P (Some (out, ns))"
  by (simp add: returns_def)

lemma returns_if:
  "(b \<Longrightarrow> returns P x) \<Longrightarrow> (\<not> b \<Longrightarrow> returns P y) \<Longrightarrow> returns P (if b then x else y)"
  by simp

lemma returns_find_ss:
  assumes "ns_inv ns" and "length f < MAX_FILENAME_LEN"
    and "\<And>c. ns_inv (ns\<lparr>ns_lru := c\<rparr>) \<Longrightarrow> returns P (k (lookup_result ns f) (ns\<lparr>ns_lru := c\<rparr>))"
  shows "returns P (Option.bind (find_ss_for_file env f ns) (\<lambda>(i, ns). k i ns))"
proof (rule find_ss_run [OF assms(1,2), of env])
  fix c assume "find_ss_for_file env f ns = Some (lookup_result ns f, ns\<lparr>ns_lru := c\<rparr>)" "ns_inv (ns\<lparr>ns_lru := c\<rparr>)"
  then show ?thesis using assms(3) [of c] by simp
qed

lemmas [handler_rules] = returns_answer returns_Some returns_if returns_find_ss

section \<open>Messages\<close>

definition env_ok :: "'w NsEnv \<Rightarrow> bool" where
  "env_ok env \<longleftrightarrow>
     (\<forall>w ip port m. msg_wf m \<longrightarrow>
       (case fst (ne_contact env w ip port m) of
          Replied r \<Rightarrow> msg_wf r | NoReply r \<Rightarrow> msg_wf r | NotSent r \<Rightarrow> msg_wf r | _ \<Rightarrow> True))"

definition reply_ok :: "Contact \<Rightarrow> bool" where
  "reply_ok r \<longleftrightarrow> (case r of Replied m \<Rightarrow> msg_wf m | NoReply m \<Rightarrow> msg_wf m | NotSent m \<Rightarrow> msg_wf m | _ \<Rightarrow> True)"

lemma reply_ok_simps [simp]:
  "reply_ok (Replied m) = msg_wf m" "reply_ok (NoReply m) = msg_wf m" "reply_ok (NotSent m) = msg_wf m"
  "reply_ok NoSocket" "reply_ok NoConnection"
  by (simp_all add: reply_ok_def)

lemma INIT_wf: "msg_wf (INIT_MESSAGE now)"
  by (simp add: msg_wf_def INIT_MESSAGE_def)

lemma ns_reply_wf [simp]: "msg_wf (ns_reply env code txt)"
  by (simp add: ns_reply_def msg_wf_def put_content_def INIT_MESSAGE_def length_cbuf)

lemma route_info_wf [simp]: "msg_wf (route_info env i txt ns)"
  by (simp add: route_info_def msg_wf_def put_content_def INIT_MESSAGE_def length_cbuf Let_def min_less_iff_disj)

lemma put_content_wf [simp]: "msg_wf m \<Longrightarrow> msg_wf (put_content txt m)"
  by (simp add: msg_wf_def put_content_def length_cbuf)

lemma request_msgs_wf [simp]:
  "msg_wf (replicate_msg env msg)" "msg_wf (metadata_req env f)" "msg_wf (search_msg env msg)"
  "msg_wf m \<Longrightarrow> msg_wf (failed_metadata m code)"
  by (simp_all add: replicate_msg_def metadata_req_def search_msg_def failed_metadata_def msg_wf_def INIT_MESSAGE_def
      length_cbuf min_less_iff_disj)

lemma contact_nm_run:
  assumes "env_ok env" and "msg_wf msg"
  obtains r w where "contact_nm env i msg ns = (r, ns\<lparr>ns_world := w\<rparr>)" "reply_ok r"
  using assms
  by (auto simp: contact_nm_def env_ok_def reply_ok_def Let_def case_prod_beta split: Contact.splits)

lemma contact_client_run:
  assumes "env_ok env" and "msg_wf msg"
  obtains r w where "contact_client_port env i msg ns = (r, ns\<lparr>ns_world := w\<rparr>)" "reply_ok r"
  using assms
  by (auto simp: contact_client_port_def env_ok_def reply_ok_def Let_def case_prod_beta split: Contact.splits)

text \<open>A contact in a handler: each of its five outcomes.\<close>

lemma returns_contact:
  assumes "env_ok env" and "msg_wf msg"
    and "\<And>w. returns P (f1 (ns\<lparr>ns_world := w\<rparr>))" and "\<And>w. returns P (f2 (ns\<lparr>ns_world := w\<rparr>))"
    and "\<And>w m. msg_wf m \<Longrightarrow> returns P (f3 m (ns\<lparr>ns_world := w\<rparr>))"
    and "\<And>w m. msg_wf m \<Longrightarrow> returns P (f4 m (ns\<lparr>ns_world := w\<rparr>))"
    and "\<And>w m. msg_wf m \<Longrightarrow> returns P (f5 m (ns\<lparr>ns_world := w\<rparr>))"
  shows "returns P (let (r, ns) = contact_nm env i msg ns
    in case r of NoSocket \<Rightarrow> f1 ns | NoConnection \<Rightarrow> f2 ns | NotSent m \<Rightarrow> f3 m ns | NoReply m \<Rightarrow> f4 m ns
      | Replied m \<Rightarrow> f5 m ns)"
proof -
  obtain r w where run: "contact_nm env i msg ns = (r, ns\<lparr>ns_world := w\<rparr>)" "reply_ok r"
    by (rule contact_nm_run [OF assms(1,2)])
  then show ?thesis using assms(3-) by (cases r) (simp_all)
qed

text \<open>The choice of a server, and the existence test, inside a handler.\<close>

lemma returns_available:
  assumes "ns_inv ns" and "returns P (k (- 1) ns)"
    and "\<And>i. ss_alive ns i \<Longrightarrow> index_ok ns i \<Longrightarrow> ns_inv (ns\<lparr>ns_last_used := i\<rparr>) \<Longrightarrow> returns P (k i (ns\<lparr>ns_last_used := i\<rparr>))"
  shows "returns P (let (i, ns) = find_available_ss ns in k i ns)"
  by (rule find_available_run [OF assms(1)]) (use assms(2,3) in simp_all)

lemma returns_file_exists:
  assumes "ns_inv ns" and "length f < MAX_FILENAME_LEN"
    and "\<And>c. ns_inv (ns\<lparr>ns_lru := c\<rparr>) \<Longrightarrow> returns P (k (lookup_result ns f \<ge> 0) (ns\<lparr>ns_lru := c\<rparr>))"
  shows "returns P (Option.bind (ns_file_exists env f ns) (\<lambda>(e, ns). k e ns))"
proof (rule find_ss_run [OF assms(1,2), of env])
  fix c assume "find_ss_for_file env f ns = Some (lookup_result ns f, ns\<lparr>ns_lru := c\<rparr>)" "ns_inv (ns\<lparr>ns_lru := c\<rparr>)"
  then show ?thesis using assms(3) [of c] by (simp add: ns_file_exists_def)
qed

lemma returns_bind_eq: "r = Some ns' \<Longrightarrow> returns P (k ns') \<Longrightarrow> returns P (Option.bind r k)"
  by simp

lemmas [handler_rules] = returns_contact returns_available returns_file_exists

section \<open>Who may change whose rights\<close>

text \<open>
  The rights on a file change only by its creation (it had none), by its deletion through a
  user who may write it, or by the commands of its owner; and only on the file the message names.
\<close>

definition may_change :: "'w NS \<Rightarrow> Message \<Rightarrow> bool" where
  "may_change ns msg \<longleftrightarrow>
     (m_operation msg = OP_CREATE \<and> acl_rights (ns_acl ns) (m_filename msg) = None) \<or>
     (m_operation msg = OP_DELETE \<and> acl_check_write (ns_acl ns) (m_filename msg) (m_sender_id msg)) \<or>
     (m_operation msg \<in> {OP_ADDACCESS, OP_REMACCESS, OP_APPROVEREQUEST} \<and>
      acl_check_owner (ns_acl ns) (m_filename msg) (m_sender_id msg))"

definition rights_step :: "'w NS \<Rightarrow> Message \<Rightarrow> 'w NS \<Rightarrow> bool" where
  "rights_step ns msg ns' \<longleftrightarrow>
     (\<forall>f. acl_rights (ns_acl ns') f \<noteq> acl_rights (ns_acl ns) f \<longrightarrow> f = m_filename msg \<and> may_change ns msg)"

text \<open>
  What one handled message keeps and gives: the invariant, lists of users without duplicates when
  there were none, and one well-formed answer (a client that signs off gets none).
\<close>

definition step_ok :: "'w NS \<Rightarrow> Message \<Rightarrow> Message list \<Rightarrow> 'w NS \<Rightarrow> bool" where
  "step_ok ns msg out ns' \<longleftrightarrow> ns_inv ns' \<and> (acl_sets (ns_acl ns) \<longrightarrow> acl_sets (ns_acl ns')) \<and>
     (m_operation msg \<noteq> OP_UNREGISTER_CLIENT \<longrightarrow> length out = 1) \<and> (\<forall>m\<in>set out. msg_wf m) \<and>
     rights_step ns msg ns'"

lemma step_ok_same:
  "ns_inv ns' \<Longrightarrow> msg_wf m \<Longrightarrow> ns_acl ns' = ns_acl ns \<Longrightarrow> step_ok ns msg [m] ns'"
  by (simp add: step_ok_def rights_step_def)

lemma step_ok_changed:
  "ns_inv ns' \<Longrightarrow> msg_wf m \<Longrightarrow> may_change ns msg \<Longrightarrow> (acl_sets (ns_acl ns) \<Longrightarrow> acl_sets (ns_acl ns')) \<Longrightarrow>
   (\<And>f. f \<noteq> m_filename msg \<Longrightarrow> acl_rights (ns_acl ns') f = acl_rights (ns_acl ns) f) \<Longrightarrow> step_ok ns msg [m] ns'"
  by (auto simp: step_ok_def rights_step_def)

lemma msg_wfD:
  assumes "msg_wf msg"
  shows "length (m_filename msg) < MAX_FILENAME_LEN" "length (m_sender_id msg) < MAX_USERNAME_LEN"
    "length (m_target_user msg) < MAX_USERNAME_LEN" "length (m_content msg) < MAX_CONTENT_LEN"
  using assms by (simp_all add: msg_wf_def)

section \<open>Handlers that leave the access rights alone\<close>

lemma persist_inv [simp]: "ns_inv (persist_acl ns) = ns_inv ns" "ns_acl (persist_acl ns) = ns_acl ns"
  by (simp_all add: persist_acl_def)



text \<open>Reads, writes, undo and streams: the lookup, then one of three answers.\<close>

lemma routing_ok:
  assumes "ns_inv ns" and "msg_wf msg"
  shows "returns (step_ok ns msg) (ns_handle_read_request env ns msg)"
    and "returns (step_ok ns msg) (ns_handle_write_request env ns msg)"
    and "returns (step_ok ns msg) (ns_handle_undo_request env ns msg)"
    and "returns (step_ok ns msg) (ns_handle_stream_request env ns msg)"
  unfolding ns_handle_read_request_def ns_handle_write_request_def ns_handle_undo_request_def ns_handle_stream_request_def
  by (intro handler_rules assms msg_wfD [OF assms(2)] step_ok_same; simp)+


section \<open>Creating a file\<close>

lemma rights_add_file:
  assumes "length f < MAX_FILENAME_LEN" and "length u < MAX_USERNAME_LEN"
  shows "acl_rights (snd (acl_add_file mem now t f u)) =
    (if acl_rights t f = None \<and> mem then (acl_rights t)(f \<mapsto> (u, [], [])) else acl_rights t)"
  using assms
  by (auto simp: acl_rights_def acl_add_file_def acl_find_chain Let_def cbuf_id acl_chain.lookup_insert fun_eq_iff)

lemma add_replication_inv:
  assumes inv: "ns_inv ns" and i: "index_ok ns i"
  shows "ns_inv (add_replication_entry f p i ns)"
proof -
  have ok: "\<forall>r\<in>set (ns_replication (add_replication_entry f p i ns)). index_ok ns (re_replica_ss r)"
    using ns_invD(8) [OF inv] i by (auto simp: add_replication_entry_def dest!: set_update_first)
  have len: "length (ns_replication (add_replication_entry f p i ns)) \<le> MAX_FILES"
    using ns_invD(11) [OF inv] by (simp add: add_replication_entry_def)
  obtain rs where rs: "add_replication_entry f p i ns = ns\<lparr>ns_replication := rs\<rparr>"
    by (rule that [of "ns_replication (add_replication_entry f p i ns)"]) (cases ns; simp add: add_replication_entry_def)
  have "ss_count (ns\<lparr>ns_replication := rs\<rparr>) = ss_count ns" by (simp add: ss_count_def)
  with inv ok len show ?thesis unfolding rs
    by (simp add: ns_inv_def tables_ok_def indexes_ok_def sizes_ok_def)
qed

lemma add_replication_frame [simp]:
  "ns_acl (add_replication_entry f p i ns) = ns_acl ns" "ss_count (add_replication_entry f p i ns) = ss_count ns"
  "index_ok (add_replication_entry f p i ns) j = index_ok ns j" "ns_fs (add_replication_entry f p i ns) = ns_fs ns"
  "ns_file_map (add_replication_entry f p i ns) = ns_file_map ns"
  "ns_servers (add_replication_entry f p i ns) = ns_servers ns"
  "ns_requests (add_replication_entry f p i ns) = ns_requests ns"
  "ss_alive (add_replication_entry f p i ns) j = ss_alive ns j"
  by (simp_all add: add_replication_entry_def ss_count_def index_ok_def ss_alive_def)

text \<open>
  What creation and replication may do to the locations: the file named by the message may get
  a live server; the liveness of servers, the other locations and the rights stay.
\<close>

definition placed :: "cstring \<Rightarrow> 'w NS \<Rightarrow> 'w NS \<Rightarrow> bool" where
  "placed f ns ns' \<longleftrightarrow>
     ns_requests ns' = ns_requests ns \<and> addresses ns' = addresses ns \<and>
     (\<forall>j. ss_alive ns' j = ss_alive ns j) \<and> (\<forall>g. g \<noteq> f \<longrightarrow> locations ns' g = locations ns g) \<and>
     (locations ns' f = locations ns f \<or> (\<exists>j. locations ns' f = Some j \<and> ss_alive ns j))"

lemma placed_refl:
  "ns_file_map ns' = ns_file_map ns \<Longrightarrow> ns_servers ns' = ns_servers ns \<Longrightarrow> ns_requests ns' = ns_requests ns \<Longrightarrow> placed f ns ns'"
  by (simp add: placed_def ss_alive_def ss_count_def addresses_def)

lemma placed_add:
  assumes "locations ns' = (if b then (locations ns)(f \<mapsto> j) else locations ns)"
    and "\<And>j. ss_alive ns' j = ss_alive ns j" and "ss_alive ns j" and "ns_requests ns' = ns_requests ns"
    and "addresses ns' = addresses ns"
  shows "placed f ns ns'"
  using assms by (auto simp: placed_def)

lemma add_file_placed:
  assumes inv: "ns_inv ns" and len: "length f < MAX_FILENAME_LEN" and alive: "ss_alive ns i"
  obtains ns' where "add_file_to_ss env i f ns = Some ns'" "ns_inv ns'" "ns_acl ns' = ns_acl ns" "placed f ns ns'"
    "ne_mem_hash env f \<Longrightarrow> length (es_files (ns_servers ns ! nat i)) < MAX_FILES \<Longrightarrow> locations ns' f = Some i"
proof (rule add_file_to_ss_inv [OF inv len ss_alive_index [OF alive], of env])
  fix ns'
  assume add: "add_file_to_ss env i f ns = Some ns'" "ns_inv ns'" "ns_acl ns' = ns_acl ns"
    and loc: "locations ns' = (if length (es_files (ns_servers ns ! nat i)) < MAX_FILES \<and>
       (locations ns f \<noteq> None \<or> ne_mem_hash env f) then (locations ns)(f \<mapsto> i) else locations ns)"
    and same: "\<And>j. ss_alive ns' j = ss_alive ns j" and req: "ns_requests ns' = ns_requests ns"
    and addr: "addresses ns' = addresses ns"
  show ?thesis by (rule that [OF add placed_add [OF loc same alive req addr]]) (simp add: loc)
qed

lemma placed_trans: "placed f ns1 ns2 \<Longrightarrow> placed f ns2 ns3 \<Longrightarrow> placed f ns1 ns3"
  by (auto simp: placed_def)

lemma replicate_file_run:
  assumes inv: "ns_inv ns" and env: "env_ok env" and wf: "msg_wf msg"
  obtains ns' where "replicate_file env i msg ns = Some ns'" "ns_inv ns'" "ns_acl ns' = ns_acl ns"
    "placed (m_filename msg) ns ns'"
proof (cases "ss_count ns > 1")
  case False
  then show ?thesis using that [of ns] inv by (simp add: replicate_file_def placed_refl)
next
  case True
  show ?thesis
  proof (rule find_available_run [OF inv])
    assume "find_available_ss ns = (- 1, ns)"
    with True inv show ?thesis using that [of ns] by (simp add: replicate_file_def placed_refl)
  next
    fix j assume run: "find_available_ss ns = (j, ns\<lparr>ns_last_used := j\<rparr>)" "ss_alive ns j" "index_ok ns j"
      "ns_inv (ns\<lparr>ns_last_used := j\<rparr>)"
    let ?ns1 = "ns\<lparr>ns_last_used := j\<rparr>"
    let ?ns2 = "add_replication_entry (m_filename msg) i j ?ns1"
    have inv2: "ns_inv ?ns2" using run(3,4) by (intro add_replication_inv) simp_all
    obtain r w where c: "contact_nm env j (replicate_msg env msg) ?ns2 = (r, ?ns2\<lparr>ns_world := w\<rparr>)"
      by (rule contact_nm_run [OF env request_msgs_wf(1)])
    let ?ns3 = "?ns2\<lparr>ns_world := w\<rparr>"
    have "ns_inv ?ns3" "ss_alive ?ns3 j" using inv2 run(2) by simp_all
    then obtain ns' where add: "add_file_to_ss env j (m_filename msg) ?ns3 = Some ns'" "ns_inv ns'" "ns_acl ns' = ns_acl ?ns3"
      and p: "placed (m_filename msg) ?ns3 ns'"
      by (rule add_file_placed [OF _ msg_wfD(1) [OF wf]])
    have "placed (m_filename msg) ns ?ns3" by (rule placed_refl) simp_all
    then have p: "placed (m_filename msg) ns ns'" using p by (rule placed_trans)
    have j: "0 \<le> j" using run(3) by (simp add: index_ok_def)
    consider "j = i" | "j \<noteq> i" "r = NoSocket \<or> r = NoConnection" | "j \<noteq> i" "\<not> (r = NoSocket \<or> r = NoConnection)"
      by blast
    then show ?thesis
    proof cases
      case 1
      then show ?thesis using that [of ?ns1] True run by (simp add: replicate_file_def placed_refl)
    next
      case 2
      then show ?thesis using that [of ?ns3] True run(1) j c inv2 by (simp add: replicate_file_def placed_refl)
    next
      case 3
      then show ?thesis using that [of ns'] True run(1) j c add p by (simp add: replicate_file_def)
    qed
  qed
qed

lemma register_created_run:
  assumes inv: "ns_inv ns" and env: "env_ok env" and wf: "msg_wf msg" and i: "ss_alive ns i"
  obtains ns' where "register_created env i msg ns = Some ns'" "ns_inv ns'"
    "acl_rights (ns_acl ns') = (if acl_rights (ns_acl ns) (m_filename msg) = None \<and> ne_mem_acl env
       then (acl_rights (ns_acl ns))(m_filename msg \<mapsto> (m_sender_id msg, [], [])) else acl_rights (ns_acl ns))"
    "placed (m_filename msg) ns ns'"
    "ne_mem_hash env (m_filename msg) \<Longrightarrow> length (es_files (ns_servers ns ! nat i)) < MAX_FILES \<Longrightarrow>
       \<exists>j. locations ns' (m_filename msg) = Some j \<and> ss_alive ns j"
proof -
  obtain ns1 where add: "add_file_to_ss env i (m_filename msg) ns = Some ns1" "ns_inv ns1" "ns_acl ns1 = ns_acl ns"
    "placed (m_filename msg) ns ns1"
    "ne_mem_hash env (m_filename msg) \<Longrightarrow> length (es_files (ns_servers ns ! nat i)) < MAX_FILES \<Longrightarrow>
       locations ns1 (m_filename msg) = Some i"
    by (rule add_file_placed [OF inv msg_wfD(1) [OF wf] i, of env]) blast
  obtain code t where t: "acl_add_file (ne_mem_acl env) (ne_now env) (ns_acl ns1) (m_filename msg) (m_sender_id msg) = (code, t)"
    by (cases "acl_add_file (ne_mem_acl env) (ne_now env) (ns_acl ns1) (m_filename msg) (m_sender_id msg)")
  have "acl_inv t"
    using acl_add_file_inv [OF ns_invD(3) [OF add(2)] msg_wfD(1) [OF wf], of "ne_mem_acl env" "ne_now env" "m_sender_id msg"]
    by (simp add: t)
  then have inv2: "ns_inv (ns1\<lparr>ns_acl := t\<rparr>)" by (rule ns_inv_acl [OF add(2)])
  have rights: "acl_rights t = (if acl_rights (ns_acl ns) (m_filename msg) = None \<and> ne_mem_acl env
       then (acl_rights (ns_acl ns))(m_filename msg \<mapsto> (m_sender_id msg, [], [])) else acl_rights (ns_acl ns))"
    using rights_add_file [OF msg_wfD(1,2) [OF wf], of "ne_mem_acl env" "ne_now env" "ns_acl ns1"]
    unfolding add(3) t [unfolded add(3)] snd_conv .
  let ?ns2 = "if code = 0 then persist_acl (ns1\<lparr>ns_acl := t\<rparr>) else ns1\<lparr>ns_acl := t\<rparr>"
  have "ns_inv ?ns2" using inv2 by simp
  then obtain ns' where run: "replicate_file env i msg ?ns2 = Some ns'" "ns_inv ns'" "ns_acl ns' = ns_acl ?ns2"
    "placed (m_filename msg) ?ns2 ns'"
    by (rule replicate_file_run [OF _ env wf])
  have "placed (m_filename msg) ns1 ?ns2" by (rule placed_refl) (simp_all add: persist_acl_def)
  from placed_trans [OF this run(4)] have p: "placed (m_filename msg) ns1 ns'" .
  have "\<exists>j. locations ns' (m_filename msg) = Some j \<and> ss_alive ns j"
    if "ne_mem_hash env (m_filename msg)" "length (es_files (ns_servers ns ! nat i)) < MAX_FILES"
    using add(4,5) i that p by (auto simp: placed_def)
  moreover have "ns_acl ?ns2 = t" by simp
  then have "acl_rights (ns_acl ns') = (if acl_rights (ns_acl ns) (m_filename msg) = None \<and> ne_mem_acl env
       then (acl_rights (ns_acl ns))(m_filename msg \<mapsto> (m_sender_id msg, [], [])) else acl_rights (ns_acl ns))"
    using run(3) rights by (simp only:)
  moreover have "register_created env i msg ns = Some ns'"
    using add(1) t run(1) by (simp add: register_created_def Let_def)
  ultimately show ?thesis using that [of ns'] run(2) placed_trans [OF add(4) p] by blast
qed

lemma create_ok:
  assumes inv: "ns_inv ns" and env: "env_ok env" and wf: "msg_wf msg" and op: "m_operation msg = OP_CREATE"
  shows "returns (step_ok ns msg) (handle_create_request env ns msg)"
proof -
  have reg: "returns (step_ok ns msg) (Option.bind (register_created env i msg ns1) (\<lambda>ns. Some ([m], ns)))"
    if "ns_inv ns1" "ss_alive ns1 i" "ns_acl ns1 = ns_acl ns" "msg_wf m" for ns1 i m
  proof (rule register_created_run [OF that(1) env wf that(2)])
    fix ns' assume run: "register_created env i msg ns1 = Some ns'" "ns_inv ns'"
      "acl_rights (ns_acl ns') = (if acl_rights (ns_acl ns1) (m_filename msg) = None \<and> ne_mem_acl env
         then (acl_rights (ns_acl ns1))(m_filename msg \<mapsto> (m_sender_id msg, [], [])) else acl_rights (ns_acl ns1))"
    have "step_ok ns msg [m] ns'"
      using run(2,3) that(3,4) op
      by (auto simp: step_ok_def rights_step_def may_change_def intro!: rights_sets_upd split: if_splits)
    with run(1) show ?thesis by (simp add: returns_def)
  qed
  show ?thesis unfolding handle_create_request_def
    by (intro handler_rules inv env wf msg_wfD [OF wf] step_ok_same reg; simp)
qed


section \<open>Deleting a file, and the commands of an owner\<close>

lemma rights_remove_file:
  assumes "acl_inv t"
  shows "acl_rights (snd (acl_remove_file t f)) = (acl_rights t)(f := None)" "acl_inv (snd (acl_remove_file t f))"
  using acl_remove_file_inv [OF assms, of f] by (auto simp: acl_rights_def fun_eq_iff)

lemma rights_grant:
  assumes "acl_inv t" and "length u < MAX_USERNAME_LEN"
  shows "g \<noteq> f \<Longrightarrow> acl_rights (snd (acl_add_access t f u a)) g = acl_rights t g"
    and "acl_sets t \<Longrightarrow> acl_sets (snd (acl_add_access t f u a))"
  using acl_step_rights [OF assms(1), of "Grant f u a"] file_acl.step_sets [OF assms(1), of "Grant f u a"] assms(2)
  by (auto split: option.split)

lemma rights_revoke:
  assumes "acl_inv t"
  shows "g \<noteq> f \<Longrightarrow> acl_rights (snd (acl_remove_access t f u)) g = acl_rights t g"
    and "acl_sets t \<Longrightarrow> acl_sets (snd (acl_remove_access t f u))"
  using acl_step_rights [OF assms(1), of "Revoke f u"] file_acl.step_sets [OF assms(1), of "Revoke f u"]
  by (auto split: option.split)

lemma delete_ok:
  assumes inv: "ns_inv ns" and env: "env_ok env" and wf: "msg_wf msg" and op: "m_operation msg = OP_DELETE"
  shows "returns (step_ok ns msg) (handle_delete_request env ns msg)"
proof -
  have del: "returns (step_ok ns msg) (Option.bind (hashmap_remove (m_filename msg) ns1)
      (\<lambda>ns. let (removed, acl) = acl_remove_file (ns_acl ns) (m_filename msg);
                  ns = ns\<lparr>ns_acl := acl\<rparr>;
                  ns = if removed = 0 then persist_acl ns else ns
              in Some ([m], upd_server i (\<lambda>s. s\<lparr>es_files := remove1 (m_filename msg) (es_files s)\<rparr>) ns)))"
    if "ns_inv ns1" "index_ok ns1 i" "ns_acl ns1 = ns_acl ns" "msg_wf m"
      "acl_check_write (ns_acl ns) (m_filename msg) (m_sender_id msg)" for ns1 i m
  proof -
    note inv1 = that(1)
    obtain fm c where rem: "hashmap_remove (m_filename msg) ns1 = Some (ns1\<lparr>ns_lru := c, ns_file_map := fm\<rparr>)"
      "ns_inv (ns1\<lparr>ns_lru := c, ns_file_map := fm\<rparr>)"
      by (rule hashmap_remove_inv [OF inv1])
    let ?t = "snd (acl_remove_file (ns_acl ns) (m_filename msg))"
    let ?ns = "ns1\<lparr>ns_lru := c, ns_file_map := fm, ns_acl := ?t\<rparr>"
    have t: "acl_rights ?t = (acl_rights (ns_acl ns))(m_filename msg := None)" "acl_inv ?t"
      using rights_remove_file [OF ns_invD(3) [OF inv]] by blast+
    have "ns_inv ?ns" using ns_inv_acl [OF rem(2) t(2)] by simp
    then have "ns_inv (if b then persist_acl ?ns else ?ns)" for b by simp
    moreover have "index_ok (if b then persist_acl ?ns else ?ns) i" for b
      using that(2) by (simp add: persist_acl_def)
    ultimately have "ns_inv (upd_server i (\<lambda>s. s\<lparr>es_files := remove1 (m_filename msg) (es_files s)\<rparr>)
        (if b then persist_acl ?ns else ?ns))" for b
      by (intro upd_server_inv) (auto simp: length_remove1)
    then have ok: "step_ok ns msg [m] (upd_server i (\<lambda>s. s\<lparr>es_files := remove1 (m_filename msg) (es_files s)\<rparr>)
        (if b then persist_acl ?ns else ?ns))" for b
      using that(4,5) op t(1) by (intro step_ok_changed) (auto simp: may_change_def intro: rights_sets_upd)
    then show ?thesis using rem(1) that(3) ok [of True] ok [of False]
      by (simp add: case_prod_beta Let_def returns_def)
  qed
  show ?thesis unfolding handle_delete_request_def
  proof (intro handler_rules inv env wf msg_wfD [OF wf] step_ok_same del; (simp; fail)?)
    fix c w assume "\<not> lookup_result ns (m_filename msg) < 0"
    then show "index_ok (ns\<lparr>ns_lru := c, ns_world := w\<rparr>) (lookup_result ns (m_filename msg))"
      using lookup_cases [OF inv, of "m_filename msg"] by auto
  qed
qed

lemma addaccess_ok:
  assumes inv: "ns_inv ns" and wf: "msg_wf msg" and op: "m_operation msg = OP_ADDACCESS"
  shows "returns (step_ok ns msg) (handle_addaccess_request env ns msg)"
proof -
  let ?t = "snd (acl_add_access (ns_acl ns) (m_filename msg) (m_target_user msg) (m_access_type msg))"
  have t: "ns_inv (ns\<lparr>ns_acl := ?t\<rparr>)"
    by (intro ns_inv_acl inv acl_add_access_inv ns_invD(3) msg_wfD [OF wf])
  note rights = rights_grant [OF ns_invD(3) [OF inv] msg_wfD(3) [OF wf]]
  show ?thesis unfolding handle_addaccess_request_def Let_def case_prod_beta
    by (intro handler_rules; ((rule step_ok_same; simp add: inv; fail)
      | (rule step_ok_changed; simp add: inv t rights may_change_def op)))
qed

lemma remaccess_ok:
  assumes inv: "ns_inv ns" and wf: "msg_wf msg" and op: "m_operation msg = OP_REMACCESS"
  shows "returns (step_ok ns msg) (handle_remaccess_request env ns msg)"
proof -
  let ?t = "snd (acl_remove_access (ns_acl ns) (m_filename msg) (m_target_user msg))"
  have t: "ns_inv (ns\<lparr>ns_acl := ?t\<rparr>)"
    by (intro ns_inv_acl inv acl_remove_access_inv ns_invD(3))
  note rights = rights_revoke [OF ns_invD(3) [OF inv]]
  show ?thesis unfolding handle_remaccess_request_def Let_def case_prod_beta
    by (intro handler_rules; ((rule step_ok_same; simp add: inv; fail)
      | (rule step_ok_changed; simp add: inv t rights may_change_def op)))
qed


lemma approve_user_length:
  assumes "request_inv t" and "fst (request_approve t f u own) = ERR_SUCCESS"
  shows "length u < MAX_USERNAME_LEN"
  using assms
  by (auto simp: request_approve_def request_inv_def request_matches_def split: option.splits dest!: find_Some_in)

lemma requests_ok:
  assumes inv: "ns_inv ns" and wf: "msg_wf msg"
  shows "returns (step_ok ns msg) (handle_requestaccess_request env ns msg)"
    and "returns (step_ok ns msg) (handle_viewrequests_request env ns msg)"
    and "returns (step_ok ns msg) (handle_denyrequest_request env ns msg)"
    and "m_operation msg = OP_APPROVEREQUEST \<Longrightarrow> returns (step_ok ns msg) (handle_approverequest_request env ns msg)"
proof -
  note req = ns_invD(4) [OF inv]
  have add: "ns_inv (ns\<lparr>ns_requests := snd (request_add (ne_now env) (ns_requests ns) (m_filename msg) (m_sender_id msg) owner a)\<rparr>)"
    if "length owner < MAX_USERNAME_LEN" for owner a
    using that request_add_refines [OF req, of "m_filename msg" "m_sender_id msg" owner a "ne_now env"] msg_wfD [OF wf]
    by (intro ns_inv_requests inv) simp
  have dec: "ns_inv (ns\<lparr>ns_requests := snd (request_approve (ns_requests ns) f u own)\<rparr>)" for f u own
    by (intro ns_inv_requests inv request_decide(1) req)
  have owner: "length owner < MAX_USERNAME_LEN" if "acl_get_owner (ns_acl ns) f MAX_USERNAME_LEN = Some owner" for f owner
    using that by (auto simp: acl_get_owner_def length_cbuf)
  show "returns (step_ok ns msg) (handle_requestaccess_request env ns msg)"
    unfolding handle_requestaccess_request_def Let_def case_prod_beta
    by (cases "acl_get_owner (ns_acl ns) (m_filename msg) MAX_USERNAME_LEN")
      (simp_all, (intro conjI impI handler_rules step_ok_same; simp add: inv add owner)+)
  show "returns (step_ok ns msg) (handle_viewrequests_request env ns msg)"
    unfolding handle_viewrequests_request_def Let_def by (intro handler_rules step_ok_same; simp add: inv)
  show "returns (step_ok ns msg) (handle_denyrequest_request env ns msg)"
    unfolding handle_denyrequest_request_def Let_def case_prod_beta request_deny_approve
    by (intro handler_rules step_ok_same; simp add: inv dec)
  assume op: "m_operation msg = OP_APPROVEREQUEST"
  have grant: "ns_inv (ns\<lparr>ns_requests := snd (request_approve (ns_requests ns) f u own),
      ns_acl := snd (acl_add_access (ns_acl ns) f u a)\<rparr>)"
    if "length u < MAX_USERNAME_LEN" for f u own a
    using ns_inv_acl [OF dec [of f u own] acl_add_access_inv [OF ns_invD(3) [OF inv] that]] by simp
  note user = approve_user_length [OF req]
  note rights = rights_grant [OF ns_invD(3) [OF inv] user]
  show "returns (step_ok ns msg) (handle_approverequest_request env ns msg)"
    unfolding handle_approverequest_request_def Let_def case_prod_beta acl_is_owner_def acl_add_user_def
    by (intro handler_rules; ((rule step_ok_same; simp add: inv dec; fail)
      | (rule step_ok_changed; simp add: inv grant user rights may_change_def op)))
qed

section \<open>Lists, information, folders, commands and search\<close>

lemma list_ok: "ns_inv ns \<Longrightarrow> returns (step_ok ns msg) (handle_list_request env ns msg)"
  unfolding handle_list_request_def Let_def by (intro handler_rules step_ok_same; simp)

text \<open>The metadata of a file may not be printable, so a row and the whole list may be undefined.\<close>

lemma metadata_row_gives:
  assumes inv: "ns_inv ns" and env: "env_ok env" and len: "length f < MAX_FILENAME_LEN"
    and run: "metadata_row env f ns = Some (row, ns')"
  shows "ns_inv ns' \<and> ns_acl ns' = ns_acl ns"
proof -
  obtain c where find: "find_ss_for_file env f ns = Some (lookup_result ns f, ns\<lparr>ns_lru := c\<rparr>)" "ns_inv (ns\<lparr>ns_lru := c\<rparr>)"
    by (rule find_ss_run [OF inv len])
  obtain r w where con: "contact_nm env (lookup_result ns f) (metadata_req env f) (ns\<lparr>ns_lru := c\<rparr>) = (r, ns\<lparr>ns_lru := c, ns_world := w\<rparr>)"
    by (rule contact_nm_run [OF env, of "metadata_req env f" "lookup_result ns f" "ns\<lparr>ns_lru := c\<rparr>"]) simp_all
  have "ns' = ns\<lparr>ns_lru := c\<rparr> \<or> ns' = ns\<lparr>ns_lru := c, ns_world := w\<rparr>"
    using run find con
    by (cases r) (auto simp: metadata_row_def Let_def bind_eq_Some_conv split: if_splits)
  with find(2) show ?thesis by auto
qed

lemma view_rows_gives:
  assumes "ns_inv ns" and "env_ok env" and "\<forall>f\<in>set fs. length f < MAX_FILENAME_LEN"
    and "view_rows env fs buf ns = Some (out, ns')"
  shows "ns_inv ns' \<and> ns_acl ns' = ns_acl ns"
  using assms
proof (induction fs arbitrary: buf ns)
  case (Cons f fs)
  then have len: "length f < MAX_FILENAME_LEN" by simp
  show ?case
  proof (cases "length buf < MAX_CONTENT_LEN - 200")
    case True
    with Cons.prems(4) obtain row ns1 where run: "metadata_row env f ns = Some (row, ns1)"
      "view_rows env fs (buf @ row) ns1 = Some (out, ns')" by (auto simp: bind_eq_Some_conv)
    have "ns_inv ns1 \<and> ns_acl ns1 = ns_acl ns" by (rule metadata_row_gives [OF Cons.prems(1,2) len run(1)])
    with Cons.IH [OF _ Cons.prems(2) _ run(2)] Cons.prems(3) show ?thesis by simp
  next
    case False
    with Cons.prems(1,4) show ?thesis by auto
  qed
qed simp

text \<open>
  When they are defined: every successful answer to a request for metadata scans into the C types
  and its times can be printed. \<open>W\<close> describes the worlds in which that is so.
\<close>

definition printable :: "'w NsEnv \<Rightarrow> cstring \<Rightarrow> bool" where
  "printable env s \<longleftrightarrow>
     (case scan_ints INFO_FORMAT s of
        None \<Rightarrow> False
      | Some vs \<Rightarrow>
          (4 \<le> length vs \<longrightarrow> ne_time_short env (vs ! 3) \<noteq> None) \<and>
          (length vs = 6 \<longrightarrow> list_all (\<lambda>t. ne_time_long env t \<noteq> None) [vs ! 3, vs ! 4, vs ! 5]))"

definition metadata_served :: "('w \<Rightarrow> bool) \<Rightarrow> 'w NsEnv \<Rightarrow> bool" where
  "metadata_served W env \<longleftrightarrow>
     (\<forall>w ip port f. W w \<longrightarrow>
       (case ne_contact env w ip port (metadata_req env f) of
          (r, w') \<Rightarrow> W w' \<and>
            (case r of Replied m \<Rightarrow> m_error_code m = ERR_SUCCESS \<longrightarrow> printable env (m_content m) | _ \<Rightarrow> True)))"

lemma scan_ints_append:
  "scan_ints (cs @ ds) s = Some vs \<Longrightarrow> scan_ints cs s = Some (take (length cs) vs)"
  by (induction cs s arbitrary: vs rule: scan_ints.induct) (auto split: option.splits prod.splits if_splits)

lemma printable_view:
  assumes "printable env s"
  shows "\<exists>vs. scan_ints VIEW_FORMAT s = Some vs \<and> (length vs = 4 \<longrightarrow> (\<exists>t. ne_time_short env (vs ! 3) = Some t))"
proof -
  obtain vs where vs: "scan_ints INFO_FORMAT s = Some vs" "4 \<le> length vs \<longrightarrow> ne_time_short env (vs ! 3) \<noteq> None"
    using assms by (auto simp: printable_def split: option.splits)
  have "scan_ints VIEW_FORMAT s = Some (take 4 vs)" using scan_ints_append [of VIEW_FORMAT "[ConvLD, ConvLD]" s vs] vs(1)
    by (simp add: eval_nat_numeral del: scan_ints.simps)
  with vs(2) show ?thesis by auto
qed

lemma contact_metadata:
  assumes "metadata_served W env" and "W (ns_world ns)" and "contact_nm env i (metadata_req env f) ns = (r, ns')"
  shows "W (ns_world ns')" "\<And>m. r = Replied m \<Longrightarrow> m_error_code m = ERR_SUCCESS \<Longrightarrow> printable env (m_content m)"
  using assms by (fastforce simp: contact_nm_def metadata_served_def split: prod.splits)+

lemma metadata_row_defined:
  assumes inv: "ns_inv ns" and len: "length f < MAX_FILENAME_LEN"
    and served: "metadata_served W env" and w: "W (ns_world ns)"
  shows "\<exists>row ns'. metadata_row env f ns = Some (row, ns') \<and> W (ns_world ns')"
proof -
  obtain c where find: "find_ss_for_file env f ns = Some (lookup_result ns f, ns\<lparr>ns_lru := c\<rparr>)"
    by (rule find_ss_run [OF inv len])
  obtain r ns1 where con: "contact_nm env (lookup_result ns f) (metadata_req env f) (ns\<lparr>ns_lru := c\<rparr>) = (r, ns1)"
    by (cases "contact_nm env (lookup_result ns f) (metadata_req env f) (ns\<lparr>ns_lru := c\<rparr>)")
  have ok: "W (ns_world ns1)" "\<And>m. r = Replied m \<Longrightarrow> m_error_code m = ERR_SUCCESS \<Longrightarrow> printable env (m_content m)"
    using contact_metadata [OF served _ con] w by simp_all
  show ?thesis
  proof (cases r)
    case (Replied m)
    have "\<exists>row. metadata_row env f ns = Some (row, ns1)" if "\<not> lookup_result ns f < 0" "m_error_code m = ERR_SUCCESS"
      using printable_view [OF ok(2) [OF Replied that(2)]] find con Replied that
      by (auto simp: metadata_row_def)
    then show ?thesis using find con Replied ok(1) w
      by (cases "\<not> lookup_result ns f < 0 \<and> m_error_code m = ERR_SUCCESS") (auto simp: metadata_row_def)
  qed (use find con ok(1) w in \<open>auto simp: metadata_row_def\<close>)
qed

lemma view_rows_defined:
  assumes "ns_inv ns" and "env_ok env" and "\<forall>f\<in>set fs. length f < MAX_FILENAME_LEN"
    and "metadata_served W env" and "W (ns_world ns)"
  shows "\<exists>out ns'. view_rows env fs buf ns = Some (out, ns')"
  using assms
proof (induction fs arbitrary: buf ns)
  case (Cons f fs)
  then have len: "length f < MAX_FILENAME_LEN" by simp
  obtain row ns1 where run: "metadata_row env f ns = Some (row, ns1)" "W (ns_world ns1)"
    using metadata_row_defined [OF Cons.prems(1) len Cons.prems(4,5)] by blast
  have "ns_inv ns1" using metadata_row_gives [OF Cons.prems(1,2) len run(1)] by simp
  with Cons.IH [of ns1 "buf @ row"] Cons.prems run show ?case by auto
qed simp

lemma view_files_length:
  "f \<in> set (acl_get_all_files t n) \<Longrightarrow> length f < MAX_FILENAME_LEN"
  "f \<in> set (acl_get_accessible_files t u n) \<Longrightarrow> length f < MAX_FILENAME_LEN"
  by (auto simp: acl_get_all_files_def acl_get_accessible_files_def length_cbuf dest!: in_set_takeD)

lemma view_ok:
  assumes inv: "ns_inv ns" and env: "env_ok env"
  shows "gives (step_ok ns msg) (handle_view_request env ns msg)"
    and "m_view_flags msg AND VIEW_FLAG_LONG \<noteq> 0 \<Longrightarrow> metadata_served W env \<and> W (ns_world ns) \<Longrightarrow>
      handle_view_request env ns msg \<noteq> None"
    and "\<not> m_view_flags msg AND VIEW_FLAG_LONG \<noteq> 0 \<Longrightarrow> handle_view_request env ns msg \<noteq> None"
proof -
  let ?files = "if m_view_flags msg AND VIEW_FLAG_ALL \<noteq> 0 then acl_get_all_files (ns_acl ns) MAX_FILES
    else acl_get_accessible_files (ns_acl ns) (m_sender_id msg) MAX_FILES"
  have len: "\<forall>f\<in>set ?files. length f < MAX_FILENAME_LEN" by (auto dest: view_files_length)
  have rows: "gives (step_ok ns msg) (Option.bind (view_rows env ?files buf ns) (\<lambda>(buf, ns). answer env ERR_SUCCESS buf ns))" for buf
  proof (cases "view_rows env ?files buf ns")
    case (Some o')
    then obtain out ns' where run: "view_rows env ?files buf ns = Some (out, ns')" by (cases o') simp
    have "step_ok ns msg [ns_reply env ERR_SUCCESS out] ns'"
      using view_rows_gives [OF inv env len run] by (intro step_ok_same) simp_all
    with run show ?thesis by (simp add: answer_def gives_SomeD)
  qed (simp add: gives_None)
  have list: "gives (step_ok ns msg) (answer env ERR_SUCCESS buf ns)" for buf
    by (intro returns_gives returns_answer step_ok_same inv) simp_all
  show "gives (step_ok ns msg) (handle_view_request env ns msg)"
    unfolding handle_view_request_def Let_def using rows list by presburger
  show "handle_view_request env ns msg \<noteq> None"
    if "m_view_flags msg AND VIEW_FLAG_LONG \<noteq> 0" "metadata_served W env \<and> W (ns_world ns)"
  proof -
    have "\<exists>out ns'. view_rows env ?files buf ns = Some (out, ns')" for buf
      using that(2) by (intro view_rows_defined [OF inv env len]) blast+
    then have "Option.bind (view_rows env ?files buf ns) (\<lambda>(buf, ns). answer env ERR_SUCCESS buf ns) \<noteq> None" for buf
      by (metis answer_def bind.bind_lunit option.distinct(1) prod.case)
    then show ?thesis using that(1) unfolding handle_view_request_def Let_def by presburger
  qed
  show "\<not> m_view_flags msg AND VIEW_FLAG_LONG \<noteq> 0 \<Longrightarrow> handle_view_request env ns msg \<noteq> None"
    by (simp add: handle_view_request_def Let_def answer_def)
qed

lemma forward_ok:
  assumes inv: "ns_inv ns" and env: "env_ok env" and wf: "msg_wf msg"
  shows "returns (step_ok ns msg) (forward env i msg ns)"
    "returns (step_ok ns msg) (ns_handle_createfolder_request env ns msg)"
    "returns (step_ok ns msg) (ns_handle_viewfolder_request env ns msg)"
    "returns (step_ok ns msg) (ns_handle_move_request env ns msg)"
proof -
  show fwd: "returns (step_ok ns msg) (forward env i msg ns)" for i
    unfolding forward_def by (intro handler_rules env wf step_ok_same; simp add: inv)
  show "returns (step_ok ns msg) (ns_handle_createfolder_request env ns msg)"
    "returns (step_ok ns msg) (ns_handle_viewfolder_request env ns msg)"
    "returns (step_ok ns msg) (ns_handle_move_request env ns msg)"
    unfolding ns_handle_createfolder_request_def ns_handle_viewfolder_request_def ns_handle_move_request_def Let_def
    by (intro handler_rules fwd step_ok_same; simp add: inv)+
qed


lemma exec_ok:
  assumes inv: "ns_inv ns" and env: "env_ok env" and wf: "msg_wf msg"
  shows "returns (step_ok ns msg) (handle_exec_request env ns msg)"
proof -
  have req: "msg_wf ((INIT_MESSAGE (ne_now env))\<lparr>m_operation := OP_READ, m_filename := cbuf MAX_FILENAME_LEN (m_filename msg)\<rparr>)"
    by (simp add: msg_wf_def INIT_MESSAGE_def length_cbuf min_less_iff_disj)
  have run: "returns (step_ok ns msg)
      (let (run, w) = ne_popen env (ns_world ns1) cmd; ns = ns1\<lparr>ns_world := w\<rparr>
       in case run of None \<Rightarrow> answer env ERR_SERVER_ERROR ''Failed to execute command'' ns
          | Some (bytes, exit_status) \<Rightarrow>
              let output = exec_output bytes []
              in if exit_status = 0 then answer env ERR_SUCCESS (if output \<noteq> [] then output else ''(command produced no output)'') ns
                 else answer env ERR_SERVER_ERROR (''Command failed with exit code '' @ show_int exit_status @ ''. Output: '' @
                   (if output \<noteq> [] then output else ''(none)'')) ns)"
    if "ns_inv ns1" "ns_acl ns1 = ns_acl ns" for ns1 cmd
  proof -
    obtain r w where pop: "ne_popen env (ns_world ns1) cmd = (r, w)" by (cases "ne_popen env (ns_world ns1) cmd")
    have ans: "returns (step_ok ns msg) (answer env code s (ns1\<lparr>ns_world := w\<rparr>))" for code s
      by (intro returns_answer step_ok_same) (use that in simp_all)
    show ?thesis unfolding pop by (cases r) (auto simp: Let_def ans simp del: exec_output.simps)
  qed
  show ?thesis unfolding handle_exec_request_def
    by (subst Let_def, intro handler_rules inv env req msg_wfD [OF wf] run step_ok_same; simp)
qed

text \<open>The end of INFO: the metadata is scanned and printed.\<close>

definition info_answer :: "'w NsEnv \<Rightarrow> Message \<Rightarrow> cstring \<Rightarrow> cstring \<Rightarrow> Message \<Rightarrow> int \<Rightarrow> 'w NS \<Rightarrow> 'w ns_result" where
  "info_answer env msg owner access_list response ss_index ns =
     do {
       vs \<leftarrow> scan_ints INFO_FORMAT (m_content response);
       if length vs = 6 then do {
         created_str \<leftarrow> ne_time_long env (vs ! 3);
         modified_str \<leftarrow> ne_time_long env (vs ! 4);
         accessed_str \<leftarrow> ne_time_long env (vs ! 5);
         Some ([put_content (info_text msg owner access_list vs created_str modified_str accessed_str
           ss_index ns) response], ns)
       }
       else Some ([response], ns)
     }"

lemma info_answer_gives:
  assumes "\<And>m. msg_wf m \<Longrightarrow> P [m] ns" and "msg_wf response"
  shows "gives P (info_answer env msg owner access_list response i ns)"
  using assms by (auto simp: gives_def info_answer_def bind_eq_Some_conv split: option.split)

lemma info_answer_defined:
  assumes "printable env (m_content response)"
  shows "info_answer env msg owner access_list response i ns \<noteq> None"
proof -
  obtain vs where vs: "scan_ints INFO_FORMAT (m_content response) = Some vs"
    and times: "length vs = 6 \<longrightarrow> list_all (\<lambda>t. ne_time_long env t \<noteq> None) [vs ! 3, vs ! 4, vs ! 5]"
    using assms unfolding printable_def by (cases "scan_ints INFO_FORMAT (m_content response)") simp_all
  show ?thesis
  proof (cases "length vs = 6")
    case True
    with times obtain a b c where "ne_time_long env (vs ! 3) = Some a" "ne_time_long env (vs ! 4) = Some b"
      "ne_time_long env (vs ! 5) = Some c" by auto
    then show ?thesis using True unfolding info_answer_def vs by simp
  qed (simp add: info_answer_def vs del: scan_ints.simps)
qed

lemma info_ok:
  assumes inv: "ns_inv ns" and env: "env_ok env" and wf: "msg_wf msg"
  shows "gives (step_ok ns msg) (handle_info_request env ns msg)"
    and "acl_get_access_list (ns_acl ns) (m_filename msg) 512 \<noteq> None \<Longrightarrow> metadata_served W env \<and> W (ns_world ns) \<Longrightarrow>
      handle_info_request env ns msg \<noteq> None"
proof -
  obtain c where find: "find_ss_for_file env (m_filename msg) ns = Some (lookup_result ns (m_filename msg), ns\<lparr>ns_lru := c\<rparr>)"
    "ns_inv (ns\<lparr>ns_lru := c\<rparr>)"
    by (rule find_ss_run [OF inv msg_wfD(1) [OF wf]])
  let ?i = "lookup_result ns (m_filename msg)" and ?l = "acl_get_access_list (ns_acl ns) (m_filename msg) 512"
  obtain r w where con: "contact_nm env ?i (metadata_req env (m_filename msg)) (ns\<lparr>ns_lru := c\<rparr>) = (r, ns\<lparr>ns_lru := c, ns_world := w\<rparr>)" "reply_ok r"
    by (rule contact_nm_run [OF env, of "metadata_req env (m_filename msg)" ?i "ns\<lparr>ns_lru := c\<rparr>"]) simp_all
  have same: "step_ok ns msg [m] (ns\<lparr>ns_lru := c, ns_world := w\<rparr>)" "step_ok ns msg [m] (ns\<lparr>ns_lru := c\<rparr>)"
    "step_ok ns msg [m] ns" if "msg_wf m" for m
    by (intro step_ok_same; use find(2) inv that in simp)+
  consider (not) "\<not> (acl_check_read (ns_acl ns) (m_filename msg) (m_sender_id msg) \<and> \<not> ?i < 0)"
    | (over) "acl_check_read (ns_acl ns) (m_filename msg) (m_sender_id msg)" "\<not> ?i < 0" "?l = None"
    | (run) l where "acl_check_read (ns_acl ns) (m_filename msg) (m_sender_id msg)" "\<not> ?i < 0" "?l = Some l" by blast
  then have "gives (step_ok ns msg) (handle_info_request env ns msg) \<and>
    (?l \<noteq> None \<longrightarrow> metadata_served W env \<and> W (ns_world ns) \<longrightarrow> handle_info_request env ns msg \<noteq> None)"
  proof cases
    case not
    then show ?thesis using find(1) same(2,3)
      by (auto simp: handle_info_request_def Let_def gives_def answer_def)
  next
    case over
    with find(1) show ?thesis by (simp add: handle_info_request_def Let_def gives_def)
  next
    case run
    show ?thesis
    proof (cases r)
      case (Replied m)
      have ok: "printable env (m_content m)" if "metadata_served W env \<and> W (ns_world ns)" "m_error_code m = ERR_SUCCESS"
        using contact_metadata(2) [OF _ _ con(1) Replied, of W] that by simp
      have wf: "msg_wf m" using con(2) Replied by simp
      let ?ns = "ns\<lparr>ns_lru := c, ns_world := w\<rparr>"
      let ?owner = "case acl_get_owner (ns_acl ns) (m_filename msg) MAX_USERNAME_LEN of Some u \<Rightarrow> u | None \<Rightarrow> ''unknown''"
      let ?list = "case l of Some l \<Rightarrow> l | None \<Rightarrow> ''No access information''"
      have eq: "handle_info_request env ns msg = (if m_error_code m \<noteq> ERR_SUCCESS then Some ([m], ?ns)
          else info_answer env msg ?owner ?list m ?i ?ns)"
        using run find(1) con(1) Replied by (simp add: handle_info_request_def info_answer_def Let_def del: scan_ints.simps cong: if_cong)
      have "gives (step_ok ns msg) (info_answer env msg ?owner ?list m ?i ?ns)" 
        by (intro info_answer_gives same(1) wf)
      moreover have "info_answer env msg ?owner ?list m ?i ?ns \<noteq> None"
        if "metadata_served W env \<and> W (ns_world ns)" "m_error_code m = ERR_SUCCESS"
        by (rule info_answer_defined [OF ok [OF that]])
      ultimately show ?thesis unfolding eq using same(1) [OF wf] by (simp add: gives_SomeD)
    qed (use run find(1) con same(1) in \<open>auto simp: handle_info_request_def Let_def gives_def answer_def\<close>)
  qed
  then show "gives (step_ok ns msg) (handle_info_request env ns msg)"
    and "acl_get_access_list (ns_acl ns) (m_filename msg) 512 \<noteq> None \<Longrightarrow> metadata_served W env \<and> W (ns_world ns) \<Longrightarrow>
      handle_info_request env ns msg \<noteq> None" by blast+
qed

lemma search_loop_gives:
  assumes "ns_inv ns" and "env_ok env"
    and "search_loop env msg idxs results total_files queried ns = Some (results', t', q', ns')"
  shows "ns_inv ns' \<and> ns_acl ns' = ns_acl ns"
  using assms
proof (induction idxs arbitrary: results total_files queried ns)
  case (Cons i idxs)
  obtain r w where con: "contact_client_port env (int i) (search_msg env msg) ns = (r, ns\<lparr>ns_world := w\<rparr>)"
    by (rule contact_client_run [OF Cons.prems(2) request_msgs_wf(3)])
  have inv: "ns_inv (ns\<lparr>ns_world := w\<rparr>)" using Cons.prems(1) by simp
  show ?case
    using Cons.IH [OF Cons.prems(1,2)] Cons.IH [OF inv Cons.prems(2)] Cons.prems(3) con
    by (cases r) (simp_all add: Let_def split: if_splits)
qed simp

lemma search_ok:
  assumes inv: "ns_inv ns" and env: "env_ok env"
  shows "gives (step_ok ns msg) (ns_handle_search_request env ns msg)"
proof (cases "search_loop env msg [0..<length (ns_servers ns)] [] 0 0 ns")
  case None
  then show ?thesis by (simp add: ns_handle_search_request_def gives_def)
next
  case (Some res)
  obtain results t q ns' where res: "res = (results, t, q, ns')" by (cases res)
  have "ns_inv ns'" "ns_acl ns' = ns_acl ns"
    using search_loop_gives [OF inv env, of msg "[0..<length (ns_servers ns)]" "[]" 0 0] Some res by blast+
  then have ans: "returns (step_ok ns msg) (answer env code s ns')" for code s
    by (intro returns_answer step_ok_same) simp_all
  show ?thesis using Some res ans by (auto simp: ns_handle_search_request_def intro!: returns_gives)
qed


section \<open>Registration\<close>

text \<open>A storage server lists file names, which fit the name server's entries.\<close>

definition files_ok :: "Message \<Rightarrow> bool" where
  "files_ok msg \<longleftrightarrow> (\<forall>t\<in>set (listed_files msg). length t < MAX_FILENAME_LEN)"

lemma hashmap_add_all_run:
  assumes "map_ok (ns_file_map ns)" and "lru_inv (ns_lru ns)" and "\<forall>t\<in>set ts. length t < MAX_FILENAME_LEN"
  shows "\<exists>m c. hashmap_add_all env i ts ns = Some (ns\<lparr>ns_lru := c, ns_file_map := m\<rparr>) \<and> map_ok m \<and> lru_inv c \<and>
    (\<forall>g. map_view m g = (if g \<in> set ts \<and> (locations ns g \<noteq> None \<or> ne_mem_hash env g) then Some i else locations ns g)) \<and>
    cache_map c = (\<lambda>g. if g \<in> set ts then None else cached ns g)"
  using assms
proof (induction ts arbitrary: ns)
  case Nil
  then show ?case by (intro exI [of _ "ns_file_map ns"] exI [of _ "ns_lru ns"]) simp
next
  case (Cons t ts)
  have "length t < MAX_FILENAME_LEN" using Cons.prems(3) by simp
  then obtain m c where run: "hashmap_add env t i ns = Some (ns\<lparr>ns_lru := c, ns_file_map := m\<rparr>)" "map_ok m" "lru_inv c"
    and v: "map_view m = (if locations ns t \<noteq> None \<or> ne_mem_hash env t then (locations ns)(t \<mapsto> i) else locations ns)"
    and k: "cache_map c = (cached ns)(t := None)"
    by (rule hashmap_add_run [OF Cons.prems(1,2)])
  let ?ns = "ns\<lparr>ns_lru := c, ns_file_map := m\<rparr>"
  obtain m' c' where run': "hashmap_add_all env i ts ?ns = Some (?ns\<lparr>ns_lru := c', ns_file_map := m'\<rparr>)" "map_ok m'" "lru_inv c'"
    and v': "\<forall>g. map_view m' g = (if g \<in> set ts \<and> (locations ?ns g \<noteq> None \<or> ne_mem_hash env g) then Some i else locations ?ns g)"
    and k': "cache_map c' = (\<lambda>g. if g \<in> set ts then None else cached ?ns g)"
    using Cons.IH [of ?ns] run(2,3) Cons.prems(3) by auto
  have "map_view m' g = (if g \<in> set (t # ts) \<and> (locations ns g \<noteq> None \<or> ne_mem_hash env g) then Some i else locations ns g)" for g
    using v' v by (auto split: if_splits)
  moreover have "cache_map c' = (\<lambda>g. if g \<in> set (t # ts) then None else cached ns g)"
    unfolding k' using k by auto
  ultimately show ?case using run run' by (intro exI [of _ m'] exI [of _ c']) simp
qed

lemma find_server_index: "find_server msg ns = - 1 \<or> index_ok ns (find_server msg ns)"
  by (auto simp: find_server_def index_ok_def ss_count_def split: option.split dest!: find_Some_in)

text \<open>The table of servers is full and the registering server is not in it.\<close>

definition no_slot :: "'w NS \<Rightarrow> Message \<Rightarrow> bool" where
  "no_slot ns msg \<longleftrightarrow> find_server msg ns < 0 \<and> length (ns_servers ns) \<ge> MAX_STORAGE_SERVERS"

text \<open>What a registration does: the listed files are at the registered server, and nowhere in the cache.\<close>

definition registered :: "'w NsEnv \<Rightarrow> 'w NS \<Rightarrow> Message \<Rightarrow> int \<Rightarrow> 'w NS \<Rightarrow> bool" where
  "registered env ns msg i ns' \<longleftrightarrow>
     ss_alive ns' i \<and> es_ip (server ns' i) = m_ip_address msg \<and> es_nm_port (server ns' i) = m_nm_port msg \<and>
     es_client_port (server ns' i) = m_client_port msg \<and>
     (\<forall>g. locations ns' g = (if g \<in> set (listed_files msg) \<and> (locations ns g \<noteq> None \<or> ne_mem_hash env g)
        then Some i else locations ns g)) \<and>
     cached ns' = (\<lambda>g. if g \<in> set (listed_files msg) then None else cached ns g)"

lemma find_server_match:
  "find_server msg ns \<ge> 0 \<Longrightarrow> es_ip (server ns (find_server msg ns)) = m_ip_address msg \<and>
     es_nm_port (server ns (find_server msg ns)) = m_nm_port msg"
  by (auto simp: find_server_def split: option.splits dest!: find_Some_in)

lemma registration_run:
  assumes inv: "ns_inv ns" and wf: "msg_wf msg" and files: "files_ok msg"
  obtains code s ns' where "handle_ss_registration env ns msg = answer env code s ns'" "ns_inv ns'" "ns_acl ns' = ns_acl ns"
    "if no_slot ns msg then code = ERR_SERVER_ERROR \<and> ns' = ns else code = ERR_SUCCESS \<and> (\<exists>i. registered env ns msg i ns')"
proof -
  let ?e = "find_server msg ns" and ?ts = "listed_files msg"
  have short: "\<forall>t\<in>set ?ts. length t < MAX_FILENAME_LEN" using files by (simp add: files_ok_def)
  have len: "length ?ts \<le> MAX_FILES" by (simp add: listed_files_def)
  consider (old) "?e \<ge> 0" | (full) "\<not> ?e \<ge> 0" "length (ns_servers ns) \<ge> MAX_STORAGE_SERVERS"
    | (new) "\<not> ?e \<ge> 0" "\<not> length (ns_servers ns) \<ge> MAX_STORAGE_SERVERS" by blast
  then show ?thesis
  proof cases
    case old
    then have i: "index_ok ns ?e" using find_server_index [of msg ns] by auto
    let ?up = "\<lambda>s. s\<lparr>es_is_alive := True, es_last_heartbeat := ne_now env, es_client_port := m_client_port msg\<rparr>"
    let ?ns = "upd_server ?e ?up ns"
    have inv1: "ns_inv ?ns" by (intro upd_server_inv inv i) simp
    obtain m c where add: "hashmap_add_all env ?e ?ts ?ns = Some (?ns\<lparr>ns_lru := c, ns_file_map := m\<rparr>)" "map_ok m" "lru_inv c"
      "\<forall>g. map_view m g = (if g \<in> set ?ts \<and> (locations ?ns g \<noteq> None \<or> ne_mem_hash env g) then Some ?e else locations ?ns g)"
      "cache_map c = (\<lambda>g. if g \<in> set ?ts then None else cached ?ns g)"
      using hashmap_add_all_run [of ?ns ?ts env ?e] ns_invD(1,2) [OF inv] short by auto
    have inv2: "ns_inv (?ns\<lparr>ns_lru := c, ns_file_map := m\<rparr>)"
      by (rule ns_inv_maps [OF inv1 add(3,2)]) (use ns_invD(5-7) [OF inv1] i add(4,5) in \<open>auto split: if_splits\<close>)
    let ?ns' = "upd_server ?e (\<lambda>s. s\<lparr>es_files := map (cbuf MAX_FILENAME_LEN) ?ts\<rparr>) (?ns\<lparr>ns_lru := c, ns_file_map := m\<rparr>)"
    have inv3: "ns_inv ?ns'" by (rule upd_server_inv [OF inv2]) (use len i in simp_all)
    have n: "nat ?e < length (ns_servers ns)" using i by (auto simp: index_ok_def ss_count_def)
    have same: "locations ?ns = locations ns" "cached ?ns = cached ns" by simp_all
    have "registered env ns msg ?e ?ns'" unfolding registered_def
      using add(4,5) [unfolded same] find_server_match [OF old] i n by (simp add: ss_alive_def ss_count_def index_ok_def) (simp add: upd_server_def)
    with old add(1) inv3 show ?thesis
      by (intro that [of ERR_SUCCESS _ ?ns']) (simp_all add: handle_ss_registration_def Let_def no_slot_def, blast)
  next
    case full
    then show ?thesis by (intro that [of ERR_SERVER_ERROR _ ns]) (simp_all add: handle_ss_registration_def Let_def inv no_slot_def)
  next
    case new
    let ?i = "ss_count ns"
    obtain m c where add: "hashmap_add_all env ?i ?ts ns = Some (ns\<lparr>ns_lru := c, ns_file_map := m\<rparr>)" "map_ok m" "lru_inv c"
      "\<forall>g. map_view m g = (if g \<in> set ?ts \<and> (locations ns g \<noteq> None \<or> ne_mem_hash env g) then Some ?i else locations ns g)"
      "cache_map c = (\<lambda>g. if g \<in> set ?ts then None else cached ns g)"
      using hashmap_add_all_run [of ns ?ts env ?i] ns_invD(1,2) [OF inv] short by auto
    let ?s = "\<lparr>es_ip = cbuf MAX_IP_LEN (m_ip_address msg), es_nm_port = m_nm_port msg, es_client_port = m_client_port msg,
      es_is_alive = True, es_last_heartbeat = ne_now env, es_files = map (cbuf MAX_FILENAME_LEN) ?ts\<rparr>"
    let ?ns = "ns\<lparr>ns_lru := c, ns_file_map := m, ns_servers := ns_servers ns @ [?s]\<rparr>"
    have idx: "index_ok ?ns j = (index_ok ns j \<or> j = ?i)" for j by (auto simp: index_ok_def ss_count_def)
    have inv': "ns_inv ?ns" using inv new(2) add(2-5) len
      by (auto simp: ns_inv_def tables_ok_def indexes_ok_def sizes_ok_def idx split: if_splits)
    have "length (m_ip_address msg) < MAX_IP_LEN" using wf by (simp add: msg_wf_def)
    then have "registered env ns msg ?i ?ns" unfolding registered_def
      using add(4,5) by (simp add: ss_alive_def ss_count_def cbuf_id)
    with new add(1) inv' show ?thesis
      by (intro that [of ERR_SUCCESS _ ?ns]) (simp_all add: handle_ss_registration_def Let_def no_slot_def, blast)
  qed
qed

lemma registration_ok:
  assumes inv: "ns_inv ns" and wf: "msg_wf msg" and files: "files_ok msg"
  shows "returns (step_ok ns msg) (handle_ss_registration env ns msg)"
  by (rule registration_run [OF assms, of env]) (simp, intro returns_answer step_ok_same; simp)

lemma clients_ok:
  assumes inv: "ns_inv ns"
  shows "returns (step_ok ns msg) (handle_client_registration env ns msg)"
    "returns (step_ok ns msg) (handle_heartbeat env ns msg)"
    "m_operation msg = OP_UNREGISTER_CLIENT \<Longrightarrow> returns (step_ok ns msg) (Some ([], mark_client_disconnected ip port ns))"
    "ns_inv (mark_client_disconnected ip port ns)"
proof -
  show "returns (step_ok ns msg) (handle_client_registration env ns msg)"
    unfolding handle_client_registration_def by (intro handler_rules step_ok_same; simp add: inv ns_inv_clients)
  have "find_server msg ns \<noteq> - 1 \<Longrightarrow> ns_inv (upd_server (find_server msg ns)
      (\<lambda>s. s\<lparr>es_last_heartbeat := ne_now env, es_is_alive := True\<rparr>) ns)"
    using find_server_index [of msg ns] by (intro upd_server_inv inv) auto
  then show "returns (step_ok ns msg) (handle_heartbeat env ns msg)"
    unfolding handle_heartbeat_def Let_def by (intro handler_rules step_ok_same; simp add: inv)
  show gone: "ns_inv (mark_client_disconnected ip port ns)"
    using ns_invD(10) [OF inv] by (simp add: mark_client_disconnected_def ns_inv_clients inv)
  show "m_operation msg = OP_UNREGISTER_CLIENT \<Longrightarrow> returns (step_ok ns msg) (Some ([], mark_client_disconnected ip port ns))"
    using gone by (simp add: returns_def step_ok_def rights_step_def) (simp add: mark_client_disconnected_def)
qed

section \<open>One message\<close>

text \<open>
  The requests whose handling runs into no undefined behaviour: not SEARCH, which may overrun the
  buffer it collects text in; INFO only when the access list of the file fits its buffer; and for
  INFO and the long form of VIEW the storage servers' metadata has to be printable.
\<close>

definition safe_request :: "('w \<Rightarrow> bool) \<Rightarrow> 'w NsEnv \<Rightarrow> 'w NS \<Rightarrow> Message \<Rightarrow> bool" where
  "safe_request W env ns msg \<longleftrightarrow>
     m_operation msg \<noteq> OP_SEARCH \<and>
     (m_operation msg = OP_INFO \<longrightarrow> acl_get_access_list (ns_acl ns) (m_filename msg) 512 \<noteq> None) \<and>
     (m_operation msg = OP_INFO \<or> m_operation msg = OP_VIEW \<and> m_view_flags msg AND VIEW_FLAG_LONG \<noteq> 0 \<longrightarrow>
        metadata_served W env \<and> W (ns_world ns))"

lemma dispatch_ok:
  assumes inv: "ns_inv ns" and env: "env_ok env" and wf: "msg_wf msg" and files: "m_operation msg = OP_REGISTER_SS \<Longrightarrow> files_ok msg"
  shows "gives (step_ok ns msg) (dispatch env ns msg)" "safe_request W env ns msg \<Longrightarrow> dispatch env ns msg \<noteq> None"
proof -
  let ?special = "m_operation msg \<in> {OP_VIEW, OP_INFO, OP_SEARCH}"
  have plain: "returns (step_ok ns msg) (dispatch env ns msg)" if "\<not> ?special"
    using that unfolding dispatch_def Let_def
    by (auto intro!: registration_ok clients_ok create_ok routing_ok delete_ok addaccess_ok remaccess_ok list_ok
        exec_ok forward_ok requests_ok returns_answer step_ok_same inv env wf files)
  have special: "dispatch env ns msg = (if m_operation msg = OP_VIEW then handle_view_request env ns msg
      else if m_operation msg = OP_INFO then handle_info_request env ns msg else ns_handle_search_request env ns msg)" if ?special
    using that by (auto simp: dispatch_def)
  show "gives (step_ok ns msg) (dispatch env ns msg)"
  proof (cases ?special)
    case True
    then show ?thesis unfolding special [OF True] using view_ok(1) [OF inv env] info_ok(1) [OF inv env wf] search_ok [OF inv env]
      by presburger
  qed (use plain returns_gives in blast)
  show "dispatch env ns msg \<noteq> None" if safe: "safe_request W env ns msg"
  proof (cases ?special)
    case True
    then show ?thesis unfolding special [OF True]
      using safe view_ok(2,3) [OF inv env, of msg] info_ok(2) [OF inv env wf, of W] unfolding safe_request_def
      by (metis insertE singletonD)
  qed (use plain in \<open>auto simp: returns_def split: option.splits\<close>)
qed

lemma dispatch_answers:
  assumes "ns_inv ns" and "env_ok env" and "msg_wf msg" and "files_ok msg" and "dispatch env ns msg = Some (out, ns')"
  shows "length out = (if m_operation msg = OP_UNREGISTER_CLIENT then 0 else 1)" "\<forall>m\<in>set out. msg_wf m"
  using dispatch_ok(1) [OF assms(1-4)] assms(5) by (auto simp: gives_def step_ok_def) (auto simp: dispatch_def)

section \<open>Reachable states\<close>

fun received_ok :: "Received \<Rightarrow> bool" where
  "received_ok (Received msg) \<longleftrightarrow> msg_wf msg \<and> files_ok msg"
| "received_ok _ \<longleftrightarrow> True"

text \<open>
  The states of a running name server: after its start, connections are handled one at a time,
  the failure detection thread makes its rounds and the world goes on.
\<close>

inductive ns_reachable :: "'w NS \<Rightarrow> bool" where
  start: "ns_reachable (init_registries mem now fs w)"
| handle: "ns_reachable ns \<Longrightarrow> env_ok env \<Longrightarrow> received_ok r \<Longrightarrow>
    handle_connection env ns r ip port = Some (out, ns') \<Longrightarrow> ns_reachable ns'"
| detect: "ns_reachable ns \<Longrightarrow> ns_reachable (failure_detection_round now ns)"
| world: "ns_reachable ns \<Longrightarrow> ns_reachable (ns\<lparr>ns_world := w\<rparr>)"

lemma failure_detection_inv: "ns_inv ns \<Longrightarrow> ns_inv (failure_detection_round now ns)"
  unfolding failure_detection_round_def by (rule ns_inv_servers) (auto dest: ns_invD(12))

lemma connection_ok:
  assumes "ns_inv ns" and "env_ok env" and "received_ok r" and "handle_connection env ns r ip port = Some (out, ns')"
  shows "ns_inv ns' \<and> (\<forall>m\<in>set out. msg_wf m)"
proof (cases r)
  case (Received msg)
  with dispatch_ok(1) [OF assms(1,2), of msg] assms(3,4) show ?thesis
    by (simp add: handle_connection_def gives_def step_ok_def)
next
  case Closed
  with assms(4) clients_ok(4) [OF assms(1), of ip port] show ?thesis
    by (auto simp: handle_connection_def)
qed (use assms in \<open>simp add: handle_connection_def\<close>)

lemma reachable_inv: "ns_reachable ns \<Longrightarrow> ns_inv ns"
  by (induction rule: ns_reachable.induct)
    (auto dest: connection_ok simp: failure_detection_inv init_registries_inv)

section \<open>Properties\<close>

lemma connection_sets:
  assumes "ns_inv ns" and "env_ok env" and "received_ok r" and "handle_connection env ns r ip port = Some (out, ns')"
    and "acl_sets (ns_acl ns)"
  shows "acl_sets (ns_acl ns')"
proof (cases r)
  case (Received msg)
  with dispatch_ok(1) [OF assms(1,2), of msg] assms(3-5) show ?thesis
    by (simp add: handle_connection_def gives_def step_ok_def)
qed (use assms(4,5) in \<open>auto simp: handle_connection_def mark_client_disconnected_def\<close>)

text \<open>
  C8. The name server's invariant: in every state it can reach from any disk and memory it
  starts with, whatever messages, closed connections, failures of storage servers and clock values
  it meets, the file map, the cache, the access table and the request table are well-formed, every
  stored index names a registered server, every table is within its array, and whatever it then
  handles, the messages it sends fit the fields of the message type, and access lists that name no
  user twice stay so.
\<close>

theorem name_server_invariant:
  assumes "ns_reachable ns"
  shows "ns_inv ns \<and>
    (\<forall>env r ip port out ns'. env_ok env \<and> received_ok r \<and> handle_connection env ns r ip port = Some (out, ns') \<longrightarrow>
      (\<forall>m\<in>set out. msg_wf m) \<and> (acl_sets (ns_acl ns) \<longrightarrow> acl_sets (ns_acl ns')))"
  using reachable_inv [OF assms] connection_ok connection_sets by blast

definition sample_registration :: "int \<Rightarrow> Message" where
  "sample_registration port = (INIT_MESSAGE 0)\<lparr>m_operation := OP_REGISTER_SS, m_ip_address := ''10.0.0.1'',
     m_nm_port := port, m_client_port := port + 1\<rparr>"

definition fresh_start :: "'w \<Rightarrow> 'w NS" where
  "fresh_start w = init_registries (\<lambda>_. True) 0 \<lparr>fs_cwd = [], fs_nodes = [[] \<mapsto> FDir]\<rparr> w"

lemma fresh_start_reachable: "ns_reachable (fresh_start w)"
  unfolding fresh_start_def by (rule ns_reachable.start)

lemma fresh_start_sel [simp]:
  "ns_servers (fresh_start w) = []" "ns_replication (fresh_start w) = []" "ns_last_used (fresh_start w) = - 1"
  "ns_requests (fresh_start w) = request_table_init" "ns_acl (fresh_start w) = acl_init" "ns_world (fresh_start w) = w"
  "locations (fresh_start w) = Map.empty" "cached (fresh_start w) = Map.empty"
  by (simp_all add: fresh_start_def init_registries_def empty_disk_load map_view_def fun_eq_iff file_chain.lookup_empty)

lemma sample_env_ok: "env_ok (sample_env :: 'w NsEnv)"
  by (simp add: env_ok_def sample_env_def)

lemma sample_registration_ok: "msg_wf (sample_registration port)" "files_ok (sample_registration port)"
  by (simp_all add: sample_registration_def msg_wf_def INIT_MESSAGE_def files_ok_def listed_files_def cbuf_def)

text \<open>A new server without files is appended to the table.\<close>

lemma sample_registers:
  assumes "ns_servers ns = map sample_server ports" and "port \<notin> set ports" and "length ports < MAX_STORAGE_SERVERS"
  shows "\<exists>m. dispatch sample_env ns (sample_registration port) =
    Some ([m], ns\<lparr>ns_servers := ns_servers ns @ [sample_server port]\<rparr>) \<and> m_error_code m = ERR_SUCCESS"
proof -
  have "find_server (sample_registration port) ns = - 1"
  proof -
    have "find (\<lambda>i. es_ip (ns_servers ns ! i) = m_ip_address (sample_registration port) \<and>
        es_nm_port (ns_servers ns ! i) = m_nm_port (sample_registration port)) [0..<length (ns_servers ns)] = None"
      unfolding find_None_iff using assms(1,2) by (auto simp: sample_registration_def sample_server_def)
    then show ?thesis by (simp add: find_server_def)
  qed
  moreover have "listed_files (sample_registration port) = []"
    by (simp add: listed_files_def sample_registration_def INIT_MESSAGE_def cbuf_def)
  ultimately show ?thesis using assms(1,3)
    by (simp add: dispatch_def handle_ss_registration_def sample_registration_def answer_def Let_def ns_reply_def)
      (simp add: sample_server_def sample_env_def cbuf_def)
qed

definition sample_running :: "unit NS" where
  "sample_running = (fresh_start ())\<lparr>ns_servers := [sample_server 8081, sample_server 8091]\<rparr>"

lemma sample_server_reachable:
  assumes "ns_reachable ns" and "ns_servers ns = map sample_server ports" and "port \<notin> set ports"
    and "length ports < MAX_STORAGE_SERVERS"
  shows "ns_reachable (ns\<lparr>ns_servers := ns_servers ns @ [sample_server port]\<rparr>)"
proof -
  obtain m where "dispatch sample_env ns (sample_registration port) =
      Some ([m], ns\<lparr>ns_servers := ns_servers ns @ [sample_server port]\<rparr>)"
    using sample_registers [OF assms(2-4)] by blast
  then show ?thesis
    by (intro ns_reachable.handle [OF assms(1) sample_env_ok, of "Received (sample_registration port)" "[]" 0 "[m]"])
      (simp_all add: sample_registration_ok handle_connection_def)
qed

lemma sample_running_reachable: "ns_reachable sample_running"
  using sample_server_reachable [OF sample_server_reachable [OF fresh_start_reachable, of "()" "[]" 8081], of "[8081]" 8091]
  by (simp add: sample_running_def)

theorem name_server_invariant_witness: "ns_inv sample_running \<and> ss_count sample_running = 2"
  using name_server_invariant [OF sample_running_reachable] by (simp add: ss_count_def sample_running_def)

text \<open>
  C9. Every request is answered, but for three cases: in every reachable state the handling of a
  message is defined (no pointer is dereferenced wrongly, no walk along the cache's list runs
  forever), returns with a next state that satisfies the invariant, and sends exactly one
  well-formed answer (none to a client that signs off). Left out are SEARCH, which may overrun the
  buffer it collects text in; INFO on a file whose access list overruns its buffer; and INFO and the
  long form of VIEW when the metadata of a storage server has a number or a time that the code
  cannot scan or print.
\<close>

theorem every_request_answered:
  assumes "ns_reachable ns" and "env_ok env" and "msg_wf msg" and "files_ok msg"
    and "m_operation msg \<noteq> OP_SEARCH"
    and "m_operation msg = OP_INFO \<longrightarrow> acl_get_access_list (ns_acl ns) (m_filename msg) 512 \<noteq> None"
    and "m_operation msg = OP_INFO \<or> m_operation msg = OP_VIEW \<and> m_view_flags msg AND VIEW_FLAG_LONG \<noteq> 0 \<longrightarrow>
      metadata_served W env \<and> W (ns_world ns)"
  shows "\<exists>out ns'. dispatch env ns msg = Some (out, ns') \<and> ns_inv ns' \<and>
    length out = (if m_operation msg = OP_UNREGISTER_CLIENT then 0 else 1) \<and> (\<forall>m\<in>set out. msg_wf m)"
proof -
  note inv = reachable_inv [OF assms(1)]
  have "safe_request W env ns msg" using assms(5-7) by (simp add: safe_request_def)
  then obtain out ns' where run: "dispatch env ns msg = Some (out, ns')"
    using dispatch_ok(2) [OF inv assms(2-4), of W] by auto
  then show ?thesis using dispatch_answers [OF inv assms(2-4) run] dispatch_ok(1) [OF inv assms(2-4)]
    by (simp add: gives_def step_ok_def)
qed

text \<open>A long VIEW among servers that cannot be reached, and the registration of a server.\<close>

theorem every_request_answered_witness:
  "(\<exists>out ns'. dispatch sample_env sample_running ((INIT_MESSAGE 0)\<lparr>m_operation := OP_VIEW, m_view_flags := VIEW_FLAG_LONG\<rparr>) =
     Some (out, ns') \<and> length out = 1) \<and>
   (\<exists>out ns'. dispatch sample_env sample_running (sample_registration 9000) = Some (out, ns') \<and> length out = 1)"
proof
  let ?msg = "(INIT_MESSAGE 0)\<lparr>m_operation := OP_VIEW, m_view_flags := VIEW_FLAG_LONG\<rparr>"
  have served: "metadata_served (\<lambda>_. True) (sample_env :: unit NsEnv)" by (simp add: metadata_served_def sample_env_def)
  have "msg_wf ?msg" "files_ok ?msg" by (simp_all add: msg_wf_def INIT_MESSAGE_def files_ok_def listed_files_def cbuf_def)
  from every_request_answered [OF sample_running_reachable sample_env_ok this, of "\<lambda>_. True"] served
  show "\<exists>out ns'. dispatch sample_env sample_running ?msg = Some (out, ns') \<and> length out = 1" by auto
  show "\<exists>out ns'. dispatch sample_env sample_running (sample_registration 9000) = Some (out, ns') \<and> length out = 1"
    using every_request_answered [OF sample_running_reachable sample_env_ok sample_registration_ok, of 9000 "\<lambda>_. True"]
    by (auto simp: sample_registration_def)
qed

end
