(* ===== verification/NS_Properties.thy ===== *)
theory NS_Properties
  imports NS_Invariant
begin

text \<open>
  What the name server does for its clients: exact routing, creation and deletion of files,
  registration of storage servers, failure of servers, access requests, and the confinement of
  access rights. Three properties record behaviour the program does not intend: a replica that
  replaces the only known location of a file, approvals that are not saved, and search results
  listed twice.
\<close>

section \<open>Routing\<close>

definition needs_write :: "int \<Rightarrow> bool" where
  "needs_write op \<longleftrightarrow> op = OP_WRITE \<or> op = OP_UNDO"

definition permitted :: "'w NS \<Rightarrow> Message \<Rightarrow> bool" where
  "permitted ns msg \<longleftrightarrow>
     (if needs_write (m_operation msg) then acl_check_write (ns_acl ns) (m_filename msg) (m_sender_id msg)
      else acl_check_read (ns_acl ns) (m_filename msg) (m_sender_id msg))"

lemma route_run:
  assumes inv: "ns_inv ns" and wf: "msg_wf msg" and op: "m_operation msg \<in> {OP_READ, OP_WRITE, OP_UNDO, OP_STREAM}"
  obtains m c where "dispatch env ns msg = Some ([m], ns\<lparr>ns_lru := c\<rparr>)"
    "lookup_result ns (m_filename msg) < 0 \<Longrightarrow> m_operation m = OP_ACK \<and> m_error_code m = ERR_NOT_FOUND"
    "\<not> lookup_result ns (m_filename msg) < 0 \<Longrightarrow> \<not> permitted ns msg \<Longrightarrow>
       m_operation m = OP_ACK \<and> m_error_code m = ERR_ACCESS_DENIED"
    "\<not> lookup_result ns (m_filename msg) < 0 \<Longrightarrow> permitted ns msg \<Longrightarrow>
       m_operation m = OP_ROUTE_INFO \<and> m_error_code m = ERR_SUCCESS \<and>
       m_ss_ip m = cbuf MAX_IP_LEN (es_ip (server ns (lookup_result ns (m_filename msg)))) \<and>
       m_ss_port m = es_client_port (server ns (lookup_result ns (m_filename msg)))"
proof -
  let ?f = "m_filename msg"
  let ?i = "lookup_result ns ?f"
  obtain c where find: "find_ss_for_file env ?f ns = Some (?i, ns\<lparr>ns_lru := c\<rparr>)"
    by (rule find_ss_run [OF inv msg_wfD(1) [OF wf]])
  have ack: "m_operation (ns_reply env code s) = OP_ACK" "m_error_code (ns_reply env code s) = code" for code s
    by (simp_all add: ns_reply_def)
  have route: "m_operation (route_info env ?i s ns') = OP_ROUTE_INFO" "m_error_code (route_info env ?i s ns') = ERR_SUCCESS"
    "m_ss_ip (route_info env ?i s ns') = cbuf MAX_IP_LEN (es_ip (server ns' ?i))"
    "m_ss_port (route_info env ?i s ns') = es_client_port (server ns' ?i)" for s and ns' :: "'a NS"
    by (simp_all add: route_info_def Let_def)
  note defs = dispatch_def ns_handle_read_request_def ns_handle_write_request_def ns_handle_undo_request_def
    ns_handle_stream_request_def permitted_def needs_write_def answer_def
  consider "?i < 0" | "\<not> ?i < 0" "\<not> permitted ns msg" | "\<not> ?i < 0" "permitted ns msg" by blast
  then have "\<exists>m. dispatch env ns msg = Some ([m], ns\<lparr>ns_lru := c\<rparr>) \<and>
      (?i < 0 \<longrightarrow> m_operation m = OP_ACK \<and> m_error_code m = ERR_NOT_FOUND) \<and>
      (\<not> ?i < 0 \<longrightarrow> \<not> permitted ns msg \<longrightarrow> m_operation m = OP_ACK \<and> m_error_code m = ERR_ACCESS_DENIED) \<and>
      (\<not> ?i < 0 \<longrightarrow> permitted ns msg \<longrightarrow> m_operation m = OP_ROUTE_INFO \<and> m_error_code m = ERR_SUCCESS \<and>
         m_ss_ip m = cbuf MAX_IP_LEN (es_ip (server ns ?i)) \<and> m_ss_port m = es_client_port (server ns ?i))"
  proof cases
    case 1
    with op find show ?thesis by (auto simp: defs ack)
  next
    case 2
    with op find show ?thesis by (auto simp: defs ack)
  next
    case 3
    with op find show ?thesis by (auto simp: defs route)
  qed
  then show ?thesis using that by metis
qed

section \<open>Creating a file\<close>

text \<open>The storage servers' side of a successful creation: every live server replies that it made the file.\<close>

definition servers_create :: "'w NsEnv \<Rightarrow> 'w NS \<Rightarrow> Message \<Rightarrow> bool" where
  "servers_create env ns msg \<longleftrightarrow>
     (\<forall>i. ss_alive ns i \<longrightarrow> (\<exists>r w. ne_contact env (ns_world ns) (es_ip (server ns i)) (es_nm_port (server ns i)) msg =
        (Replied r, w) \<and> m_error_code r = ERR_CREATED))"

definition room_everywhere :: "'w NsEnv \<Rightarrow> 'w NS \<Rightarrow> cstring \<Rightarrow> bool" where
  "room_everywhere env ns f \<longleftrightarrow> ne_mem_hash env f \<and> ne_mem_acl env \<and>
     (\<forall>i. ss_alive ns i \<longrightarrow> length (es_files (server ns i)) < MAX_FILES)"

definition fresh_create :: "'w NS \<Rightarrow> Message \<Rightarrow> bool" where
  "fresh_create ns msg \<longleftrightarrow> m_operation msg = OP_CREATE \<and> \<not> contains_invalid_chars (m_filename msg) \<and>
     locations ns (m_filename msg) = None \<and> acl_rights (ns_acl ns) (m_filename msg) = None"

lemma lookup_unknown: "ns_inv ns \<Longrightarrow> locations ns f = None \<Longrightarrow> lookup_result ns f = - 1"
  using lookup_cases by blast

lemma lookup_located:
  assumes "ns_inv ns" and "locations ns f = Some j" and "ss_alive ns j"
  shows "lookup_result ns f \<noteq> - 1" "ss_alive ns (lookup_result ns f)"
proof -
  have "ss_alive ns i \<Longrightarrow> i \<noteq> - 1" for i by (auto simp: ss_alive_def)
  then show "lookup_result ns f \<noteq> - 1" "ss_alive ns (lookup_result ns f)"
    using assms by (auto simp: lookup_result_def backing_def split: option.split)
qed

lemma create_run:
  assumes inv: "ns_inv ns" and env: "env_ok env" and wf: "msg_wf msg" and fresh: "fresh_create ns msg"
    and alive: "ss_alive ns k" and reply: "servers_create env ns msg" and room: "room_everywhere env ns (m_filename msg)"
  obtains r ns' j where "dispatch env ns msg = Some ([r], ns')" "m_error_code r = ERR_CREATED" "ns_inv ns'"
    "placed (m_filename msg) ns ns'" "locations ns' (m_filename msg) = Some j" "ss_alive ns' j"
    "acl_rights (ns_acl ns') = (acl_rights (ns_acl ns))(m_filename msg \<mapsto> (m_sender_id msg, [], []))"
proof -
  let ?f = "m_filename msg"
  have unknown: "lookup_result ns ?f = - 1" using fresh by (intro lookup_unknown inv) (simp add: fresh_create_def)
  obtain c where find: "find_ss_for_file env ?f ns = Some (- 1, ns\<lparr>ns_lru := c\<rparr>)" and invc: "ns_inv (ns\<lparr>ns_lru := c\<rparr>)"
    using find_ss_run [OF inv msg_wfD(1) [OF wf], of env] by (metis unknown)
  let ?ns1 = "ns\<lparr>ns_lru := c\<rparr>"
  obtain i where av: "find_available_ss ?ns1 = (i, ?ns1\<lparr>ns_last_used := i\<rparr>)" "ss_alive ?ns1 i" "ns_inv (?ns1\<lparr>ns_last_used := i\<rparr>)"
    using find_available_run [OF invc] alive by (metis ss_alive_frame(1))
  let ?ns2 = "?ns1\<lparr>ns_last_used := i\<rparr>"
  have live: "ss_alive ns i" "0 \<le> i" using av(2) by (simp_all add: ss_alive_def ss_count_def)
  obtain r w where con: "ne_contact env (ns_world ns) (es_ip (server ns i)) (es_nm_port (server ns i)) msg = (Replied r, w)"
    and made: "m_error_code r = ERR_CREATED" using reply live(1) by (auto simp: servers_create_def)
  let ?ns3 = "?ns2\<lparr>ns_world := w\<rparr>"
  have con3: "contact_nm env i msg ?ns2 = (Replied r, ?ns3)" using con by (simp add: contact_nm_def)
  have "ns_inv ?ns3" "ss_alive ?ns3 i" using av(3) live(1) by simp_all
  then obtain ns' where reg: "register_created env i msg ?ns3 = Some ns'" "ns_inv ns'"
      "acl_rights (ns_acl ns') = (if acl_rights (ns_acl ?ns3) ?f = None \<and> ne_mem_acl env
        then (acl_rights (ns_acl ?ns3))(?f \<mapsto> (m_sender_id msg, [], [])) else acl_rights (ns_acl ?ns3))"
      "placed ?f ?ns3 ns'"
      "ne_mem_hash env ?f \<Longrightarrow> length (es_files (ns_servers ?ns3 ! nat i)) < MAX_FILES \<Longrightarrow>
        \<exists>j. locations ns' ?f = Some j \<and> ss_alive ?ns3 j"
    by (rule register_created_run [OF _ env wf, of ?ns3 i]) blast
  have "placed ?f ns ?ns3" by (rule placed_refl) simp_all
  then have p: "placed ?f ns ns'" using reg(4) by (rule placed_trans)
  obtain j where j: "locations ns' ?f = Some j" "ss_alive ns j" using reg(5) room live(1) by (auto simp: room_everywhere_def)
  have "dispatch env ns msg = Some ([r], ns')"
    using fresh find av(1) live(2) con3 made reg(1)
    by (simp add: dispatch_def handle_create_request_def fresh_create_def ns_file_exists_def)
  moreover have "ss_alive ns' j" using p j(2) by (simp add: placed_def)
  moreover have "acl_rights (ns_acl ns') = (acl_rights (ns_acl ns))(?f \<mapsto> (m_sender_id msg, [], []))"
    using reg(3) fresh room by (simp add: fresh_create_def room_everywhere_def)
  ultimately show ?thesis using that made reg(2) p j(1) by blast
qed

section \<open>A sample run\<close>

text \<open>A name server with two storage servers that make every file they are asked for.\<close>

definition created_msg :: Message where
  "created_msg = (INIT_MESSAGE 0)\<lparr>m_operation := OP_ACK, m_error_code := ERR_CREATED\<rparr>"

definition creating_env :: "unit NsEnv" where
  "creating_env = sample_env\<lparr>ne_contact := (\<lambda>w ip port m. (Replied created_msg, w))\<rparr>"

definition sample_request :: "int \<Rightarrow> cstring \<Rightarrow> Message" where
  "sample_request op user = (INIT_MESSAGE 0)\<lparr>m_operation := op, m_filename := ''a'', m_sender_id := user\<rparr>"

lemma creating_env_ok: "env_ok creating_env"
  by (simp add: env_ok_def creating_env_def created_msg_def msg_wf_def INIT_MESSAGE_def)

lemma sample_request_ok: "length user < MAX_USERNAME_LEN \<Longrightarrow> msg_wf (sample_request op user)" "files_ok (sample_request op user)"
  by (simp_all add: sample_request_def msg_wf_def INIT_MESSAGE_def files_ok_def listed_files_def cbuf_def)

lemma sample_running_facts:
  "ss_count sample_running = 2" "ss_alive sample_running 0" "ss_alive sample_running 1"
  "ns_replication sample_running = []" "ns_last_used sample_running = - 1"
  "0 \<le> i \<Longrightarrow> i < 2 \<Longrightarrow> ss_alive sample_running i"
proof -
  show count: "ss_count sample_running = 2" and a: "ss_alive sample_running 0" "ss_alive sample_running 1"
    by (simp_all add: sample_running_def ss_alive_def ss_count_def sample_server_def)
  show "ns_replication sample_running = []" "ns_last_used sample_running = - 1"
    by (simp_all add: sample_running_def)
  assume "0 \<le> i" "i < 2"
  then have "i = 0 \<or> i = 1" by auto
  with a show "ss_alive sample_running i" by auto
qed

lemma sample_running_empty:
  "locations sample_running f = None" "acl_rights (ns_acl sample_running) f = None"
  by (simp_all add: sample_running_def acl_rights_init)

lemma sample_fresh: "fresh_create sample_running (sample_request OP_CREATE user)"
  by (simp add: fresh_create_def sample_running_empty) (simp add: sample_request_def contains_invalid_chars_def)

lemma sample_servers_create: "servers_create creating_env ns msg"
  by (simp add: servers_create_def creating_env_def created_msg_def)

lemma sample_room: "room_everywhere creating_env sample_running f"
proof -
  have "es_files s = []" if "s \<in> set (ns_servers sample_running)" for s
    using that by (auto simp: sample_running_def sample_server_def)
  then have "length (es_files (server sample_running i)) < MAX_FILES" if "ss_alive sample_running i" for i
  proof -
    have "server sample_running i \<in> set (ns_servers sample_running)"
      using that by (intro nth_mem) (simp add: ss_alive_def ss_count_def, linarith)
    then show ?thesis by (simp add: \<open>\<And>s. s \<in> set (ns_servers sample_running) \<Longrightarrow> es_files s = []\<close>)
  qed
  then show ?thesis by (simp add: room_everywhere_def) (simp add: creating_env_def sample_env_def)
qed

text \<open>The state after \<open>ann\<close> has created the file \<open>a\<close>.\<close>

lemma sample_created:
  obtains r ns' j where "dispatch creating_env sample_running (sample_request OP_CREATE ''ann'') = Some ([r], ns')"
    "ns_reachable ns'" "locations ns' ''a'' = Some j" "ss_alive ns' j" "m_error_code r = ERR_CREATED"
    "ns_requests ns' = request_table_init"
    "acl_rights (ns_acl ns') = (acl_rights (ns_acl sample_running))(''a'' \<mapsto> (''ann'', [], []))"
proof -
  let ?m = "sample_request OP_CREATE ''ann''"
  have wf: "msg_wf ?m" by (rule sample_request_ok) simp
  obtain r ns' j where run: "dispatch creating_env sample_running ?m = Some ([r], ns')"
    and facts: "locations ns' (m_filename ?m) = Some j" "ss_alive ns' j" "m_error_code r = ERR_CREATED"
      "acl_rights (ns_acl ns') = (acl_rights (ns_acl sample_running))(m_filename ?m \<mapsto> (m_sender_id ?m, [], []))"
      "placed (m_filename ?m) sample_running ns'"
    by (rule create_run [OF reachable_inv [OF sample_running_reachable] creating_env_ok wf sample_fresh
        sample_running_facts(2) sample_servers_create sample_room]) blast
  have "ns_reachable ns'"
    by (rule ns_reachable.handle [OF sample_running_reachable creating_env_ok, of "Received ?m" "[]" 0 "[r]"])
      (simp_all add: wf sample_request_ok handle_connection_def run)
  moreover have "ns_requests ns' = request_table_init"
    using facts(5) by (simp add: placed_def sample_running_def)
  ultimately show ?thesis using that run facts by (simp add: sample_request_def)
qed

section \<open>Routing and creation, as properties\<close>

text \<open>
  C14. Routing is exact: in every reachable state a READ, STREAM, WRITE or UNDO gets exactly one
  answer and changes nothing but the cache; it is NOT FOUND when no live server holds the file,
  ACCESS DENIED when the sender lacks the right (to read, or to write for WRITE and UNDO), and
  otherwise the address of a live registered server; so no client learns where a file is
  without the right to it.
\<close>

theorem routing_exact:
  assumes "ns_reachable ns" and "msg_wf msg" and "m_operation msg \<in> {OP_READ, OP_WRITE, OP_UNDO, OP_STREAM}"
  shows "\<exists>m c. dispatch env ns msg = Some ([m], ns\<lparr>ns_lru := c\<rparr>) \<and>
    (m_operation m = OP_ROUTE_INFO \<longleftrightarrow> lookup_result ns (m_filename msg) \<noteq> - 1 \<and> permitted ns msg) \<and>
    (m_error_code m =
      (if lookup_result ns (m_filename msg) = - 1 then ERR_NOT_FOUND
       else if permitted ns msg then ERR_SUCCESS else ERR_ACCESS_DENIED)) \<and>
    (m_operation m = OP_ROUTE_INFO \<longrightarrow>
      (\<exists>i. ss_alive ns i \<and> m_ss_ip m = cbuf MAX_IP_LEN (es_ip (server ns i)) \<and> m_ss_port m = es_client_port (server ns i)))"
proof -
  let ?i = "lookup_result ns (m_filename msg)"
  note inv = reachable_inv [OF assms(1)]
  have neg: "?i < 0 \<longleftrightarrow> ?i = - 1" using lookup_nonneg [OF inv, of "m_filename msg"] by linarith
  obtain m c where run: "dispatch env ns msg = Some ([m], ns\<lparr>ns_lru := c\<rparr>)"
    and missing: "?i < 0 \<Longrightarrow> m_operation m = OP_ACK \<and> m_error_code m = ERR_NOT_FOUND"
    and denied: "\<not> ?i < 0 \<Longrightarrow> \<not> permitted ns msg \<Longrightarrow> m_operation m = OP_ACK \<and> m_error_code m = ERR_ACCESS_DENIED"
    and routed: "\<not> ?i < 0 \<Longrightarrow> permitted ns msg \<Longrightarrow>
       m_operation m = OP_ROUTE_INFO \<and> m_error_code m = ERR_SUCCESS \<and>
       m_ss_ip m = cbuf MAX_IP_LEN (es_ip (server ns ?i)) \<and> m_ss_port m = es_client_port (server ns ?i)"
    by (rule route_run [OF inv assms(2,3), of env]) blast
  have alive: "?i \<noteq> - 1 \<Longrightarrow> ss_alive ns ?i" using lookup_cases [OF inv, of "m_filename msg"] by blast
  consider "?i = - 1" | "?i \<noteq> - 1" "\<not> permitted ns msg" | "?i \<noteq> - 1" "permitted ns msg" by blast
  then show ?thesis
  proof cases
    case 1
    then show ?thesis using run missing by (intro exI [of _ m] exI [of _ c]) simp
  next
    case 2
    then show ?thesis using run denied neg by (intro exI [of _ m] exI [of _ c]) simp
  next
    case 3
    then show ?thesis using run routed neg alive by (intro exI [of _ m] exI [of _ c]) auto
  qed
qed

theorem routing_exact_witness:
  "\<exists>ns m c. dispatch creating_env ns (sample_request OP_READ ''ann'') = Some ([m], ns\<lparr>ns_lru := c\<rparr>) \<and>
     m_operation m = OP_ROUTE_INFO \<and> (\<exists>i. ss_alive ns i \<and> m_ss_port m = es_client_port (server ns i))"
proof -
  obtain r ns j where run: "dispatch creating_env sample_running (sample_request OP_CREATE ''ann'') = Some ([r], ns)"
    "ns_reachable ns" "locations ns ''a'' = Some j" "ss_alive ns j" "m_error_code r = ERR_CREATED"
    "ns_requests ns = request_table_init" "acl_rights (ns_acl ns) = (acl_rights (ns_acl sample_running))(''a'' \<mapsto> (''ann'', [], []))"
    by (rule sample_created)
  let ?m = "sample_request OP_READ ''ann''"
  have name: "m_filename ?m = ''a''" by (simp add: sample_request_def)
  have "lookup_result ns ''a'' \<noteq> - 1" by (rule lookup_located [OF reachable_inv [OF run(2)] run(3,4)])
  moreover have "permitted ns ?m"
    by (simp add: permitted_def needs_write_def acl_check_rights run(7)) (simp add: sample_request_def can_read_def)
  moreover have "msg_wf ?m" "m_operation ?m \<in> {OP_READ, OP_WRITE, OP_UNDO, OP_STREAM}"
    by (simp_all add: sample_request_ok) (simp add: sample_request_def)
  ultimately show ?thesis using routing_exact [OF run(2), of ?m creating_env] name by auto
qed

text \<open>
  C17. What CREATE promises: if the name is new and allowed, a server is alive and the servers
  can make the file, the client gets the server's ERR_CREATED; from then on READ, STREAM, WRITE
  and UNDO on the file are routed to a live server for its creator and refused to everyone else.
\<close>

theorem create_then_access:
  assumes "ns_reachable ns" and "env_ok env" and "msg_wf msg" and "fresh_create ns msg" and "ss_alive ns k"
    and "servers_create env ns msg" and "room_everywhere env ns (m_filename msg)"
  shows "\<exists>r ns'. dispatch env ns msg = Some ([r], ns') \<and> m_error_code r = ERR_CREATED \<and>
    (\<forall>rd. msg_wf rd \<and> m_operation rd \<in> {OP_READ, OP_WRITE, OP_UNDO, OP_STREAM} \<and> m_filename rd = m_filename msg \<longrightarrow>
      (\<exists>m c. dispatch env ns' rd = Some ([m], ns'\<lparr>ns_lru := c\<rparr>) \<and>
        (if m_sender_id rd = m_sender_id msg
         then m_operation m = OP_ROUTE_INFO \<and>
           (\<exists>i. ss_alive ns i \<and> m_ss_ip m = cbuf MAX_IP_LEN (es_ip (server ns' i)) \<and> m_ss_port m = es_client_port (server ns' i))
         else m_operation m = OP_ACK \<and> m_error_code m = ERR_ACCESS_DENIED)))"
proof -
  obtain r ns' j where run: "dispatch env ns msg = Some ([r], ns')" "m_error_code r = ERR_CREATED" "ns_inv ns'"
    and p: "placed (m_filename msg) ns ns'" and loc: "locations ns' (m_filename msg) = Some j" "ss_alive ns' j"
    and rights: "acl_rights (ns_acl ns') = (acl_rights (ns_acl ns))(m_filename msg \<mapsto> (m_sender_id msg, [], []))"
    by (rule create_run [OF reachable_inv [OF assms(1)] assms(2-7)]) blast
  note found = lookup_located [OF run(3) loc]
  have nn: "\<not> lookup_result ns' (m_filename msg) < 0" using found(2) by (simp add: ss_alive_def)
  have alive: "ss_alive ns (lookup_result ns' (m_filename msg))" using found(2) p by (simp add: placed_def)
  have perm: "permitted ns' rd \<longleftrightarrow> m_sender_id rd = m_sender_id msg" if "m_filename rd = m_filename msg" for rd
    using that by (auto simp: permitted_def acl_check_rights rights can_read_def can_write_def)
  have "\<exists>m c. dispatch env ns' rd = Some ([m], ns'\<lparr>ns_lru := c\<rparr>) \<and>
      (if m_sender_id rd = m_sender_id msg
       then m_operation m = OP_ROUTE_INFO \<and>
         (\<exists>i. ss_alive ns i \<and> m_ss_ip m = cbuf MAX_IP_LEN (es_ip (server ns' i)) \<and> m_ss_port m = es_client_port (server ns' i))
       else m_operation m = OP_ACK \<and> m_error_code m = ERR_ACCESS_DENIED)"
    if rd: "msg_wf rd" "m_operation rd \<in> {OP_READ, OP_WRITE, OP_UNDO, OP_STREAM}" "m_filename rd = m_filename msg" for rd
    by (rule route_run [OF run(3) rd(1,2), of env]) (use nn alive perm [OF rd(3)] rd(3) in \<open>auto; blast\<close>)
  with run(1,2) show ?thesis by blast
qed

theorem create_then_access_witness:
  "\<exists>r ns' m c. dispatch creating_env sample_running (sample_request OP_CREATE ''ann'') = Some ([r], ns') \<and>
     m_error_code r = ERR_CREATED \<and>
     dispatch creating_env ns' (sample_request OP_READ ''eve'') = Some ([m], ns'\<lparr>ns_lru := c\<rparr>) \<and>
     m_error_code m = ERR_ACCESS_DENIED"
proof -
  let ?m = "sample_request OP_CREATE ''ann''" and ?rd = "sample_request OP_READ ''eve''"
  have wf: "msg_wf ?m" "msg_wf ?rd" by (rule sample_request_ok; simp)+
  have rd: "m_operation ?rd \<in> {OP_READ, OP_WRITE, OP_UNDO, OP_STREAM}" "m_filename ?rd = m_filename ?m"
    "m_sender_id ?rd \<noteq> m_sender_id ?m" by (simp_all add: sample_request_def)
  obtain r ns' where run: "dispatch creating_env sample_running ?m = Some ([r], ns')" "m_error_code r = ERR_CREATED"
    and acc: "msg_wf ?rd \<and> m_operation ?rd \<in> {OP_READ, OP_WRITE, OP_UNDO, OP_STREAM} \<and> m_filename ?rd = m_filename ?m \<longrightarrow>
      (\<exists>m c. dispatch creating_env ns' ?rd = Some ([m], ns'\<lparr>ns_lru := c\<rparr>) \<and>
        (if m_sender_id ?rd = m_sender_id ?m
         then m_operation m = OP_ROUTE_INFO \<and>
           (\<exists>i. ss_alive sample_running i \<and> m_ss_ip m = cbuf MAX_IP_LEN (es_ip (server ns' i)) \<and>
              m_ss_port m = es_client_port (server ns' i))
         else m_operation m = OP_ACK \<and> m_error_code m = ERR_ACCESS_DENIED))"
    using create_then_access [OF sample_running_reachable creating_env_ok wf(1) sample_fresh
      sample_running_facts(2) sample_servers_create sample_room]
    by (elim exE conjE allE [of _ ?rd]) blast
  from acc wf(2) rd obtain m c where "dispatch creating_env ns' ?rd = Some ([m], ns'\<lparr>ns_lru := c\<rparr>)"
    "m_error_code m = ERR_ACCESS_DENIED" by auto
  with run show ?thesis by blast
qed

section \<open>Access rights\<close>

text \<open>
  C10. Access rights are confined: whatever message a running name server handles, the rights on a
  file change only if the message names that file, and then only by its creation (it had no
  rights), by its deletion for a sender who may write it, or by an ADDACCESS, REMACCESS or
  APPROVEREQUEST of its owner.
\<close>

theorem rights_confined:
  assumes "ns_reachable ns" and "env_ok env" and "msg_wf msg" and "files_ok msg"
    and "dispatch env ns msg = Some (out, ns')" and "acl_rights (ns_acl ns') f \<noteq> acl_rights (ns_acl ns) f"
  shows "f = m_filename msg \<and>
    (m_operation msg = OP_CREATE \<and> acl_rights (ns_acl ns) f = None \<or>
     m_operation msg = OP_DELETE \<and> acl_check_write (ns_acl ns) f (m_sender_id msg) \<or>
     m_operation msg \<in> {OP_ADDACCESS, OP_REMACCESS, OP_APPROVEREQUEST} \<and>
     acl_check_owner (ns_acl ns) f (m_sender_id msg))"
proof -
  have "rights_step ns msg ns'"
    using dispatch_ok(1) [OF reachable_inv [OF assms(1)] assms(2-4)] assms(5) by (simp add: gives_def step_ok_def)
  with assms(6) show ?thesis by (auto simp: rights_step_def may_change_def)
qed
theorem rights_confined_witness:
  "\<exists>out ns'. dispatch creating_env sample_running (sample_request OP_CREATE ''ann'') = Some (out, ns') \<and>
     acl_rights (ns_acl ns') ''a'' = Some (''ann'', [], []) \<and>
     acl_rights (ns_acl sample_running) ''a'' = None \<and>
     ''a'' = m_filename (sample_request OP_CREATE ''ann'')"
proof -
  obtain r ns j where run: "dispatch creating_env sample_running (sample_request OP_CREATE ''ann'') = Some ([r], ns)"
    "acl_rights (ns_acl ns) = (acl_rights (ns_acl sample_running))(''a'' \<mapsto> (''ann'', [], []))"
    by (rule sample_created)
  have wf: "msg_wf (sample_request OP_CREATE ''ann'')" by (rule sample_request_ok) simp
  have "acl_rights (ns_acl ns) ''a'' \<noteq> acl_rights (ns_acl sample_running) ''a''"
    by (simp add: run(2) sample_running_empty)
  with rights_confined [OF sample_running_reachable creating_env_ok wf sample_request_ok(2) run(1), of "''a''"] run
  show ?thesis by (auto simp: sample_running_empty)
qed

section \<open>Replication\<close>

lemma find_updated:
  assumes "\<exists>r\<in>set rs. re_filename r = f"
  shows "\<exists>r. find (\<lambda>r. re_filename r = f) (update_first (\<lambda>r. re_filename r = f) (\<lambda>r. r\<lparr>re_replica_ss := q\<rparr>) rs) = Some r \<and>
    re_replica_ss r = q"
  using assms by (induction rs) auto

lemma find_replica_added:
  assumes "length f < MAX_FILENAME_LEN" and "length (ns_replication ns) < MAX_FILES"
  shows "find_replica_ss f (add_replication_entry f p q ns) = q"
proof (cases "\<exists>r\<in>set (ns_replication ns). re_filename r = f")
  case True
  then show ?thesis using find_updated [OF True, of q] assms by (auto simp: find_replica_ss_def add_replication_entry_def)
next
  case False
  then have "find (\<lambda>r. re_filename r = f) (ns_replication ns) = None" by (simp add: find_None_iff)
  then have "find (\<lambda>r. re_filename r = f) (ns_replication ns @ [e]) = Some e" if "re_filename e = f" for e
    using that by (simp add: find_append)
  with False assms show ?thesis by (simp add: find_replica_ss_def add_replication_entry_def cbuf_id)
qed

lemma replicate_all_alive:
  assumes inv: "ns_inv ns" and wf: "msg_wf msg" and two: "ss_count ns \<ge> 2"
    and alive: "\<forall>i. 0 \<le> i \<and> i < ss_count ns \<longrightarrow> ss_alive ns i"
    and reach: "\<forall>w ip port. fst (ne_contact env w ip port (replicate_msg env msg)) \<notin> {NoSocket, NoConnection}"
    and table: "length (ns_replication ns) < MAX_FILES" and q: "q = (ns_last_used ns + 1) mod ss_count ns" "q \<noteq> p"
    and room: "ne_mem_hash env (m_filename msg)" "length (es_files (server ns q)) < MAX_FILES"
  obtains ns' where "replicate_file env p msg ns = Some ns'" "ns_inv ns'" "locations ns' (m_filename msg) = Some q"
    "cached ns' (m_filename msg) = None" "find_replica_ss (m_filename msg) ns' = q"
proof -
  let ?f = "m_filename msg"
  have n0: "0 < ss_count ns" using two by simp
  then have qi: "index_ok ns q" using q(1) by (simp add: index_ok_def)
  let ?ns1 = "ns\<lparr>ns_last_used := q\<rparr>"
  have av: "find_available_ss ns = (q, ?ns1)" using available_all_alive [OF n0 alive] q(1) by simp
  let ?ns2 = "add_replication_entry ?f p q ?ns1"
  obtain r w where con: "contact_nm env q (replicate_msg env msg) ?ns2 = (r, ?ns2\<lparr>ns_world := w\<rparr>)" "r \<noteq> NoSocket" "r \<noteq> NoConnection"
    using reach by (fastforce simp: contact_nm_def case_prod_beta Let_def)
  let ?ns3 = "?ns2\<lparr>ns_world := w\<rparr>"
  have inv3: "ns_inv ?ns3" using add_replication_inv [of ?ns1 q ?f p] ns_inv_last_used [OF inv qi] qi by simp
  let ?ns4 = "upd_server q (\<lambda>s. s\<lparr>es_files := es_files s @ [cbuf MAX_FILENAME_LEN ?f]\<rparr>) ?ns3"
  obtain m c where add: "add_file_to_ss env q ?f ?ns3 = Some (?ns4\<lparr>ns_lru := c, ns_file_map := m\<rparr>)"
    "ns_inv (?ns4\<lparr>ns_lru := c, ns_file_map := m\<rparr>)"
    "map_view m = (if locations ?ns3 ?f \<noteq> None \<or> ne_mem_hash env ?f then (locations ?ns3)(?f \<mapsto> q) else locations ?ns3)"
    "cache_map c = (cached ?ns3)(?f := None)"
    by (rule add_file_to_ss_room [OF inv3 msg_wfD(1) [OF wf] _ _ refl, of q env]) (use qi room(2) in simp_all)
  have "find_replica_ss ?f (?ns4\<lparr>ns_lru := c, ns_file_map := m\<rparr>) = find_replica_ss ?f ?ns2"
    by (simp add: find_replica_ss_def)
  also have "\<dots> = q" using find_replica_added [OF msg_wfD(1) [OF wf], of ?ns1] table by simp
  finally have rep: "find_replica_ss ?f (?ns4\<lparr>ns_lru := c, ns_file_map := m\<rparr>) = q" .
  have q0: "0 \<le> q" "q \<noteq> p" "1 < ss_count ns" using qi q(2) two by (simp_all add: index_ok_def)
  show ?thesis
  proof (rule that [of "?ns4\<lparr>ns_lru := c, ns_file_map := m\<rparr>"])
    show "replicate_file env p msg ns = Some (?ns4\<lparr>ns_lru := c, ns_file_map := m\<rparr>)"
      using q0 av con add(1) by (simp add: replicate_file_def)
  qed (use add(2-4) room(1) rep in simp_all)
qed

lemma available_frame:
  "find_available_ss (ns\<lparr>ns_lru := c\<rparr>) = map_prod id (\<lambda>n. n\<lparr>ns_lru := c\<rparr>) (find_available_ss ns)"
  by (auto simp: find_available_ss_def ss_count_def Let_def ss_alive_frame(1) [abs_def] split: option.split)

text \<open>A successful CREATE up to the replication of the new file.\<close>

lemma create_registers:
  assumes inv: "ns_inv ns" and wf: "msg_wf msg" and fresh: "fresh_create ns msg"
    and av: "find_available_ss ns = (i, ns\<lparr>ns_last_used := i\<rparr>)" and alive: "ss_alive ns i"
    and con: "ne_contact env (ns_world ns) (es_ip (server ns i)) (es_nm_port (server ns i)) msg = (Replied r, w)"
    and made: "m_error_code r = ERR_CREATED" and room: "room_everywhere env ns (m_filename msg)"
  obtains ns' where "dispatch env ns msg = map_option (\<lambda>n. ([r], n)) (replicate_file env i msg ns')" "ns_inv ns'"
    "ns_servers ns' = (ns_servers ns)[nat i := (server ns i)\<lparr>es_files := es_files (server ns i) @ [cbuf MAX_FILENAME_LEN (m_filename msg)]\<rparr>]"
    "ns_last_used ns' = i" "ns_replication ns' = ns_replication ns" "ns_world ns' = w"
    "locations ns' = (locations ns)(m_filename msg \<mapsto> i)" "cached ns' (m_filename msg) = None"
    "acl_rights (ns_acl ns') = (acl_rights (ns_acl ns))(m_filename msg \<mapsto> (m_sender_id msg, [], []))"
proof -
  let ?f = "m_filename msg"
  have unknown: "lookup_result ns ?f = - 1" using fresh by (intro lookup_unknown inv) (simp add: fresh_create_def)
  obtain c where find: "find_ss_for_file env ?f ns = Some (- 1, ns\<lparr>ns_lru := c\<rparr>)" and invc: "ns_inv (ns\<lparr>ns_lru := c\<rparr>)"
    using find_ss_run [OF inv msg_wfD(1) [OF wf], of env] by (metis unknown)
  let ?ns2 = "ns\<lparr>ns_lru := c, ns_last_used := i\<rparr>" and ?ns3 = "ns\<lparr>ns_lru := c, ns_last_used := i, ns_world := w\<rparr>"
  have av2: "find_available_ss (ns\<lparr>ns_lru := c\<rparr>) = (i, ?ns2)" by (simp add: available_frame av)
  have con3: "contact_nm env i msg ?ns2 = (Replied r, ?ns3)" using con by (simp add: contact_nm_def)
  have i: "0 \<le> i" "index_ok ns i" using alive by (simp_all add: ss_alive_def ss_alive_index)
  have inv3: "ns_inv ?ns3" using ns_inv_last_used [OF invc, of i] i(2) by simp
  let ?ns4 = "upd_server i (\<lambda>s. s\<lparr>es_files := es_files s @ [cbuf MAX_FILENAME_LEN ?f]\<rparr>) ?ns3"
  obtain m4 c4 where add: "add_file_to_ss env i ?f ?ns3 = Some (?ns4\<lparr>ns_lru := c4, ns_file_map := m4\<rparr>)"
    "ns_inv (?ns4\<lparr>ns_lru := c4, ns_file_map := m4\<rparr>)"
    "map_view m4 = (if locations ?ns3 ?f \<noteq> None \<or> ne_mem_hash env ?f then (locations ?ns3)(?f \<mapsto> i) else locations ?ns3)"
    "cache_map c4 = (cached ?ns3)(?f := None)"
    by (rule add_file_to_ss_room [OF inv3 msg_wfD(1) [OF wf] _ _ refl, of i env])
      (use i alive room in \<open>auto simp: room_everywhere_def\<close>)
  let ?ns5 = "?ns4\<lparr>ns_lru := c4, ns_file_map := m4\<rparr>"
  obtain code t where t: "acl_add_file (ne_mem_acl env) (ne_now env) (ns_acl ns) ?f (m_sender_id msg) = (code, t)"
    by (cases "acl_add_file (ne_mem_acl env) (ne_now env) (ns_acl ns) ?f (m_sender_id msg)")
  have "acl_inv t"
    using acl_add_file_inv [OF ns_invD(3) [OF inv] msg_wfD(1) [OF wf], of "ne_mem_acl env" "ne_now env" "m_sender_id msg"] t
    by simp
  have rights: "acl_rights t = (acl_rights (ns_acl ns))(?f \<mapsto> (m_sender_id msg, [], []))"
    using rights_add_file [OF msg_wfD(1,2) [OF wf], of "ne_mem_acl env" "ne_now env" "ns_acl ns"] t fresh room
    by (simp add: fresh_create_def room_everywhere_def)
  define ns6 where "ns6 = (if code = 0 then persist_acl (?ns5\<lparr>ns_acl := t\<rparr>) else ?ns5\<lparr>ns_acl := t\<rparr>)"
  have "dispatch env ns msg = map_option (\<lambda>n. ([r], n)) (replicate_file env i msg ns6)"
    using fresh find av2 i(1) con3 made add(1) t
    by (cases "replicate_file env i msg ns6")
      (simp_all add: dispatch_def handle_create_request_def fresh_create_def ns_file_exists_def register_created_def Let_def ns6_def)
  moreover have "ns_inv ns6" using ns_inv_acl [OF add(2) \<open>acl_inv t\<close>] by (simp add: ns6_def)
  moreover have "ns_servers ns6 = (ns_servers ns)[nat i := (server ns i)\<lparr>es_files := es_files (server ns i) @ [cbuf MAX_FILENAME_LEN ?f]\<rparr>]"
      "ns_last_used ns6 = i" "ns_replication ns6 = ns_replication ns" "ns_world ns6 = w" "ns_acl ns6 = t"
    by (simp_all add: ns6_def persist_acl_def upd_server_def)
  moreover have "ns_file_map ns6 = m4" "ns_lru ns6 = c4" by (simp_all add: ns6_def persist_acl_def)
  ultimately show ?thesis using that [of ns6] add(3,4) room rights by (simp add: room_everywhere_def)
qed

lemma create_replicated:
  assumes inv: "ns_inv ns" and wf: "msg_wf msg" and fresh: "fresh_create ns msg"
    and two: "ss_count ns \<ge> 2" and alive: "\<forall>i. 0 \<le> i \<and> i < ss_count ns \<longrightarrow> ss_alive ns i"
    and reply: "servers_create env ns msg" and room: "room_everywhere env ns (m_filename msg)"
    and reach: "\<forall>w ip port. fst (ne_contact env w ip port (replicate_msg env msg)) \<notin> {NoSocket, NoConnection}"
    and table: "length (ns_replication ns) < MAX_FILES" and q: "q = (ns_last_used ns + 2) mod ss_count ns"
  obtains r ns' where "dispatch env ns msg = Some ([r], ns')" "ns_inv ns'" "m_error_code r = ERR_CREATED"
    "locations ns' (m_filename msg) = Some q" "cached ns' (m_filename msg) = None" "find_replica_ss (m_filename msg) ns' = q"
proof -
  let ?n = "ss_count ns" and ?p = "(ns_last_used ns + 1) mod ss_count ns"
  have n0: "0 < ?n" using two by simp
  have p: "0 \<le> ?p" "?p < ?n" "ss_alive ns ?p" using n0 alive by simp_all
  have qq: "q = (?p + 1) mod ?n" "0 \<le> q" "q < ?n" using q n0 by (simp_all add: mod_simps add_ac)
  have pq: "q \<noteq> ?p"
  proof
    assume "q = ?p"
    then have "(?p + 1) mod ?n = ?p mod ?n" using qq(1) by simp
    then have "?n dvd 1" by (metis add_diff_cancel_left' mod_eq_dvd_iff)
    with two show False by simp
  qed
  obtain r w where con: "ne_contact env (ns_world ns) (es_ip (server ns ?p)) (es_nm_port (server ns ?p)) msg = (Replied r, w)"
    and made: "m_error_code r = ERR_CREATED" using reply p(3) by (auto simp: servers_create_def)
  obtain ns6 where run: "dispatch env ns msg = map_option (\<lambda>n. ([r], n)) (replicate_file env ?p msg ns6)" "ns_inv ns6"
    and servers: "ns_servers ns6 = (ns_servers ns)[nat ?p := (server ns ?p)\<lparr>es_files := es_files (server ns ?p) @ [cbuf MAX_FILENAME_LEN (m_filename msg)]\<rparr>]"
    and same: "ns_last_used ns6 = ?p" "ns_replication ns6 = ns_replication ns"
    by (rule create_registers [OF inv wf fresh available_all_alive [OF n0 alive] p(3) con made room])
  have n6: "ss_count ns6 = ?n" by (simp add: ss_count_def servers)
  have alive6: "\<forall>i. 0 \<le> i \<and> i < ss_count ns6 \<longrightarrow> ss_alive ns6 i"
  proof (intro allI impI)
    fix i assume i: "0 \<le> i \<and> i < ss_count ns6"
    then have "ss_alive ns i" using alive n6 by simp
    then show "ss_alive ns6 i" using i p by (cases "nat i = nat ?p") (simp_all add: ss_alive_def servers ss_count_def)
  qed
  have "nat ?p \<noteq> nat q" using pq qq(2) p(1) by linarith
  then have "server ns6 q = server ns q" by (simp only: servers) simp
  then have "length (es_files (server ns6 q)) < MAX_FILES" using room alive qq by (simp add: room_everywhere_def)
  moreover have "ne_mem_hash env (m_filename msg)" using room by (simp add: room_everywhere_def)
  ultimately obtain ns' where rep: "replicate_file env ?p msg ns6 = Some ns'" "ns_inv ns'" "locations ns' (m_filename msg) = Some q"
    "cached ns' (m_filename msg) = None" "find_replica_ss (m_filename msg) ns' = q"
    using replicate_all_alive [OF run(2) wf _ alive6 reach, of q ?p] two table qq(1) pq by (auto simp: same n6)
  with that run(1) made show ?thesis by simp
qed

text \<open>
  C35. A replica replaces the primary: with two or more servers, all alive, a successful CREATE
  records the file at the replica only, as its location and as its replica, although the
  primary made it; once the replica misses its heartbeats the file is NOT FOUND for every
  client, while the primary that holds it may well be alive.
\<close>

theorem replica_overwrites_primary:
  assumes "ns_reachable ns" and "msg_wf msg" and "fresh_create ns msg" and "ss_count ns \<ge> 2"
    and "\<forall>i. 0 \<le> i \<and> i < ss_count ns \<longrightarrow> ss_alive ns i" and "servers_create env ns msg"
    and "room_everywhere env ns (m_filename msg)"
    and "\<forall>w ip port. fst (ne_contact env w ip port (replicate_msg env msg)) \<notin> {NoSocket, NoConnection}"
    and "length (ns_replication ns) < MAX_FILES" and "q = (ns_last_used ns + 2) mod ss_count ns"
  shows "\<exists>r ns'. dispatch env ns msg = Some ([r], ns') \<and> m_error_code r = ERR_CREATED \<and>
    locations ns' (m_filename msg) = Some q \<and> find_replica_ss (m_filename msg) ns' = q \<and>
    (\<forall>now rd. now - es_last_heartbeat (server ns' q) > HEARTBEAT_TIMEOUT \<and> msg_wf rd \<and>
      m_operation rd \<in> {OP_READ, OP_WRITE, OP_UNDO, OP_STREAM} \<and> m_filename rd = m_filename msg \<longrightarrow>
      (\<exists>m c. dispatch env (failure_detection_round now ns') rd = Some ([m], (failure_detection_round now ns')\<lparr>ns_lru := c\<rparr>) \<and>
        m_error_code m = ERR_NOT_FOUND))"
proof -
  obtain r ns' where run: "dispatch env ns msg = Some ([r], ns')" "ns_inv ns'" "m_error_code r = ERR_CREATED"
    and loc: "locations ns' (m_filename msg) = Some q" "cached ns' (m_filename msg) = None"
      "find_replica_ss (m_filename msg) ns' = q"
    by (rule create_replicated [OF reachable_inv [OF assms(1)] assms(2-10)])
  have lost: "\<exists>m c. dispatch env (failure_detection_round now ns') rd =
      Some ([m], (failure_detection_round now ns')\<lparr>ns_lru := c\<rparr>) \<and> m_error_code m = ERR_NOT_FOUND"
    if late: "now - es_last_heartbeat (server ns' q) > HEARTBEAT_TIMEOUT" and rd: "msg_wf rd"
      "m_operation rd \<in> {OP_READ, OP_WRITE, OP_UNDO, OP_STREAM}" "m_filename rd = m_filename msg" for now rd
  proof -
    let ?d = "failure_detection_round now ns'"
    have "\<not> ss_alive ?d q" using late by (simp add: ss_alive_def ss_count_def failure_detection_round_def)
    then have "backing ?d (m_filename rd) = - 1"
      using loc rd(3) by (simp add: backing_def failure_detection_round_def find_replica_ss_def)
    then have "lookup_result ?d (m_filename rd) < 0"
      using loc(2) rd(3) by (simp add: lookup_result_def failure_detection_round_def)
    then show ?thesis using route_run [OF failure_detection_inv [OF run(2)] rd(1,2), of env now] by metis
  qed
  show ?thesis
    by (rule exI [of _ r], rule exI [of _ ns'], intro conjI run loc allI impI) (elim conjE, rule lost)
qed

theorem replica_overwrites_primary_witness:
  "\<exists>r ns'. dispatch creating_env sample_running (sample_request OP_CREATE ''ann'') = Some ([r], ns') \<and>
     m_error_code r = ERR_CREATED \<and> locations ns' ''a'' = Some 1 \<and> find_replica_ss ''a'' ns' = 1"
proof -
  let ?m = "sample_request OP_CREATE ''ann''"
  have wf: "msg_wf ?m" by (rule sample_request_ok) simp
  have reach: "\<forall>w ip port. fst (ne_contact creating_env w ip port (replicate_msg creating_env ?m)) \<notin> {NoSocket, NoConnection}"
    by (simp add: creating_env_def)
  have name: "m_filename ?m = ''a''" by (simp add: sample_request_def)
  from replica_overwrites_primary [OF sample_running_reachable wf sample_fresh _ _ sample_servers_create
      sample_room reach, of 1]
  show ?thesis using sample_running_facts unfolding name by auto
qed

section \<open>Failure and recovery of storage servers\<close>

lemma detection_alive:
  "ss_alive (failure_detection_round now ns) i \<longleftrightarrow>
     ss_alive ns i \<and> now - es_last_heartbeat (server ns i) \<le> HEARTBEAT_TIMEOUT"
  by (auto simp: ss_alive_def ss_count_def failure_detection_round_def split: if_splits)

lemma detection_server:
  "ss_alive ns i \<Longrightarrow> now - es_last_heartbeat (server ns i) \<le> HEARTBEAT_TIMEOUT \<Longrightarrow>
     server (failure_detection_round now ns) i = server ns i"
  by (auto simp: ss_alive_def ss_count_def failure_detection_round_def)

lemma detection_frame [simp]:
  "locations (failure_detection_round now ns) = locations ns" "cached (failure_detection_round now ns) = cached ns"
  "find_replica_ss f (failure_detection_round now ns) = find_replica_ss f ns"
  "ns_acl (failure_detection_round now ns) = ns_acl ns"
  by (simp_all add: failure_detection_round_def find_replica_ss_def)

text \<open>
  C22. Failover: after a round of failure detection a permitted READ, STREAM, WRITE or UNDO is
  only ever routed to a server that sent a heartbeat within the timeout; and a file whose
  primary is late is still found, at its replica, when the replica is not late.
\<close>

theorem failover_to_replica:
  assumes "ns_reachable ns" and "msg_wf msg" and "m_operation msg \<in> {OP_READ, OP_WRITE, OP_UNDO, OP_STREAM}"
    and "d = failure_detection_round now ns"
  shows "\<exists>m c. dispatch env d msg = Some ([m], d\<lparr>ns_lru := c\<rparr>) \<and>
    (m_operation m = OP_ROUTE_INFO \<longrightarrow>
      (\<exists>i. ss_alive ns i \<and> now - es_last_heartbeat (server ns i) \<le> HEARTBEAT_TIMEOUT \<and>
        m_ss_ip m = cbuf MAX_IP_LEN (es_ip (server ns i)) \<and> m_ss_port m = es_client_port (server ns i))) \<and>
    (permitted ns msg \<and> locations ns (m_filename msg) \<noteq> None \<and> ss_alive ns (find_replica_ss (m_filename msg) ns) \<and>
       now - es_last_heartbeat (server ns (find_replica_ss (m_filename msg) ns)) \<le> HEARTBEAT_TIMEOUT \<longrightarrow>
     m_operation m = OP_ROUTE_INFO)"
proof -
  let ?i = "lookup_result d (m_filename msg)"
  have inv: "ns_inv d" unfolding assms(4) by (intro failure_detection_inv reachable_inv assms(1))
  have neg: "?i < 0 \<longleftrightarrow> ?i = - 1" using lookup_nonneg [OF inv, of "m_filename msg"] by linarith
  have perm: "permitted d msg = permitted ns msg" by (simp add: permitted_def assms(4))
  have live: "ss_alive ns ?i" "now - es_last_heartbeat (server ns ?i) \<le> HEARTBEAT_TIMEOUT" "server d ?i = server ns ?i"
    if "\<not> ?i < 0"
  proof -
    have "ss_alive d ?i" using that neg lookup_cases [OF inv, of "m_filename msg"] by blast
    then show "ss_alive ns ?i" "now - es_last_heartbeat (server ns ?i) \<le> HEARTBEAT_TIMEOUT"
      using detection_alive [of now ns ?i] by (simp_all add: assms(4))
    then show "server d ?i = server ns ?i" unfolding assms(4) by (rule detection_server)
  qed
  have found: "\<not> ?i < 0" if "locations ns (m_filename msg) \<noteq> None" "ss_alive ns (find_replica_ss (m_filename msg) ns)"
    "now - es_last_heartbeat (server ns (find_replica_ss (m_filename msg) ns)) \<le> HEARTBEAT_TIMEOUT"
  proof -
    have "ss_alive d (find_replica_ss (m_filename msg) ns)" using that by (simp add: assms(4) detection_alive)
    then have "ss_alive d ?i" using that(1)
      by (auto simp: lookup_result_def backing_def assms(4) split: option.split)
    then show ?thesis by (simp add: ss_alive_def)
  qed
  obtain m c where run: "dispatch env d msg = Some ([m], d\<lparr>ns_lru := c\<rparr>)"
    and missing: "?i < 0 \<Longrightarrow> m_operation m = OP_ACK \<and> m_error_code m = ERR_NOT_FOUND"
    and denied: "\<not> ?i < 0 \<Longrightarrow> \<not> permitted d msg \<Longrightarrow> m_operation m = OP_ACK \<and> m_error_code m = ERR_ACCESS_DENIED"
    and routed: "\<not> ?i < 0 \<Longrightarrow> permitted d msg \<Longrightarrow>
       m_operation m = OP_ROUTE_INFO \<and> m_error_code m = ERR_SUCCESS \<and>
       m_ss_ip m = cbuf MAX_IP_LEN (es_ip (server d ?i)) \<and> m_ss_port m = es_client_port (server d ?i)"
    by (rule route_run [OF inv assms(2,3), of env]) blast
  consider "?i < 0" | "\<not> ?i < 0" "\<not> permitted d msg" | "\<not> ?i < 0" "permitted d msg" by blast
  then show ?thesis
  proof cases
    case 1
    then show ?thesis using run missing found by (intro exI [of _ m] exI [of _ c]) auto
  next
    case 2
    then show ?thesis using run denied perm by (intro exI [of _ m] exI [of _ c]) auto
  next
    case 3
    then show ?thesis using run routed live by (intro exI [of _ m] exI [of _ c]) auto
  qed
qed

theorem failover_to_replica_witness:
  "\<exists>ns m c. dispatch creating_env (failure_detection_round 15 ns) (sample_request OP_READ ''ann'') =
      Some ([m], (failure_detection_round 15 ns)\<lparr>ns_lru := c\<rparr>) \<and> locations ns ''a'' \<noteq> None \<and>
     (m_operation m = OP_ROUTE_INFO \<longrightarrow> (\<exists>i. ss_alive ns i \<and> m_ss_port m = es_client_port (server ns i)))"
proof -
  obtain r ns j where run: "dispatch creating_env sample_running (sample_request OP_CREATE ''ann'') = Some ([r], ns)"
    "ns_reachable ns" "locations ns ''a'' = Some j" by (rule sample_created)
  have "msg_wf (sample_request OP_READ ''ann'')"
    "m_operation (sample_request OP_READ ''ann'') \<in> {OP_READ, OP_WRITE, OP_UNDO, OP_STREAM}"
    by (simp_all add: sample_request_ok) (simp add: sample_request_def)
  from failover_to_replica [OF run(2) this refl, of creating_env 15] run(3) show ?thesis by (elim exE conjE) blast
qed

text \<open>
  Registration brings files back: a storage server that registers (again) is listed as
  alive with its ports, every file it names is looked up at it from then on, whatever the cache
  said before, and the other files stay where they were; only a server that is new while the
  table is full is refused, without any change.
\<close>

theorem registration_takes_files:
  assumes "ns_reachable ns" and "msg_wf msg" and "files_ok msg" and "m_operation msg = OP_REGISTER_SS"
    and "\<forall>f. ne_mem_hash env f"
  shows "\<exists>m ns'. dispatch env ns msg = Some ([m], ns') \<and>
    (if no_slot ns msg then m_error_code m = ERR_SERVER_ERROR \<and> ns' = ns
     else m_error_code m = ERR_SUCCESS \<and>
       (\<exists>i. ss_alive ns' i \<and> es_ip (server ns' i) = m_ip_address msg \<and> es_client_port (server ns' i) = m_client_port msg \<and>
         (\<forall>f\<in>set (listed_files msg). locations ns' f = Some i \<and> lookup_result ns' f = i) \<and>
         (\<forall>f. f \<notin> set (listed_files msg) \<longrightarrow> locations ns' f = locations ns f)))"
proof -
  obtain code s ns' where run: "handle_ss_registration env ns msg = answer env code s ns'"
    and post: "if no_slot ns msg then code = ERR_SERVER_ERROR \<and> ns' = ns
      else code = ERR_SUCCESS \<and> (\<exists>i. registered env ns msg i ns')"
    by (rule registration_run [OF reachable_inv [OF assms(1)] assms(2,3), of env])
  have out: "dispatch env ns msg = Some ([ns_reply env code s], ns')"
    using assms(4) run by (simp add: dispatch_def answer_def)
  have code: "m_error_code (ns_reply env code s) = code" by (simp add: ns_reply_def)
  have reg: "ss_alive ns' i \<and> es_ip (server ns' i) = m_ip_address msg \<and> es_client_port (server ns' i) = m_client_port msg \<and>
      (\<forall>f\<in>set (listed_files msg). locations ns' f = Some i \<and> lookup_result ns' f = i) \<and>
      (\<forall>f. f \<notin> set (listed_files msg) \<longrightarrow> locations ns' f = locations ns f)" if "registered env ns msg i ns'" for i
    using that assms(5) by (auto simp: registered_def lookup_result_def backing_def)
  from post code reg out show ?thesis
    by (intro exI [of _ "ns_reply env code s"] exI [of _ ns']) (auto split: if_splits)
qed

theorem registration_takes_files_witness:
  "\<exists>m ns' i. dispatch sample_env sample_running ((sample_registration 9000)\<lparr>m_content := ''a|b''\<rparr>) = Some ([m], ns') \<and>
     locations ns' ''a'' = Some i \<and> lookup_result ns' ''a'' = i \<and> locations ns' ''b'' = Some i"
proof -
  let ?m = "(sample_registration 9000)\<lparr>m_content := ''a|b''\<rparr>"
  have files: "listed_files ?m = [''a'', ''b'']" by (simp add: listed_files_def runs.simps cbuf_def)
  have ok: "msg_wf ?m" "files_ok ?m" "m_operation ?m = OP_REGISTER_SS" "\<forall>f. ne_mem_hash (sample_env :: unit NsEnv) f"
    using sample_registration_ok(1) [of 9000] by (simp add: msg_wf_def)
      (simp_all add: files_ok_def files, simp_all add: sample_registration_def sample_env_def)
  have "\<not> no_slot sample_running ?m" by (simp add: no_slot_def) (simp add: sample_running_def)
  with registration_takes_files [OF sample_running_reachable ok] show ?thesis by (auto simp: files)
qed

section \<open>Deleting a file\<close>

definition forgotten :: "'w NS \<Rightarrow> cstring \<Rightarrow> 'w NS \<Rightarrow> bool" where
  "forgotten ns f ns' \<longleftrightarrow>
     locations ns' = (locations ns)(f := None) \<and> cached ns' f = None \<and>
     acl_rights (ns_acl ns') = (acl_rights (ns_acl ns))(f := None)"

definition deleted :: "'w NS \<Rightarrow> Message \<Rightarrow> Message list \<Rightarrow> 'w NS \<Rightarrow> bool" where
  "deleted ns msg out ns' \<longleftrightarrow>
     (\<exists>m. out = [m] \<and> (if m_error_code m = ERR_SUCCESS
        then acl_check_write (ns_acl ns) (m_filename msg) (m_sender_id msg) \<and> forgotten ns (m_filename msg) ns'
        else locations ns' = locations ns \<and> ns_acl ns' = ns_acl ns))"

lemma deleted_refused:
  "code \<noteq> ERR_SUCCESS \<Longrightarrow> locations ns' = locations ns \<Longrightarrow> ns_acl ns' = ns_acl ns \<Longrightarrow> deleted ns msg [ns_reply env code s] ns'"
  by (simp add: deleted_def ns_reply_def)

lemma delete_run:
  assumes inv: "ns_inv ns" and env: "env_ok env" and wf: "msg_wf msg"
  shows "returns (deleted ns msg) (handle_delete_request env ns msg)"
proof -
  let ?f = "m_filename msg"
  have del: "returns (deleted ns msg) (if m_error_code m = ERR_SUCCESS
      then Option.bind (hashmap_remove ?f ns1)
        (\<lambda>ns. let (removed, acl) = acl_remove_file (ns_acl ns) ?f;
                  ns = ns\<lparr>ns_acl := acl\<rparr>;
                  ns = if removed = 0 then persist_acl ns else ns
              in Some ([m], upd_server i (\<lambda>s. s\<lparr>es_files := remove1 ?f (es_files s)\<rparr>) ns))
      else Some ([m], ns1))"
    if "ns_inv ns1" "locations ns1 = locations ns" "ns_acl ns1 = ns_acl ns"
      "acl_check_write (ns_acl ns) ?f (m_sender_id msg)" for ns1 i m
  proof -
    note inv1 = that(1)
    obtain fm c where rem: "hashmap_remove ?f ns1 = Some (ns1\<lparr>ns_lru := c, ns_file_map := fm\<rparr>)"
      "map_view fm = (locations ns1)(?f := None)" "cache_map c = (cached ns1)(?f := None)"
      by (rule hashmap_remove_inv [OF inv1])
    have rights: "acl_rights (snd (acl_remove_file (ns_acl ns) ?f)) = (acl_rights (ns_acl ns))(?f := None)"
      by (rule rights_remove_file(1) [OF ns_invD(3) [OF inv]])
    show ?thesis using rem that rights
      by (simp add: returns_def deleted_def forgotten_def case_prod_beta Let_def) (simp add: persist_acl_def)
  qed
  show ?thesis unfolding handle_delete_request_def
    by (intro returns_answer returns_find_ss returns_contact returns_if [where P = "deleted ns msg" and x = "answer _ _ _ _"]
        inv env wf msg_wfD [OF wf] deleted_refused del; simp)
qed

text \<open>
  C24. DELETE forgets the file: when it succeeds the sender had the right to write, and the file
  has no location, no cache entry and no rights any more, so the next lookup fails and a CREATE
  of the name can succeed, while every other file keeps its location and rights; when it fails
  nothing of this changes.
\<close>

theorem delete_forgets_file:
  assumes "ns_reachable ns" and "env_ok env" and "msg_wf msg" and "m_operation msg = OP_DELETE"
  shows "\<exists>m ns'. dispatch env ns msg = Some ([m], ns') \<and>
    (if m_error_code m = ERR_SUCCESS
     then acl_check_write (ns_acl ns) (m_filename msg) (m_sender_id msg) \<and> lookup_result ns' (m_filename msg) = - 1 \<and>
       locations ns' = (locations ns)(m_filename msg := None) \<and>
       acl_rights (ns_acl ns') = (acl_rights (ns_acl ns))(m_filename msg := None)
     else locations ns' = locations ns \<and> ns_acl ns' = ns_acl ns)"
proof -
  have "dispatch env ns msg = handle_delete_request env ns msg" using assms(4) by (simp add: dispatch_def)
  then have "returns (deleted ns msg) (dispatch env ns msg)"
    using delete_run [OF reachable_inv [OF assms(1)] assms(2,3)] by simp
  moreover have "lookup_result ns' (m_filename msg) = - 1" if "forgotten ns (m_filename msg) ns'" for ns'
    using that by (simp add: forgotten_def lookup_result_def backing_def)
  ultimately show ?thesis
    by (fastforce simp: returns_def deleted_def forgotten_def split: option.splits if_splits)
qed

theorem delete_forgets_file_witness:
  "\<exists>m ns'. dispatch creating_env sample_running (sample_request OP_DELETE ''eve'') = Some ([m], ns') \<and>
     m_error_code m \<noteq> ERR_SUCCESS \<and> ns_acl ns' = ns_acl sample_running"
proof -
  have wf: "msg_wf (sample_request OP_DELETE ''eve'')" by (rule sample_request_ok) simp
  have op: "m_operation (sample_request OP_DELETE ''eve'') = OP_DELETE" by (simp add: sample_request_def)
  have "\<not> acl_check_write (ns_acl sample_running) f u" for f u
    by (simp add: acl_check_rights sample_running_empty can_write_def)
  with delete_forgets_file [OF sample_running_reachable creating_env_ok wf op] show ?thesis by (auto split: if_splits)
qed

section \<open>Approving an access request\<close>

lemma approve_run:
  assumes inv: "ns_inv ns" and op: "m_operation msg = OP_APPROVEREQUEST"
    and asked: "fst (request_book_of (ns_requests ns)) (m_filename msg, m_content msg) = Some (m_sender_id msg)"
    and rights: "acl_rights (ns_acl ns) (m_filename msg) = Some (m_sender_id msg, rs, ws)" and room: "length rs < ACL_MAX_USERS"
  obtains m where "dispatch env ns msg = Some ([m], ns
      \<lparr>ns_requests := snd (request_approve (ns_requests ns) (m_filename msg) (m_content msg) (m_sender_id msg)),
       ns_acl := snd (acl_add_access (ns_acl ns) (m_filename msg) (m_content msg) ACCESS_READ)\<rparr>)"
    "m_error_code m = ERR_SUCCESS"
proof -
  let ?f = "m_filename msg" and ?u = "m_content msg" and ?o = "m_sender_id msg"
  have yes: "fst (request_approve (ns_requests ns) ?f ?u ?o) = ERR_SUCCESS"
    using asked by (simp add: request_decide(2) [OF ns_invD(4) [OF inv]] decide_spec_def)
  obtain e where e: "acl_find_entry (ns_acl ns) ?f = Some e" "ae_owner e = ?o" "ae_read_users e = rs"
    using rights by (auto simp: acl_rights_def)
  have own: "acl_is_owner (ns_acl ns) ?f ?o" using e by (simp add: acl_is_owner_def acl_check_owner_def)
  have added: "fst (acl_add_access (ns_acl ns) ?f ?u ACCESS_READ) = 0"
    using e room by (simp add: acl_add_access_def add_to_list_def case_prod_beta)
  show ?thesis
    by (rule that [of "ns_reply env ERR_SUCCESS (''Access granted to '' @ ?u)"])
      (use op yes own added in \<open>simp_all add: dispatch_def handle_approverequest_request_def Let_def case_prod_beta
        answer_def acl_add_user_def, simp add: ns_reply_def\<close>)
qed

text \<open>
  An approval grants the access but is not saved: approving a pending request of a user
  answers success, lets that user read the file and takes the request out of the book; but,
  unlike ADDACCESS, it does not write the access table to disk, so a restart of the name
  server loses the grant.
\<close>

theorem approval_not_saved:
  assumes "ns_reachable ns" and "m_operation msg = OP_APPROVEREQUEST"
    and "fst (request_book_of (ns_requests ns)) (m_filename msg, m_content msg) = Some (m_sender_id msg)"
    and "acl_rights (ns_acl ns) (m_filename msg) = Some (m_sender_id msg, rs, ws)" and "length rs < ACL_MAX_USERS"
  shows "\<exists>m ns'. dispatch env ns msg = Some ([m], ns') \<and> m_error_code m = ERR_SUCCESS \<and>
    acl_check_read (ns_acl ns') (m_filename msg) (m_content msg) \<and>
    fst (request_book_of (ns_requests ns')) (m_filename msg, m_content msg) = None \<and>
    ns_fs ns' = ns_fs ns \<and> ns_acl (init_registries mem now (ns_fs ns') w) = ns_acl (init_registries mem now (ns_fs ns) w)"
proof -
  let ?f = "m_filename msg" and ?u = "m_content msg" and ?o = "m_sender_id msg"
  note inv = reachable_inv [OF assms(1)]
  let ?q = "snd (request_approve (ns_requests ns) ?f ?u ?o)" and ?t = "snd (acl_add_access (ns_acl ns) ?f ?u ACCESS_READ)"
  obtain m where m: "dispatch env ns msg = Some ([m], ns\<lparr>ns_requests := ?q, ns_acl := ?t\<rparr>)" "m_error_code m = ERR_SUCCESS"
    by (rule approve_run [OF inv assms(2-5)])
  have "fst (request_approve (ns_requests ns) ?f ?u ?o) = ERR_SUCCESS"
    using assms(3) by (simp add: request_decide(2) [OF ns_invD(4) [OF inv]] decide_spec_def)
  then have len: "length ?u < MAX_USERNAME_LEN" by (rule approve_user_length [OF ns_invD(4) [OF inv]])
  have "acl_rights ?t ?f = Some (?o, limited_add ?u rs, ws)"
    using acl_step_rights [OF ns_invD(3) [OF inv], of "Grant ?f ?u ACCESS_READ"] len assms(4) by simp
  then have "acl_check_read ?t ?f ?u" using assms(5) by (auto simp: acl_check_rights can_read_def limited_add_def)
  moreover have "fst (request_book_of ?q) (?f, ?u) = None"
    using assms(3) by (simp add: request_decide(3) [OF ns_invD(4) [OF inv]] decide_spec_def)
  ultimately show ?thesis using m by simp
qed

theorem approval_not_saved_witness:
  "\<exists>ns m ns'. dispatch creating_env ns ((sample_request OP_APPROVEREQUEST ''ann'')\<lparr>m_content := ''bob''\<rparr>) = Some ([m], ns') \<and>
     acl_check_read (ns_acl ns') ''a'' ''bob'' \<and> \<not> acl_check_read (ns_acl ns) ''a'' ''bob'' \<and> ns_fs ns' = ns_fs ns"
proof -
  obtain r ns j where run: "dispatch creating_env sample_running (sample_request OP_CREATE ''ann'') = Some ([r], ns)"
    "ns_reachable ns" "locations ns ''a'' = Some j" "ss_alive ns j" "m_error_code r = ERR_CREATED"
    "ns_requests ns = request_table_init" "acl_rights (ns_acl ns) = (acl_rights (ns_acl sample_running))(''a'' \<mapsto> (''ann'', [], []))"
    by (rule sample_created)
  let ?ask = "sample_request OP_REQUESTACCESS ''bob''" and ?yes = "(sample_request OP_APPROVEREQUEST ''ann'')\<lparr>m_content := ''bob''\<rparr>"
  let ?q = "snd (request_add 0 request_table_init ''a'' ''bob'' ''ann'' ACCESS_READ)"
  obtain e where e: "acl_find_entry (ns_acl ns) ''a'' = Some e" "ae_owner e = ''ann''" "ae_read_users e = []" "ae_write_users e = []"
    using fun_cong [OF run(7), of "''a''"] by (auto simp: acl_rights_def)
  have "0 \<le> hashmap_find ''a'' ns" using run(3,4) by (simp add: hashmap_find_view ss_alive_def)
  moreover have "\<not> acl_can_access (ns_acl ns) ''a'' ''bob''" and no: "\<not> acl_check_read (ns_acl ns) ''a'' ''bob''"
    by (simp_all add: acl_can_access_def acl_check_read_def acl_check_write_def acl_check_owner_def e is_in_list_def)
  moreover have "acl_get_owner (ns_acl ns) ''a'' MAX_USERNAME_LEN = Some ''ann''" by (simp add: acl_get_owner_def e cbuf_def)
  ultimately obtain m where ask: "dispatch creating_env ns ?ask = Some ([m], ns\<lparr>ns_requests := ?q\<rparr>)"
    using run(6) by (simp add: dispatch_def handle_requestaccess_request_def sample_request_def answer_def request_add_def
        request_table_init_def creating_env_def sample_env_def)
  let ?ns = "ns\<lparr>ns_requests := ?q\<rparr>"
  have reach: "ns_reachable ?ns"
    by (rule ns_reachable.handle [OF run(2) creating_env_ok, of "Received ?ask" "[]" 0 "[m]"])
      (simp_all add: sample_request_ok handle_connection_def ask)
  have book: "fst (request_book_of (ns_requests ?ns)) (''a'', ''bob'') = Some ''ann''"
    by (simp add: request_book_of_def request_add_def request_table_init_def pending_def request_key_def cbuf_def)
  have rights: "acl_rights (ns_acl ?ns) ''a'' = Some (''ann'', [], [])" by (simp add: run(7))
  have "m_operation ?yes = OP_APPROVEREQUEST" "m_filename ?yes = ''a''" "m_content ?yes = ''bob''" "m_sender_id ?yes = ''ann''"
    by (simp_all add: sample_request_def)
  with approval_not_saved [OF reach, of ?yes "[]" "[]" creating_env "\<lambda>_. True" 0 "()"] book rights no show ?thesis
    by (intro exI [of _ ?ns]) auto
qed

section \<open>Searching\<close>

text \<open>The answer of one storage server to a search for \<open>w\<close>, as its handler writes it.\<close>

definition search_answer :: "cstring \<Rightarrow> cstring \<Rightarrow> cstring" where
  "search_answer w files = ''Files containing '' @ quoted w @ '':'' @ NL # files"

text \<open>
  Search results are listed twice: the answer of a single storage server is copied from its
  19th character on and then once more from its first line feed, so the client gets the search
  word again and every file name twice.
\<close>

theorem search_lists_results_twice:
  assumes "ns_servers ns = [s]" and "es_is_alive s" and "m_operation msg = OP_SEARCH"
    and "ne_contact env (ns_world ns) (es_ip s) (es_client_port s) (search_msg env msg) = (Replied r, w)"
    and "m_error_code r = ERR_SUCCESS" and "m_content r = search_answer (m_content msg) files"
    and "NL \<notin> set (m_content msg)" and "2 * length (m_content msg) + 2 * length files < 4000"
  shows "\<exists>m. dispatch env ns msg = Some ([m], ns\<lparr>ns_world := w\<rparr>) \<and> m_error_code m = ERR_SUCCESS \<and>
    m_content m = search_answer (m_content msg) (m_content msg @ [CHR 0x27] @ '':'' @ NL # files @ NL # files)"
proof -
  let ?w = "m_content msg"
  have drop: "drop 18 (m_content r) = ?w @ [CHR 0x27] @ '':'' @ NL # files"
    by (simp add: assms(6) search_answer_def quoted_def)
  have rest: "dropWhile (\<lambda>c. c \<noteq> NL) (m_content r) = NL # files"
  proof -
    have "dropWhile (\<lambda>c. c \<noteq> NL) (?w @ ys) = dropWhile (\<lambda>c. c \<noteq> NL) ys" for ys
      by (rule dropWhile_append2) (use assms(7) in auto)
    then show ?thesis by (simp add: assms(6) search_answer_def quoted_def)
  qed
  have app: "append_results [] (m_content r) = ?w @ [CHR 0x27] @ '':'' @ NL # files @ NL # files"
    by (simp add: append_results_def drop rest)
  have nl: "NL \<in> set (m_content r)" by (simp add: assms(6) search_answer_def)
  have con: "contact_client_port env 0 (search_msg env msg) ns = (Replied r, ns\<lparr>ns_world := w\<rparr>)"
    using assms(1,4) by (simp add: contact_client_port_def)
  have loop: "search_loop env msg [0..<length (ns_servers ns)] [] 0 0 ns =
      Some (?w @ [CHR 0x27] @ '':'' @ NL # files @ NL # files, 1, 1, ns\<lparr>ns_world := w\<rparr>)"
    using assms(1,2,5,8) con nl by (simp add: app)
  show ?thesis
    by (rule exI [of _ "ns_reply env ERR_SUCCESS (search_answer ?w (?w @ [CHR 0x27] @ '':'' @ NL # files @ NL # files))"])
      (use assms(3,8) loop in \<open>simp add: dispatch_def ns_handle_search_request_def answer_def search_answer_def,
        simp add: ns_reply_def put_content_def cbuf_id quoted_def\<close>)
qed

theorem search_lists_results_twice_witness:
  "\<exists>m ns'. dispatch (sample_env\<lparr>ne_contact := (\<lambda>w ip port q. (Replied ((INIT_MESSAGE 0)\<lparr>m_error_code := ERR_SUCCESS,
        m_content := search_answer ''x'' (''  - a'' @ [NL])\<rparr>), w))\<rparr>)
      ((fresh_start ())\<lparr>ns_servers := [sample_server 8081]\<rparr>) ((INIT_MESSAGE 0)\<lparr>m_operation := OP_SEARCH, m_content := ''x''\<rparr>) =
      Some ([m], ns') \<and>
     m_content m = search_answer ''x'' (''x'' @ [CHR 0x27] @ '':'' @ NL # (''  - a'' @ [NL]) @ NL # (''  - a'' @ [NL]))"
  using search_lists_results_twice [of "(fresh_start ())\<lparr>ns_servers := [sample_server 8081]\<rparr>" "sample_server 8081"
      "(INIT_MESSAGE 0)\<lparr>m_operation := OP_SEARCH, m_content := ''x''\<rparr>"
      "sample_env\<lparr>ne_contact := (\<lambda>w ip port q. (Replied ((INIT_MESSAGE 0)\<lparr>m_error_code := ERR_SUCCESS,
        m_content := search_answer ''x'' (''  - a'' @ [NL])\<rparr>), w))\<rparr>"
      "(INIT_MESSAGE 0)\<lparr>m_error_code := ERR_SUCCESS, m_content := search_answer ''x'' (''  - a'' @ [NL])\<rparr>" "()" "''  - a'' @ [NL]"]
  by (auto simp: sample_server_def)

end
