(* ===== verification/Sentence_Parser.thy ===== *)
theory Sentence_Parser
  imports Docs_Prelude
begin

text \<open>
  \<^verbatim>\<open>storage_server/sentence_parser.c\<close>: splitting a document into sentences (every \<open>.\<close>, \<open>!\<close> or
  \<open>?\<close> ends one) and a sentence into words, inserting a word, and putting the file together
  again. The character pointers \<open>start\<close> and \<open>ptr\<close> of the loops become the text collected since
  \<open>start\<close> and the text from \<open>ptr\<close> on. \<open>None\<close> is a write or read outside a C array: the program's
  behaviour is then undefined.
\<close>

section \<open>Operations\<close>

definition is_delimiter :: "char \<Rightarrow> bool" where
  "is_delimiter c \<longleftrightarrow> c = CHR ''.'' \<or> c = CHR ''!'' \<or> c = CHR ''?''"

fun sentence_loop :: "cstring \<Rightarrow> cstring \<Rightarrow> cstring list" where
  "sentence_loop start [] = (if start \<noteq> [] then [start] else [])"
| "sentence_loop start (c # ptr) =
     (if is_delimiter c then (start @ [c]) # sentence_loop [] ptr
      else sentence_loop (start @ [c]) ptr)"

definition parse_sentences :: "cstring \<Rightarrow> cstring list" where
  "parse_sentences content = sentence_loop [] content"

abbreviation WORD_BUF :: nat where "WORD_BUF \<equiv> 1024"

fun word_loop :: "cstring \<Rightarrow> cstring \<Rightarrow> cstring list option" where
  "word_loop word_buf [] =
     (if length word_buf > 0 then
        (if length word_buf < WORD_BUF then Some [word_buf] else None)
      else Some [])"
| "word_loop word_buf (c # ptr) =
     (if isspace c then
        (if length word_buf > 0 then
           (if length word_buf < WORD_BUF then map_option (Cons word_buf) (word_loop [] ptr)
            else None)
         else word_loop [] ptr)
      else if length word_buf < WORD_BUF then word_loop (word_buf @ [c]) ptr
      else None)"

definition parse_words :: "cstring \<Rightarrow> cstring list option" where
  "parse_words sentence = word_loop [] sentence"

text \<open>The words with one blank between any two of them, as the \<open>strcat\<close> loops write them.\<close>

fun join_words :: "cstring list \<Rightarrow> cstring" where
  "join_words [] = []"
| "join_words [w] = w"
| "join_words (w # ws) = w @ '' '' @ join_words ws"

text \<open>
  \<open>insert_word\<close>: the outer option is undefined behaviour (the word buffer of \<open>parse_words\<close>, or
  the read of \<open>new_sentence[len-2]\<close> for the string of one blank), the inner one the \<open>NULL\<close>
  returned for an index out of range.
\<close>

definition insert_word :: "cstring \<Rightarrow> int \<Rightarrow> cstring \<Rightarrow> cstring option option" where
  "insert_word sentence word_idx word =
     (case parse_words sentence of
        None \<Rightarrow> None
      | Some words \<Rightarrow>
          (if word_idx < 0 \<or> word_idx > int (length words) then Some None
           else
             let i = nat word_idx;
                 new_sentence = concat (map (\<lambda>w. w @ '' '') (take i words)) @
                   word @ '' '' @ join_words (drop i words);
                 len = length new_sentence
             in if len > 0 \<and> new_sentence ! (len - 1) = CHR '' '' then
                  (if len < 2 then None
                   else if \<not> is_delimiter (new_sentence ! (len - 2)) then
                     Some (Some (take (len - 1) new_sentence))
                   else Some (Some new_sentence))
                else Some (Some new_sentence)))"

definition rebuild_file :: "cstring list \<Rightarrow> cstring" where
  "rebuild_file sentences = concat sentences"

fun has_delimiter :: "cstring \<Rightarrow> bool" where
  "has_delimiter [] = False"
| "has_delimiter (c # str) = (if is_delimiter c then True else has_delimiter str)"

fun part_loop :: "cstring \<Rightarrow> cstring \<Rightarrow> cstring list" where
  "part_loop start [] = (if start \<noteq> [] then [start] else [])"
| "part_loop start (c # ptr) =
     (if is_delimiter c then (start @ [c]) # part_loop [] ptr
      else part_loop (start @ [c]) ptr)"

definition split_by_delimiters :: "cstring \<Rightarrow> cstring list" where
  "split_by_delimiters str = part_loop [] str"

section \<open>Sentences\<close>

text \<open>
  What a sentence list is: no sentence is empty, a delimiter occurs in it only at its end, and
  every sentence but the last ends in one.
\<close>

definition sentence_ok :: "cstring \<Rightarrow> bool" where
  "sentence_ok s \<longleftrightarrow> s \<noteq> [] \<and> \<not> has_delimiter (butlast s)"

fun sentences_ok :: "cstring list \<Rightarrow> bool" where
  "sentences_ok [] = True"
| "sentences_ok [s] = sentence_ok s"
| "sentences_ok (s # ss) = (sentence_ok s \<and> is_delimiter (last s) \<and> sentences_ok ss)"

lemma has_delimiter_iff: "has_delimiter s \<longleftrightarrow> (\<exists>c\<in>set s. is_delimiter c)"
  by (induction s) auto

lemma has_delimiter_append [simp]: "has_delimiter (s @ t) \<longleftrightarrow> has_delimiter s \<or> has_delimiter t"
  by (auto simp: has_delimiter_iff)

lemma sentences_ok_Cons:
  "sentences_ok (s # ss) \<longleftrightarrow> sentence_ok s \<and> sentences_ok ss \<and> (ss \<noteq> [] \<longrightarrow> is_delimiter (last s))"
  by (cases ss) auto

lemma sentence_ok_snoc: "sentence_ok (s @ [c]) \<longleftrightarrow> \<not> has_delimiter s"
  by (simp add: sentence_ok_def)

lemma concat_sentence_loop: "concat (sentence_loop start s) = start @ s"
  by (induction start s rule: sentence_loop.induct) auto

lemma sentence_ok_no_delimiter: "s \<noteq> [] \<Longrightarrow> \<not> has_delimiter s \<Longrightarrow> sentence_ok s"
  unfolding sentence_ok_def has_delimiter_iff by (blast dest: in_set_butlastD)

lemma sentences_ok_loop: "\<not> has_delimiter start \<Longrightarrow> sentences_ok (sentence_loop start s)"
  by (induction start s rule: sentence_loop.induct)
    (auto simp: sentences_ok_Cons sentence_ok_snoc sentence_ok_no_delimiter)

lemma sentence_loop_no_delimiter:
  "\<not> has_delimiter s \<Longrightarrow> sentence_loop start (s @ t) = sentence_loop (start @ s) t"
  by (induction s arbitrary: start) (auto split: if_splits)

lemma sentence_loop_sentence:
  assumes "sentence_ok s"
  shows "sentence_loop [] (s @ t) =
    (if is_delimiter (last s) then s # sentence_loop [] t else sentence_loop s t)"
proof -
  have s: "s = butlast s @ [last s]" and nd: "\<not> has_delimiter (butlast s)"
    using assms by (simp_all add: sentence_ok_def)
  have "sentence_loop [] (s @ t) = sentence_loop (butlast s) (last s # t)"
    using sentence_loop_no_delimiter [OF nd, of "[]" "last s # t"] by (metis append.assoc append_Cons append_Nil s)
  then show ?thesis using s by simp
qed

lemma sentence_loop_concat: "sentences_ok ss \<Longrightarrow> sentence_loop [] (concat ss) = ss"
proof (induction ss)
  case (Cons s ss)
  have ok: "sentence_ok s" "sentences_ok ss" and del: "ss \<noteq> [] \<Longrightarrow> is_delimiter (last s)"
    using Cons.prems by (auto simp: sentences_ok_Cons)
  show ?case
  proof (cases "ss = []")
    case True
    with sentence_loop_sentence [OF ok(1), of "[]"] ok(1) show ?thesis
      by (simp add: sentence_ok_def)
  next
    case False
    with del Cons.IH [OF ok(2)] show ?thesis
      by (simp add: sentence_loop_sentence [OF ok(1)])
  qed
qed simp

lemma concat_parse_sentences [simp]: "concat (parse_sentences s) = s"
  by (simp add: parse_sentences_def concat_sentence_loop)

lemma parse_sentences_concat: "sentences_ok ss \<Longrightarrow> parse_sentences (concat ss) = ss"
  by (simp add: parse_sentences_def sentence_loop_concat)

lemma sentences_ok_parse [simp]: "sentences_ok (parse_sentences s)"
  by (simp add: parse_sentences_def sentences_ok_loop)

lemma part_loop_eq: "part_loop start s = sentence_loop start s"
  by (induction start s rule: sentence_loop.induct) auto

lemma split_by_delimiters_eq: "split_by_delimiters s = parse_sentences s"
  by (simp add: split_by_delimiters_def parse_sentences_def part_loop_eq)

lemma parse_sentences_Nil_iff [simp]: "parse_sentences s = [] \<longleftrightarrow> s = []"
  by (metis concat.simps(1) concat_parse_sentences parse_sentences_concat sentences_ok.simps(1))

lemma parse_sentences_append_delim:
  "is_delimiter (last s) \<Longrightarrow> s \<noteq> [] \<Longrightarrow> parse_sentences (s @ t) = parse_sentences s @ parse_sentences t"
proof -
  assume "is_delimiter (last s)" and "s \<noteq> []"
  then have "sentence_loop start (s @ t) = sentence_loop start s @ sentence_loop [] t" for start
  proof (induction s arbitrary: start)
    case (Cons c s)
    then show ?case by (cases "s = []") auto
  qed simp
  then show ?thesis by (simp add: parse_sentences_def)
qed

text \<open>
  C32. \<open>parse_sentences\<close> is the one decomposition of a document into sentences: a list is its
  result exactly when the list rebuilds the document, has no empty sentence, has delimiters
  only at the ends of sentences, and ends every sentence but the last with one.
\<close>

theorem parse_sentences_unique:
  "parse_sentences content = ss \<longleftrightarrow> rebuild_file ss = content \<and> sentences_ok ss"
  by (auto simp: rebuild_file_def parse_sentences_concat)

section \<open>Words\<close>

text \<open>The reference: the words of a text are its maximal runs of characters that are not blanks.\<close>

definition words_of :: "cstring \<Rightarrow> cstring list" where
  "words_of s = runs (\<lambda>c. \<not> isspace c) s"

definition word_ok :: "cstring \<Rightarrow> bool" where
  "word_ok w \<longleftrightarrow> w \<noteq> [] \<and> list_all (\<lambda>c. \<not> isspace c) w"

definition words_fit :: "cstring list \<Rightarrow> bool" where
  "words_fit ws \<longleftrightarrow> list_all (\<lambda>w. length w < WORD_BUF) ws"

lemma words_fit_simps [simp]:
  "words_fit []" "words_fit (w # ws) \<longleftrightarrow> length w < WORD_BUF \<and> words_fit ws"
  "words_fit (ws @ vs) \<longleftrightarrow> words_fit ws \<and> words_fit vs"
  by (auto simp: words_fit_def)

lemma words_of_Nil [simp]: "words_of [] = []"
  by (simp add: words_of_def)

lemma words_of_space [simp]: "isspace c \<Longrightarrow> words_of (c # s) = words_of s"
  by (simp add: words_of_def)

lemma words_of_word:
  "word_ok w \<Longrightarrow>
   words_of (w @ s) = (w @ takeWhile (\<lambda>c. \<not> isspace c) s) # words_of (dropWhile (\<lambda>c. \<not> isspace c) s)"
  unfolding words_of_def word_ok_def by (rule runs_run) (simp_all add: list_all_iff)

lemma words_of_word_space:
  "word_ok w \<Longrightarrow> isspace c \<Longrightarrow> words_of (w @ c # s) = w # words_of s"
  by (simp add: words_of_word)

lemma words_of_word_only: "word_ok w \<Longrightarrow> words_of w = [w]"
  using words_of_word [of w "[]"] by simp

lemma words_of_ok: "w \<in> set (words_of s) \<Longrightarrow> word_ok w"
  unfolding words_of_def word_ok_def list_all_iff by (drule runs_ok) simp

lemma word_loop_correct:
  "list_all (\<lambda>c. \<not> isspace c) buf \<Longrightarrow> length buf \<le> WORD_BUF \<Longrightarrow>
   word_loop buf s = (if words_fit (words_of (buf @ s)) then Some (words_of (buf @ s)) else None)"
proof (induction buf s rule: word_loop.induct)
  case (1 buf)
  then show ?case
    using words_of_word_only [of buf] by (cases "buf = []") (auto simp: word_ok_def)
next
  case (2 buf c s)
  show ?case
  proof (cases "isspace c")
    case True
    show ?thesis
    proof (cases "buf = []")
      case False
      then have "words_of (buf @ c # s) = buf # words_of s"
        using "2.prems" True by (intro words_of_word_space) (simp_all add: word_ok_def)
      with True False "2.IH"(1) show ?thesis by simp
    qed (use True "2.IH"(2) in simp)
  next
    case False
    show ?thesis
    proof (cases "length buf < WORD_BUF")
      case True
      with False "2.IH"(3) "2.prems" show ?thesis by simp
    next
      case full: False
      let ?w = "buf @ c # takeWhile (\<lambda>c. \<not> isspace c) s"
      have "word_ok (buf @ [c])" using "2.prems" False by (simp add: word_ok_def)
      from words_of_word [OF this, of s] have "hd (words_of (buf @ c # s)) = ?w" and
        ne: "words_of (buf @ c # s) \<noteq> []" by simp_all
      then have "\<not> words_fit (words_of (buf @ c # s))"
        using full by (cases "words_of (buf @ c # s)") auto
      with False full show ?thesis by simp
    qed
  qed
qed

lemma parse_words_eq:
  "parse_words s = (if words_fit (words_of s) then Some (words_of s) else None)"
  using word_loop_correct [of "[]" s] by (simp add: parse_words_def)

lemma words_of_join_words: "list_all word_ok ws \<Longrightarrow> words_of (join_words ws) = ws"
proof (induction ws rule: join_words.induct)
  case (3 w v vs)
  then have "words_of (w @ CHR '' '' # join_words (v # vs)) = w # words_of (join_words (v # vs))"
    by (intro words_of_word_space) (simp_all add: isspace_def)
  with 3 show ?case by simp
qed (simp_all add: words_of_word_only)

lemma words_of_spaced: "list_all word_ok ws \<Longrightarrow> words_of (concat (map (\<lambda>w. w @ '' '') ws) @ s) = ws @ words_of s"
proof (induction ws)
  case (Cons w ws)
  then show ?case using words_of_word_space [of w "CHR '' ''"] by (simp add: isspace_def)
qed simp

lemma list_all_words_of: "list_all word_ok (words_of s)"
  by (auto simp: list_all_iff words_of_ok)

text \<open>
  \<open>parse_words\<close> computes the words of the reference definition exactly when each of them is
  shorter than its 1024-byte buffer, and overruns the buffer otherwise: there is no
  third outcome.
\<close>

theorem parse_words_characterisation:
  "parse_words sentence =
     (if words_fit (words_of sentence) then Some (words_of sentence) else None)"
  by (rule parse_words_eq)

text \<open>
  Round trip of the commit and the parser: words without blanks, written with single blanks
  between them, are the words that \<open>parse_words\<close> reads back.
\<close>

theorem parse_words_join_words:
  assumes "list_all word_ok ws" and "words_fit ws"
  shows "parse_words (join_words ws) = Some ws"
  using assms by (simp add: parse_words_eq words_of_join_words)

theorem parse_words_join_words_witness:
  "parse_words (join_words [''Hello'', ''world.'']) = Some [''Hello'', ''world.'']"
  by (rule parse_words_join_words) (simp_all add: word_ok_def isspace_def)

lemma words_of_trailing_space: "words_of (s @ '' '') = words_of s"
  unfolding words_of_def by (rule runs_snoc) (simp add: isspace_def)

text \<open>
  \<open>insert_word\<close> inserts: for an index within the sentence and a word that is one word, the
  words of the new sentence are the old ones with the new word at that index; for an index out
  of range it returns \<open>NULL\<close>.
\<close>

theorem insert_word_words:
  assumes "words_fit (words_of s)" and "word_ok w" and "0 \<le> i" and "i \<le> int (length (words_of s))"
  shows "\<exists>t. insert_word s i w = Some (Some t) \<and>
    words_of t = take (nat i) (words_of s) @ w # drop (nat i) (words_of s)"
proof -
  let ?ws = "words_of s"
  let ?k = "nat i"
  define t where "t = concat (map (\<lambda>w. w @ '' '') (take ?k ?ws)) @ w @ '' '' @ join_words (drop ?k ?ws)"
  have ok: "list_all word_ok (take ?k ?ws)" "list_all word_ok (drop ?k ?ws)"
    by (auto simp: list_all_iff words_of_ok dest: in_set_takeD in_set_dropD)
  have wt: "words_of t = take ?k ?ws @ w # drop ?k ?ws"
    using words_of_word_space [OF assms(2), of "CHR '' ''"]
    by (simp add: t_def words_of_spaced [OF ok(1)] words_of_join_words [OF ok(2)] isspace_def)
  have len: "\<not> length t < 2" using assms(2) by (cases w) (auto simp: word_ok_def t_def)
  have "\<not> (i < 0 \<or> i > int (length ?ws))" using assms by simp
  then have eq: "insert_word s i w =
      (if length t > 0 \<and> t ! (length t - 1) = CHR '' '' then
         (if \<not> is_delimiter (t ! (length t - 2)) then Some (Some (take (length t - 1) t))
          else Some (Some t))
       else Some (Some t))"
    using assms(1) len
    by (simp only: insert_word_def parse_words_eq if_True if_False option.case Let_def t_def)
  have "words_of (take (length t - 1) t) = words_of t" if "t ! (length t - 1) = CHR '' ''"
  proof -
    have "t \<noteq> []" using len by auto
    then have "t = butlast t @ [t ! (length t - 1)]"
      by (metis append_butlast_last_id last_conv_nth)
    then have "t = butlast t @ '' ''" using that by metis
    then show ?thesis using words_of_trailing_space [of "butlast t"] by (metis butlast_conv_take)
  qed
  with wt eq show ?thesis by (simp split: if_splits)
qed

theorem insert_word_words_witness:
  "\<exists>t. insert_word ''Hello world.'' 1 ''big'' = Some (Some t) \<and>
     words_of t = [''Hello'', ''big'', ''world.'']"
proof -
  have w: "words_of ''Hello world.'' = [''Hello'', ''world.'']"
    by (simp add: words_of_def runs.simps isspace_def)
  have "words_fit (words_of ''Hello world.'')" and "word_ok ''big''"
    and "(0::int) \<le> 1" and "1 \<le> int (length (words_of ''Hello world.''))"
    by (simp_all add: w word_ok_def isspace_def)
  from insert_word_words [OF this] show ?thesis by (simp add: w)
qed

end
