(* ===== verification/Sentence_Lock.thy ===== *)
theory Sentence_Lock
  imports Protocol
begin

text \<open>
  \<^verbatim>\<open>storage_server/sentence_lock.c\<close>: the table of sentence locks, one entry per locked sentence of
  a file, with the client that holds it and the time it was taken; a lock older than 60
  seconds is up for grabs. Every function of the module runs between
  \<open>pthread_mutex_lock\<close> and \<open>pthread_mutex_unlock\<close> of the table, so it is one atomic step; what
  \<open>time (NULL)\<close> returns is an argument. The abstract view of a table is the map from sentences
  to holder and time; \<open>lock_service\<close> is the contract that the write sessions rely on.
\<close>

section \<open>State and operations\<close>

abbreviation LOCK_HASH_SIZE :: nat where "LOCK_HASH_SIZE \<equiv> 509"
abbreviation LOCK_TIMEOUT :: int where "LOCK_TIMEOUT \<equiv> 60"

record LockEntry =
  le_filename :: cstring
  le_sentence_num :: int
  le_client_id :: cstring
  le_timestamp :: int

record LockTable =
  lt_buckets :: "nat \<Rightarrow> LockEntry list"

fun hash_lock_loop :: "32 word \<Rightarrow> cstring \<Rightarrow> 32 word" where
  "hash_lock_loop hash [] = hash"
| "hash_lock_loop hash (c # str) =
     hash_lock_loop ((push_bit 5 hash + hash) + word_of_int (uchar c)) str"

definition hash_lock_key :: "cstring \<Rightarrow> int \<Rightarrow> nat" where
  "hash_lock_key filename sentence_num =
     unat (hash_lock_loop 5381 filename + word_of_int sentence_num * 31) mod LOCK_HASH_SIZE"

definition lock_table_init :: "LockTable" where
  "lock_table_init = \<lparr>lt_buckets = (\<lambda>i. [])\<rparr>"

definition lock_matches :: "cstring \<Rightarrow> int \<Rightarrow> LockEntry \<Rightarrow> bool" where
  "lock_matches filename sentence_num e \<longleftrightarrow>
     le_filename e = filename \<and> le_sentence_num e = sentence_num"

definition lock_acquire ::
  "LockTable \<Rightarrow> cstring \<Rightarrow> int \<Rightarrow> cstring \<Rightarrow> int \<Rightarrow> int \<times> LockTable" where
  "lock_acquire table filename sentence_num client_id now =
     (let idx = hash_lock_key filename sentence_num;
          chain = lt_buckets table idx;
          this = lock_matches filename sentence_num;
          store = (\<lambda>c. table\<lparr>lt_buckets := (lt_buckets table)(idx := c)\<rparr>)
      in case find this chain of
           Some entry \<Rightarrow>
             if now - le_timestamp entry \<ge> LOCK_TIMEOUT then
               (ERR_SUCCESS,
                store (update_first this
                  (\<lambda>e. e\<lparr>le_client_id := cbuf MAX_USERNAME_LEN client_id, le_timestamp := now\<rparr>) chain))
             else if le_client_id entry = client_id then
               (ERR_SUCCESS, store (update_first this (\<lambda>e. e\<lparr>le_timestamp := now\<rparr>) chain))
             else (ERR_LOCKED, table)
         | None \<Rightarrow>
             (ERR_SUCCESS,
              store (\<lparr>le_filename = cbuf MAX_FILENAME_LEN filename, le_sentence_num = sentence_num,
                      le_client_id = cbuf MAX_USERNAME_LEN client_id, le_timestamp = now\<rparr> # chain)))"

definition lock_release :: "LockTable \<Rightarrow> cstring \<Rightarrow> int \<Rightarrow> cstring \<Rightarrow> int \<times> LockTable" where
  "lock_release table filename sentence_num client_id =
     (let idx = hash_lock_key filename sentence_num;
          chain = lt_buckets table idx;
          this = lock_matches filename sentence_num
      in case find this chain of
           Some entry \<Rightarrow>
             if le_client_id entry \<noteq> client_id then (ERR_ACCESS_DENIED, table)
             else (ERR_SUCCESS,
                   table\<lparr>lt_buckets := (lt_buckets table)(idx := remove_first this chain)\<rparr>)
         | None \<Rightarrow> (ERR_NOT_FOUND, table))"

definition lock_is_locked :: "LockTable \<Rightarrow> cstring \<Rightarrow> int \<Rightarrow> cstring \<Rightarrow> int \<Rightarrow> bool" where
  "lock_is_locked table filename sentence_num client_id now =
     (case find (lock_matches filename sentence_num)
             (lt_buckets table (hash_lock_key filename sentence_num)) of
        Some entry \<Rightarrow>
          if now - le_timestamp entry \<ge> LOCK_TIMEOUT then False
          else if le_client_id entry = client_id then False
          else True
      | None \<Rightarrow> False)"

fun clean_chain :: "int \<Rightarrow> LockEntry list \<Rightarrow> LockEntry list \<times> nat" where
  "clean_chain now [] = ([], 0)"
| "clean_chain now (entry # rest) =
     (let (kept, cleaned) = clean_chain now rest
      in if now - le_timestamp entry \<ge> LOCK_TIMEOUT then (kept, Suc cleaned)
         else (entry # kept, cleaned))"

definition lock_cleanup_expired :: "LockTable \<Rightarrow> int \<Rightarrow> nat \<times> LockTable" where
  "lock_cleanup_expired table now =
     (sum_list (map (\<lambda>i. snd (clean_chain now (lt_buckets table i))) [0..<LOCK_HASH_SIZE]),
      table\<lparr>lt_buckets := (\<lambda>i. if i < LOCK_HASH_SIZE then fst (clean_chain now (lt_buckets table i))
                                else lt_buckets table i)\<rparr>)"

definition lock_table_destroy :: "LockTable \<Rightarrow> LockTable" where
  "lock_table_destroy table =
     table\<lparr>lt_buckets := (\<lambda>i. if i < LOCK_HASH_SIZE then [] else lt_buckets table i)\<rparr>"

section \<open>The lock service contract\<close>

text \<open>
  A lock map gives each locked key its holder and the time of the lock. The abstract
  operations say what the service promises: a free, expired or own lock is granted, somebody
  else's is refused; only the holder releases.
\<close>

type_synonym ('k, 'c) lock_map = "'k \<Rightarrow> ('c \<times> int) option"

definition spec_acquire ::
  "('k, 'c) lock_map \<Rightarrow> 'k \<Rightarrow> 'c \<Rightarrow> int \<Rightarrow> int \<times> ('k, 'c) lock_map" where
  "spec_acquire m k c now =
     (case m k of
        None \<Rightarrow> (ERR_SUCCESS, m(k \<mapsto> (c, now)))
      | Some (c', ts) \<Rightarrow>
          if LOCK_TIMEOUT \<le> now - ts \<or> c' = c then (ERR_SUCCESS, m(k \<mapsto> (c, now)))
          else (ERR_LOCKED, m))"

definition spec_release :: "('k, 'c) lock_map \<Rightarrow> 'k \<Rightarrow> 'c \<Rightarrow> int \<times> ('k, 'c) lock_map" where
  "spec_release m k c =
     (case m k of
        None \<Rightarrow> (ERR_NOT_FOUND, m)
      | Some (c', ts) \<Rightarrow> if c' = c then (ERR_SUCCESS, m(k := None)) else (ERR_ACCESS_DENIED, m))"

definition spec_cleanup :: "('k, 'c) lock_map \<Rightarrow> int \<Rightarrow> ('k, 'c) lock_map" where
  "spec_cleanup m now =
     (\<lambda>k. case m k of
             None \<Rightarrow> None
           | Some (c, ts) \<Rightarrow> if LOCK_TIMEOUT \<le> now - ts then None else Some (c, ts))"

datatype ('k, 'c) lock_op = Acquire 'k 'c int | Release 'k 'c | Cleanup int

fun lock_op_valid :: "('k \<Rightarrow> 'c \<Rightarrow> bool) \<Rightarrow> ('k, 'c) lock_op \<Rightarrow> bool" where
  "lock_op_valid valid (Acquire k c now) = valid k c"
| "lock_op_valid valid (Release k c) = valid k c"
| "lock_op_valid valid (Cleanup now) = True"

text \<open>
  An operation that leaves a lock of \<open>c\<close> on \<open>k\<close>, taken at \<open>t0\<close>, alone: it happens within one
  timeout of \<open>t0\<close> and is not a release of that lock by its holder.
\<close>

fun harmless :: "'k \<Rightarrow> 'c \<Rightarrow> int \<Rightarrow> ('k, 'c) lock_op \<Rightarrow> bool" where
  "harmless k c t0 (Acquire k' c' now) = (t0 \<le> now \<and> now < t0 + LOCK_TIMEOUT)"
| "harmless k c t0 (Release k' c') = (k' \<noteq> k \<or> c' \<noteq> c)"
| "harmless k c t0 (Cleanup now) = (now < t0 + LOCK_TIMEOUT)"

locale lock_service =
  fixes acquire :: "'s \<Rightarrow> 'k \<Rightarrow> 'c \<Rightarrow> int \<Rightarrow> int \<times> 's"
    and release :: "'s \<Rightarrow> 'k \<Rightarrow> 'c \<Rightarrow> int \<times> 's"
    and cleanup :: "'s \<Rightarrow> int \<Rightarrow> 's"
    and holders :: "'s \<Rightarrow> ('k, 'c) lock_map"
    and inv :: "'s \<Rightarrow> bool"
    and valid :: "'k \<Rightarrow> 'c \<Rightarrow> bool"
  assumes acquire_spec: "inv s \<Longrightarrow> valid k c \<Longrightarrow>
      spec_acquire (holders s) k c now = (fst (acquire s k c now), holders (snd (acquire s k c now)))"
    and acquire_inv: "inv s \<Longrightarrow> valid k c \<Longrightarrow> inv (snd (acquire s k c now))"
    and release_spec: "inv s \<Longrightarrow> valid k c \<Longrightarrow>
      spec_release (holders s) k c = (fst (release s k c), holders (snd (release s k c)))"
    and release_inv: "inv s \<Longrightarrow> valid k c \<Longrightarrow> inv (snd (release s k c))"
    and cleanup_spec: "inv s \<Longrightarrow> holders (cleanup s now) = spec_cleanup (holders s) now"
    and cleanup_inv: "inv s \<Longrightarrow> inv (cleanup s now)"
begin

fun step :: "'s \<Rightarrow> ('k, 'c) lock_op \<Rightarrow> 's" where
  "step s (Acquire k c now) = snd (acquire s k c now)"
| "step s (Release k c) = snd (release s k c)"
| "step s (Cleanup now) = cleanup s now"

lemma step_inv: "inv s \<Longrightarrow> lock_op_valid valid op \<Longrightarrow> inv (step s op)"
  by (cases op) (auto intro: acquire_inv release_inv cleanup_inv)

lemma run_inv: "inv s \<Longrightarrow> list_all (lock_op_valid valid) ops \<Longrightarrow> inv (foldl step s ops)"
  by (induction ops arbitrary: s) (auto intro: step_inv)

lemma acquire_holders: "inv s \<Longrightarrow> valid k c \<Longrightarrow>
  holders (snd (acquire s k c now)) = snd (spec_acquire (holders s) k c now)"
  by (simp add: acquire_spec)

lemma acquire_code: "inv s \<Longrightarrow> valid k c \<Longrightarrow>
  fst (acquire s k c now) = fst (spec_acquire (holders s) k c now)"
  by (simp add: acquire_spec)

lemma release_holders: "inv s \<Longrightarrow> valid k c \<Longrightarrow>
  holders (snd (release s k c)) = snd (spec_release (holders s) k c)"
  by (simp add: release_spec)

lemma granted_holds:
  "inv s \<Longrightarrow> valid k c \<Longrightarrow> fst (acquire s k c now) = ERR_SUCCESS \<Longrightarrow>
   holders (snd (acquire s k c now)) k = Some (c, now)"
  by (auto simp: acquire_holders acquire_code spec_acquire_def split: option.splits if_splits)

lemma step_keeps:
  assumes "inv s" and "lock_op_valid valid op" and "harmless k c t0 op"
    and "holders s k = Some (c, ts)" and "t0 \<le> ts"
  shows "\<exists>ts'\<ge>t0. holders (step s op) k = Some (c, ts')"
proof (cases op)
  case (Acquire k' c' now)
  with assms show ?thesis
    by (cases "k' = k") (auto simp: acquire_holders spec_acquire_def split: option.split prod.split)
next
  case (Release k' c')
  with assms show ?thesis
    by (cases "k' = k") (auto simp: release_holders spec_release_def split: option.split prod.split)
next
  case (Cleanup now)
  with assms show ?thesis by (auto simp: cleanup_spec spec_cleanup_def)
qed

lemma run_keeps:
  "inv s \<Longrightarrow> list_all (lock_op_valid valid) ops \<Longrightarrow> list_all (harmless k c t0) ops \<Longrightarrow>
   holders s k = Some (c, ts) \<Longrightarrow> t0 \<le> ts \<Longrightarrow>
   \<exists>ts'\<ge>t0. holders (foldl step s ops) k = Some (c, ts')"
proof (induction ops arbitrary: s ts)
  case (Cons op ops)
  then obtain ts' where "t0 \<le> ts'" "holders (step s op) k = Some (c, ts')"
    using step_keeps [of s op k c t0 ts] by auto
  with Cons.IH [of "step s op" ts'] Cons.prems step_inv show ?case by auto
qed auto

lemma exclusion:
  assumes "inv s" and "valid k c" and "fst (acquire s k c t0) = ERR_SUCCESS"
    and "list_all (lock_op_valid valid) ops" and "list_all (harmless k c t0) ops"
    and "valid k d" and "d \<noteq> c" and "now < t0 + LOCK_TIMEOUT"
  shows "fst (acquire (foldl step (snd (acquire s k c t0)) ops) k d now) = ERR_LOCKED"
proof -
  let ?s = "snd (acquire s k c t0)"
  have inv: "inv ?s" using assms by (simp add: acquire_inv)
  obtain ts where "t0 \<le> ts" "holders (foldl step ?s ops) k = Some (c, ts)"
    using run_keeps [OF inv assms(4,5), of t0] granted_holds [OF assms(1-3)] by auto
  moreover have "inv (foldl step ?s ops)" using inv assms(4) by (rule run_inv)
  ultimately show ?thesis using assms by (simp add: acquire_code spec_acquire_def)
qed

end

section \<open>The table implements the contract\<close>

definition lock_key :: "LockEntry \<Rightarrow> cstring \<times> int" where
  "lock_key e = (le_filename e, le_sentence_num e)"

definition lock_hash :: "cstring \<times> int \<Rightarrow> nat" where
  "lock_hash k = hash_lock_key (fst k) (snd k)"

interpretation lock_chain: chained_hash lock_hash lock_key LOCK_HASH_SIZE
  by unfold_locales (simp add: lock_hash_def hash_lock_key_def)

text \<open>The invariant of a table and the lock map it stands for.\<close>

definition lock_inv :: "LockTable \<Rightarrow> bool" where
  "lock_inv t \<longleftrightarrow> chain_inv lock_hash lock_key (lt_buckets t)"

definition lock_holders :: "LockTable \<Rightarrow> (cstring \<times> int, cstring) lock_map" where
  "lock_holders t k =
     map_option (\<lambda>e. (le_client_id e, le_timestamp e)) (chain_lookup lock_hash lock_key (lt_buckets t) k)"

text \<open>Names as \<open>Message\<close> fields carry them: shorter than the buffers of the entries.\<close>

definition lock_valid :: "cstring \<times> int \<Rightarrow> cstring \<Rightarrow> bool" where
  "lock_valid k c \<longleftrightarrow> length (fst k) < MAX_FILENAME_LEN \<and> length c < MAX_USERNAME_LEN"

lemma lock_matches_key: "lock_matches f n = (\<lambda>e. lock_key e = (f, n))"
  by (auto simp: lock_matches_def lock_key_def)

lemma hash_lock_key_hash: "hash_lock_key f n = lock_hash (f, n)"
  by (simp add: lock_hash_def)

lemma lock_inv_init: "lock_inv lock_table_init"
  by (simp add: lock_inv_def lock_table_init_def lock_chain.inv_empty)

lemma lock_holders_init: "lock_holders lock_table_init = (\<lambda>k. None)"
  by (rule ext) (simp add: lock_holders_def lock_table_init_def lock_chain.lookup_empty)

lemmas lock_unfold = lock_matches_key hash_lock_key_hash

lemma lock_lookup: "find (\<lambda>e. lock_key e = (f, n)) (lt_buckets t (lock_hash (f, n))) =
    chain_lookup lock_hash lock_key (lt_buckets t) (f, n)"
  by (simp add: chain_lookup_def)

lemma lock_key_upd [simp]:
  "lock_key (e\<lparr>le_timestamp := x\<rparr>) = lock_key e"
  "lock_key (e\<lparr>le_client_id := c, le_timestamp := x\<rparr>) = lock_key e"
  "lock_key (e\<lparr>le_client_id := c\<rparr>) = lock_key e"
  "lock_key \<lparr>le_filename = f, le_sentence_num = n, le_client_id = c, le_timestamp = x\<rparr> = (f, n)"
  by (simp_all add: lock_key_def)

text \<open>One lemma per operation: result code and lock map are those of the abstract operation.\<close>

lemma lock_acquire_spec:
  assumes "lock_valid (f, n) c"
  shows "(fst (lock_acquire t f n c now), lock_holders (snd (lock_acquire t f n c now))) =
    spec_acquire (lock_holders t) (f, n) c now"
proof (cases "chain_lookup lock_hash lock_key (lt_buckets t) (f, n)")
  case None
  with assms show ?thesis
    by (auto simp: lock_acquire_def lock_unfold lock_lookup Let_def spec_acquire_def lock_holders_def
        lock_valid_def cbuf_id lock_chain.lookup_insert fun_eq_iff)
next
  case (Some e)
  with assms show ?thesis
    by (auto simp: lock_acquire_def lock_unfold lock_lookup Let_def spec_acquire_def lock_holders_def
        lock_valid_def cbuf_id lock_chain.lookup_update fun_eq_iff)
qed

lemma lock_acquire_inv:
  assumes "lock_inv t" and "lock_valid (f, n) c"
  shows "lock_inv (snd (lock_acquire t f n c now))"
proof (cases "chain_lookup lock_hash lock_key (lt_buckets t) (f, n)")
  case None
  with assms show ?thesis
    by (auto simp: lock_acquire_def lock_unfold lock_lookup Let_def lock_inv_def lock_valid_def cbuf_id
        intro: lock_chain.inv_insert)
next
  case (Some e)
  with assms show ?thesis
    by (auto simp: lock_acquire_def lock_unfold lock_lookup Let_def lock_inv_def intro: lock_chain.inv_update)
qed

lemma lock_release_spec:
  assumes "lock_inv t"
  shows "(fst (lock_release t f n c), lock_holders (snd (lock_release t f n c))) =
    spec_release (lock_holders t) (f, n) c"
  using assms by (cases "chain_lookup lock_hash lock_key (lt_buckets t) (f, n)")
    (auto simp: lock_release_def lock_unfold lock_lookup Let_def spec_release_def lock_holders_def
      lock_inv_def lock_chain.lookup_remove fun_eq_iff)

lemma lock_release_inv: "lock_inv t \<Longrightarrow> lock_inv (snd (lock_release t f n c))"
  by (cases "chain_lookup lock_hash lock_key (lt_buckets t) (f, n)")
    (auto simp: lock_release_def lock_unfold lock_lookup Let_def lock_inv_def intro: lock_chain.inv_remove)

lemma clean_chain_filter: "fst (clean_chain now xs) = filter (\<lambda>e. now - le_timestamp e < LOCK_TIMEOUT) xs"
  by (induction xs) (auto simp: case_prod_beta Let_def)

lemma clean_chain_count: "snd (clean_chain now xs) + length (fst (clean_chain now xs)) = length xs"
  by (induction xs) (auto simp: case_prod_beta Let_def)

lemma cleanup_buckets: "i < LOCK_HASH_SIZE \<Longrightarrow>
  lt_buckets (snd (lock_cleanup_expired t now)) i =
    filter (\<lambda>e. now - le_timestamp e < LOCK_TIMEOUT) (lt_buckets t i)"
  by (simp add: lock_cleanup_expired_def clean_chain_filter)

lemma lock_cleanup_inv:
  assumes "lock_inv t"
  shows "lock_inv (snd (lock_cleanup_expired t now))"
  unfolding lock_inv_def
proof (rule chain_invI)
  fix i
  let ?b = "lt_buckets (snd (lock_cleanup_expired t now)) i"
  have inv: "chain_inv lock_hash lock_key (lt_buckets t)" using assms by (simp add: lock_inv_def)
  have "?b = filter (\<lambda>e. now - le_timestamp e < LOCK_TIMEOUT) (lt_buckets t i) \<or> ?b = lt_buckets t i"
    by (simp add: lock_cleanup_expired_def clean_chain_filter)
  then show "distinct (map lock_key ?b)" and "\<And>e. e \<in> set ?b \<Longrightarrow> lock_hash (lock_key e) = i"
    using chain_inv_distinct [OF inv, of i] chain_inv_hash [OF inv, of _ i]
    by (auto intro: distinct_map_filter)
qed

lemma lock_cleanup_spec:
  assumes "lock_inv t"
  shows "lock_holders (snd (lock_cleanup_expired t now)) = spec_cleanup (lock_holders t) now"
proof
  fix k
  let ?xs = "lt_buckets t (lock_hash k)"
  let ?live = "\<lambda>e. now - le_timestamp e < LOCK_TIMEOUT"
  have d: "distinct (map lock_key ?xs)"
    using assms by (simp add: lock_inv_def chain_inv_distinct)
  show "lock_holders (snd (lock_cleanup_expired t now)) k = spec_cleanup (lock_holders t) now k"
    by (auto simp: find_filter_key [OF d] lock_holders_def chain_lookup_def spec_cleanup_def cleanup_buckets lock_chain.hash_bound
        split: option.split)
qed

interpretation sentence_locks: lock_service
  "\<lambda>t k c now. lock_acquire t (fst k) (snd k) c now" "\<lambda>t k c. lock_release t (fst k) (snd k) c"
  "\<lambda>t now. snd (lock_cleanup_expired t now)" lock_holders lock_inv lock_valid
proof unfold_locales
  fix s k c now
  assume inv: "lock_inv s" and v: "lock_valid k c"
  show "spec_acquire (lock_holders s) k c now =
      (fst (lock_acquire s (fst k) (snd k) c now), lock_holders (snd (lock_acquire s (fst k) (snd k) c now)))"
    using lock_acquire_spec [of "fst k" "snd k" c s now] v by simp
  show "lock_inv (snd (lock_acquire s (fst k) (snd k) c now))"
    using lock_acquire_inv [of s "fst k" "snd k" c now] inv v by simp
  show "spec_release (lock_holders s) k c =
      (fst (lock_release s (fst k) (snd k) c), lock_holders (snd (lock_release s (fst k) (snd k) c)))"
    using lock_release_spec [OF inv, of "fst k" "snd k" c] by simp
  show "lock_inv (snd (lock_release s (fst k) (snd k) c))"
    using lock_release_inv [OF inv] .
qed (simp_all add: lock_cleanup_spec lock_cleanup_inv)

section \<open>Properties\<close>

fun lock_step :: "LockTable \<Rightarrow> (cstring \<times> int, cstring) lock_op \<Rightarrow> LockTable" where
  "lock_step t (Acquire k c now) = snd (lock_acquire t (fst k) (snd k) c now)"
| "lock_step t (Release k c) = snd (lock_release t (fst k) (snd k) c)"
| "lock_step t (Cleanup now) = snd (lock_cleanup_expired t now)"

lemma lock_step_eq: "sentence_locks.step = lock_step"
proof (intro ext)
  fix t op show "sentence_locks.step t op = lock_step t op" by (cases op) simp_all
qed

text \<open>
  \<open>lock_acquire\<close> implements the abstract lock: on a table in its invariant it returns the
  code and leaves the lock map of the specification (granted when free, expired or already
  held by the caller; refused with \<open>ERR_LOCKED\<close> and nothing changed when another client's
  lock is younger than the timeout), and it keeps the invariant.
\<close>

theorem lock_acquire_refines:
  assumes "lock_inv t" and "length filename < MAX_FILENAME_LEN" and "length client < MAX_USERNAME_LEN"
  shows "lock_inv (snd (lock_acquire t filename n client now)) \<and>
    (fst (lock_acquire t filename n client now), lock_holders (snd (lock_acquire t filename n client now))) =
      spec_acquire (lock_holders t) (filename, n) client now"
  using assms lock_acquire_spec lock_acquire_inv by (simp add: lock_valid_def)

theorem lock_acquire_refines_witness:
  "lock_inv (snd (lock_acquire lock_table_init ''a.txt'' 0 ''bob'' 5)) \<and>
   (fst (lock_acquire lock_table_init ''a.txt'' 0 ''bob'' 5),
    lock_holders (snd (lock_acquire lock_table_init ''a.txt'' 0 ''bob'' 5))) =
      spec_acquire (lock_holders lock_table_init) (''a.txt'', 0) ''bob'' 5"
  by (rule lock_acquire_refines) (simp_all add: lock_inv_init)

text \<open>
  \<open>lock_release\<close> implements the abstract release: the holder's release frees exactly that
  sentence; anybody else's is answered \<open>ERR_ACCESS_DENIED\<close> and a free sentence's
  \<open>ERR_NOT_FOUND\<close>, with no effect.
\<close>

theorem lock_release_refines:
  assumes "lock_inv t"
  shows "lock_inv (snd (lock_release t filename n client)) \<and>
    (fst (lock_release t filename n client), lock_holders (snd (lock_release t filename n client))) =
      spec_release (lock_holders t) (filename, n) client"
  using assms lock_release_spec lock_release_inv by simp

theorem lock_release_refines_witness:
  "lock_inv (snd (lock_release lock_table_init ''a.txt'' 0 ''bob'')) \<and>
   (fst (lock_release lock_table_init ''a.txt'' 0 ''bob''),
    lock_holders (snd (lock_release lock_table_init ''a.txt'' 0 ''bob''))) =
      spec_release (lock_holders lock_table_init) (''a.txt'', 0) ''bob''"
  by (rule lock_release_refines) (rule lock_inv_init)

text \<open>
  C19. Mutual exclusion over any interleaving: once a client's \<open>lock_acquire\<close> of a sentence has
  succeeded at time \<open>t0\<close>, then whatever acquire, release and cleanup operations of any clients
  follow within the 60 seconds, other than that client's own release of that sentence,
  another client's \<open>lock_acquire\<close> of it before \<open>t0 + 60\<close> is refused with \<open>ERR_LOCKED\<close>.
\<close>

theorem lock_mutual_exclusion:
  assumes "lock_inv t" and "lock_valid (filename, n) c" and "lock_valid (filename, n) d" and "d \<noteq> c"
    and "fst (lock_acquire t filename n c t0) = ERR_SUCCESS"
    and "list_all (lock_op_valid lock_valid) ops" and "list_all (harmless (filename, n) c t0) ops"
    and "now < t0 + LOCK_TIMEOUT"
  shows "fst (lock_acquire (foldl lock_step (snd (lock_acquire t filename n c t0)) ops) filename n d now) =
    ERR_LOCKED"
  using sentence_locks.exclusion [of t "(filename, n)" c t0 ops d now] assms
  by (simp add: lock_step_eq)

theorem lock_mutual_exclusion_witness:
  "fst (lock_acquire
     (foldl lock_step (snd (lock_acquire lock_table_init ''a.txt'' 0 ''bob'' 5))
       [Release (''a.txt'', 0) ''eve'', Acquire (''a.txt'', 0) ''eve'' 20, Cleanup 64])
     ''a.txt'' 0 ''eve'' 64) = ERR_LOCKED"
  by (rule lock_mutual_exclusion [OF lock_inv_init])
    (simp_all add: lock_valid_def lock_acquire_def lock_table_init_def Let_def)

text \<open>
  The query agrees with the lock: \<open>lock_is_locked\<close> answers yes exactly when
  \<open>lock_acquire\<close> by that client at that time would be refused.
\<close>

theorem lock_is_locked_iff_refused:
  "lock_is_locked t filename n client now \<longleftrightarrow>
     fst (lock_acquire t filename n client now) = ERR_LOCKED"
  by (auto simp: lock_is_locked_def lock_acquire_def Let_def split: option.split)

lemma lock_cleanup_length:
  "fst (lock_cleanup_expired t now) +
     length (chain_entries LOCK_HASH_SIZE (lt_buckets (snd (lock_cleanup_expired t now)))) =
   length (chain_entries LOCK_HASH_SIZE (lt_buckets t))"
proof -
  let ?b = "lt_buckets t"
  have total: "sum_list (map (\<lambda>i. snd (clean_chain now (?b i))) xs) +
      length (concat (map (\<lambda>i. fst (clean_chain now (?b i))) xs)) = length (concat (map ?b xs))" for xs
  proof (induction xs)
    case (Cons i xs)
    with clean_chain_count [of now "?b i"] show ?case by simp
  qed simp
  have kept: "chain_entries m (lt_buckets (snd (lock_cleanup_expired t now))) =
      concat (map (\<lambda>i. fst (clean_chain now (?b i))) [0..<m])" if "m \<le> LOCK_HASH_SIZE" for m
    unfolding chain_entries_def using that
    by (intro arg_cong [where f = concat] map_cong) (simp_all add: lock_cleanup_expired_def)
  show ?thesis
    unfolding kept [OF order_refl] chain_entries_def [of _ ?b]
    by (simp only: lock_cleanup_expired_def fst_conv total)
qed

lemma spec_cleanup_acquire:
  assumes "now \<le> now'"
  shows "fst (spec_acquire (spec_cleanup m now) k c now') = fst (spec_acquire m k c now') \<and>
    snd (spec_acquire (spec_cleanup m now) k c now') k = snd (spec_acquire m k c now') k"
  using assms by (auto simp: spec_acquire_def spec_cleanup_def split: option.split prod.split)

text \<open>
  The background cleanup cannot be observed by a writer: after \<open>lock_cleanup_expired\<close> at
  \<open>now\<close>, every later \<open>lock_acquire\<close> returns the same code and leaves the same holder of its
  sentence as it would have without the cleanup; and the count it reports is the number of
  entries it took out of the table.
\<close>

theorem lock_cleanup_unobservable:
  assumes "lock_inv t" and "lock_valid (filename, n) client" and "now \<le> now'"
  shows "fst (lock_acquire (snd (lock_cleanup_expired t now)) filename n client now') =
      fst (lock_acquire t filename n client now') \<and>
      lock_holders (snd (lock_acquire (snd (lock_cleanup_expired t now)) filename n client now')) (filename, n) =
      lock_holders (snd (lock_acquire t filename n client now')) (filename, n) \<and>
      fst (lock_cleanup_expired t now) +
      length (chain_entries LOCK_HASH_SIZE (lt_buckets (snd (lock_cleanup_expired t now)))) =
      length (chain_entries LOCK_HASH_SIZE (lt_buckets t))"
  using spec_cleanup_acquire [OF assms(3), of "lock_holders t" "(filename, n)" client]
    sentence_locks.acquire_spec [OF assms(1,2)] lock_cleanup_spec [OF assms(1)]
    sentence_locks.acquire_spec [OF lock_cleanup_inv [OF assms(1)] assms(2)]
  by (simp_all add: lock_cleanup_length)

theorem lock_cleanup_unobservable_witness:
  "fst (lock_acquire (snd (lock_cleanup_expired lock_table_init 3)) ''a.txt'' 0 ''bob'' 5) =
     fst (lock_acquire lock_table_init ''a.txt'' 0 ''bob'' 5)"
  using lock_cleanup_unobservable [OF lock_inv_init, of "''a.txt''" 0 "''bob''" 3 5]
  by (simp add: lock_valid_def)

end
