(* ===== verification/Undo_Buffer.thy ===== *)
theory Undo_Buffer
  imports Protocol
begin

text \<open>
  \<^verbatim>\<open>storage_server/undo_buffer.c\<close>: at most one saved version per file, in a chained hash table
  that owns a copy of the bytes. Every function is one atomic step under the table's mutex.
  The outcome of each checked \<open>malloc\<close> is an argument; \<open>None\<close> for a whole result is undefined
  behaviour (a copy from a \<open>NULL\<close> buffer). \<open>undo_service\<close> is the contract the write and undo
  handlers rely on.
\<close>

section \<open>State and operations\<close>

abbreviation UNDO_HASH_SIZE :: nat where "UNDO_HASH_SIZE \<equiv> 509"
abbreviation MAX_UNDO_SIZE :: nat where "MAX_UNDO_SIZE \<equiv> 1024 * 1024"

record UndoEntry =
  ue_filename :: cstring
  ue_content :: "char list option"
  ue_size :: nat
  ue_valid :: bool

record UndoTable =
  ut_buckets :: "nat \<Rightarrow> UndoEntry list"
  ut_entry_count :: int

fun hash_filename_loop :: "32 word \<Rightarrow> cstring \<Rightarrow> 32 word" where
  "hash_filename_loop hash [] = hash"
| "hash_filename_loop hash (c # str) =
     hash_filename_loop ((push_bit 5 hash + hash) + word_of_int (schar c)) str"

definition hash_filename :: "cstring \<Rightarrow> nat" where
  "hash_filename filename = unat (hash_filename_loop 5381 filename) mod UNDO_HASH_SIZE"

definition undo_table_init :: UndoTable where
  "undo_table_init = \<lparr>ut_buckets = (\<lambda>i. []), ut_entry_count = 0\<rparr>"

text \<open>
  \<open>content\<close> is the memory at the caller's pointer, of which \<open>sz\<close> bytes are copied;
  \<open>mem_node\<close> and \<open>mem_content\<close> say whether the two allocations succeed. When the buffer of an
  existing entry cannot be replaced, the old one is gone and the entry still says valid.
\<close>

definition undo_save ::
  "bool \<Rightarrow> bool \<Rightarrow> UndoTable \<Rightarrow> cstring \<Rightarrow> char list \<Rightarrow> nat \<Rightarrow> int \<times> UndoTable" where
  "undo_save mem_node mem_content table filename content sz =
     (if sz > MAX_UNDO_SIZE then (ERR_SERVER_ERROR, table)
      else
        let bucket = hash_filename filename;
            chain = ut_buckets table bucket;
            this = (\<lambda>e. ue_filename e = filename);
            store = (\<lambda>f. table\<lparr>ut_buckets := (ut_buckets table)(bucket := update_first this f chain)\<rparr>)
        in case find this chain of
             Some e \<Rightarrow>
               if \<not> mem_content then
                 (ERR_SERVER_ERROR, store (\<lambda>e. e\<lparr>ue_content := None\<rparr>))
               else
                 (ERR_SUCCESS,
                  store (\<lambda>e. e\<lparr>ue_content := Some (take sz content), ue_size := sz, ue_valid := True\<rparr>))
           | None \<Rightarrow>
               if \<not> mem_node then (ERR_SERVER_ERROR, table)
               else if \<not> mem_content then (ERR_SERVER_ERROR, table)
               else
                 (ERR_SUCCESS,
                  \<lparr>ut_buckets = (ut_buckets table)(bucket :=
                     \<lparr>ue_filename = cbuf MAX_FILENAME_LEN filename, ue_content = Some (take sz content),
                      ue_size = sz, ue_valid = True\<rparr> # chain),
                   ut_entry_count = ut_entry_count table + 1\<rparr>))"

definition undo_restore ::
  "bool \<Rightarrow> UndoTable \<Rightarrow> cstring \<Rightarrow> (int \<times> char list option \<times> UndoTable) option" where
  "undo_restore mem table filename =
     (let bucket = hash_filename filename;
          chain = ut_buckets table bucket;
          this = (\<lambda>e. ue_filename e = filename)
      in case find this chain of
           Some e \<Rightarrow>
             if \<not> ue_valid e then Some (ERR_NOT_FOUND, None, table)
             else if \<not> mem then Some (ERR_SERVER_ERROR, None, table)
             else (case ue_content e of
                     None \<Rightarrow> None
                   | Some bytes \<Rightarrow>
                       Some (ERR_SUCCESS, Some (take (ue_size e) bytes),
                         table\<lparr>ut_buckets := (ut_buckets table)(bucket := update_first this
                           (\<lambda>e. e\<lparr>ue_content := None, ue_size := 0, ue_valid := False\<rparr>) chain)\<rparr>))
         | None \<Rightarrow> Some (ERR_NOT_FOUND, None, table))"

definition undo_available :: "UndoTable \<Rightarrow> cstring \<Rightarrow> bool" where
  "undo_available table filename =
     (case find (\<lambda>e. ue_filename e = filename) (ut_buckets table (hash_filename filename)) of
        Some e \<Rightarrow> ue_valid e
      | None \<Rightarrow> False)"

definition undo_clear_file :: "UndoTable \<Rightarrow> cstring \<Rightarrow> UndoTable" where
  "undo_clear_file table filename =
     (let bucket = hash_filename filename;
          chain = ut_buckets table bucket;
          this = (\<lambda>e. ue_filename e = filename)
      in case find this chain of
           Some e \<Rightarrow>
             \<lparr>ut_buckets = (ut_buckets table)(bucket := remove_first this chain),
              ut_entry_count = ut_entry_count table - 1\<rparr>
         | None \<Rightarrow> table)"

definition undo_table_destroy :: "UndoTable \<Rightarrow> UndoTable" where
  "undo_table_destroy table =
     \<lparr>ut_buckets = (\<lambda>i. if i < UNDO_HASH_SIZE then [] else ut_buckets table i), ut_entry_count = 0\<rparr>"

section \<open>The undo service contract\<close>

text \<open>
  \<open>pending s k\<close> is the version a file can be taken back to. Saving replaces it, restoring
  hands it out once, and neither touches another file.
\<close>

locale undo_service =
  fixes save :: "'s \<Rightarrow> 'k \<Rightarrow> 'v \<Rightarrow> 's"
    and restore :: "'s \<Rightarrow> 'k \<Rightarrow> 'v option \<times> 's"
    and pending :: "'s \<Rightarrow> 'k \<Rightarrow> 'v option"
    and inv :: "'s \<Rightarrow> bool"
    and key_ok :: "'k \<Rightarrow> bool" and val_ok :: "'v \<Rightarrow> bool"
  assumes save_inv: "inv s \<Longrightarrow> key_ok k \<Longrightarrow> val_ok v \<Longrightarrow> inv (save s k v)"
    and save_pending: "inv s \<Longrightarrow> key_ok k \<Longrightarrow> val_ok v \<Longrightarrow> pending (save s k v) = (pending s)(k \<mapsto> v)"
    and restore_inv: "inv s \<Longrightarrow> inv (snd (restore s k))"
    and restore_value: "inv s \<Longrightarrow> fst (restore s k) = pending s k"
    and restore_pending: "inv s \<Longrightarrow> pending (snd (restore s k)) = (pending s)(k := None)"
begin

fun save_all :: "'s \<Rightarrow> ('k \<times> 'v) list \<Rightarrow> 's" where
  "save_all s [] = s"
| "save_all s ((k, v) # kvs) = save_all (save s k v) kvs"

lemma save_all_inv:
  "inv s \<Longrightarrow> list_all (\<lambda>(k, v). key_ok k \<and> val_ok v) kvs \<Longrightarrow> inv (save_all s kvs)"
  by (induction s kvs rule: save_all.induct) (auto intro: save_inv)

lemma save_all_pending:
  "inv s \<Longrightarrow> list_all (\<lambda>(k, v). key_ok k \<and> val_ok v) kvs \<Longrightarrow>
   pending (save_all s kvs) = pending s ++ map_of (rev kvs)"
proof (induction s kvs rule: save_all.induct)
  case (2 s k v kvs)
  then show ?case by (simp add: save_inv save_pending) (simp add: fun_upd_def)
qed simp

lemma restore_after_saves:
  assumes "inv s" and "list_all (\<lambda>(k, v). key_ok k \<and> val_ok v) kvs" and "map_of (rev kvs) k = Some v"
  shows "fst (restore (save_all s kvs) k) = Some v"
    and "fst (restore (snd (restore (save_all s kvs) k)) k) = None"
  using assms save_all_inv [OF assms(1,2)] save_all_pending [OF assms(1,2)]
  by (simp_all add: restore_value restore_pending restore_inv map_add_Some_iff)

end

section \<open>The table implements the contract\<close>

interpretation undo_chain: chained_hash hash_filename ue_filename UNDO_HASH_SIZE
  by unfold_locales (simp add: hash_filename_def)

definition undo_inv :: "UndoTable \<Rightarrow> bool" where
  "undo_inv t \<longleftrightarrow> chain_inv hash_filename ue_filename (ut_buckets t) \<and>
     ut_entry_count t = int (length (chain_entries UNDO_HASH_SIZE (ut_buckets t))) \<and>
     (\<forall>k e. chain_lookup hash_filename ue_filename (ut_buckets t) k = Some e \<longrightarrow> ue_valid e \<longrightarrow>
        (\<exists>bytes. ue_content e = Some bytes \<and> length bytes = ue_size e))"

definition undo_pending :: "UndoTable \<Rightarrow> cstring \<Rightarrow> char list option" where
  "undo_pending t k =
     (case chain_lookup hash_filename ue_filename (ut_buckets t) k of
        None \<Rightarrow> None
      | Some e \<Rightarrow> if ue_valid e then ue_content e else None)"

lemma undo_lookup:
  "find (\<lambda>e. ue_filename e = f) (ut_buckets t (hash_filename f)) =
     chain_lookup hash_filename ue_filename (ut_buckets t) f"
  by (simp add: chain_lookup_def)

lemma undo_inv_init: "undo_inv undo_table_init"
proof -
  have "concat (map (\<lambda>i. []) xs) = []" for xs :: "nat list" by (induction xs) auto
  then show ?thesis
    unfolding undo_inv_def undo_table_init_def chain_entries_def
    by (simp only: undo_chain.inv_empty undo_chain.lookup_empty UndoTable.select_convs) simp
qed

lemma undo_count_update:
  "length (chain_entries UNDO_HASH_SIZE (b(hash_filename k := update_first P f (b (hash_filename k))))) =
   length (chain_entries UNDO_HASH_SIZE b)"
  using undo_chain.length_entries_upd [of b k "update_first P f (b (hash_filename k))"]
  by (simp only: length_update_first)

lemma undo_count_insert:
  "length (chain_entries UNDO_HASH_SIZE (b(hash_filename k := e # b (hash_filename k)))) =
   Suc (length (chain_entries UNDO_HASH_SIZE b))"
  using undo_chain.length_entries_upd [of b k "e # b (hash_filename k)"] by (simp only: list.size)

lemma undo_update_inv:
  assumes inv: "undo_inv t" and key: "\<And>e. ue_filename (f e) = ue_filename e"
    and ok: "\<And>e. ue_valid (f e) \<Longrightarrow> \<exists>bytes. ue_content (f e) = Some bytes \<and> length bytes = ue_size (f e)"
  shows "undo_inv (t\<lparr>ut_buckets := (ut_buckets t)(hash_filename k :=
      update_first (\<lambda>e. ue_filename e = k) f (ut_buckets t (hash_filename k)))\<rparr>)"
  using inv ok unfolding undo_inv_def
  by (auto simp: undo_count_update undo_chain.lookup_update [of f, OF key]
      intro!: undo_chain.inv_update [of _ f, OF _ key] split: if_splits)

lemma undo_save_inv:
  assumes "undo_inv t" and "length f < MAX_FILENAME_LEN" and "sz \<le> length content"
  shows "undo_inv (snd (undo_save True True t f content sz))"
proof (cases "chain_lookup hash_filename ue_filename (ut_buckets t) f")
  case None
  let ?e = "\<lparr>ue_filename = f, ue_content = Some (take sz content), ue_size = sz, ue_valid = True\<rparr>"
  have "chain_inv hash_filename ue_filename ((ut_buckets t)(hash_filename f := ?e # ut_buckets t (hash_filename f)))"
    using assms None by (intro undo_chain.inv_insert) (simp_all add: undo_inv_def)
  with assms None show ?thesis
    by (auto simp: undo_save_def undo_lookup Let_def cbuf_id undo_inv_def undo_count_insert
        undo_chain.lookup_insert)
next
  case (Some e)
  with assms show ?thesis
    by (auto simp: undo_save_def undo_lookup Let_def intro!: undo_update_inv)
qed

lemma undo_save_pending:
  assumes "length f < MAX_FILENAME_LEN" and "sz \<le> MAX_UNDO_SIZE"
  shows "undo_pending (snd (undo_save True True t f content sz)) = (undo_pending t)(f \<mapsto> take sz content)"
  using assms by (cases "chain_lookup hash_filename ue_filename (ut_buckets t) f")
    (auto simp: undo_save_def undo_lookup Let_def cbuf_id undo_pending_def fun_eq_iff
      undo_chain.lookup_insert undo_chain.lookup_update)

lemma undo_restore_eq:
  assumes "undo_inv t"
  shows "undo_restore True t f =
    Some (case undo_pending t f of
            None \<Rightarrow> (ERR_NOT_FOUND, None, t)
          | Some bytes \<Rightarrow> (ERR_SUCCESS, Some bytes,
              t\<lparr>ut_buckets := (ut_buckets t)(hash_filename f := update_first (\<lambda>e. ue_filename e = f)
                (\<lambda>e. e\<lparr>ue_content := None, ue_size := 0, ue_valid := False\<rparr>) (ut_buckets t (hash_filename f)))\<rparr>))"
proof (cases "chain_lookup hash_filename ue_filename (ut_buckets t) f")
  case (Some e)
  show ?thesis
  proof (cases "ue_valid e")
    case True
    with assms Some obtain bytes where "ue_content e = Some bytes" "length bytes = ue_size e"
      by (auto simp: undo_inv_def)
    with Some True show ?thesis
      by (simp add: undo_restore_def undo_lookup Let_def undo_pending_def)
  qed (use Some in \<open>simp add: undo_restore_def undo_lookup Let_def undo_pending_def\<close>)
qed (simp add: undo_restore_def undo_lookup Let_def undo_pending_def)

text \<open>The table as a service: allocation succeeds and the whole buffer is saved.\<close>

definition undo_save_ok :: "UndoTable \<Rightarrow> cstring \<Rightarrow> char list \<Rightarrow> UndoTable" where
  "undo_save_ok t f bytes = snd (undo_save True True t f bytes (length bytes))"

definition undo_restore_ok :: "UndoTable \<Rightarrow> cstring \<Rightarrow> char list option \<times> UndoTable" where
  "undo_restore_ok t f =
     (case undo_restore True t f of Some (code, out, t') \<Rightarrow> (out, t') | None \<Rightarrow> (None, t))"

interpretation undo_buffer: undo_service undo_save_ok undo_restore_ok undo_pending undo_inv
  "\<lambda>f. length f < MAX_FILENAME_LEN" "\<lambda>bytes. length bytes \<le> MAX_UNDO_SIZE"
proof unfold_locales
  fix t f and bytes :: "char list"
  assume inv: "undo_inv t"
  show "fst (undo_restore_ok t f) = undo_pending t f"
    by (simp add: undo_restore_ok_def undo_restore_eq [OF inv] split: option.split)
  show "undo_inv (snd (undo_restore_ok t f))"
    using inv by (auto simp: undo_restore_ok_def undo_restore_eq [OF inv] split: option.split
        intro!: undo_update_inv)
  show "undo_pending (snd (undo_restore_ok t f)) = (undo_pending t)(f := None)"
    by (auto simp: undo_restore_ok_def undo_restore_eq [OF inv] fun_eq_iff split: option.split)
      (auto simp: undo_pending_def undo_chain.lookup_update split: option.splits)
  assume "length f < MAX_FILENAME_LEN" and len: "length bytes \<le> MAX_UNDO_SIZE"
  then show "undo_inv (undo_save_ok t f bytes)"
    and "undo_pending (undo_save_ok t f bytes) = (undo_pending t)(f \<mapsto> bytes)"
    using inv by (simp_all add: undo_save_ok_def undo_save_inv undo_save_pending)
qed

section \<open>Properties\<close>

fun undo_saves :: "UndoTable \<Rightarrow> (cstring \<times> char list) list \<Rightarrow> UndoTable" where
  "undo_saves t [] = t"
| "undo_saves t ((f, bytes) # rest) = undo_saves (snd (undo_save True True t f bytes (length bytes))) rest"

lemma undo_saves_eq: "undo_saves t saves = undo_buffer.save_all t saves"
  by (induction t saves rule: undo_saves.induct) (simp_all flip: undo_save_ok_def)

lemma undo_available_iff:
  assumes "undo_inv t"
  shows "undo_available t f \<longleftrightarrow> undo_pending t f \<noteq> None"
proof (cases "chain_lookup hash_filename ue_filename (ut_buckets t) f")
  case (Some e)
  with assms have "ue_valid e \<Longrightarrow> ue_content e \<noteq> None" by (auto simp: undo_inv_def)
  with Some show ?thesis by (auto simp: undo_available_def undo_lookup undo_pending_def)
qed (simp add: undo_available_def undo_lookup undo_pending_def)

lemma undo_restore_run:
  assumes "undo_inv t" and "undo_pending t f = Some bytes"
  shows "\<exists>t'. undo_restore True t f = Some (ERR_SUCCESS, Some bytes, t') \<and> undo_inv t' \<and>
    undo_pending t' = (undo_pending t)(f := None)"
  using undo_buffer.restore_inv [OF assms(1), of f] undo_buffer.restore_pending [OF assms(1), of f] assms(2)
  by (simp add: undo_restore_ok_def undo_restore_eq [OF assms(1)])

text \<open>
  Undo round trip: after any saves of any files, \<open>undo_restore\<close> of a file returns exactly
  the bytes of that file's last save, and a second \<open>undo_restore\<close> finds nothing: an undo can be
  taken once.
\<close>

theorem undo_restore_after_saves:
  assumes "undo_inv t"
    and "list_all (\<lambda>(f, bytes). length f < MAX_FILENAME_LEN \<and> length bytes \<le> MAX_UNDO_SIZE) saves"
    and "map_of (rev saves) f = Some bytes"
  shows "\<exists>t'. undo_restore True (undo_saves t saves) f = Some (ERR_SUCCESS, Some bytes, t') \<and>
    undo_restore True t' f = Some (ERR_NOT_FOUND, None, t') \<and> \<not> undo_available t' f"
proof -
  let ?s = "undo_saves t saves"
  have "undo_inv ?s" and "undo_pending ?s f = Some bytes"
    using assms undo_buffer.save_all_inv [OF assms(1,2)] undo_buffer.save_all_pending [OF assms(1,2)]
    by (simp_all add: undo_saves_eq map_add_Some_iff)
  then obtain t' where t': "undo_restore True ?s f = Some (ERR_SUCCESS, Some bytes, t')"
    "undo_inv t'" "undo_pending t' f = None"
    using undo_restore_run by fastforce
  moreover have "\<not> undo_available t' f"
    using t'(3) by (simp add: undo_available_iff [OF t'(2)])
  ultimately show ?thesis by (simp add: undo_restore_eq [OF t'(2)])
qed

theorem undo_restore_after_saves_witness:
  "\<exists>t'. undo_restore True (undo_saves undo_table_init
      [(''a.txt'', ''one''), (''b.txt'', ''two''), (''a.txt'', ''three'')]) ''a.txt'' =
        Some (ERR_SUCCESS, Some ''three'', t') \<and>
     undo_restore True t' ''a.txt'' = Some (ERR_NOT_FOUND, None, t') \<and> \<not> undo_available t' ''a.txt''"
  by (rule undo_restore_after_saves [OF undo_inv_init]) simp_all

text \<open>
  The failed replacement: when the buffer for a new version of a file that already has an
  undo cannot be allocated, \<open>undo_save\<close> reports \<open>ERR_SERVER_ERROR\<close> but leaves the entry marked
  valid with no content, so the next \<open>undo_restore\<close> of that file copies from \<open>NULL\<close>.
\<close>

theorem undo_save_failed_allocation:
  assumes "undo_inv t" and "undo_pending t f = Some old" and "sz \<le> MAX_UNDO_SIZE"
  shows "fst (undo_save mem_node False t f content sz) = ERR_SERVER_ERROR \<and>
    undo_available (snd (undo_save mem_node False t f content sz)) f \<and>
    undo_restore True (snd (undo_save mem_node False t f content sz)) f = None"
proof -
  obtain e where e: "chain_lookup hash_filename ue_filename (ut_buckets t) f = Some e" "ue_valid e"
    using assms(2) by (auto simp: undo_pending_def split: option.splits if_splits)
  then show ?thesis using assms(3)
    by (simp add: undo_save_def undo_restore_def undo_available_def undo_lookup Let_def
        find_update_first_same)
qed

theorem undo_save_failed_allocation_witness:
  "undo_restore True (snd (undo_save True False (undo_saves undo_table_init [(''a.txt'', ''one'')])
     ''a.txt'' ''two'' 3)) ''a.txt'' = None"
proof -
  have "undo_inv (undo_saves undo_table_init [(''a.txt'', ''one'')])"
    and "undo_pending (undo_saves undo_table_init [(''a.txt'', ''one'')]) ''a.txt'' = Some ''one''"
    by (simp_all add: undo_save_inv undo_inv_init undo_save_pending)
  from undo_save_failed_allocation [OF this, of 3 True "''two''"] show ?thesis by simp
qed

end
