(* ===== verification/Inverted_Index.thy ===== *)
theory Inverted_Index
  imports Protocol
begin

text \<open>
  \<^verbatim>\<open>storage_server/inverted_index.c\<close>: the content search index, a chained hash table from
  lower-case words to the files that contain them. A \<open>FileList\<close> (array and \<open>file_count\<close>) is the
  list of its first \<open>file_count\<close> names. File names are the C strings of fewer than 255
  characters: the \<open>strncpy\<close> of this module leaves a longer one without its NUL. The contract
  \<open>posting_store\<close> is what indexing a whole file needs of the word table.
\<close>

section \<open>State and operations\<close>

abbreviation MAX_WORD_LEN :: nat where "MAX_WORD_LEN \<equiv> 100"
abbreviation MAX_FILES_PER_WORD :: nat where "MAX_FILES_PER_WORD \<equiv> 50"
abbreviation INDEX_SIZE :: nat where "INDEX_SIZE \<equiv> 2003"

record IndexNode =
  in_word :: cstring
  in_files :: "cstring list"

record InvertedIndex =
  ix_table :: "nat \<Rightarrow> IndexNode list"

fun hash_word_loop :: "64 word \<Rightarrow> cstring \<Rightarrow> 64 word" where
  "hash_word_loop hash [] = hash"
| "hash_word_loop hash (c # word) =
     hash_word_loop ((push_bit 5 hash + hash) + word_of_int (schar (tolower c))) word"

definition hash_word :: "cstring \<Rightarrow> nat" where
  "hash_word word = unat (hash_word_loop 5381 word) mod INDEX_SIZE"

definition to_lowercase :: "cstring \<Rightarrow> cstring" where
  "to_lowercase src = map tolower (take (MAX_WORD_LEN - 1) src)"

definition is_separator :: "char \<Rightarrow> bool" where
  "is_separator c \<longleftrightarrow> \<not> isalnum c"

definition index_init :: InvertedIndex where
  "index_init = \<lparr>ix_table = (\<lambda>i. [])\<rparr>"

text \<open>\<open>mem\<close> is whether the node for a new word can be allocated.\<close>

definition index_add_word ::
  "bool \<Rightarrow> InvertedIndex \<Rightarrow> cstring \<Rightarrow> cstring \<Rightarrow> int \<times> InvertedIndex" where
  "index_add_word mem index word filename =
     (if word = [] then (- 1, index)
      else
        let normalized_word = to_lowercase word;
            h = hash_word normalized_word;
            chain = ix_table index h;
            this = (\<lambda>n. in_word n = normalized_word);
            store = (\<lambda>c. index\<lparr>ix_table := (ix_table index)(h := c)\<rparr>)
        in case find this chain of
             Some node \<Rightarrow>
               if filename \<in> set (in_files node) then (0, index)
               else if length (in_files node) < MAX_FILES_PER_WORD then
                 (0, store (update_first this
                   (\<lambda>n. n\<lparr>in_files := in_files n @ [cbuf MAX_FILENAME_LEN filename]\<rparr>) chain))
               else (- 1, index)
           | None \<Rightarrow>
               if \<not> mem then (- 1, index)
               else
                 let new_node = \<lparr>in_word = cbuf MAX_WORD_LEN normalized_word,
                                 in_files = [cbuf MAX_FILENAME_LEN filename]\<rparr>
                 in (0, store (if chain = [] then new_node # chain else chain @ [new_node])))"

fun remove_from_chain :: "cstring \<Rightarrow> IndexNode list \<Rightarrow> IndexNode list \<times> nat" where
  "remove_from_chain filename [] = ([], 0)"
| "remove_from_chain filename (current # rest) =
     (let (rest', removed) = remove_from_chain filename rest
      in if filename \<in> set (in_files current) then
           (let files = remove1 filename (in_files current)
            in if files = [] then (rest', Suc removed)
               else (current\<lparr>in_files := files\<rparr> # rest', Suc removed))
         else (current # rest', removed))"

definition index_remove_file :: "InvertedIndex \<Rightarrow> cstring \<Rightarrow> nat \<times> InvertedIndex" where
  "index_remove_file index filename =
     (sum_list (map (\<lambda>i. snd (remove_from_chain filename (ix_table index i))) [0..<INDEX_SIZE]),
      index\<lparr>ix_table := (\<lambda>i. if i < INDEX_SIZE then fst (remove_from_chain filename (ix_table index i))
                              else ix_table index i)\<rparr>)"

fun join_lines :: "cstring list \<Rightarrow> cstring" where
  "join_lines [] = []"
| "join_lines [f] = f"
| "join_lines (f # fs) = f @ [CHR 0x0A] @ join_lines fs"

text \<open>
  The names are concatenated into a buffer of \<open>MAX_CONTENT_LEN\<close> bytes without a bound check;
  \<open>None\<close> is the overrun.
\<close>

definition index_search :: "InvertedIndex \<Rightarrow> cstring \<Rightarrow> (nat \<times> cstring) option" where
  "index_search index word =
     (let normalized_word = to_lowercase word
      in case find (\<lambda>n. in_word n = normalized_word) (ix_table index (hash_word normalized_word)) of
           Some node \<Rightarrow>
             let result = join_lines (in_files node)
             in if length result < MAX_CONTENT_LEN then Some (length (in_files node), result) else None
         | None \<Rightarrow> Some (0, ''No files found containing this word''))"

text \<open>
  The scan of \<open>index_file\<close>: the word collected so far, the count, the rest of the buffer. \<open>mem n\<close> is
  whether a node could be allocated for the word counted as number \<open>n\<close>; a failure is not noticed.
\<close>

fun index_scan ::
  "(nat \<Rightarrow> bool) \<Rightarrow> InvertedIndex \<Rightarrow> cstring \<Rightarrow> cstring \<Rightarrow> nat \<Rightarrow> cstring \<Rightarrow> nat \<times> InvertedIndex" where
  "index_scan mem index filename word words_indexed [] =
     (if length word > 0 \<and> length word \<ge> 2 then
        (Suc words_indexed, snd (index_add_word (mem words_indexed) index word filename))
      else (words_indexed, index))"
| "index_scan mem index filename word words_indexed (c # buffer) =
     (if is_separator c then
        (if length word > 0 then
           (if length word \<ge> 2 then
              index_scan mem (snd (index_add_word (mem words_indexed) index word filename)) filename [] (Suc words_indexed) buffer
            else index_scan mem index filename [] words_indexed buffer)
         else index_scan mem index filename word words_indexed buffer)
      else if length word < MAX_WORD_LEN - 1 then
        index_scan mem index filename (word @ [c]) words_indexed buffer
      else index_scan mem index filename word words_indexed buffer)"

definition index_file :: "(nat \<Rightarrow> bool) \<Rightarrow> InvertedIndex \<Rightarrow> cstring \<Rightarrow> cstring \<Rightarrow> nat \<times> InvertedIndex" where
  "index_file mem index filename content =
     (if content = [] then (0, index)
      else index_scan mem (snd (index_remove_file index filename)) filename [] 0
             (cbuf MAX_CONTENT_LEN content))"

definition index_destroy :: "InvertedIndex \<Rightarrow> InvertedIndex" where
  "index_destroy index =
     index\<lparr>ix_table := (\<lambda>i. if i < INDEX_SIZE then [] else ix_table index i)\<rparr>"

section \<open>The posting store contract\<close>

text \<open>
  A posting store gives every word the list of its files. Adding appends a file to one word's
  list unless it is there or the list is full; removing takes a file off every list.
\<close>

locale posting_store =
  fixes add :: "'s \<Rightarrow> 'w \<Rightarrow> 'f \<Rightarrow> 's"
    and remove :: "'s \<Rightarrow> 'f \<Rightarrow> 's"
    and postings :: "'s \<Rightarrow> 'w \<Rightarrow> 'f list"
    and inv :: "'s \<Rightarrow> bool"
    and word_ok :: "'w \<Rightarrow> bool" and file_ok :: "'f \<Rightarrow> bool"
    and norm :: "'w \<Rightarrow> 'w" and limit :: nat
  assumes add_inv: "inv s \<Longrightarrow> word_ok w \<Longrightarrow> file_ok f \<Longrightarrow> inv (add s w f)"
    and add_postings: "inv s \<Longrightarrow> word_ok w \<Longrightarrow> file_ok f \<Longrightarrow>
      postings (add s w f) = (postings s)(norm w :=
        if f \<in> set (postings s (norm w)) \<or> limit \<le> length (postings s (norm w)) then postings s (norm w)
        else postings s (norm w) @ [f])"
    and remove_inv: "inv s \<Longrightarrow> inv (remove s f)"
    and remove_postings: "inv s \<Longrightarrow> postings (remove s f) w = remove1 f (postings s w)"
    and postings_distinct: "inv s \<Longrightarrow> distinct (postings s w)"
begin

fun add_all :: "'s \<Rightarrow> 'f \<Rightarrow> 'w list \<Rightarrow> 's" where
  "add_all s f [] = s"
| "add_all s f (w # ws) = add_all (add s w f) f ws"

lemma add_all_inv: "inv s \<Longrightarrow> file_ok f \<Longrightarrow> list_all word_ok ws \<Longrightarrow> inv (add_all s f ws)"
  by (induction s f ws rule: add_all.induct) (auto intro: add_inv)

text \<open>With room on every list, a file is on exactly the lists of its words, and the lists keep
  their other files in order.\<close>

lemma add_all_postings:
  "inv s \<Longrightarrow> file_ok f \<Longrightarrow> list_all word_ok ws \<Longrightarrow> (\<And>w. length (remove1 f (postings s w)) < limit) \<Longrightarrow>
   postings (add_all s f ws) w =
     (if f \<in> set (postings s w) \<or> w \<notin> norm ` set ws then postings s w else postings s w @ [f])"
proof (induction s f ws rule: add_all.induct)
  case (2 s f w' ws)
  let ?s = "add s w' f"
  have inv: "inv ?s" and p: "postings ?s = (postings s)(norm w' :=
        if f \<in> set (postings s (norm w')) then postings s (norm w') else postings s (norm w') @ [f])"
    using "2.prems"(1-3) "2.prems"(4) [of "norm w'"]
    by (auto simp: add_inv add_postings remove1_idem)
  have room: "length (remove1 f (postings ?s v)) < limit" for v
    using "2.prems"(4) [of v] by (auto simp: p remove1_append remove1_idem)
  from "2.IH" [OF inv _ _ room] "2.prems"(2,3) show ?case
    by (auto simp: p)
qed simp

lemma reindex_postings:
  assumes "inv s" and "file_ok f" and "list_all word_ok ws"
    and "\<And>w. length (remove1 f (postings s w)) < limit"
  shows "postings (add_all (remove s f) f ws) w =
    (if w \<in> norm ` set ws then remove1 f (postings s w) @ [f] else remove1 f (postings s w))"
proof -
  have twice: "remove1 f (postings (remove s f) v) = remove1 f (postings s v)" for v
    using postings_distinct [OF assms(1), of v]
    by (simp add: remove_postings [OF assms(1)] remove1_idem)
  have "f \<notin> set (postings (remove s f) w)"
    using postings_distinct [OF assms(1), of w] by (simp add: remove_postings [OF assms(1)])
  moreover have "length (remove1 f (postings (remove s f) v)) < limit" for v
    unfolding twice by (rule assms(4))
  note add_all_postings [OF remove_inv [OF assms(1), of f] assms(2,3) this, of w]
  ultimately show ?thesis by (simp add: remove_postings [OF assms(1)])
qed

end

section \<open>The table implements the contract\<close>

interpretation index_chain: chained_hash hash_word in_word INDEX_SIZE
  by unfold_locales (simp add: hash_word_def)

definition node_ok :: "IndexNode \<Rightarrow> bool" where
  "node_ok n \<longleftrightarrow> in_files n \<noteq> [] \<and> distinct (in_files n) \<and> length (in_files n) \<le> MAX_FILES_PER_WORD"

definition index_inv :: "InvertedIndex \<Rightarrow> bool" where
  "index_inv ix \<longleftrightarrow> chain_inv hash_word in_word (ix_table ix) \<and>
     (\<forall>i. list_all node_ok (ix_table ix i))"

definition index_postings :: "InvertedIndex \<Rightarrow> cstring \<Rightarrow> cstring list" where
  "index_postings ix w =
     (case chain_lookup hash_word in_word (ix_table ix) w of None \<Rightarrow> [] | Some n \<Rightarrow> in_files n)"

lemma index_lookup:
  "find (\<lambda>n. in_word n = w) (ix_table ix (hash_word w)) = chain_lookup hash_word in_word (ix_table ix) w"
  by (simp add: chain_lookup_def)

lemma index_inv_init: "index_inv index_init"
  by (simp add: index_inv_def index_init_def index_chain.inv_empty)

lemma index_inv_node: "index_inv ix \<Longrightarrow> chain_lookup hash_word in_word (ix_table ix) w = Some n \<Longrightarrow> node_ok n"
  by (auto simp: index_inv_def chain_lookup_def list_all_iff dest: find_Some_in)

lemma length_to_lowercase: "length (to_lowercase w) < MAX_WORD_LEN"
  by (simp add: to_lowercase_def)

lemma list_all_update_first:
  "list_all P xs \<Longrightarrow> (\<And>x. find Q xs = Some x \<Longrightarrow> P (f x)) \<Longrightarrow> list_all P (update_first Q f xs)"
  by (induction xs) (auto split: if_splits)

lemma index_add_word_inv:
  assumes inv: "index_inv ix" and "length f < MAX_FILENAME_LEN - 1"
  shows "index_inv (snd (index_add_word mem ix w f))"
proof (cases "chain_lookup hash_word in_word (ix_table ix) (to_lowercase w)")
  case None
  let ?h = "hash_word (to_lowercase w)"
  let ?n = "\<lparr>in_word = to_lowercase w, in_files = [f]\<rparr>"
  have chain: "chain_inv hash_word in_word ((ix_table ix)(?h := ix_table ix ?h @ [?n]))"
    using inv None by (intro index_chain.inv_append) (simp_all add: index_inv_def)
  have "snd (index_add_word mem ix w f) = (if w = [] \<or> \<not> mem then ix
      else ix\<lparr>ix_table := (ix_table ix)(?h := ix_table ix ?h @ [?n])\<rparr>)"
    using None assms(2) by (simp add: index_add_word_def index_lookup Let_def cbuf_id length_to_lowercase)
  with inv chain show ?thesis by (simp add: index_inv_def node_ok_def)
next
  case (Some n)
  let ?h = "hash_word (to_lowercase w)"
  let ?f = "\<lambda>n. n\<lparr>in_files := in_files n @ [f]\<rparr>"
  let ?c = "update_first (\<lambda>n. in_word n = to_lowercase w) ?f (ix_table ix ?h)"
  have "chain_inv hash_word in_word ((ix_table ix)(?h := ?c))"
    using inv by (intro index_chain.inv_update) (simp_all add: index_inv_def)
  moreover have "list_all node_ok ?c" if "f \<notin> set (in_files n)" "length (in_files n) < MAX_FILES_PER_WORD"
    using inv that index_inv_node [OF inv Some] Some
    by (intro list_all_update_first) (auto simp: index_inv_def index_lookup node_ok_def)
  ultimately show ?thesis using inv Some assms(2)
    by (auto simp: index_add_word_def index_lookup Let_def cbuf_id index_inv_def)
qed

lemma index_add_word_postings:
  assumes inv: "index_inv ix" and "length f < MAX_FILENAME_LEN - 1" and "w \<noteq> []"
  shows "index_postings (snd (index_add_word True ix w f)) = (index_postings ix)(to_lowercase w :=
      if f \<in> set (index_postings ix (to_lowercase w)) \<or>
         MAX_FILES_PER_WORD \<le> length (index_postings ix (to_lowercase w))
      then index_postings ix (to_lowercase w) else index_postings ix (to_lowercase w) @ [f])"
proof (cases "chain_lookup hash_word in_word (ix_table ix) (to_lowercase w)")
  case None
  let ?h = "hash_word (to_lowercase w)"
  let ?n = "\<lparr>in_word = to_lowercase w, in_files = [f]\<rparr>"
  have "snd (index_add_word True ix w f) = ix\<lparr>ix_table := (ix_table ix)(?h := ix_table ix ?h @ [?n])\<rparr>"
    using None assms(2,3) by (simp add: index_add_word_def index_lookup Let_def cbuf_id length_to_lowercase)
  with None show ?thesis
    by (auto simp: index_postings_def index_chain.lookup_append fun_eq_iff)
next
  case (Some n)
  with assms show ?thesis
    by (auto simp: index_add_word_def index_lookup Let_def cbuf_id index_postings_def
        index_chain.lookup_update fun_eq_iff)
qed

lemma remove_from_chain_eq:
  "list_all node_ok c \<Longrightarrow>
   fst (remove_from_chain f c) =
     filter (\<lambda>n. in_files n \<noteq> []) (map (\<lambda>n. n\<lparr>in_files := remove1 f (in_files n)\<rparr>) c)"
  by (induction c) (auto simp: Let_def case_prod_beta node_ok_def remove1_idem)

lemma index_remove_table:
  assumes "index_inv ix"
  shows "ix_table (snd (index_remove_file ix f)) i =
    filter (\<lambda>n. in_files n \<noteq> []) (map (\<lambda>n. n\<lparr>in_files := remove1 f (in_files n)\<rparr>) (ix_table ix i))"
proof -
  have ok: "list_all node_ok (ix_table ix i)" and inv: "chain_inv hash_word in_word (ix_table ix)"
    using assms by (simp_all add: index_inv_def)
  have "ix_table ix i = []" if "\<not> i < INDEX_SIZE"
    using chain_inv_hash [OF inv, of _ i] index_chain.hash_bound that by (cases "ix_table ix i") auto
  with remove_from_chain_eq [OF ok] show ?thesis by (simp add: index_remove_file_def)
qed

lemma node_ok_remove1:
  "node_ok n \<Longrightarrow> remove1 f (in_files n) \<noteq> [] \<Longrightarrow> node_ok (n\<lparr>in_files := remove1 f (in_files n)\<rparr>)"
  by (auto simp: node_ok_def length_remove1)

lemma index_remove_file_inv:
  assumes "index_inv ix"
  shows "index_inv (snd (index_remove_file ix f))"
  unfolding index_inv_def
proof (intro conjI allI chain_invI)
  fix i
  let ?c = "ix_table (snd (index_remove_file ix f)) i"
  have ok: "list_all node_ok (ix_table ix i)" and inv: "chain_inv hash_word in_word (ix_table ix)"
    using assms by (simp_all add: index_inv_def)
  have "distinct (map in_word (map (\<lambda>n. n\<lparr>in_files := remove1 f (in_files n)\<rparr>) (ix_table ix i)))"
    using chain_inv_distinct [OF inv, of i] by (simp add: comp_def)
  then show "distinct (map in_word ?c)"
    unfolding index_remove_table [OF assms] by (rule distinct_map_filter)
  show "hash_word (in_word n) = i" if "n \<in> set ?c" for n
    using that chain_inv_hash [OF inv, of _ i] by (auto simp: index_remove_table [OF assms])
  show "list_all node_ok ?c"
    using ok unfolding index_remove_table [OF assms]
    by (auto simp: list_all_iff intro: node_ok_remove1)
qed

lemma index_remove_file_postings:
  assumes "index_inv ix"
  shows "index_postings (snd (index_remove_file ix f)) w = remove1 f (index_postings ix w)"
proof -
  let ?b = "ix_table ix (hash_word w)"
  let ?g = "\<lambda>n. n\<lparr>in_files := remove1 f (in_files n)\<rparr>"
  have inv: "chain_inv hash_word in_word (ix_table ix)" using assms by (simp add: index_inv_def)
  have d: "distinct (map in_word (map ?g ?b))"
    using chain_inv_distinct [OF inv, of "hash_word w"] by (simp add: comp_def)
  have g: "find (\<lambda>n. in_word n = w) (map ?g c) = map_option ?g (find (\<lambda>n. in_word n = w) c)" for c
    by (induction c) auto
  show ?thesis
    by (auto simp: g index_postings_def chain_lookup_def index_remove_table [OF assms] find_filter_key [OF d]
        split: option.split)
qed

interpretation word_index: posting_store
  "\<lambda>ix w f. snd (index_add_word True ix w f)" "\<lambda>ix f. snd (index_remove_file ix f)" index_postings index_inv
  "\<lambda>w. w \<noteq> []" "\<lambda>f. length f < MAX_FILENAME_LEN - 1" to_lowercase MAX_FILES_PER_WORD
proof unfold_locales
  fix ix w
  assume inv: "index_inv ix"
  show "distinct (index_postings ix w)"
    using index_inv_node [OF inv, of w] by (auto simp: index_postings_def node_ok_def split: option.split)
qed (simp_all add: index_add_word_inv index_add_word_postings index_remove_file_inv index_remove_file_postings)

section \<open>The words of a file\<close>

text \<open>
  The reference: the maximal alphanumeric runs of the first \<open>MAX_CONTENT_LEN - 1\<close> characters,
  those of at least two characters, each cut to \<open>MAX_WORD_LEN - 1\<close>.
\<close>

definition tokens :: "cstring \<Rightarrow> cstring list" where
  "tokens s = map (take (MAX_WORD_LEN - 1)) (filter (\<lambda>r. 2 \<le> length r) (runs isalnum s))"

definition index_words :: "cstring \<Rightarrow> cstring list" where
  "index_words content = tokens (cbuf MAX_CONTENT_LEN content)"

lemma index_scan_eq:
  "\<forall>c\<in>set r. isalnum c \<Longrightarrow>
   index_scan (\<lambda>_. True) ix f (take (MAX_WORD_LEN - 1) r) n s =
     (n + length (tokens (r @ s)), word_index.add_all ix f (tokens (r @ s)))"
proof (induction s arbitrary: r ix n)
  case Nil
  then show ?case
    by (cases "r = []") (auto simp: tokens_def runs_all)
next
  case (Cons c s)
  show ?case
  proof (cases "isalnum c")
    case True
    have "index_scan (\<lambda>_. True) ix f (take 99 r) n (c # s) = index_scan (\<lambda>_. True) ix f (take 99 (r @ [c])) n s"
      using True by (auto simp: is_separator_def)
    also have "\<dots> = (n + length (tokens ((r @ [c]) @ s)), word_index.add_all ix f (tokens ((r @ [c]) @ s)))"
      using Cons.IH [of "r @ [c]" ix n] Cons.prems True by simp
    finally show ?thesis by simp
  next
    case False
    then have runs: "runs isalnum (r @ c # s) = (if r = [] then runs isalnum s else r # runs isalnum s)"
      using Cons.prems by (rule runs_sep)
    show ?thesis
      using Cons.IH [of "[]"] False
      by (auto simp: tokens_def runs is_separator_def)
  qed
qed

lemma tokens_nonempty: "w \<in> set (tokens s) \<Longrightarrow> w \<noteq> []"
  by (auto simp: tokens_def)

lemma index_file_eq:
  assumes "content \<noteq> []"
  shows "index_file (\<lambda>_. True) ix f content =
    (length (index_words content),
     word_index.add_all (snd (index_remove_file ix f)) f (index_words content))"
  using index_scan_eq [of "[]" "snd (index_remove_file ix f)" f 0 "cbuf MAX_CONTENT_LEN content"] assms
  by (simp add: index_file_def index_words_def)

text \<open>The early return for empty content leaves the entries of the old content in place.\<close>

lemma index_file_empty: "index_file mem ix f [] = (0, ix)"
  by (simp add: index_file_def)

lemma index_words_ok: "list_all (\<lambda>w. w \<noteq> []) (index_words content)"
  using tokens_nonempty by (auto simp: list_all_iff index_words_def)

lemma index_scan_inv:
  "length f < MAX_FILENAME_LEN - 1 \<Longrightarrow> index_inv ix \<Longrightarrow> index_inv (snd (index_scan mem ix f w n s))"
  by (induction mem ix f w n s rule: index_scan.induct) (simp_all add: index_add_word_inv)

lemma index_file_inv:
  assumes "index_inv ix" and "length f < MAX_FILENAME_LEN - 1"
  shows "index_inv (snd (index_file mem ix f content))"
  using assms by (simp add: index_file_def index_scan_inv index_remove_file_inv)

text \<open>
  C33. Indexing a file is exact where its content is not empty: it reports the number of its words,
  and afterwards the file is at the end of the list of each of its lower-cased words and on no
  other list, while every list keeps its other files in their order. The lists must have room (a
  list of 50 files takes no further one), and memory for new words be available. Indexing an
  emptied file changes nothing: it stays on the lists of its old words.
\<close>

theorem index_file_exact:
  assumes "index_inv ix" and "length f < MAX_FILENAME_LEN - 1"
    and "\<And>w. length (remove1 f (index_postings ix w)) < MAX_FILES_PER_WORD" and "\<And>n. mem n"
  shows "fst (index_file mem ix f content) = length (index_words content) \<and>
    index_postings (snd (index_file mem ix f content)) w =
      (if content = [] then index_postings ix w
       else remove1 f (index_postings ix w) @
         (if w \<in> to_lowercase ` set (index_words content) then [f] else []))"
proof -
  have "mem = (\<lambda>_. True)" using assms(4) by (simp add: fun_eq_iff)
  moreover have "index_words [] = []" by (simp add: index_words_def tokens_def runs_none cbuf_def)
  ultimately show ?thesis using word_index.reindex_postings [of ix f "index_words content" w] assms(1-3)
    by (cases "content = []") (simp_all add: index_file_eq index_words_ok index_file_empty)
qed

definition sample_index :: InvertedIndex where
  "sample_index = snd (index_file (\<lambda>_. True) index_init ''a.txt'' ''One two. x TWO'')"

lemma sample_index_inv: "index_inv sample_index"
  unfolding sample_index_def by (rule index_file_inv [OF index_inv_init]) simp

lemma index_postings_init: "index_postings index_init w = []"
  by (simp add: index_postings_def index_init_def index_chain.lookup_empty)

text \<open>A file is indexed, and found under its words also after it was emptied.\<close>

theorem index_file_exact_witness:
  "fst (index_file (\<lambda>_. True) index_init ''a.txt'' ''One two. x TWO'') = length (index_words ''One two. x TWO'') \<and>
   index_postings sample_index ''two'' =
     (if ''two'' \<in> to_lowercase ` set (index_words ''One two. x TWO'') then [''a.txt''] else []) \<and>
   index_postings (snd (index_file (\<lambda>_. True) sample_index ''a.txt'' [])) ''two'' = index_postings sample_index ''two''"
proof -
  have one: "fst (index_file (\<lambda>_. True) index_init ''a.txt'' ''One two. x TWO'') = length (index_words ''One two. x TWO'') \<and>
    index_postings (snd (index_file (\<lambda>_. True) index_init ''a.txt'' ''One two. x TWO'')) w =
      (if ''One two. x TWO'' = [] then index_postings index_init w
       else remove1 ''a.txt'' (index_postings index_init w) @
         (if w \<in> to_lowercase ` set (index_words ''One two. x TWO'') then [''a.txt''] else []))" for w
    by (rule index_file_exact [OF index_inv_init]) (simp_all add: index_postings_init)
  have "length (remove1 ''a.txt'' (index_postings sample_index w)) < MAX_FILES_PER_WORD" for w
    using one [of w] by (simp add: sample_index_def index_postings_init)
  from index_file_exact [OF sample_index_inv _ this, of "\<lambda>_. True" "[]" "''two''"] one [of "''two''"] show ?thesis
    by (simp add: sample_index_def index_postings_init)
qed

text \<open>
  A search answers from the list of the lower-cased word: a word on no list gives the
  count 0 and the fixed text; otherwise the answer is the number of files and their names
  joined by line feeds, as long as these fit the reply buffer (the code does not check this).
\<close>

theorem index_search_answers:
  assumes "index_inv ix"
  shows "index_search ix q =
    (let files = index_postings ix (to_lowercase q)
     in if files = [] then Some (0, ''No files found containing this word'')
        else if length (join_lines files) < MAX_CONTENT_LEN then Some (length files, join_lines files)
        else None)"
proof (cases "chain_lookup hash_word in_word (ix_table ix) (to_lowercase q)")
  case None
  then show ?thesis by (simp add: index_search_def index_lookup Let_def index_postings_def)
next
  case (Some n)
  with index_inv_node [OF assms Some] show ?thesis
    by (simp add: index_search_def index_lookup Let_def index_postings_def node_ok_def)
qed

theorem index_search_answers_witness:
  "index_search sample_index ''TWO'' =
    (let files = index_postings sample_index (to_lowercase ''TWO'')
     in if files = [] then Some (0, ''No files found containing this word'')
        else if length (join_lines files) < MAX_CONTENT_LEN then Some (length files, join_lines files)
        else None)"
  by (rule index_search_answers [OF sample_index_inv])

end
