(* ===== verification/File_Store.thy ===== *)
theory File_Store
  imports File_System
begin

text \<open>
  The file operations of \<^verbatim>\<open>storage_server/storage_server.c\<close> (create, read, delete, metadata,
  directory scan). A file name is a path below the storage directory \<open>sd\<close>, the global
  \<open>STORAGE_DIR\<close>. The whole-file view of that directory implements \<open>byte_store\<close>.
\<close>

section \<open>Operations\<close>

definition ensure_storage_dir :: "cstring \<Rightarrow> FS \<Rightarrow> int \<times> FS" where
  "ensure_storage_dir sd fs =
     (if \<not> stat_ok fs sd then
        (case mkdir fs sd of None \<Rightarrow> (- 1, fs) | Some fs' \<Rightarrow> (0, fs'))
      else (0, fs))"

definition get_file_path :: "cstring \<Rightarrow> cstring \<Rightarrow> cstring" where
  "get_file_path sd filename = cbuf MAX_PATH_LEN (sd @ SLASH # filename)"

definition file_exists :: "cstring \<Rightarrow> FS \<Rightarrow> cstring \<Rightarrow> bool" where
  "file_exists sd fs filename \<longleftrightarrow> stat_ok fs (get_file_path sd filename)"

definition create_file :: "cstring \<Rightarrow> FS \<Rightarrow> cstring \<Rightarrow> int \<times> FS" where
  "create_file sd fs filename =
     (let filepath = get_file_path sd filename
      in if file_exists sd fs filename then (ERR_CONFLICT, fs)
         else case fopen_w fs filepath of
                None \<Rightarrow> (ERR_SERVER_ERROR, fs)
              | Some fs' \<Rightarrow> (ERR_CREATED, fs'))"

text \<open>The second component is what the buffer holds: nothing is stored on an error.\<close>

definition read_file :: "cstring \<Rightarrow> FS \<Rightarrow> cstring \<Rightarrow> nat \<Rightarrow> int \<times> char list option" where
  "read_file sd fs filename buffer_size =
     (let filepath = get_file_path sd filename
      in if \<not> file_exists sd fs filename then (ERR_NOT_FOUND, None)
         else case fopen_r fs filepath of
                None \<Rightarrow> (ERR_SERVER_ERROR, None)
              | Some bytes \<Rightarrow> (ERR_SUCCESS, Some (take (buffer_size - 1) bytes)))"

definition delete_file :: "cstring \<Rightarrow> FS \<Rightarrow> cstring \<Rightarrow> int \<times> FS" where
  "delete_file sd fs filename =
     (let filepath = get_file_path sd filename
      in if \<not> file_exists sd fs filename then (ERR_NOT_FOUND, fs)
         else case unlink fs filepath of
                None \<Rightarrow> (ERR_SERVER_ERROR, fs)
              | Some fs' \<Rightarrow> (ERR_SUCCESS, fs'))"

text \<open>The loop over the bytes of the file: words, characters, and whether a word is open.\<close>

definition is_blank_char :: "char \<Rightarrow> bool" where
  "is_blank_char c \<longleftrightarrow> c \<in> {CHR '' '', CHR 0x09, CHR 0x0A, CHR 0x0D}"

text \<open>
  The counters are \<open>int\<close>s: on a file with more than \<open>INT_MAX\<close> characters they overflow (\<open>None\<close>).
  \<open>word_count\<close> is never above \<open>char_count\<close>.
\<close>

abbreviation INT_MAX :: nat where "INT_MAX \<equiv> 2147483647"

fun count_loop :: "nat \<Rightarrow> nat \<Rightarrow> bool \<Rightarrow> char list \<Rightarrow> (nat \<times> nat) option" where
  "count_loop word_count char_count in_word [] = Some (word_count, char_count)"
| "count_loop word_count char_count in_word (c # cs) =
     (if char_count \<ge> INT_MAX then None
      else if is_blank_char c then count_loop word_count (Suc char_count) False cs
      else if \<not> in_word then count_loop (Suc word_count) (Suc char_count) True cs
      else count_loop word_count (Suc char_count) in_word cs)"

text \<open>
  \<open>st_times\<close> are \<open>st_ctime\<close>, \<open>st_mtime\<close> and \<open>st_atime\<close>. A directory opens, but its \<open>st_size\<close> is
  its own: \<open>dir_size\<close>. \<open>None\<close> is the overflow of a counter.
\<close>

definition get_file_metadata ::
  "int \<times> int \<times> int \<Rightarrow> nat \<Rightarrow> cstring \<Rightarrow> FS \<Rightarrow> cstring \<Rightarrow> nat \<Rightarrow> (int \<times> cstring option) option" where
  "get_file_metadata st_times dir_size sd fs filename str_size =
     (let filepath = get_file_path sd filename
      in if \<not> file_exists sd fs filename then Some (ERR_NOT_FOUND, None)
         else case fopen_r fs filepath of
                None \<Rightarrow> Some (ERR_SERVER_ERROR, None)
              | Some bytes \<Rightarrow>
                  (case count_loop 0 0 False bytes of
                     None \<Rightarrow> None
                   | Some (words, chars) \<Rightarrow>
                       let (ctime, mtime, atime) = st_times;
                           sz = (if is_dir fs filepath then dir_size else length bytes)
                       in Some (ERR_SUCCESS, Some (cbuf str_size
                            (show_nat sz @ ''|'' @ show_nat words @ ''|'' @ show_nat chars @ ''|'' @
                             show_int ctime @ ''|'' @ show_int mtime @ ''|'' @ show_int atime)))))"

text \<open>\<open>names\<close> is what \<open>readdir\<close> delivers; at most \<open>max_files\<close> regular files are taken.\<close>

fun scan_loop :: "cstring \<Rightarrow> FS \<Rightarrow> nat \<Rightarrow> cstring list \<Rightarrow> cstring list" where
  "scan_loop dir fs room [] = []"
| "scan_loop dir fs room (d_name # names) =
     (if room = 0 then []
      else if d_name = ''.'' \<or> d_name = ''..'' then scan_loop dir fs room names
      else if is_reg fs (cbuf MAX_PATH_LEN (dir @ SLASH # d_name)) then
        cbuf MAX_FILENAME_LEN d_name # scan_loop dir fs (room - 1) names
      else scan_loop dir fs room names)"

definition scan_storage_files :: "cstring \<Rightarrow> FS \<Rightarrow> cstring list \<Rightarrow> nat \<Rightarrow> cstring list" where
  "scan_storage_files sd fs names max_files =
     (if is_dir fs sd then scan_loop sd fs max_files names else [])"

section \<open>The storage directory as a store of files\<close>

text \<open>
  The names handled in full: one path component that leaves room for the suffix of the
  temporary file. \<open>storage_ok\<close> asks that the directory exists and that no path below it is cut.
\<close>

definition name_ok :: "cstring \<Rightarrow> bool" where
  "name_ok n \<longleftrightarrow> plain_name n \<and> length n \<le> NAME_MAX"

definition storage_ok :: "cstring \<Rightarrow> FS \<Rightarrow> bool" where
  "storage_ok sd fs \<longleftrightarrow> sd \<noteq> [] \<and> length sd \<le> 251 \<and> fs_nodes fs (resolve fs sd) = Some FDir"

definition file_bytes :: "cstring \<Rightarrow> FS \<Rightarrow> cstring \<Rightarrow> char list option" where
  "file_bytes sd fs n =
     (case fs_lookup fs (get_file_path sd n) of Some (FReg bs) \<Rightarrow> Some bs | _ \<Rightarrow> None)"

lemma file_path: "storage_ok sd fs \<Longrightarrow> name_ok n \<Longrightarrow> get_file_path sd n = sd @ SLASH # n"
  by (simp add: get_file_path_def storage_ok_def name_ok_def cbuf_id)

lemma storage_ne: "storage_ok sd fs \<Longrightarrow> sd \<noteq> []"
  by (simp add: storage_ok_def)

lemma name_plain: "name_ok n \<Longrightarrow> plain_name n"
  by (simp add: name_ok_def)

lemma file_lookup:
  "storage_ok sd fs \<Longrightarrow> name_ok n \<Longrightarrow>
   fs_lookup fs (get_file_path sd n) = fs_nodes fs (resolve fs sd @ [n])"
  by (simp add: file_path lookup_child storage_ne name_plain)

lemma file_resolve:
  "storage_ok sd fs \<Longrightarrow> name_ok n \<Longrightarrow> resolve fs (get_file_path sd n) = resolve fs sd @ [n]"
  by (simp add: file_path resolve_child storage_ne name_plain)

lemma storage_ok_set_node:
  assumes "storage_ok sd fs" and "name_ok n"
  shows "storage_ok sd (set_node fs (get_file_path sd n) v)"
  using assms by (simp add: storage_ok_def file_resolve [OF assms])

lemma file_bytes_set_node:
  assumes "storage_ok sd fs" and "name_ok n" and "name_ok j"
  shows "file_bytes sd (set_node fs (get_file_path sd n) v) j =
    (if j = n then (case v of Some (FReg bs) \<Rightarrow> Some bs | _ \<Rightarrow> None) else file_bytes sd fs j)"
  using assms storage_ok_set_node [OF assms(1,2), of v]
  by (simp add: file_bytes_def file_lookup file_resolve)

lemma file_bytes_Some:
  "file_bytes sd fs n = Some bs \<longleftrightarrow> fs_lookup fs (get_file_path sd n) = Some (FReg bs)"
  by (auto simp: file_bytes_def split: option.splits FNode.splits)

lemma write_new_file:
  assumes "storage_ok sd fs" and "name_ok n"
  shows "write_new fs (get_file_path sd n) bytes =
    (if fs_lookup fs (get_file_path sd n) = Some FDir then None
     else Some (set_node fs (get_file_path sd n) (Some (FReg bytes))))"
  using assms lookup_child [OF storage_ne name_plain, OF assms, of fs]
  unfolding file_path [OF assms] write_new_child [OF storage_ne name_plain, OF assms]
  by (simp add: storage_ok_def name_ok_def split: option.split FNode.split)

definition drop_file :: "cstring \<Rightarrow> FS \<Rightarrow> cstring \<Rightarrow> FS option" where
  "drop_file sd fs n = unlink fs (get_file_path sd n)"

interpretation storage: byte_store "file_bytes sd" "\<lambda>fs n. write_new fs (get_file_path sd n)"
  "drop_file sd" "storage_ok sd" name_ok for sd
proof unfold_locales
  fix fs n v
  assume *: "storage_ok sd fs" "name_ok n"
  show "write_new fs (get_file_path sd n) v \<noteq> None" if "file_bytes sd fs n \<noteq> None"
    using that by (auto simp: write_new_file [OF *] file_bytes_Some)
  show "drop_file sd fs n \<noteq> None \<longleftrightarrow> file_bytes sd fs n \<noteq> None"
    by (simp add: drop_file_def unlink_def file_bytes_def split: option.split FNode.split)
  fix fs'
  show "storage_ok sd fs'" if "write_new fs (get_file_path sd n) v = Some fs'"
    using that by (auto simp: write_new_file [OF *] storage_ok_set_node [OF *] split: if_splits)
  show "storage_ok sd fs'" if "drop_file sd fs n = Some fs'"
    using that by (auto simp: drop_file_def unlink_def storage_ok_set_node [OF *] split: option.splits FNode.splits)
  fix j
  assume j: "name_ok j"
  show "file_bytes sd fs' j = (if j = n then Some v else file_bytes sd fs j)"
    if "write_new fs (get_file_path sd n) v = Some fs'"
    using that file_bytes_set_node [OF * j, of "Some (FReg v)"]
    by (simp add: write_new_file [OF *] split: if_splits)
  show "file_bytes sd fs' j = (if j = n then None else file_bytes sd fs j)"
    if "drop_file sd fs n = Some fs'"
    using that file_bytes_set_node [OF * j, of None]
    by (auto simp: drop_file_def unlink_def split: option.splits FNode.splits if_splits)
qed

section \<open>What the operations do to the files\<close>

lemma file_exists_iff:
  "storage_ok sd fs \<Longrightarrow> name_ok n \<Longrightarrow>
   file_exists sd fs n \<longleftrightarrow> fs_lookup fs (get_file_path sd n) \<noteq> None"
  by (simp add: file_exists_def stat_ok_def)

lemma create_file_eq:
  assumes "storage_ok sd fs" and "name_ok n"
  shows "create_file sd fs n =
    (if file_exists sd fs n then (ERR_CONFLICT, fs)
     else (ERR_CREATED, set_node fs (get_file_path sd n) (Some (FReg []))))"
proof (cases "file_exists sd fs n")
  case False
  then have "fs_lookup fs (get_file_path sd n) = None"
    by (simp add: file_exists_def stat_ok_def)
  moreover from this have "can_make fs (get_file_path sd n)"
    using assms unfolding file_path [OF assms] can_make_child [OF storage_ne name_plain, OF assms]
    by (simp add: storage_ok_def name_ok_def)
  ultimately show ?thesis using False by (simp add: create_file_def fopen_w_def)
qed (simp add: create_file_def)

text \<open>
  \<open>create_file\<close> never destroys data: a name in use is refused with \<open>ERR_CONFLICT\<close> and the
  disk is left as it is; otherwise it answers \<open>ERR_CREATED\<close>, the new file is empty, and every
  other file keeps its bytes.
\<close>

theorem create_file_spec:
  assumes "storage_ok sd fs" and "name_ok n"
  shows "(file_exists sd fs n \<longrightarrow> create_file sd fs n = (ERR_CONFLICT, fs)) \<and>
    (\<not> file_exists sd fs n \<longrightarrow>
       (\<exists>fs'. create_file sd fs n = (ERR_CREATED, fs') \<and> storage_ok sd fs' \<and>
          (\<forall>j. name_ok j \<longrightarrow> file_bytes sd fs' j = (if j = n then Some [] else file_bytes sd fs j))))"
  using assms file_bytes_set_node [OF assms, of _ "Some (FReg [])"]
  by (auto simp: create_file_eq storage_ok_set_node)

definition sample_fs :: FS where
  "sample_fs = \<lparr>fs_cwd = [], fs_nodes = [[''s''] \<mapsto> FDir, [''s'', ''a''] \<mapsto> FReg ''One. Two.'']\<rparr>"

lemma runs_one: "runs (\<lambda>c. c \<noteq> SLASH) ''s'' = [''s'']"
  by (rule runs_all) simp_all

lemma storage_ok_sample: "storage_ok ''s'' sample_fs"
  by (simp add: storage_ok_def sample_fs_def resolve_def runs_one)

lemma name_ok_sample [simp]: "name_ok ''a'' \<and> name_ok ''b''"
  by (simp add: name_ok_def plain_name_def)

lemma sample_lookup: "name_ok n \<Longrightarrow> fs_lookup sample_fs (get_file_path ''s'' n) =
    (if n = ''a'' then Some (FReg ''One. Two.'') else None)"
  by (simp add: file_lookup [OF storage_ok_sample]) (simp add: sample_fs_def resolve_def runs_one)

theorem create_file_spec_witness:
  "\<exists>fs'. create_file ''s'' sample_fs ''b'' = (ERR_CREATED, fs') \<and> file_bytes ''s'' fs' ''b'' = Some []"
  using create_file_spec [OF storage_ok_sample, of "''b''"]
  by (auto simp: file_exists_def stat_ok_def sample_lookup)

text \<open>
  \<open>read_file\<close> delivers the first \<open>buffer_size - 1\<close> bytes of the file, reports a missing file
  as \<open>ERR_NOT_FOUND\<close> without touching the buffer, and reads a directory as an empty file.
\<close>

lemma read_file_spec:
  "read_file sd fs n buffer_size =
    (case fs_lookup fs (get_file_path sd n) of
       None \<Rightarrow> (ERR_NOT_FOUND, None)
     | Some FDir \<Rightarrow> (ERR_SUCCESS, Some [])
     | Some (FReg bytes) \<Rightarrow> (ERR_SUCCESS, Some (take (buffer_size - 1) bytes)))"
  by (auto simp: read_file_def fopen_r_def file_exists_def stat_ok_def split: option.split FNode.split)

lemma read_file_bytes:
  "file_bytes sd fs n = Some bs \<Longrightarrow> read_file sd fs n k = (ERR_SUCCESS, Some (take (k - 1) bs))"
  by (simp add: file_bytes_Some read_file_def file_exists_def stat_ok_def fopen_r_def)

lemma delete_file_eq:
  "delete_file sd fs n =
    (case fs_lookup fs (get_file_path sd n) of
       None \<Rightarrow> (ERR_NOT_FOUND, fs)
     | Some FDir \<Rightarrow> (ERR_SERVER_ERROR, fs)
     | Some (FReg bytes) \<Rightarrow> (ERR_SUCCESS, set_node fs (get_file_path sd n) None))"
  by (simp add: delete_file_def unlink_def file_exists_def stat_ok_def split: option.split FNode.split)

text \<open>
  \<open>delete_file\<close> removes exactly the named file: on success the file existed, it is gone
  afterwards and a read answers \<open>ERR_NOT_FOUND\<close>, and no other file changed; on failure nothing did.
\<close>

theorem delete_file_spec:
  assumes "storage_ok sd fs" and "name_ok n" and "delete_file sd fs n = (err, fs')"
  shows "(err = ERR_SUCCESS \<longleftrightarrow> file_bytes sd fs n \<noteq> None) \<and>
    (err \<noteq> ERR_SUCCESS \<longrightarrow> fs' = fs) \<and>
    (err = ERR_SUCCESS \<longrightarrow> storage_ok sd fs' \<and> read_file sd fs' n k = (ERR_NOT_FOUND, None) \<and>
       (\<forall>j. name_ok j \<longrightarrow> file_bytes sd fs' j = (if j = n then None else file_bytes sd fs j)))"
proof (cases "fs_lookup fs (get_file_path sd n)")
  case (Some node)
  show ?thesis
  proof (cases node)
    case (FReg bs)
    let ?fs = "set_node fs (get_file_path sd n) None"
    have ok: "storage_ok sd ?fs" by (rule storage_ok_set_node [OF assms(1,2)])
    have "fs_lookup ?fs (get_file_path sd n) = None"
      using ok assms(2) by (simp add: file_lookup file_resolve [OF assms(1,2)])
    then have "read_file sd ?fs n k = (ERR_NOT_FOUND, None)"
      by (simp add: read_file_def file_exists_def stat_ok_def)
    with assms(3) Some FReg ok file_bytes_set_node [OF assms(1,2), of _ None] show ?thesis
      by (auto simp: delete_file_eq file_bytes_def)
  qed (use assms(3) Some in \<open>simp add: delete_file_eq file_bytes_def\<close>)
qed (use assms(3) in \<open>simp add: delete_file_eq file_bytes_def\<close>)

theorem delete_file_spec_witness:
  "fst (delete_file ''s'' sample_fs ''a'') = ERR_SUCCESS \<and>
   file_bytes ''s'' (snd (delete_file ''s'' sample_fs ''a'')) ''a'' = None"
proof -
  have b: "file_bytes ''s'' sample_fs ''a'' \<noteq> None" by (simp add: file_bytes_def sample_lookup)
  have "name_ok ''a''" by simp
  from delete_file_spec [OF storage_ok_sample this surjective_pairing] b this show ?thesis by simp
qed

lemma count_loop_eq:
  "count_loop w n False bs = (if bs = [] \<or> n + length bs \<le> INT_MAX
     then Some (w + length (runs (\<lambda>c. \<not> is_blank_char c) bs), n + length bs) else None) \<and>
   count_loop w n True bs = (if bs = [] \<or> n + length bs \<le> INT_MAX
     then Some (w + length (runs (\<lambda>c. \<not> is_blank_char c) (dropWhile (\<lambda>c. \<not> is_blank_char c) bs)), n + length bs)
     else None)"
proof (induction bs arbitrary: w n)
  case (Cons c bs)
  show ?case
  proof (cases "is_blank_char c")
    case False
    then have "runs (\<lambda>c. \<not> is_blank_char c) (c # bs) = (c # takeWhile (\<lambda>c. \<not> is_blank_char c) bs) #
        runs (\<lambda>c. \<not> is_blank_char c) (dropWhile (\<lambda>c. \<not> is_blank_char c) bs)"
      using runs_run [of "[c]" "\<lambda>c. \<not> is_blank_char c" bs] by simp
    with False Cons.IH show ?thesis by auto
  qed (use Cons.IH in auto)
qed simp

text \<open>
  The metadata counts: for a regular file the answer carries its size, the number of its
  maximal runs of characters other than blank, tab, line feed and carriage return, and the
  number of its characters, as long as the last is an \<open>int\<close>; a longer file overflows the counter.
\<close>

theorem get_file_metadata_counts:
  assumes "file_bytes sd fs n = Some bs"
  shows "get_file_metadata (ct, mt, at) dir_size sd fs n k = (if length bs > INT_MAX then None else Some (ERR_SUCCESS, Some (cbuf k
    (show_nat (length bs) @ ''|'' @ show_nat (length (runs (\<lambda>c. \<not> is_blank_char c) bs)) @ ''|'' @
     show_nat (length bs) @ ''|'' @ show_int ct @ ''|'' @ show_int mt @ ''|'' @ show_int at))))"
  using assms
  by (simp add: get_file_metadata_def file_bytes_Some file_exists_def stat_ok_def fopen_r_def is_dir_def
      count_loop_eq)

theorem get_file_metadata_counts_witness:
  "get_file_metadata (1, 2, 3) 0 ''s'' sample_fs ''a'' 4096 = Some (ERR_SUCCESS, Some (cbuf 4096
    (show_nat (length ''One. Two.'') @ ''|'' @
     show_nat (length (runs (\<lambda>c. \<not> is_blank_char c) ''One. Two.'')) @ ''|'' @
     show_nat (length ''One. Two.'') @ ''|'' @ show_int 1 @ ''|'' @ show_int 2 @ ''|'' @ show_int 3)))"
  using get_file_metadata_counts [of "''s''" sample_fs "''a''" "''One. Two.''" 1 2 3 0 4096]
  by (simp add: file_bytes_def sample_lookup)

section \<open>The directory scan\<close>

lemma scan_loop_eq:
  assumes "dir \<noteq> []" and "length dir \<le> 251"
    and "\<And>n. n \<in> set names \<Longrightarrow> n = ''.'' \<or> n = ''..'' \<or> name_ok n"
  shows "scan_loop dir fs room names =
    take room (filter (\<lambda>n. plain_name n \<and> (\<exists>bs. fs_nodes fs (resolve fs dir @ [n]) = Some (FReg bs))) names)"
  using assms
proof (induction dir fs room names rule: scan_loop.induct)
  case (2 dir fs room n names)
  show ?case
  proof (cases "n = ''.'' \<or> n = ''..''")
    case True
    then have "\<not> plain_name n" by (auto simp: plain_name_def)
    with True 2 show ?thesis by auto
  next
    case False
    with "2.prems"(3) [of n] have n: "name_ok n" by auto
    then have p: "plain_name n" and l: "length n < MAX_FILENAME_LEN" "length dir + length n < 511"
      using "2.prems"(2) by (auto simp: name_ok_def)
    have "is_reg fs (cbuf MAX_PATH_LEN (dir @ SLASH # n)) \<longleftrightarrow>
        (\<exists>bs. fs_nodes fs (resolve fs dir @ [n]) = Some (FReg bs))"
      using l p "2.prems"(1) by (simp add: cbuf_id is_reg_def lookup_child)
    with False p l 2 show ?thesis by (cases room) (auto simp: cbuf_id)
  qed
qed simp

text \<open>
  The start-up scan finds the files: with at most \<open>max_files\<close> regular files in the storage
  directory it returns the name of each of them, once, whatever order the directory is read
  in; it never returns more than \<open>max_files\<close> names.
\<close>

theorem scan_storage_files_complete:
  assumes "storage_ok sd fs" and "readdir_of fs sd names"
    and "\<forall>n. fs_nodes fs (resolve fs sd @ [n]) \<noteq> None \<longrightarrow> name_ok n"
    and "card {n. name_ok n \<and> file_bytes sd fs n \<noteq> None} \<le> max_files"
  shows "distinct (scan_storage_files sd fs names max_files) \<and>
    set (scan_storage_files sd fs names max_files) = {n. name_ok n \<and> file_bytes sd fs n \<noteq> None}"
proof -
  let ?P = "\<lambda>n. plain_name n \<and> (\<exists>bs. fs_nodes fs (resolve fs sd @ [n]) = Some (FReg bs))"
  have names: "distinct names" "set names = {''.'', ''..''} \<union> {n. fs_nodes fs (resolve fs sd @ [n]) \<noteq> None}"
    using assms(2) by (auto simp: readdir_of_def)
  have iff: "?P n \<longleftrightarrow> name_ok n \<and> file_bytes sd fs n \<noteq> None" for n
    using assms(1,3) name_plain by (auto simp: file_bytes_def file_lookup split: option.splits FNode.splits)
  have set: "set (filter ?P names) = {n. name_ok n \<and> file_bytes sd fs n \<noteq> None}"
    using names(2) iff by auto
  have "is_dir fs sd"
    using assms(1) by (simp add: is_dir_def fs_lookup_def storage_ok_def)
  then have "scan_storage_files sd fs names max_files = take max_files (filter ?P names)"
    using assms(1,3) names(2)
    by (simp add: scan_storage_files_def storage_ok_def) (intro scan_loop_eq, auto)
  moreover have "length (filter ?P names) \<le> max_files"
    using assms(4) set distinct_card [of "filter ?P names"] names(1) by simp
  ultimately show ?thesis using set names(1) by simp
qed

theorem scan_storage_files_complete_witness:
  "set (scan_storage_files ''s'' sample_fs [''.'', ''a'', ''..''] 100) =
     {n. name_ok n \<and> file_bytes ''s'' sample_fs n \<noteq> None}"
proof -
  have s: "resolve sample_fs ''s'' = [''s'']" by (simp add: sample_fs_def resolve_def runs_one)
  have ok: "\<forall>n. fs_nodes sample_fs (resolve sample_fs ''s'' @ [n]) \<noteq> None \<longrightarrow> name_ok n"
    unfolding s by (simp add: sample_fs_def)
  have dir: "readdir_of sample_fs ''s'' [''.'', ''a'', ''..'']"
    unfolding readdir_of_def s by (auto simp: sample_fs_def)
  have "{n. name_ok n \<and> file_bytes ''s'' sample_fs n \<noteq> None} = {''a''}"
    by (auto simp: file_bytes_def sample_lookup split: if_splits)
  then have "card {n. name_ok n \<and> file_bytes ''s'' sample_fs n \<noteq> None} \<le> 100" by simp
  with scan_storage_files_complete [OF storage_ok_sample dir ok] show ?thesis by blast
qed

end
