(* ===== verification/Checkpoint_Manager.thy ===== *)
theory Checkpoint_Manager
  imports File_Store
begin

text \<open>
  \<^verbatim>\<open>storage_server/checkpoint_manager.c\<close>: named copies of files kept below
  \<^verbatim>\<open>.checkpoints\<close> in the storage directory, one directory per file, and the round trip from a
  checkpoint to a revert.
\<close>

section \<open>Operations\<close>

abbreviation MAX_CHECKPOINTS :: nat where "MAX_CHECKPOINTS \<equiv> 50"
abbreviation MAX_TAG_LEN :: nat where "MAX_TAG_LEN \<equiv> 64"

definition CHECKPOINT_DIR :: cstring where "CHECKPOINT_DIR = ''.checkpoints''"
definition CKPT_EXT :: cstring where "CKPT_EXT = ''.checkpoint''"

definition checkpoint_init :: "cstring \<Rightarrow> FS \<Rightarrow> FS" where
  "checkpoint_init sd fs =
     (let checkpoint_base = cbuf MAX_PATH_LEN (sd @ SLASH # CHECKPOINT_DIR)
      in if \<not> stat_ok fs checkpoint_base then
           (case mkdir fs checkpoint_base of None \<Rightarrow> fs | Some fs' \<Rightarrow> fs')
         else fs)"

definition get_checkpoint_dir :: "cstring \<Rightarrow> cstring \<Rightarrow> cstring" where
  "get_checkpoint_dir sd filename = cbuf MAX_PATH_LEN (sd @ SLASH # CHECKPOINT_DIR @ SLASH # filename)"

definition get_checkpoint_path :: "cstring \<Rightarrow> cstring \<Rightarrow> cstring \<Rightarrow> cstring" where
  "get_checkpoint_path sd filename tag =
     cbuf MAX_PATH_LEN (get_checkpoint_dir sd filename @ SLASH # tag @ CKPT_EXT)"

text \<open>
  The copy loop \<open>while ((bytes = fread (buffer, 1, 4096, src)) > 0) fwrite (\<dots>)\<close>; \<open>rest\<close> is
  what the source stream still has to deliver.
\<close>

function copy_loop :: "FS \<Rightarrow> cstring \<Rightarrow> char list \<Rightarrow> FS" where
  "copy_loop fs dest rest =
     (if rest = [] then fs else copy_loop (fwrite fs dest (take 4096 rest)) dest (drop 4096 rest))"
  by pat_completeness auto
termination by (relation "measure (\<lambda>(fs, dest, rest). length rest)") auto

declare copy_loop.simps [simp del]

text \<open>Opening the source, then the destination (which truncates it), then copying.\<close>

definition copy_file :: "FS \<Rightarrow> cstring \<Rightarrow> cstring \<Rightarrow> int \<Rightarrow> int \<times> FS" where
  "copy_file fs src_path dest_path success =
     (case fopen_r fs src_path of
        None \<Rightarrow> (ERR_SERVER_ERROR, fs)
      | Some _ \<Rightarrow>
          (case fopen_w fs dest_path of
             None \<Rightarrow> (ERR_SERVER_ERROR, fs)
           | Some fs' \<Rightarrow>
               (case fopen_r fs' src_path of
                  None \<Rightarrow> (success, fs')
                | Some bytes \<Rightarrow> (success, copy_loop fs' dest_path bytes))))"

definition checkpoint_create :: "cstring \<Rightarrow> FS \<Rightarrow> cstring \<Rightarrow> cstring \<Rightarrow> int \<times> FS" where
  "checkpoint_create sd fs filename tag =
     (let src_path = cbuf MAX_PATH_LEN (sd @ SLASH # filename)
      in if \<not> stat_ok fs src_path then (ERR_NOT_FOUND, fs)
         else
           let dir_path = get_checkpoint_dir sd filename;
               made = (if \<not> stat_ok fs dir_path then mkdir fs dir_path else Some fs)
           in case made of
                None \<Rightarrow> (ERR_SERVER_ERROR, fs)
              | Some fs1 \<Rightarrow>
                  let checkpoint_path = get_checkpoint_path sd filename tag
                  in if stat_ok fs1 checkpoint_path then (ERR_CONFLICT, fs1)
                     else copy_file fs1 src_path checkpoint_path ERR_CREATED)"

definition checkpoint_view ::
  "cstring \<Rightarrow> FS \<Rightarrow> cstring \<Rightarrow> cstring \<Rightarrow> nat \<Rightarrow> int \<times> char list option" where
  "checkpoint_view sd fs filename tag content_size =
     (let checkpoint_path = get_checkpoint_path sd filename tag
      in if \<not> stat_ok fs checkpoint_path then (ERR_NOT_FOUND, None)
         else case fopen_r fs checkpoint_path of
                None \<Rightarrow> (ERR_SERVER_ERROR, None)
              | Some bytes \<Rightarrow> (ERR_SUCCESS, Some (take (content_size - 1) bytes)))"

definition checkpoint_revert :: "cstring \<Rightarrow> FS \<Rightarrow> cstring \<Rightarrow> cstring \<Rightarrow> int \<times> FS" where
  "checkpoint_revert sd fs filename tag =
     (let checkpoint_path = get_checkpoint_path sd filename tag;
          file_path = cbuf MAX_PATH_LEN (sd @ SLASH # filename)
      in if \<not> stat_ok fs checkpoint_path then (ERR_NOT_FOUND, fs)
         else copy_file fs checkpoint_path file_path ERR_SUCCESS)"

text \<open>\<open>strstr (name, ".checkpoint")\<close>: what precedes and what follows the first occurrence.\<close>

fun split_at_ext :: "cstring \<Rightarrow> (cstring \<times> cstring) option" where
  "split_at_ext s =
     (if take 11 s = CKPT_EXT then Some ([], drop 11 s)
      else case s of
             [] \<Rightarrow> None
           | c # s' \<Rightarrow> map_option (\<lambda>(a, b). (c # a, b)) (split_at_ext s'))"

declare split_at_ext.simps [simp del]

definition listed_tag :: "cstring \<Rightarrow> cstring option" where
  "listed_tag d_name =
     (if d_name = ''.'' \<or> d_name = ''..'' then None
      else case split_at_ext d_name of
             None \<Rightarrow> None
           | Some (tag, after) \<Rightarrow> if after = [] \<and> length tag < MAX_TAG_LEN then Some tag else None)"

fun list_loop :: "nat \<Rightarrow> cstring list \<Rightarrow> cstring list" where
  "list_loop room [] = []"
| "list_loop room (d_name # names) =
     (if room = 0 then []
      else case listed_tag d_name of
             None \<Rightarrow> list_loop room names
           | Some tag \<Rightarrow> tag # list_loop (room - 1) names)"

text \<open>\<open>names\<close> is what \<open>readdir\<close> delivers for the checkpoint directory of the file.\<close>

definition checkpoint_list :: "cstring \<Rightarrow> FS \<Rightarrow> cstring \<Rightarrow> cstring list \<Rightarrow> nat \<Rightarrow> cstring list" where
  "checkpoint_list sd fs filename names max_tags =
     (if is_dir fs (get_checkpoint_dir sd filename) then list_loop max_tags names else [])"

definition checkpoint_exists :: "cstring \<Rightarrow> FS \<Rightarrow> cstring \<Rightarrow> cstring \<Rightarrow> bool" where
  "checkpoint_exists sd fs filename tag \<longleftrightarrow> stat_ok fs (get_checkpoint_path sd filename tag)"

section \<open>The copy loop copies\<close>

lemma copy_loop_eq:
  "fs_nodes fs (resolve fs dest) = Some (FReg bs) \<Longrightarrow>
   copy_loop fs dest rest = set_node fs dest (Some (FReg (bs @ rest)))"
proof (induction fs dest rest arbitrary: bs rule: copy_loop.induct)
  case (1 fs dest rest)
  show ?case
  proof (cases "rest = []")
    case True
    have "set_node fs dest (Some (FReg bs)) = fs"
      using "1.prems" by (simp add: set_node_def fun_upd_idem)
    with True show ?thesis by (simp add: copy_loop.simps)
  next
    case False
    let ?fs = "fwrite fs dest (take 4096 rest)"
    have w: "?fs = set_node fs dest (Some (FReg (bs @ take 4096 rest)))"
      using "1.prems" by (simp add: fwrite_def)
    then have "fs_nodes ?fs (resolve ?fs dest) = Some (FReg (bs @ take 4096 rest))" by simp
    from "1.IH" [OF False this] False show ?thesis
      by (simp add: copy_loop.simps [of fs dest rest] w)
  qed
qed

lemma copy_file_eq:
  assumes "fopen_r fs src = Some bs" and "fopen_w fs dest = Some (set_node fs dest (Some (FReg [])))"
    and "resolve fs src \<noteq> resolve fs dest"
  shows "copy_file fs src dest success = (success, set_node fs dest (Some (FReg bs)))"
proof -
  have "fs_lookup (set_node fs dest (Some (FReg []))) src = fs_lookup fs src"
    using assms(3) by (simp add: fs_lookup_def)
  with assms(1) have "fopen_r (set_node fs dest (Some (FReg []))) src = Some bs"
    by (simp add: fopen_r_def)
  with assms(1,2) show ?thesis
    by (simp add: copy_file_def copy_loop_eq [where bs = "[]"])
qed

section \<open>The checkpoint tree\<close>

text \<open>Names and tags whose paths are not cut, and whose components the file system accepts.\<close>

definition ckpt_ok :: "cstring \<Rightarrow> cstring \<Rightarrow> cstring \<Rightarrow> bool" where
  "ckpt_ok sd filename tag \<longleftrightarrow> name_ok filename \<and> SLASH \<notin> set tag \<and> length tag + 11 \<le> NAME_MAX \<and>
     length sd + length filename + length tag + 26 < MAX_PATH_LEN"

definition ckpt_bytes :: "cstring \<Rightarrow> FS \<Rightarrow> cstring \<Rightarrow> cstring \<Rightarrow> char list option" where
  "ckpt_bytes sd fs filename tag =
     (case fs_nodes fs (resolve fs sd @ [CHECKPOINT_DIR, filename, tag @ CKPT_EXT]) of
        Some (FReg bs) \<Rightarrow> Some bs
      | _ \<Rightarrow> None)"

lemma plain_ckpt_dir: "plain_name CHECKPOINT_DIR"
  by (simp add: plain_name_def CHECKPOINT_DIR_def)

lemma plain_ckpt_file: "SLASH \<notin> set tag \<Longrightarrow> plain_name (tag @ CKPT_EXT)"
  by (auto simp: plain_name_def append_eq_Cons_conv CKPT_EXT_def)

lemma length_ckpt [simp]: "length CHECKPOINT_DIR = 12" "length CKPT_EXT = 11"
  by (simp_all add: CHECKPOINT_DIR_def CKPT_EXT_def)

lemma ckpt_dir_eq:
  assumes "ckpt_ok sd f tag"
  shows "get_checkpoint_dir sd f = (sd @ SLASH # CHECKPOINT_DIR) @ SLASH # f"
  using assms by (simp add: get_checkpoint_dir_def ckpt_ok_def cbuf_id)

lemma ckpt_dir_resolve:
  assumes "storage_ok sd fs" and "ckpt_ok sd f tag"
  shows "resolve fs' (get_checkpoint_dir sd f) = resolve fs' sd @ [CHECKPOINT_DIR, f]"
proof -
  have sd: "sd \<noteq> []" and f: "plain_name f" using assms by (auto simp: storage_ok_def ckpt_ok_def name_ok_def)
  have "resolve fs' (get_checkpoint_dir sd f) = resolve fs' (sd @ SLASH # CHECKPOINT_DIR) @ [f]"
    unfolding ckpt_dir_eq [OF assms(2)] by (rule resolve_child [OF _ f]) simp
  also have "resolve fs' (sd @ SLASH # CHECKPOINT_DIR) = resolve fs' sd @ [CHECKPOINT_DIR]"
    by (rule resolve_child [OF sd plain_ckpt_dir])
  finally show ?thesis by simp
qed

lemma ckpt_path:
  assumes "ckpt_ok sd f tag"
  shows "get_checkpoint_path sd f tag = get_checkpoint_dir sd f @ SLASH # (tag @ CKPT_EXT)"
proof -
  have "length (get_checkpoint_dir sd f) = length sd + length f + 14"
    unfolding ckpt_dir_eq [OF assms] by simp
  with assms show ?thesis by (simp add: get_checkpoint_path_def ckpt_ok_def cbuf_id)
qed

lemma ckpt_dir_ne: "get_checkpoint_dir sd f \<noteq> []"
  by (cases sd) (simp_all add: get_checkpoint_dir_def cbuf_def)

lemma ckpt_resolve:
  assumes "storage_ok sd fs" and "ckpt_ok sd f tag"
  shows "resolve fs' (get_checkpoint_path sd f tag) =
    resolve fs' sd @ [CHECKPOINT_DIR, f, tag @ CKPT_EXT]"
  using assms(2)
  by (simp add: ckpt_path [OF assms(2)] resolve_child [OF ckpt_dir_ne plain_ckpt_file]
      ckpt_dir_resolve [OF assms] ckpt_ok_def)

lemma ckpt_lookup:
  assumes "storage_ok sd fs" and "ckpt_ok sd f tag"
  shows "fs_lookup fs' (get_checkpoint_path sd f tag) =
    fs_nodes fs' (resolve fs' sd @ [CHECKPOINT_DIR, f, tag @ CKPT_EXT])"
  using assms(2)
  by (simp add: ckpt_path [OF assms(2)] lookup_child [OF ckpt_dir_ne plain_ckpt_file]
      ckpt_dir_resolve [OF assms] ckpt_ok_def)

text \<open>A change two levels or more below the storage directory is not seen by the file store.\<close>

lemma deep_set_node:
  assumes "storage_ok sd fs" and "resolve fs p = resolve fs sd @ a # b # r"
  shows "storage_ok sd (set_node fs p v) \<and>
    (\<forall>j. name_ok j \<longrightarrow> fs_lookup (set_node fs p v) (get_file_path sd j) = fs_lookup fs (get_file_path sd j))"
proof
  show ok: "storage_ok sd (set_node fs p v)" using assms by (simp add: storage_ok_def)
  show "\<forall>j. name_ok j \<longrightarrow> fs_lookup (set_node fs p v) (get_file_path sd j) = fs_lookup fs (get_file_path sd j)"
    using assms ok by (simp add: file_lookup)
qed

lemma ckpt_bytes_file_write:
  assumes "storage_ok sd fs" and "name_ok n"
  shows "ckpt_bytes sd (set_node fs (get_file_path sd n) v) f tag = ckpt_bytes sd fs f tag"
  by (simp add: ckpt_bytes_def file_resolve [OF assms])

section \<open>Creating and reverting\<close>

lemma src_path: "cbuf MAX_PATH_LEN (sd @ SLASH # f) = get_file_path sd f"
  by (simp add: get_file_path_def)

lemma checkpoint_create_copy:
  assumes "stat_ok fs (get_file_path sd f)" and "\<not> stat_ok fs (get_checkpoint_dir sd f)"
    and "mkdir fs (get_checkpoint_dir sd f) = Some fs1"
    and "\<not> stat_ok fs1 (get_checkpoint_path sd f tag)"
  shows "checkpoint_create sd fs f tag =
    copy_file fs1 (get_file_path sd f) (get_checkpoint_path sd f tag) ERR_CREATED"
  using assms by (simp add: checkpoint_create_def src_path)

lemma checkpoint_created:
  assumes ok: "storage_ok sd fs" "ckpt_ok sd f tag" and bs: "file_bytes sd fs f = Some bs"
    and created: "checkpoint_create sd fs f tag = (ERR_CREATED, fs')"
  shows "storage_ok sd fs' \<and> ckpt_bytes sd fs' f tag = Some bs \<and>
    (\<forall>j. name_ok j \<longrightarrow> file_bytes sd fs' j = file_bytes sd fs j)"
proof -
  let ?d = "get_checkpoint_dir sd f" and ?p = "get_checkpoint_path sd f tag"
  define fs1 where "fs1 = (if \<not> stat_ok fs ?d then set_node fs ?d (Some FDir) else fs)"
  have f: "name_ok f" using ok(2) by (simp add: ckpt_ok_def)
  have src: "stat_ok fs (get_file_path sd f)" using bs by (simp add: file_bytes_Some stat_ok_def)
  have dres: "resolve fs ?d = resolve fs sd @ CHECKPOINT_DIR # f # []"
    using ckpt_dir_resolve [OF ok] by simp
  have fs1: "storage_ok sd fs1" "\<And>j. name_ok j \<Longrightarrow>
      fs_lookup fs1 (get_file_path sd j) = fs_lookup fs (get_file_path sd j)"
    using ok(1) deep_set_node [OF ok(1) dres] by (auto simp: fs1_def)
  have made: "(if \<not> stat_ok fs ?d then mkdir fs ?d else Some fs) = Some fs1 \<or>
      fst (checkpoint_create sd fs f tag) = ERR_SERVER_ERROR"
    using src by (auto simp: checkpoint_create_def src_path fs1_def mkdir_def)
  with created have made: "(if \<not> stat_ok fs ?d then mkdir fs ?d else Some fs) = Some fs1" by simp
  have new: "\<not> stat_ok fs1 ?p" and copy: "copy_file fs1 (get_file_path sd f) ?p ERR_CREATED = (ERR_CREATED, fs')"
    using created src made by (auto simp: checkpoint_create_def src_path Let_def split: if_splits)
  have pres: "resolve fs1 ?p = resolve fs1 sd @ CHECKPOINT_DIR # f # [tag @ CKPT_EXT]"
    using ckpt_resolve [OF ok] by simp
  have r: "fopen_r fs1 (get_file_path sd f) = Some bs"
    using fs1(2) [OF f] bs by (simp add: fopen_r_def file_bytes_Some)
  have w: "fopen_w fs1 ?p = Some (set_node fs1 ?p (Some (FReg [])))"
    using copy new r by (auto simp: copy_file_def fopen_w_def stat_ok_def split: if_splits)
  have "copy_file fs1 (get_file_path sd f) ?p ERR_CREATED = (ERR_CREATED, set_node fs1 ?p (Some (FReg bs)))"
    using r w by (rule copy_file_eq) (simp add: pres file_resolve [OF fs1(1) f])
  with copy have fs': "fs' = set_node fs1 ?p (Some (FReg bs))" by simp
  from deep_set_node [OF fs1(1) pres, of "Some (FReg bs)"] fs1(2) show ?thesis
    unfolding fs' by (simp add: ckpt_bytes_def pres file_bytes_def)
qed

lemma checkpoint_reverted:
  assumes ok: "storage_ok sd fs" "ckpt_ok sd f tag" and bs: "ckpt_bytes sd fs f tag = Some bs"
    and nodir: "fs_lookup fs (get_file_path sd f) \<noteq> Some FDir"
  shows "checkpoint_revert sd fs f tag = (ERR_SUCCESS, set_node fs (get_file_path sd f) (Some (FReg bs)))"
proof -
  let ?p = "get_checkpoint_path sd f tag"
  have f: "name_ok f" using ok(2) by (simp add: ckpt_ok_def)
  have l: "fs_lookup fs ?p = Some (FReg bs)"
    using bs by (simp add: ckpt_lookup [OF ok] ckpt_bytes_def split: option.splits FNode.splits)
  have "write_new fs (get_file_path sd f) [] = Some (set_node fs (get_file_path sd f) (Some (FReg [])))"
    using nodir by (simp add: write_new_file [OF ok(1) f])
  then have "fopen_w fs (get_file_path sd f) \<noteq> None" by (auto simp: write_new_def)
  then have w: "fopen_w fs (get_file_path sd f) = Some (set_node fs (get_file_path sd f) (Some (FReg [])))"
    by (auto simp: fopen_w_def split: option.splits FNode.splits if_splits)
  have "copy_file fs ?p (get_file_path sd f) ERR_SUCCESS =
      (ERR_SUCCESS, set_node fs (get_file_path sd f) (Some (FReg bs)))"
    using w by (intro copy_file_eq) (simp_all add: l fopen_r_def ckpt_resolve [OF ok] file_resolve [OF ok(1) f])
  with l show ?thesis by (simp add: checkpoint_revert_def src_path stat_ok_def)
qed

text \<open>Any later writes to files of the store, each a whole-file overwrite as the server makes them.\<close>

fun overwrites :: "cstring \<Rightarrow> FS \<Rightarrow> (cstring \<times> char list) list \<Rightarrow> FS" where
  "overwrites sd fs [] = fs"
| "overwrites sd fs ((n, bs) # ws) =
     overwrites sd (case write_new fs (get_file_path sd n) bs of None \<Rightarrow> fs | Some fs' \<Rightarrow> fs') ws"

lemma overwrites_keep:
  assumes "storage_ok sd fs" and "\<forall>(n, bs)\<in>set ws. name_ok n" and "name_ok j"
  shows "storage_ok sd (overwrites sd fs ws) \<and>
    ckpt_bytes sd (overwrites sd fs ws) f tag = ckpt_bytes sd fs f tag \<and>
    (fs_lookup (overwrites sd fs ws) (get_file_path sd j) = Some FDir \<longleftrightarrow>
     fs_lookup fs (get_file_path sd j) = Some FDir)"
  using assms(1,2)
proof (induction sd fs ws rule: overwrites.induct)
  case (2 sd fs n bs ws)
  let ?fs = "case write_new fs (get_file_path sd n) bs of None \<Rightarrow> fs | Some fs' \<Rightarrow> fs'"
  have n: "name_ok n" and ok: "storage_ok sd fs" using "2.prems" by auto
  have step: "?fs = fs \<or> (?fs = set_node fs (get_file_path sd n) (Some (FReg bs)) \<and>
      fs_lookup fs (get_file_path sd n) \<noteq> Some FDir)"
    by (simp add: write_new_file [OF ok n])
  have ok': "storage_ok sd ?fs"
    using step ok storage_ok_set_node [OF ok n] by auto
  have dir: "fs_lookup ?fs (get_file_path sd j) = Some FDir \<longleftrightarrow> fs_lookup fs (get_file_path sd j) = Some FDir"
    using step ok' by (auto simp: file_lookup [OF _ assms(3)] file_lookup [OF _ n] file_resolve [OF ok n] ok
        split: if_splits)
  have "ckpt_bytes sd ?fs f tag = ckpt_bytes sd fs f tag"
    using step ckpt_bytes_file_write [OF ok n] by auto
  with dir "2.IH" [OF ok'] "2.prems" show ?case by simp
qed simp

text \<open>
  C18. Checkpoint round trip: once \<open>checkpoint_create\<close> has answered \<open>ERR_CREATED\<close>, then after any
  overwrites of files of the store \<open>checkpoint_revert\<close> to that tag succeeds and gives the file
  exactly the bytes it had, leaving every other file as it is then. The copy is not limited to
  the 4095 bytes a read delivers.
\<close>

theorem checkpoint_revert_restores:
  assumes ok: "storage_ok sd fs" "ckpt_ok sd f tag" and bs: "file_bytes sd fs f = Some bs"
    and created: "checkpoint_create sd fs f tag = (ERR_CREATED, fs1)"
    and ws: "\<forall>(n, c)\<in>set ws. name_ok n"
  shows "\<exists>fs3. checkpoint_revert sd (overwrites sd fs1 ws) f tag = (ERR_SUCCESS, fs3) \<and>
    file_bytes sd fs3 f = Some bs \<and>
    (\<forall>j. name_ok j \<longrightarrow> j \<noteq> f \<longrightarrow> file_bytes sd fs3 j = file_bytes sd (overwrites sd fs1 ws) j)"
proof -
  let ?fs = "overwrites sd fs1 ws"
  have f: "name_ok f" using ok(2) by (simp add: ckpt_ok_def)
  note fs1 = checkpoint_created [OF ok bs created]
  then have "file_bytes sd fs1 f = Some bs" using f bs by simp
  then have nodir: "fs_lookup fs1 (get_file_path sd f) \<noteq> Some FDir" by (simp add: file_bytes_Some)
  with fs1 overwrites_keep [OF conjunct1 [OF fs1] ws f] have
    keep: "storage_ok sd ?fs" "ckpt_bytes sd ?fs f tag = Some bs" "fs_lookup ?fs (get_file_path sd f) \<noteq> Some FDir"
    by auto
  from checkpoint_reverted [OF keep(1) ok(2) keep(2,3)] file_bytes_set_node [OF keep(1) f, of _ "Some (FReg bs)"] f
  show ?thesis by auto
qed

lemma resolve_s: "resolve (sample_fs\<lparr>fs_nodes := g\<rparr>) ''s'' = [''s'']"
  by (simp add: sample_fs_def resolve_def runs_one)

definition ckpt_fs :: FS where
  "ckpt_fs = sample_fs\<lparr>fs_nodes := (fs_nodes sample_fs)([''s'', CHECKPOINT_DIR] \<mapsto> FDir)\<rparr>"

lemma ckpt_fs_ok: "storage_ok ''s'' ckpt_fs \<and> ckpt_ok ''s'' ''a'' ''v1'' \<and>
    file_bytes ''s'' ckpt_fs ''a'' = Some ''One. Two.''"
proof (intro conjI)
  show ok: "storage_ok ''s'' ckpt_fs"
    by (simp add: storage_ok_def ckpt_fs_def resolve_s) (simp add: sample_fs_def CHECKPOINT_DIR_def)
  show "ckpt_ok ''s'' ''a'' ''v1''" by (simp add: ckpt_ok_def)
  show "file_bytes ''s'' ckpt_fs ''a'' = Some ''One. Two.''"
    by (simp add: file_bytes_def file_lookup [OF ok])
      (simp add: ckpt_fs_def resolve_s, simp add: sample_fs_def CHECKPOINT_DIR_def)
qed

text \<open>The first checkpoint of a file makes its directory and then the copy.\<close>

lemma first_checkpoint_created:
  assumes ok: "storage_ok sd fs" "ckpt_ok sd f tag" and bs: "file_bytes sd fs f = Some bs"
    and base: "fs_nodes fs (resolve fs sd @ [CHECKPOINT_DIR]) = Some FDir"
    and none: "fs_nodes fs (resolve fs sd @ [CHECKPOINT_DIR, f]) = None"
      "fs_nodes fs (resolve fs sd @ [CHECKPOINT_DIR, f, tag @ CKPT_EXT]) = None"
  shows "\<exists>fs1. checkpoint_create sd fs f tag = (ERR_CREATED, fs1)"
proof -
  let ?d = "get_checkpoint_dir sd f" and ?p = "get_checkpoint_path sd f tag"
  let ?fs = "set_node fs ?d (Some FDir)"
  have sd: "sd \<noteq> []" and f: "plain_name f" "length f \<le> NAME_MAX" and plain: "plain_name (tag @ CKPT_EXT)" "length (tag @ CKPT_EXT) \<le> NAME_MAX"
    using ok plain_ckpt_file [of tag] by (auto simp: storage_ok_def ckpt_ok_def name_ok_def CKPT_EXT_def)
  have d: "resolve fs ?d = resolve fs sd @ [CHECKPOINT_DIR, f]" by (rule ckpt_dir_resolve [OF ok])
  have up: "resolve fs (sd @ SLASH # CHECKPOINT_DIR) = resolve fs sd @ [CHECKPOINT_DIR]"
    by (rule resolve_child [OF sd plain_ckpt_dir])
  have "fs_lookup fs ?d = None" unfolding fs_lookup_def d none(1) by simp
  then have no: "\<not> stat_ok fs ?d" by (simp add: stat_ok_def)
  have "can_make fs ?d"
    unfolding ckpt_dir_eq [OF ok(2)] using can_make_child [of "sd @ SLASH # CHECKPOINT_DIR" f fs] f by (simp add: up base)
  then have mk: "mkdir fs ?d = Some ?fs" by (simp add: mkdir_def d none(1))
  have a: "fopen_r ?fs (get_file_path sd f) = Some bs"
    using bs deep_set_node [OF ok(1), of ?d CHECKPOINT_DIR f "[]" "Some FDir"] ok(2)
    by (simp add: d fopen_r_def file_bytes_Some ckpt_ok_def)
  have np: "fs_lookup ?fs ?p = None"
    using none(2) by (simp add: ckpt_lookup [OF ok] d)
  have "can_make ?fs ?p"
    unfolding ckpt_path [OF ok(2)] using plain by (subst can_make_child [OF ckpt_dir_ne plain(1)]) simp
  then have "\<exists>fs1. copy_file ?fs (get_file_path sd f) ?p ERR_CREATED = (ERR_CREATED, fs1)"
    using np a by (auto simp: copy_file_def fopen_w_def split: option.split)
  moreover have "stat_ok fs (get_file_path sd f)" "\<not> stat_ok ?fs ?p"
    using np bs by (simp_all add: stat_ok_def file_bytes_Some)
  ultimately show ?thesis using checkpoint_create_copy [OF _ no mk] by simp
qed

lemma ckpt_fs_created: "\<exists>fs1. checkpoint_create ''s'' ckpt_fs ''a'' ''v1'' = (ERR_CREATED, fs1)"
  using ckpt_fs_ok by (intro first_checkpoint_created) (auto simp: ckpt_fs_def resolve_s, simp_all add: sample_fs_def CHECKPOINT_DIR_def)

theorem checkpoint_revert_restores_witness:
  "\<exists>fs1 fs3. checkpoint_create ''s'' ckpt_fs ''a'' ''v1'' = (ERR_CREATED, fs1) \<and>
    checkpoint_revert ''s'' (overwrites ''s'' fs1 [(''a'', ''new''), (''b'', ''other'')]) ''a'' ''v1'' = (ERR_SUCCESS, fs3) \<and>
    file_bytes ''s'' fs3 ''a'' = Some ''One. Two.''"
proof -
  obtain fs1 where c: "checkpoint_create ''s'' ckpt_fs ''a'' ''v1'' = (ERR_CREATED, fs1)"
    using ckpt_fs_created by blast
  have "\<forall>(n, c)\<in>set [(''a'', ''new''), (''b'', ''other'')]. name_ok n" by simp
  from checkpoint_revert_restores [OF _ _ _ c this] ckpt_fs_ok c show ?thesis by blast
qed

section \<open>Listing the tags\<close>

lemma split_at_ext_Some: "split_at_ext s = Some (a, b) \<Longrightarrow> s = a @ CKPT_EXT @ b"
proof (induction s arbitrary: a rule: split_at_ext.induct)
  case (1 s)
  show ?case
  proof (cases "take 11 s = CKPT_EXT")
    case True
    with "1.prems" show ?thesis
      by (simp add: split_at_ext.simps [of s]) (metis append_take_drop_id)
  next
    case False
    then obtain c s' a' where "s = c # s'" "split_at_ext s' = Some (a', b)" "a = c # a'"
      using "1.prems" by (auto simp: split_at_ext.simps [of s] split: list.splits)
    with "1.IH" [OF False, of c s' a'] show ?thesis by simp
  qed
qed

lemma split_at_ext_dotless:
  "CHR ''.'' \<notin> set t \<Longrightarrow> split_at_ext (t @ CKPT_EXT @ b) = Some (t, b)"
proof (induction t)
  case Nil
  then show ?case by (simp add: split_at_ext.simps [of "CKPT_EXT @ b"])
next
  case (Cons c t)
  have "take 11 (c # t @ CKPT_EXT @ b) \<noteq> CKPT_EXT"
    using Cons.prems by (auto simp: CKPT_EXT_def)
  with Cons show ?case by (subst split_at_ext.simps) simp
qed

lemma list_loop_eq: "list_loop room names = take room (List.map_filter listed_tag names)"
  by (induction room names rule: list_loop.induct)
    (auto simp: List.map_filter_def take_Cons' split: option.split)

lemma listed_tag_Some: "listed_tag n = Some t \<Longrightarrow> n = t @ CKPT_EXT \<and> length t < MAX_TAG_LEN"
  by (auto simp: listed_tag_def dest: split_at_ext_Some split: if_splits option.splits)

lemma listed_tag_dotless:
  assumes "CHR ''.'' \<notin> set t"
  shows "listed_tag (t @ CKPT_EXT) = (if length t < MAX_TAG_LEN then Some t else None)"
proof -
  have "t @ CKPT_EXT \<noteq> ''.''" "t @ CKPT_EXT \<noteq> ''..''"
    by (auto simp: CKPT_EXT_def append_eq_Cons_conv)
  with split_at_ext_dotless [OF assms, of "[]"] show ?thesis by (simp add: listed_tag_def)
qed

lemma list_loop_sound:
  "t \<in> set (list_loop room names) \<Longrightarrow> t @ CKPT_EXT \<in> set names \<and> length t < MAX_TAG_LEN"
  unfolding list_loop_eq by (drule in_set_takeD) (auto simp: List.map_filter_def dest: listed_tag_Some)

lemma list_loop_complete:
  assumes "length names \<le> room" and "t @ CKPT_EXT \<in> set names" and "CHR ''.'' \<notin> set t" and "length t < MAX_TAG_LEN"
  shows "t \<in> set (list_loop room names)"
proof -
  have "length (List.map_filter listed_tag names) \<le> room"
    using assms(1) by (simp add: List.map_filter_def) (meson le_trans length_filter_le)
  then have "list_loop room names = List.map_filter listed_tag names" by (simp add: list_loop_eq)
  moreover have "listed_tag (t @ CKPT_EXT) = Some t" using assms(3,4) by (simp add: listed_tag_dotless)
  ultimately show ?thesis using assms(2) by (force simp: List.map_filter_def)
qed

text \<open>
  The list of checkpoints: every listed tag is a stored checkpoint and at most
  \<open>max_tags\<close> are listed; a stored tag without a dot is listed, if the directory holds no more
  than \<open>max_tags\<close> names, exactly when it has fewer than 64 characters. (A message carries tags
  of up to 255 characters: longer ones can be created and reverted to but are never listed.)
\<close>

theorem checkpoint_list_tags:
  assumes "is_dir fs (get_checkpoint_dir sd f)"
  shows "length (checkpoint_list sd fs f names max_tags) \<le> max_tags \<and>
    (\<forall>t\<in>set (checkpoint_list sd fs f names max_tags). t @ CKPT_EXT \<in> set names) \<and>
    (\<forall>t. length names \<le> max_tags \<longrightarrow> t @ CKPT_EXT \<in> set names \<longrightarrow> CHR ''.'' \<notin> set t \<longrightarrow>
       (t \<in> set (checkpoint_list sd fs f names max_tags) \<longleftrightarrow> length t < MAX_TAG_LEN))"
proof -
  have l: "checkpoint_list sd fs f names max_tags = list_loop max_tags names"
    using assms by (simp add: checkpoint_list_def)
  have "length (list_loop max_tags names) \<le> max_tags" by (simp add: list_loop_eq)
  then show ?thesis unfolding l using list_loop_sound list_loop_complete by blast
qed

theorem checkpoint_list_tags_witness:
  "''v1'' \<in> set (checkpoint_list ''s''
     (set_node ckpt_fs (get_checkpoint_dir ''s'' ''a'') (Some FDir)) ''a'' [''.'', ''v1'' @ CKPT_EXT, ''..''] 50)"
proof -
  have "last (get_checkpoint_dir ''s'' ''a'') \<noteq> SLASH"
    using ckpt_dir_eq [of "''s''" "''a''" "''v1''"] ckpt_fs_ok by simp
  then have "is_dir (set_node ckpt_fs (get_checkpoint_dir ''s'' ''a'') (Some FDir)) (get_checkpoint_dir ''s'' ''a'')"
    by (simp add: is_dir_def ckpt_dir_ne)
  from checkpoint_list_tags [OF this, of "[''.'', ''v1'' @ CKPT_EXT, ''..'']" 50] show ?thesis by simp
qed

end
