(* ===== verification/Folder_Manager.thy ===== *)
theory Folder_Manager
  imports File_Store
begin

text \<open>
  \<^verbatim>\<open>storage_server/folder_manager.c\<close>: folders below the storage directory, moving a file into
  one, and listing one. All results are the error codes of the protocol.
\<close>

section \<open>Operations\<close>

abbreviation MAX_FILES_PER_FOLDER :: nat where "MAX_FILES_PER_FOLDER \<equiv> 100"

definition folder_create :: "cstring \<Rightarrow> FS \<Rightarrow> cstring \<Rightarrow> int \<times> FS" where
  "folder_create sd fs folder_name =
     (let folder_path = cbuf MAX_PATH_LEN (sd @ SLASH # folder_name)
      in if is_dir fs folder_path then (ERR_CONFLICT, fs)
         else case mkdir fs folder_path of
                None \<Rightarrow> (ERR_SERVER_ERROR, fs)
              | Some fs' \<Rightarrow> (ERR_CREATED, fs'))"

definition folder_move_file :: "cstring \<Rightarrow> FS \<Rightarrow> cstring \<Rightarrow> cstring \<Rightarrow> int \<times> FS" where
  "folder_move_file sd fs filename folder_name =
     (let folder_path = cbuf MAX_PATH_LEN (sd @ SLASH # folder_name);
          src_path = cbuf MAX_PATH_LEN (sd @ SLASH # filename);
          dest_path = cbuf MAX_PATH_LEN (sd @ SLASH # folder_name @ SLASH # filename)
      in if \<not> is_dir fs folder_path then (ERR_NOT_FOUND, fs)
         else if \<not> is_reg fs src_path then (ERR_NOT_FOUND, fs)
         else if stat_ok fs dest_path then (ERR_CONFLICT, fs)
         else case rename_file fs src_path dest_path of
                None \<Rightarrow> (ERR_SERVER_ERROR, fs)
              | Some fs' \<Rightarrow> (ERR_SUCCESS, fs'))"

text \<open>\<open>names\<close> is what \<open>readdir\<close> delivers; \<open>None\<close> is the result \<open>-1\<close>.\<close>

definition folder_list_files ::
  "cstring \<Rightarrow> FS \<Rightarrow> cstring \<Rightarrow> cstring list \<Rightarrow> nat \<Rightarrow> cstring list option" where
  "folder_list_files sd fs folder_name names max_files =
     (let folder_path = cbuf MAX_PATH_LEN (sd @ SLASH # folder_name)
      in if is_dir fs folder_path then Some (scan_loop folder_path fs max_files names) else None)"

definition folder_exists :: "cstring \<Rightarrow> FS \<Rightarrow> cstring \<Rightarrow> bool" where
  "folder_exists sd fs folder_name \<longleftrightarrow> is_dir fs (cbuf MAX_PATH_LEN (sd @ SLASH # folder_name))"

definition folder_get_file_path :: "cstring \<Rightarrow> cstring \<Rightarrow> cstring \<Rightarrow> cstring" where
  "folder_get_file_path sd folder_name filename =
     (if length folder_name > 0 then cbuf MAX_PATH_LEN (sd @ SLASH # folder_name @ SLASH # filename)
      else cbuf MAX_PATH_LEN (sd @ SLASH # filename))"

section \<open>Paths below a folder\<close>

definition folder_ok :: "cstring \<Rightarrow> cstring \<Rightarrow> cstring \<Rightarrow> bool" where
  "folder_ok sd folder n \<longleftrightarrow> name_ok folder \<and> name_ok n \<and>
     length sd + length folder + length n + 2 < MAX_PATH_LEN"

lemma folder_path:
  "storage_ok sd fs \<Longrightarrow> name_ok d \<Longrightarrow> cbuf MAX_PATH_LEN (sd @ SLASH # d) = get_file_path sd d"
  by (simp add: get_file_path_def)

lemma folder_dest:
  assumes "storage_ok sd fs" and "folder_ok sd d n"
  shows "cbuf MAX_PATH_LEN (sd @ SLASH # d @ SLASH # n) = (sd @ SLASH # d) @ SLASH # n \<and>
    resolve fs' ((sd @ SLASH # d) @ SLASH # n) = resolve fs' sd @ [d, n] \<and>
    fs_lookup fs' ((sd @ SLASH # d) @ SLASH # n) = fs_nodes fs' (resolve fs' sd @ [d, n])"
proof -
  have sd: "sd \<noteq> []" and d: "plain_name d" and n: "plain_name n"
    using assms by (auto simp: storage_ok_def folder_ok_def name_ok_def)
  have r: "resolve fs' (sd @ SLASH # d) = resolve fs' sd @ [d]" by (rule resolve_child [OF sd d])
  have "cbuf MAX_PATH_LEN (sd @ SLASH # d @ SLASH # n) = (sd @ SLASH # d) @ SLASH # n"
    using assms(2) by (simp add: folder_ok_def cbuf_id)
  moreover have "resolve fs' ((sd @ SLASH # d) @ SLASH # n) = resolve fs' sd @ [d, n]"
    by (subst resolve_child [OF _ n]) (simp_all add: r)
  moreover have "fs_lookup fs' ((sd @ SLASH # d) @ SLASH # n) = fs_nodes fs' (resolve fs' sd @ [d, n])"
    by (subst lookup_child [OF _ n]) (simp_all add: r)
  ultimately show ?thesis by blast
qed

text \<open>The bytes of the file \<open>n\<close> inside the folder \<open>d\<close>.\<close>

definition folder_bytes :: "cstring \<Rightarrow> FS \<Rightarrow> cstring \<Rightarrow> cstring \<Rightarrow> char list option" where
  "folder_bytes sd fs d n =
     (case fs_lookup fs (folder_get_file_path sd d n) of Some (FReg bs) \<Rightarrow> Some bs | _ \<Rightarrow> None)"

text \<open>
  \<open>folder_move_file\<close> loses nothing: on success the file was in the storage directory and
  the name was free in the folder; afterwards the folder's file has exactly its bytes, the file
  is gone from the storage directory, and every other file there is unchanged. On every error
  the disk is unchanged.
\<close>

theorem folder_move_file_spec:
  assumes ok: "storage_ok sd fs" "folder_ok sd d n" and mv: "folder_move_file sd fs n d = (err, fs')"
  shows "(err \<noteq> ERR_SUCCESS \<longrightarrow> fs' = fs) \<and>
    (err = ERR_SUCCESS \<longrightarrow>
       file_bytes sd fs n \<noteq> None \<and> folder_exists sd fs d \<and> folder_bytes sd fs d n = None \<and>
       folder_bytes sd fs' d n = file_bytes sd fs n \<and>
       (\<forall>j. name_ok j \<longrightarrow> file_bytes sd fs' j = (if j = n then None else file_bytes sd fs j)))"
proof -
  let ?src = "get_file_path sd n" and ?dst = "(sd @ SLASH # d) @ SLASH # n"
  have d: "name_ok d" and n: "name_ok n" and dne: "d \<noteq> []"
    using ok(2) by (auto simp: folder_ok_def name_ok_def plain_name_def)
  note dest = folder_dest [OF ok]
  have dp: "cbuf MAX_PATH_LEN (sd @ SLASH # d @ SLASH # n) = ?dst" using dest by blast
  have gp: "cbuf MAX_PATH_LEN (sd @ SLASH # x) = get_file_path sd x" for x
    by (simp add: get_file_path_def)
  have dp': "get_file_path sd (d @ SLASH # n) = sd @ SLASH # d @ SLASH # n"
    using dp by (simp add: gp)
  have fp: "folder_get_file_path sd d n = ?dst" using dp dne by (simp add: folder_get_file_path_def)
  show ?thesis
  proof (cases "err = ERR_SUCCESS")
    case True
    then have pre: "is_dir fs (get_file_path sd d)" "is_reg fs ?src" "\<not> stat_ok fs ?dst"
      and ren: "rename_file fs ?src ?dst = Some fs'"
      using mv dp' unfolding folder_move_file_def gp by (auto simp: Let_def split: if_splits option.splits)
    from pre(2) obtain bs where bs: "fs_lookup fs ?src = Some (FReg bs)" by (auto simp: is_reg_def)
    have res: "resolve fs ?src \<noteq> resolve fs ?dst" using dest by (simp add: file_resolve [OF ok(1) n])
    let ?fs1 = "set_node fs ?src None"
    have fs': "fs' = set_node ?fs1 ?dst (Some (FReg bs))"
      using ren bs res by (auto simp: rename_file_def split: if_splits)
    have ok1: "storage_ok sd ?fs1" by (rule storage_ok_set_node [OF ok(1) n])
    have look: "fs_lookup fs' (get_file_path sd j) = (if j = n then None else fs_lookup fs (get_file_path sd j))"
      if "name_ok j" for j
    proof -
      have ok': "storage_ok sd fs'"
        using ok1 dest [of ?fs1] unfolding fs' by (simp add: storage_ok_def)
      show ?thesis using that dest
        by (simp add: file_lookup [OF ok' that] file_lookup [OF ok(1) that])
          (simp add: fs' file_resolve [OF ok(1) n])
    qed
    have "fs_lookup fs' ?dst = Some (FReg bs)"
      using dest [of fs'] dest by (simp add: fs')
    with True look bs pre show ?thesis
      by (auto simp: folder_bytes_def file_bytes_def fp folder_exists_def gp stat_ok_def)
  qed (use mv in \<open>auto simp: folder_move_file_def Let_def split: if_splits option.splits\<close>)
qed

definition folder_fs :: FS where
  "folder_fs = sample_fs\<lparr>fs_nodes := (fs_nodes sample_fs)([''s'', ''b''] \<mapsto> FDir)\<rparr>"

theorem folder_move_file_spec_witness:
  "fst (folder_move_file ''s'' folder_fs ''a'' ''b'') = ERR_SUCCESS \<and>
   folder_bytes ''s'' (snd (folder_move_file ''s'' folder_fs ''a'' ''b'')) ''b'' ''a'' = Some ''One. Two.''"
proof -
  have s: "resolve folder_fs ''s'' = [''s'']"
    by (simp add: folder_fs_def sample_fs_def resolve_def runs_one)
  have ok: "storage_ok ''s'' folder_fs" "folder_ok ''s'' ''b'' ''a''"
    by (simp_all add: storage_ok_def s folder_ok_def) (simp add: folder_fs_def sample_fs_def)
  have na: "name_ok ''a''" and nb: "name_ok ''b''" by simp_all
  have a: "fs_lookup folder_fs (get_file_path ''s'' ''a'') = Some (FReg ''One. Two.'')"
    and b: "fs_lookup folder_fs (get_file_path ''s'' ''b'') = Some FDir"
    by (simp_all only: file_lookup [OF ok(1) na] file_lookup [OF ok(1) nb] s)
      (simp_all add: folder_fs_def sample_fs_def)
  note dest = folder_dest [OF ok]
  let ?dst = "(''s'' @ SLASH # ''b'') @ SLASH # ''a''"
  have free: "fs_lookup folder_fs ?dst = None"
    using dest [of folder_fs] unfolding s by (simp add: folder_fs_def sample_fs_def)
  have make: "can_make folder_fs ?dst"
    using can_make_child [of "''s'' @ SLASH # ''b''" "''a''" folder_fs]
      resolve_child [of "''s''" "''b''" folder_fs] s by (simp add: plain_name_def folder_fs_def)
  have "fst (folder_move_file ''s'' folder_fs ''a'' ''b'') = ERR_SUCCESS"
    using a b free make dest
    by (simp add: folder_move_file_def get_file_path_def is_dir_def is_reg_def stat_ok_def rename_file_def Let_def)
  with folder_move_file_spec [OF ok surjective_pairing] a show ?thesis by (simp add: file_bytes_def)
qed

end
