(* ===== verification/Storage_Server.thy ===== *)
theory Storage_Server
  imports Sentence_Parser Sentence_Lock Undo_Buffer Inverted_Index Checkpoint_Manager Folder_Manager
begin

text \<open>
  \<^verbatim>\<open>storage_server/storage_server.c\<close>: the request handlers of a storage server, the dispatch of
  its two serving threads and its start-up, over one record with the server's globals. A
  handler returns the new state and the messages it sends; \<open>None\<close> is undefined behaviour of the
  C code (a buffer overrun or a read of memory that was never written). What a handler learns
  from outside its state (the clock, allocation results, file times, the order of a directory,
  how many stream messages the client took) is in \<open>Env\<close>. Every thread's handling of a message
  is one step; \<open>strdup\<close> and the unchecked \<open>malloc\<close> calls of this file are taken to succeed.
\<close>

section \<open>State\<close>

record WriteSession =
  ws_filename :: cstring
  ws_sentence_num :: int
  ws_client_id :: cstring
  ws_words :: "cstring list"
  ws_active :: bool

abbreviation ws_word_count :: "WriteSession \<Rightarrow> nat" where
  "ws_word_count s \<equiv> length (ws_words s)"

record SS =
  ss_dir :: cstring
  ss_fs :: FS
  ss_locks :: LockTable
  ss_undo :: UndoTable
  ss_index :: InvertedIndex
  ss_session :: WriteSession

record Env =
  e_now :: int
  e_mem_node :: bool
  e_mem_content :: bool
  e_mem_restore :: bool
  e_mem_index :: "cstring \<Rightarrow> nat \<Rightarrow> bool"
  e_times :: "int \<times> int \<times> int"
  e_dir_size :: nat
  e_names :: "cstring list"
  e_sent :: nat

type_synonym ss_result = "(SS \<times> Message list) option"

definition reply :: "Env \<Rightarrow> int \<Rightarrow> cstring \<Rightarrow> Message" where
  "reply env code txt = put_content txt ((INIT_MESSAGE (e_now env))\<lparr>m_error_code := code\<rparr>)"

definition ack :: "Env \<Rightarrow> int \<Rightarrow> cstring \<Rightarrow> Message" where
  "ack env code txt = (reply env code txt)\<lparr>m_operation := OP_ACK\<rparr>"

definition stop_msg :: "Env \<Rightarrow> Message" where
  "stop_msg env = (INIT_MESSAGE (e_now env))\<lparr>m_operation := OP_STOP\<rparr>"

section \<open>The write session\<close>

text \<open>The words of the target sentence: none for a sentence appended at the end.\<close>

definition target_words :: "cstring list \<Rightarrow> int \<Rightarrow> cstring list option" where
  "target_words sentences sn =
     (let sentence_count = length sentences
      in if sn = int sentence_count then Some []
         else if sentence_count = 0 \<and> sn = 0 then Some []
         else parse_words (sentences ! nat sn))"

definition handle_write_start :: "Env \<Rightarrow> SS \<Rightarrow> Message \<Rightarrow> ss_result" where
  "handle_write_start env st msg =
     (let fn = m_filename msg; sn = m_sentence_num msg; client = m_sender_id msg
      in if \<not> file_exists (ss_dir st) (ss_fs st) fn then
           Some (st, [reply env ERR_NOT_FOUND ''File not found''])
         else
           let (lock_result, locks) = lock_acquire (ss_locks st) fn sn client (e_now env)
           in if lock_result = ERR_LOCKED then
                Some (st\<lparr>ss_locks := locks\<rparr>, [reply env ERR_LOCKED ''Sentence locked by another user''])
              else
                let (read_result, buf) = read_file (ss_dir st) (ss_fs st) fn MAX_CONTENT_LEN;
                    unlocked = st\<lparr>ss_locks := snd (lock_release locks fn sn client)\<rparr>
                in case buf of
                     None \<Rightarrow> Some (unlocked, [reply env read_result ''Failed to read file''])
                   | Some bytes \<Rightarrow>
                       let file_content = cstr_of bytes;
                           sentences = parse_sentences file_content;
                           sentence_count = length sentences
                       in if sn < 0 \<or> sn > int sentence_count then
                            Some (unlocked, [reply env ERR_INDEX_ERROR
                              (''Invalid sentence number '' @ show_int sn @ '' (file has '' @ show_nat sentence_count @
                               '' sentences, valid range: 0-'' @ show_nat sentence_count @ '')'')])
                          else
                            case target_words sentences sn of
                              None \<Rightarrow> None
                            | Some words \<Rightarrow>
                                Some (st\<lparr>ss_locks := locks,
                                    ss_session := \<lparr>ws_filename = cbuf MAX_FILENAME_LEN fn, ws_sentence_num = sn,
                                      ws_client_id = cbuf MAX_USERNAME_LEN client, ws_words = words,
                                      ws_active = True\<rparr>,
                                    ss_undo := snd (undo_save (e_mem_node env) (e_mem_content env) (ss_undo st) fn
                                      file_content (length file_content))\<rparr>,
                                  [reply env ERR_SUCCESS
                                    (''Lock acquired. Sentence has '' @ show_nat (length words) @
                                     '' words. Send word updates.'')]))"

definition handle_write_update :: "Env \<Rightarrow> SS \<Rightarrow> Message \<Rightarrow> ss_result" where
  "handle_write_update env st msg =
     (let ws = ss_session st
      in if \<not> ws_active ws then Some (st, [reply env ERR_BAD_REQUEST ''No active WRITE session''])
         else
           let word_idx = m_word_index msg; new_word = m_content msg
           in if word_idx < 0 \<or> word_idx > int (ws_word_count ws) then
                Some (st, [reply env ERR_INDEX_ERROR
                  (''Invalid word index '' @ show_int word_idx @ '' (sentence has '' @
                   show_nat (ws_word_count ws) @ '' words)'')])
              else
                let i = nat word_idx;
                    new_words = take i (ws_words ws) @ new_word # drop i (ws_words ws)
                in Some (st\<lparr>ss_session := ws\<lparr>ws_words := new_words\<rparr>\<rparr>,
                     [reply env ERR_SUCCESS
                       (''Word inserted at index '' @ show_int word_idx @ ''. Sentence now has '' @
                        show_nat (length new_words) @ '' words.'')]))"

text \<open>
  The sentences of the file after a commit. \<open>None\<close> is a write past the array \<open>new_sentences\<close>
  (sized for a target inside the file or right after it) or past \<open>sentences\<close>.
\<close>

definition commit_sentences :: "cstring list \<Rightarrow> int \<Rightarrow> cstring \<Rightarrow> cstring list option" where
  "commit_sentences sentences sn new_sentence =
     (let sentence_count = length sentences
      in if sentence_count = 0 then
           (if has_delimiter new_sentence then Some (split_by_delimiters new_sentence)
            else Some [new_sentence])
         else if has_delimiter new_sentence then
           (let parts = split_by_delimiters new_sentence;
                is_appending = (sn = int sentence_count);
                new_total = (if is_appending then sentence_count + length parts
                             else sentence_count - 1 + length parts);
                new_sentences = take (nat sn) sentences @ parts @ drop (nat (sn + 1)) sentences
            in if length new_sentences > new_total then None else Some new_sentences)
         else if sn = int sentence_count then Some (sentences @ [new_sentence])
         else if sn < 0 \<or> sn > int sentence_count then None
         else Some (sentences[nat sn := new_sentence]))"

definition handle_write_commit :: "Env \<Rightarrow> SS \<Rightarrow> ss_result" where
  "handle_write_commit env st =
     (let ws = ss_session st; fn = ws_filename ws
      in if \<not> ws_active ws then Some (st, [reply env ERR_BAD_REQUEST ''No active WRITE session''])
         else
           case snd (read_file (ss_dir st) (ss_fs st) fn MAX_CONTENT_LEN) of
             None \<Rightarrow> None
           | Some bytes \<Rightarrow>
               let new_sentence = join_words (ws_words ws)
               in if length new_sentence \<ge> MAX_CONTENT_LEN then None
                  else
                    case commit_sentences (parse_sentences (cstr_of bytes)) (ws_sentence_num ws) new_sentence of
                      None \<Rightarrow> None
                    | Some sentences \<Rightarrow>
                        let new_content = rebuild_file sentences;
                            filepath = get_file_path (ss_dir st) fn;
                            temp_filepath = cbuf MAX_PATH_LEN (filepath @ ''.tmp'');
                            locks = snd (lock_release (ss_locks st) fn (ws_sentence_num ws) (ws_client_id ws));
                            closed = ws\<lparr>ws_active := False\<rparr>
                        in case fopen_w (ss_fs st) temp_filepath of
                             None \<Rightarrow>
                               Some (st\<lparr>ss_locks := locks, ss_session := closed\<rparr>,
                                 [reply env ERR_SERVER_ERROR ''Failed to write temp file''])
                           | Some fs1 \<Rightarrow>
                               let fs2 = fwrite fs1 temp_filepath new_content;
                                   fs3 = (case rename_file fs2 temp_filepath filepath of None \<Rightarrow> fs2 | Some fs' \<Rightarrow> fs');
                                   index = (case read_file (ss_dir st) fs3 fn MAX_CONTENT_LEN of
                                              (code, Some updated) \<Rightarrow> snd (index_file (e_mem_index env fn) (ss_index st) fn (cstr_of updated))
                                            | (code, None) \<Rightarrow> ss_index st)
                               in Some (st\<lparr>ss_fs := fs3, ss_locks := locks, ss_index := index, ss_session := closed\<rparr>,
                                    [reply env ERR_SUCCESS ''WRITE committed successfully'']))"

definition handle_write_session :: "Env \<Rightarrow> SS \<Rightarrow> Message \<Rightarrow> ss_result" where
  "handle_write_session env st msg =
     (if m_operation msg = OP_WRITE_START then handle_write_start env st msg
      else if m_operation msg = OP_WRITE_UPDATE then handle_write_update env st msg
      else if m_operation msg = OP_WRITE_COMMIT then handle_write_commit env st
      else Some (st, []))"

section \<open>Undo, stream, read\<close>

definition handle_undo_request :: "Env \<Rightarrow> SS \<Rightarrow> Message \<Rightarrow> ss_result" where
  "handle_undo_request env st msg =
     (let fn = m_filename msg
      in if \<not> undo_available (ss_undo st) fn then
           Some (st, [reply env ERR_NOT_FOUND ''No undo available for this file''])
         else
           case undo_restore (e_mem_restore env) (ss_undo st) fn of
             None \<Rightarrow> None
           | Some (restore_result, None, undo) \<Rightarrow>
               Some (st\<lparr>ss_undo := undo\<rparr>, [reply env restore_result ''Failed to restore from undo buffer''])
           | Some (restore_result, Some restore_content, undo) \<Rightarrow>
               let filepath = get_file_path (ss_dir st) fn
               in case fopen_w (ss_fs st) filepath of
                    None \<Rightarrow> Some (st\<lparr>ss_undo := undo\<rparr>, [reply env ERR_SERVER_ERROR ''Failed to write restored file''])
                  | Some fs' \<Rightarrow>
                      Some (st\<lparr>ss_undo := undo, ss_fs := fwrite fs' filepath restore_content\<rparr>,
                        [reply env ERR_SUCCESS ''File restored from undo buffer'']))"

definition word_msg :: "Env \<Rightarrow> nat \<Rightarrow> cstring \<Rightarrow> Message" where
  "word_msg env i w =
     (reply env ERR_SUCCESS w)\<lparr>m_operation := OP_STREAM, m_word_index := int i\<rparr>"

text \<open>
  \<open>e_sent\<close> is the number of word messages the client takes; the first send that fails ends the
  stream without \<open>STOP\<close>.
\<close>

fun stream_loop :: "Env \<Rightarrow> nat \<Rightarrow> cstring list \<Rightarrow> Message list" where
  "stream_loop env i [] = [stop_msg env]"
| "stream_loop env i (w # ws) =
     (if i < e_sent env then word_msg env i w # stream_loop env (Suc i) ws else [])"

definition handle_stream_request :: "Env \<Rightarrow> SS \<Rightarrow> Message \<Rightarrow> ss_result" where
  "handle_stream_request env st msg =
     (let fn = m_filename msg
      in if \<not> file_exists (ss_dir st) (ss_fs st) fn then
           Some (st, [ack env ERR_NOT_FOUND ''File not found''])
         else
           case read_file (ss_dir st) (ss_fs st) fn MAX_CONTENT_LEN of
             (read_result, None) \<Rightarrow> Some (st, [ack env read_result ''Failed to read file''])
           | (read_result, Some bytes) \<Rightarrow>
               (case parse_words (cstr_of bytes) of
                  None \<Rightarrow> None
                | Some words \<Rightarrow>
                    Some (st, ack env ERR_SUCCESS ''Starting stream'' #
                      (if words = [] then [stop_msg env] else stream_loop env 0 words))))"

definition handle_read_from_client :: "Env \<Rightarrow> SS \<Rightarrow> Message \<Rightarrow> ss_result" where
  "handle_read_from_client env st msg =
     (let (result, buf) = read_file (ss_dir st) (ss_fs st) (m_filename msg) MAX_CONTENT_LEN;
          response = (case buf of
            Some bytes \<Rightarrow>
              (ack env result (cstr_of bytes))\<lparr>m_content_length := length (cbuf MAX_CONTENT_LEN (cstr_of bytes))\<rparr>
          | None \<Rightarrow>
              ack env result (''File '' @ quoted (m_filename msg) @ '' '' @
                (if result = ERR_NOT_FOUND then ''not found'' else ''read failed'')))
      in Some (st, [response, stop_msg env]))"

section \<open>Folder and checkpoint requests\<close>

definition handle_createfolder_request :: "Env \<Rightarrow> SS \<Rightarrow> Message \<Rightarrow> ss_result" where
  "handle_createfolder_request env st msg =
     (let (result, fs') = folder_create (ss_dir st) (ss_fs st) (m_folder_name msg)
      in Some (st\<lparr>ss_fs := fs'\<rparr>, [ack env result
           (if result = ERR_CREATED then ''Folder '' @ quoted (m_folder_name msg) @ '' created successfully''
            else ''Failed to create folder: '' @ get_error_message result)]))"

definition handle_move_request :: "Env \<Rightarrow> SS \<Rightarrow> Message \<Rightarrow> ss_result" where
  "handle_move_request env st msg =
     (let (result, fs') = folder_move_file (ss_dir st) (ss_fs st) (m_filename msg) (m_folder_name msg)
      in Some (st\<lparr>ss_fs := fs'\<rparr>, [ack env result
           (if result = ERR_SUCCESS then
              ''File '' @ quoted (m_filename msg) @ '' moved to folder '' @ quoted (m_folder_name msg)
            else ''Failed to move file: '' @ get_error_message result)]))"

text \<open>
  The listing loops: a line is appended while the offset is below the bound; only the last
  line can be cut by the size of the content field.
\<close>

fun listing_loop :: "cstring \<Rightarrow> cstring list \<Rightarrow> cstring" where
  "listing_loop content [] = content"
| "listing_loop content (name # names) =
     (if length content < MAX_CONTENT_LEN - 50 then
        listing_loop (content @ ''  - '' @ name @ [CHR 0x0A]) names
      else content)"

definition handle_viewfolder_request :: "Env \<Rightarrow> SS \<Rightarrow> Message \<Rightarrow> ss_result" where
  "handle_viewfolder_request env st msg =
     (case folder_list_files (ss_dir st) (ss_fs st) (m_folder_name msg) (e_names env) MAX_FILES_PER_FOLDER of
        None \<Rightarrow> Some (st, [ack env ERR_NOT_FOUND (''Folder '' @ quoted (m_folder_name msg) @ '' not found'')])
      | Some files \<Rightarrow>
          Some (st, [ack env ERR_SUCCESS
            (listing_loop (''Files in folder '' @ quoted (m_folder_name msg) @ '' ('' @ show_nat (length files) @
               '')'' @ CHR '':'' # [CHR 0x0A]) files)]))"

definition handle_checkpoint_request :: "Env \<Rightarrow> SS \<Rightarrow> Message \<Rightarrow> ss_result" where
  "handle_checkpoint_request env st msg =
     (let (result, fs') = checkpoint_create (ss_dir st) (ss_fs st) (m_filename msg) (m_checkpoint_tag msg)
      in Some (st\<lparr>ss_fs := fs'\<rparr>, [ack env result
           (if result = ERR_CREATED then
              ''Checkpoint '' @ quoted (m_checkpoint_tag msg) @ '' created for file '' @ quoted (m_filename msg)
            else ''Failed to create checkpoint: '' @ get_error_message result)]))"

definition handle_viewcheckpoint_request :: "Env \<Rightarrow> SS \<Rightarrow> Message \<Rightarrow> ss_result" where
  "handle_viewcheckpoint_request env st msg =
     (let (result, content) = checkpoint_view (ss_dir st) (ss_fs st) (m_filename msg) (m_checkpoint_tag msg)
        MAX_CONTENT_LEN
      in Some (st, [ack env result
           (case content of
              Some bytes \<Rightarrow> cstr_of bytes
            | None \<Rightarrow> ''Failed to view checkpoint: '' @ get_error_message result)]))"

definition handle_revert_request :: "Env \<Rightarrow> SS \<Rightarrow> Message \<Rightarrow> ss_result" where
  "handle_revert_request env st msg =
     (let (result, fs') = checkpoint_revert (ss_dir st) (ss_fs st) (m_filename msg) (m_checkpoint_tag msg)
      in Some (st\<lparr>ss_fs := fs'\<rparr>, [ack env result
           (if result = ERR_SUCCESS then
              ''File '' @ quoted (m_filename msg) @ '' reverted to checkpoint '' @ quoted (m_checkpoint_tag msg)
            else ''Failed to revert: '' @ get_error_message result)]))"

definition handle_listcheckpoints_request :: "Env \<Rightarrow> SS \<Rightarrow> Message \<Rightarrow> ss_result" where
  "handle_listcheckpoints_request env st msg =
     (let tags = checkpoint_list (ss_dir st) (ss_fs st) (m_filename msg) (e_names env) MAX_CHECKPOINTS
      in Some (st, [ack env ERR_SUCCESS
           (listing_loop (''Checkpoints for '' @ quoted (m_filename msg) @ '' ('' @ show_nat (length tags) @
              '')'' @ CHR '':'' # [CHR 0x0A]) tags)]))"

definition handle_search_request :: "Env \<Rightarrow> SS \<Rightarrow> Message \<Rightarrow> ss_result" where
  "handle_search_request env st msg =
     (case index_search (ss_index st) (m_content msg) of
        None \<Rightarrow> None
      | Some (count, result) \<Rightarrow>
          Some (st, [if count > 0 then
                       ack env ERR_SUCCESS (''Files containing '' @ quoted (m_content msg) @
                         CHR '':'' # CHR 0x0A # result)
                     else ack env ERR_NOT_FOUND result]))"

section \<open>The thread that serves the name server\<close>

definition ns_request :: "Env \<Rightarrow> SS \<Rightarrow> Message \<Rightarrow> ss_result" where
  "ns_request env st msg =
     (let fn = m_filename msg; dir = ss_dir st; fs = ss_fs st;
          answer = (\<lambda>st result. Some (st, [ack env result
            (if result = ERR_CREATED \<or> result = ERR_SUCCESS then ''Operation successful''
             else ''Operation failed: '' @ get_error_message result)]))
      in if m_operation msg = OP_CREATE then
           let (result, fs') = create_file dir fs fn;
               index = (if result = ERR_CREATED then snd (index_file (e_mem_index env fn) (ss_index st) fn []) else ss_index st)
           in answer (st\<lparr>ss_fs := fs', ss_index := index\<rparr>) result
         else if m_operation msg = OP_DELETE then
           let (result, fs') = delete_file dir fs fn;
               index = (if result = ERR_SUCCESS then snd (index_remove_file (ss_index st) fn) else ss_index st)
           in answer (st\<lparr>ss_fs := fs', ss_index := index\<rparr>) result
         else if m_operation msg = OP_GET_METADATA then
           (case get_file_metadata (e_times env) (e_dir_size env) dir fs fn MAX_CONTENT_LEN of
              None \<Rightarrow> None
            | Some (result, metadata) \<Rightarrow>
                Some (st, [ack env result
                  (case metadata of
                     Some txt \<Rightarrow> txt
                   | None \<Rightarrow> ''Failed to get metadata: '' @ get_error_message result)]))
         else if m_operation msg = OP_CREATEFOLDER then handle_createfolder_request env st msg
         else if m_operation msg = OP_MOVE then handle_move_request env st msg
         else if m_operation msg = OP_VIEWFOLDER then handle_viewfolder_request env st msg
         else if m_operation msg = OP_READ then
           let (result, content) = read_file dir fs fn MAX_CONTENT_LEN
           in Some (st, [ack env result
                (case content of
                   Some bytes \<Rightarrow> cstr_of bytes
                 | None \<Rightarrow> ''Failed to read file: '' @ get_error_message result)])
         else if m_operation msg = OP_REPLICATE then
           let (result, fs') = create_file dir fs fn
           in Some (st\<lparr>ss_fs := fs'\<rparr>,
                [ack env (if result = ERR_CREATED \<or> result = ERR_CONFLICT then ERR_SUCCESS else result) []])
         else answer st ERR_NOT_IMPLEMENTED)"

section \<open>The thread that serves clients\<close>

text \<open>A connection that opened a write session: \<open>[]\<close> is the end of the client's stream.\<close>

fun write_loop :: "SS \<Rightarrow> (Env \<times> Message) list \<Rightarrow> ss_result" where
  "write_loop st [] =
     Some (if ws_active (ss_session st) then
             st\<lparr>ss_locks := snd (lock_release (ss_locks st) (ws_filename (ss_session st))
                  (ws_sentence_num (ss_session st)) (ws_client_id (ss_session st))),
                ss_session := (ss_session st)\<lparr>ws_active := False\<rparr>\<rparr>
           else st, [])"
| "write_loop st ((env, write_msg) # rest) =
     (if m_operation write_msg = OP_WRITE_UPDATE then
        (case handle_write_session env st write_msg of
           None \<Rightarrow> None
         | Some (st', out) \<Rightarrow> map_option (\<lambda>(st'', out'). (st'', out @ out')) (write_loop st' rest))
      else if m_operation write_msg = OP_WRITE_COMMIT then handle_write_session env st write_msg
      else Some (st, []))"

definition client_connection :: "SS \<Rightarrow> Env \<Rightarrow> Message \<Rightarrow> (Env \<times> Message) list \<Rightarrow> ss_result" where
  "client_connection st env msg rest =
     (let op = m_operation msg
      in if op = OP_WRITE_START then
           (case handle_write_session env st msg of
              None \<Rightarrow> None
            | Some (st', out) \<Rightarrow> map_option (\<lambda>(st'', out'). (st'', out @ out')) (write_loop st' rest))
         else if op = OP_READ then handle_read_from_client env st msg
         else if op = OP_WRITE_UPDATE \<or> op = OP_WRITE_COMMIT then
           Some (st, [ack env ERR_BAD_REQUEST ''No active WRITE session''])
         else if op = OP_UNDO then handle_undo_request env st msg
         else if op = OP_STREAM then handle_stream_request env st msg
         else if op = OP_CHECKPOINT then handle_checkpoint_request env st msg
         else if op = OP_VIEWCHECKPOINT then handle_viewcheckpoint_request env st msg
         else if op = OP_REVERT then handle_revert_request env st msg
         else if op = OP_LISTCHECKPOINTS then handle_listcheckpoints_request env st msg
         else if op = OP_SEARCH then handle_search_request env st msg
         else Some (st, [ack env ERR_NOT_IMPLEMENTED ''Operation not implemented'']))"

section \<open>Background threads and start-up\<close>

definition lock_cleanup_round :: "Env \<Rightarrow> SS \<Rightarrow> SS" where
  "lock_cleanup_round env st = st\<lparr>ss_locks := snd (lock_cleanup_expired (ss_locks st) (e_now env))\<rparr>"

definition heartbeat_message :: "Env \<Rightarrow> cstring \<Rightarrow> int \<Rightarrow> int \<Rightarrow> Message" where
  "heartbeat_message env local_ip nm_port client_port =
     (INIT_MESSAGE (e_now env))\<lparr>m_operation := OP_HEARTBEAT, m_ip_address := cbuf MAX_IP_LEN local_ip,
       m_nm_port := nm_port, m_client_port := client_port\<rparr>"

text \<open>
  The file list of a registration: names with a separator after each, cut before the first
  that does not fit, and the last separator taken off.
\<close>

fun serialize_loop :: "cstring \<Rightarrow> cstring list \<Rightarrow> cstring" where
  "serialize_loop file_list [] = file_list"
| "serialize_loop file_list (f # files) =
     (if length file_list + (length f + 1) \<ge> MAX_CONTENT_LEN then file_list
      else serialize_loop (file_list @ f @ ''|'') files)"

definition serialize_files :: "cstring list \<Rightarrow> cstring" where
  "serialize_files files = butlast (serialize_loop [] files)"

definition registration_message :: "Env \<Rightarrow> cstring \<Rightarrow> int \<Rightarrow> int \<Rightarrow> cstring list \<Rightarrow> Message" where
  "registration_message env local_ip nm_port client_port files =
     put_content (serialize_files files)
       ((INIT_MESSAGE (e_now env))\<lparr>m_operation := OP_REGISTER_SS, m_ip_address := cbuf MAX_IP_LEN local_ip,
          m_nm_port := nm_port, m_client_port := client_port\<rparr>)"

fun index_existing :: "(cstring \<Rightarrow> nat \<Rightarrow> bool) \<Rightarrow> cstring \<Rightarrow> FS \<Rightarrow> InvertedIndex \<Rightarrow> cstring list \<Rightarrow> InvertedIndex" where
  "index_existing mem sd fs index [] = index"
| "index_existing mem sd fs index (f # files) =
     index_existing mem sd fs
       (case read_file sd fs f MAX_CONTENT_LEN of
          (code, Some bytes) \<Rightarrow> snd (index_file (mem f) index f (cstr_of bytes))
        | (code, None) \<Rightarrow> index) files"

text \<open>\<open>main\<close> up to the registration: \<open>None\<close> when the storage directory cannot be made.\<close>

definition ss_start :: "(cstring \<Rightarrow> nat \<Rightarrow> bool) \<Rightarrow> cstring \<Rightarrow> FS \<Rightarrow> cstring list \<Rightarrow> (SS \<times> cstring list) option" where
  "ss_start mem sd fs names =
     (let fs0 = checkpoint_init sd fs
      in case ensure_storage_dir sd fs0 of
           (code, fs1) \<Rightarrow>
             if code < 0 then None
             else
               let existing_files = scan_storage_files sd fs1 names 100
               in Some (\<lparr>ss_dir = sd, ss_fs = fs1, ss_locks = lock_table_init, ss_undo = undo_table_init,
                          ss_index = index_existing mem sd fs1 index_init existing_files,
                          ss_session = \<lparr>ws_filename = [], ws_sentence_num = 0, ws_client_id = [],
                                        ws_words = [], ws_active = False\<rparr>\<rparr>, existing_files))"

end
