(* ===== verification/Server_Invariant.thy ===== *)
theory Server_Invariant
  imports Storage_Server
begin

text \<open>
  The invariant of a storage server over everything it can do: client connections, requests of
  the name server and lock clean-ups, in any order (\<open>ss_step\<close>, \<open>ss_reachable\<close>). It joins the
  invariants of the tables with the storage directory being there, and says that every message
  sent fits its fixed-size fields.
\<close>

section \<open>Directories stay\<close>

definition keeps_dirs :: "FS \<Rightarrow> FS \<Rightarrow> bool" where
  "keeps_dirs fs fs' \<longleftrightarrow> fs_cwd fs' = fs_cwd fs \<and>
     (\<forall>p. fs_nodes fs p = Some FDir \<longrightarrow> fs_nodes fs' p = Some FDir)"

named_theorems keeps_intros \<open>file system operations that keep every directory\<close>

lemma keeps_refl [simp]: "keeps_dirs fs fs"
  by (simp add: keeps_dirs_def)

lemma keeps_trans [trans]: "keeps_dirs a b \<Longrightarrow> keeps_dirs b c \<Longrightarrow> keeps_dirs a c"
  by (simp add: keeps_dirs_def)

lemma keeps_set_node: "fs_nodes fs (resolve fs s) \<noteq> Some FDir \<Longrightarrow> keeps_dirs fs (set_node fs s n)"
  by (auto simp: keeps_dirs_def)

lemma lookup_reg_node: "fs_lookup fs s = Some (FReg bs) \<Longrightarrow> fs_nodes fs (resolve fs s) = Some (FReg bs)"
  by (auto simp: fs_lookup_def split: if_splits option.splits FNode.splits)

lemma lookup_none_node:
  "fs_lookup fs s = None \<Longrightarrow> s \<noteq> [] \<Longrightarrow> last s \<noteq> SLASH \<Longrightarrow> fs_nodes fs (resolve fs s) = None"
  by (auto simp: fs_lookup_def split: if_splits option.splits FNode.splits)

lemma can_make_ends: "can_make fs s \<Longrightarrow> s \<noteq> [] \<and> last s \<noteq> SLASH"
  by (simp add: can_make_def Let_def)

lemma keeps_fopen_w [keeps_intros]: "fopen_w fs s = Some fs' \<Longrightarrow> keeps_dirs fs fs'"
  by (auto simp: fopen_w_def lookup_reg_node lookup_none_node can_make_ends
      split: option.splits FNode.splits if_splits intro!: keeps_set_node)

lemma keeps_fwrite [keeps_intros]: "keeps_dirs fs (fwrite fs s bs)"
  by (auto simp: fwrite_def split: option.splits FNode.splits intro!: keeps_set_node)

lemma keeps_unlink [keeps_intros]: "unlink fs s = Some fs' \<Longrightarrow> keeps_dirs fs fs'"
  by (auto simp: unlink_def lookup_reg_node split: option.splits FNode.splits intro!: keeps_set_node)

lemma keeps_mkdir [keeps_intros]: "mkdir fs s = Some fs' \<Longrightarrow> keeps_dirs fs fs'"
  by (auto simp: mkdir_def split: if_splits intro!: keeps_set_node)

lemma keeps_rename [keeps_intros]:
  assumes "rename_file fs a b = Some fs'"
  shows "keeps_dirs fs fs'"
proof -
  from assms obtain bs where a: "fs_lookup fs a = Some (FReg bs)"
    by (auto simp: rename_file_def split: option.splits FNode.splits)
  show ?thesis
  proof (cases "resolve fs a = resolve fs b")
    case False
    with assms a have b: "fs_lookup fs b \<noteq> Some FDir" "fs_lookup fs b = None \<longrightarrow> can_make fs b"
      and fs': "fs' = set_node (set_node fs a None) b (Some (FReg bs))"
      by (auto simp: rename_file_def split: if_splits)
    have "keeps_dirs fs (set_node fs a None)"
      using lookup_reg_node [OF a] by (intro keeps_set_node) simp
    moreover have "fs_nodes fs (resolve fs b) \<noteq> Some FDir"
      using b lookup_none_node [of fs b] can_make_ends [of fs b] lookup_reg_node [of fs b]
      by (cases "fs_lookup fs b") (auto, metis FNode.exhaust FNode.distinct(1) option.inject)
    then have "keeps_dirs (set_node fs a None) fs'"
      unfolding fs' using False by (intro keeps_set_node) simp
    ultimately show ?thesis by (rule keeps_trans)
  qed (use assms a in \<open>simp add: rename_file_def\<close>)
qed

lemma keeps_copy_loop [keeps_intros]: "keeps_dirs fs (copy_loop fs dest rest)"
proof (induction fs dest rest rule: copy_loop.induct)
  case (1 fs dest rest)
  then show ?case
    using keeps_trans [OF keeps_fwrite [of fs dest "take 4096 rest"]]
    by (simp add: copy_loop.simps [of fs dest rest])
qed

lemma keeps_copy_file [keeps_intros]: "copy_file fs s d c = (r, fs') \<Longrightarrow> keeps_dirs fs fs'"
  by (auto simp: copy_file_def split: option.splits
      intro: keeps_fopen_w keeps_trans [OF keeps_fopen_w keeps_copy_loop])

lemma keeps_create_file: "create_file sd fs n = (r, fs') \<Longrightarrow> keeps_dirs fs fs'"
  by (auto simp: create_file_def Let_def split: option.splits if_splits intro: keeps_fopen_w)

lemma keeps_delete_file: "delete_file sd fs n = (r, fs') \<Longrightarrow> keeps_dirs fs fs'"
  by (auto simp: delete_file_def Let_def split: option.splits if_splits intro: keeps_unlink)

lemma keeps_folder_create: "folder_create sd fs n = (r, fs') \<Longrightarrow> keeps_dirs fs fs'"
  by (auto simp: folder_create_def Let_def split: option.splits if_splits intro: keeps_mkdir)

lemma keeps_folder_move: "folder_move_file sd fs n d = (r, fs') \<Longrightarrow> keeps_dirs fs fs'"
  by (auto simp: folder_move_file_def Let_def split: option.splits if_splits intro: keeps_rename)

lemma keeps_checkpoint_create: "checkpoint_create sd fs f tag = (r, fs') \<Longrightarrow> keeps_dirs fs fs'"
  by (auto simp: checkpoint_create_def Let_def split: option.splits if_splits
      intro: keeps_mkdir keeps_copy_file keeps_trans [OF keeps_mkdir keeps_copy_file])

lemma keeps_checkpoint_revert: "checkpoint_revert sd fs f tag = (r, fs') \<Longrightarrow> keeps_dirs fs fs'"
  by (auto simp: checkpoint_revert_def Let_def split: if_splits intro: keeps_copy_file)

lemma storage_ok_keeps: "storage_ok sd fs \<Longrightarrow> keeps_dirs fs fs' \<Longrightarrow> storage_ok sd fs'"
proof -
  assume ok: "storage_ok sd fs" and k: "keeps_dirs fs fs'"
  have "resolve fs' sd = resolve fs sd" using k by (simp add: keeps_dirs_def resolve_def)
  with ok k show ?thesis by (simp add: storage_ok_def keeps_dirs_def)
qed

section \<open>The invariant\<close>

definition session_inv :: "WriteSession \<Rightarrow> bool" where
  "session_inv ws \<longleftrightarrow> (ws_active ws \<longrightarrow>
     length (ws_filename ws) < MAX_FILENAME_LEN - 1 \<and> length (ws_client_id ws) < MAX_USERNAME_LEN \<and>
     0 \<le> ws_sentence_num ws)"

definition ss_inv :: "SS \<Rightarrow> bool" where
  "ss_inv st \<longleftrightarrow> storage_ok (ss_dir st) (ss_fs st) \<and> lock_inv (ss_locks st) \<and> undo_inv (ss_undo st) \<and>
     index_inv (ss_index st) \<and> session_inv (ss_session st)"

text \<open>
  Requests whose strings fit their fields, with memory; a file name has to fit the search index too,
  which needs one byte more, unless the file is only asked about.
\<close>

definition req_ok :: "Env \<Rightarrow> Message \<Rightarrow> bool" where
  "req_ok env m \<longleftrightarrow> e_mem_node env \<and> e_mem_content env \<and> e_mem_restore env \<and> msg_wf m \<and>
     (m_operation m \<noteq> OP_GET_METADATA \<longrightarrow> length (m_filename m) < MAX_FILENAME_LEN - 1)"

definition ss_post :: "SS \<Rightarrow> Message list \<Rightarrow> bool" where
  "ss_post st out \<longleftrightarrow> ss_inv st \<and> list_all msg_wf out"

lemma reply_wf [simp]: "msg_wf (reply env c t)" "msg_wf (ack env c t)" "msg_wf (stop_msg env)"
    "msg_wf (word_msg env i w)" "msg_wf (ack env c t\<lparr>m_content_length := n\<rparr>)"
  using length_cbuf_less [of MAX_CONTENT_LEN t] length_cbuf_less [of MAX_CONTENT_LEN w]
  by (simp_all add: msg_wf_def reply_def ack_def stop_msg_def word_msg_def INIT_MESSAGE_def put_content_def)

lemma ss_inv_fs: "ss_inv st \<Longrightarrow> keeps_dirs (ss_fs st) fs' \<Longrightarrow> ss_inv (st\<lparr>ss_fs := fs'\<rparr>)"
  by (auto simp: ss_inv_def intro: storage_ok_keeps)

lemma ss_inv_release: "ss_inv st \<Longrightarrow> ss_inv (st\<lparr>ss_locks := snd (lock_release (ss_locks st) f n c)\<rparr>)"
  by (simp add: ss_inv_def lock_release_inv)

lemma fst_undo_restore_inv:
  assumes "undo_inv t" and "undo_restore mem t f = Some (r, c, t')"
  shows "undo_inv t'"
proof (cases mem)
  case True
  with assms undo_buffer.restore_inv [OF assms(1), of f] show ?thesis
    by (simp add: undo_restore_ok_def)
next
  case False
  with assms show ?thesis by (auto simp: undo_restore_def Let_def split: option.splits if_splits)
qed

section \<open>Every handler keeps it\<close>

lemma start_keeps:
  assumes "ss_inv st" and "req_ok env m" and "m_operation m = OP_WRITE_START" and "handle_write_start env st m = Some (st', out)"
  shows "ss_post st' out"
proof -
  obtain code locks where acq:
    "lock_acquire (ss_locks st) (m_filename m) (m_sentence_num m) (m_sender_id m) (e_now env) = (code, locks)"
    by fastforce
  have len: "length (m_filename m) < MAX_FILENAME_LEN" "length (m_sender_id m) < MAX_USERNAME_LEN"
    using assms(2) by (auto simp: req_ok_def msg_wf_def)
  have li: "lock_inv locks"
    using lock_acquire_inv [of "ss_locks st" "m_filename m" "m_sentence_num m" "m_sender_id m" "e_now env"]
      assms(1) len acq by (simp add: ss_inv_def lock_valid_def)
  have ui: "undo_inv (snd (undo_save True True (ss_undo st) (m_filename m) c (length c)))" for c
    using assms(1) len by (intro undo_save_inv) (simp_all add: ss_inv_def)
  show ?thesis
    using assms li ui len acq lock_release_inv [OF li]
    by (auto simp: handle_write_start_def Let_def ss_post_def ss_inv_def req_ok_def session_inv_def cbuf_id
        split: if_splits option.splits prod.splits)
qed

lemma update_keeps:
  "ss_inv st \<Longrightarrow> handle_write_update env st m = Some (st', out) \<Longrightarrow> ss_post st' out"
  by (auto simp: handle_write_update_def Let_def ss_post_def ss_inv_def session_inv_def split: if_splits)

lemma commit_keeps:
  assumes inv: "ss_inv st" and h: "handle_write_commit env st = Some (st', out)"
  shows "ss_post st' out"
proof (cases "ws_active (ss_session st)")
  case True
  let ?sd = "ss_dir st" and ?fn = "ws_filename (ss_session st)"
  let ?t = "cbuf MAX_PATH_LEN (get_file_path ?sd ?fn @ ''.tmp'')"
  let ?locks = "snd (lock_release (ss_locks st) ?fn (ws_sentence_num (ss_session st)) (ws_client_id (ss_session st)))"
  have len: "length ?fn < MAX_FILENAME_LEN - 1" using inv True by (simp add: ss_inv_def session_inv_def)
  have locks: "lock_inv ?locks" using inv by (simp add: ss_inv_def lock_release_inv)
  have idx: "index_inv (snd (index_file mem (ss_index st) ?fn c))" for mem c
    using inv len by (simp add: ss_inv_def index_file_inv)
  have sto: "storage_ok ?sd (fwrite fs1 ?t c)" if "fopen_w (ss_fs st) ?t = Some fs1" for fs1 c
    using inv keeps_trans [OF keeps_fopen_w [OF that] keeps_fwrite [of fs1 ?t c]]
    by (auto simp: ss_inv_def intro: storage_ok_keeps)
  have sto': "storage_ok ?sd fs3" if "fopen_w (ss_fs st) ?t = Some fs1"
    "rename_file (fwrite fs1 ?t c) ?t (get_file_path ?sd ?fn) = Some fs3" for fs1 fs3 c
    using sto [OF that(1)] keeps_rename [OF that(2)] by (rule storage_ok_keeps)
  show ?thesis
    using h inv True locks idx sto sto'
    by (auto simp: handle_write_commit_def Let_def ss_post_def ss_inv_def session_inv_def
        split: if_splits option.splits prod.splits)
qed (use assms in \<open>auto simp: handle_write_commit_def Let_def ss_post_def\<close>)

lemma session_keeps:
  "ss_inv st \<Longrightarrow> req_ok env m \<Longrightarrow> handle_write_session env st m = Some (st', out) \<Longrightarrow> ss_post st' out"
  by (auto simp: handle_write_session_def ss_post_def split: if_splits
      dest: start_keeps update_keeps commit_keeps)

lemma undo_keeps:
  assumes "ss_inv st" and "handle_undo_request env st m = Some (st', out)"
  shows "ss_post st' out"
proof -
  have "storage_ok (ss_dir st) (fwrite fs1 p c)" if "fopen_w (ss_fs st) p = Some fs1" for fs1 p c
    using assms(1) keeps_trans [OF keeps_fopen_w [OF that] keeps_fwrite]
    by (auto simp: ss_inv_def intro: storage_ok_keeps)
  moreover have u: "undo_inv u'"
    if "undo_restore (e_mem_restore env) (ss_undo st) (m_filename m) = Some (r, c, u')" for r c u'
    using assms(1) that by (auto simp: ss_inv_def intro: fst_undo_restore_inv)
  ultimately show ?thesis using assms
    by (auto simp: handle_undo_request_def Let_def ss_post_def ss_inv_def
        split: if_splits option.splits dest: u)
qed

lemma stream_wf: "list_all msg_wf (stream_loop env i ws)"
  by (induction env i ws rule: stream_loop.induct) auto

lemmas request_defs = handle_createfolder_request_def handle_move_request_def handle_viewfolder_request_def
  handle_checkpoint_request_def handle_viewcheckpoint_request_def handle_revert_request_def
  handle_listcheckpoints_request_def handle_search_request_def handle_stream_request_def
  handle_read_from_client_def

lemma request_keeps:
  assumes "ss_inv st"
  shows "handle_createfolder_request env st m = Some (st', out) \<Longrightarrow> ss_post st' out"
    and "handle_move_request env st m = Some (st', out) \<Longrightarrow> ss_post st' out"
    and "handle_viewfolder_request env st m = Some (st', out) \<Longrightarrow> ss_post st' out"
    and "handle_checkpoint_request env st m = Some (st', out) \<Longrightarrow> ss_post st' out"
    and "handle_viewcheckpoint_request env st m = Some (st', out) \<Longrightarrow> ss_post st' out"
    and "handle_revert_request env st m = Some (st', out) \<Longrightarrow> ss_post st' out"
    and "handle_listcheckpoints_request env st m = Some (st', out) \<Longrightarrow> ss_post st' out"
    and "handle_search_request env st m = Some (st', out) \<Longrightarrow> ss_post st' out"
    and "handle_stream_request env st m = Some (st', out) \<Longrightarrow> ss_post st' out"
    and "handle_read_from_client env st m = Some (st', out) \<Longrightarrow> ss_post st' out"
  using assms stream_wf
  by (auto simp: request_defs ss_post_def Let_def split: prod.splits option.splits if_splits
      intro: ss_inv_fs keeps_folder_create keeps_folder_move keeps_checkpoint_create keeps_checkpoint_revert)

lemma ns_request_keeps:
  assumes inv: "ss_inv st" and req: "req_ok env m" and h: "ns_request env st m = Some (st', out)"
  shows "ss_post st' out"
proof -
  have upd: "ss_inv (st\<lparr>ss_fs := fs', ss_index := ix\<rparr>)" if "keeps_dirs (ss_fs st) fs'" "index_inv ix" for fs' ix
    using ss_inv_fs [OF inv that(1)] that(2) by (simp add: ss_inv_def)
  have ix: "index_inv (ss_index st)" "index_inv (snd (index_remove_file (ss_index st) (m_filename m)))"
    "m_operation m \<noteq> OP_GET_METADATA \<Longrightarrow> index_inv (snd (index_file mem (ss_index st) (m_filename m) c))" for mem c
    using inv req by (simp_all add: ss_inv_def index_remove_file_inv index_file_inv req_ok_def)
  show ?thesis
  proof (cases "m_operation m \<in> {OP_CREATE, OP_DELETE, OP_REPLICATE}")
    case True
    with h ix show ?thesis
      by (auto simp: ns_request_def Let_def ss_post_def split: prod.splits if_splits
          intro!: upd ss_inv_fs [OF inv] dest: keeps_create_file keeps_delete_file)
  next
    case False
    with h inv request_keeps [OF inv] show ?thesis
      by (auto simp: ns_request_def Let_def ss_post_def split: prod.splits if_splits option.splits)
  qed
qed

lemma write_loop_keeps:
  "ss_inv st \<Longrightarrow> \<forall>(env, m)\<in>set rest. req_ok env m \<Longrightarrow> write_loop st rest = Some (st', out) \<Longrightarrow> ss_post st' out"
proof (induction st rest arbitrary: st' out rule: write_loop.induct)
  case (1 st)
  have "ss_inv (st\<lparr>ss_locks := snd (lock_release (ss_locks st) f n c), ss_session := (ss_session st)\<lparr>ws_active := False\<rparr>\<rparr>)" for f n c
    using ss_inv_release [OF "1.prems"(1), of f n c] by (simp add: ss_inv_def session_inv_def)
  with 1 show ?case by (auto simp: ss_post_def split: if_splits)
next
  case (2 st env m rest)
  have req: "req_ok env m" and rest: "\<forall>(env, m)\<in>set rest. req_ok env m" using "2.prems" by auto
  show ?case
  proof (cases "m_operation m = OP_WRITE_UPDATE")
    case True
    with "2.prems"(3) obtain st1 out1 out2 where h: "handle_write_session env st m = Some (st1, out1)"
      "write_loop st1 rest = Some (st', out2)" "out = out1 @ out2"
      by (auto split: option.splits)
    have "ss_post st1 out1" by (rule session_keeps [OF "2.prems"(1) req h(1)])
    moreover from this have "ss_post st' out2"
      using "2.IH" [OF True h(1) refl _ rest h(2)] by (simp add: ss_post_def)
    ultimately show ?thesis using h(3) by (simp add: ss_post_def)
  next
    case False
    with "2.prems" session_keeps [OF "2.prems"(1) req] show ?thesis
      by (auto simp: ss_post_def split: if_splits)
  qed
qed

lemma client_connection_keeps:
  assumes inv: "ss_inv st" and req: "req_ok env m" and rest: "\<forall>(env, m)\<in>set rest. req_ok env m"
    and h: "client_connection st env m rest = Some (st', out)"
  shows "ss_post st' out"
proof (cases "m_operation m = OP_WRITE_START")
  case True
  with h obtain st1 out1 out2 where h': "handle_write_session env st m = Some (st1, out1)"
    "write_loop st1 rest = Some (st', out2)" "out = out1 @ out2"
    by (auto simp: client_connection_def split: option.splits)
  have "ss_post st1 out1" by (rule session_keeps [OF inv req h'(1)])
  moreover from this have "ss_post st' out2"
    using write_loop_keeps [OF _ rest h'(2)] by (simp add: ss_post_def)
  ultimately show ?thesis using h'(3) by (simp add: ss_post_def)
next
  case False
  with h inv undo_keeps [OF inv] request_keeps [OF inv] show ?thesis
    by (auto simp: client_connection_def Let_def ss_post_def split: if_splits)
qed

section \<open>Reachable states\<close>

text \<open>One step of the server: a client connection, a request of the name server, a clean-up.\<close>

inductive ss_step :: "SS \<Rightarrow> Message list \<Rightarrow> SS \<Rightarrow> bool" where
  client: "client_connection st env m rest = Some (st', out) \<Longrightarrow> req_ok env m \<Longrightarrow>
    \<forall>(env, m)\<in>set rest. req_ok env m \<Longrightarrow> ss_step st out st'"
| name_server: "ns_request env st m = Some (st', out) \<Longrightarrow> req_ok env m \<Longrightarrow> ss_step st out st'"
| cleanup: "ss_step st [] (lock_cleanup_round env st)"

inductive ss_reachable :: "(cstring \<Rightarrow> nat \<Rightarrow> bool) \<Rightarrow> cstring \<Rightarrow> FS \<Rightarrow> cstring list \<Rightarrow> SS \<Rightarrow> bool" for mem sd fs names where
  start: "ss_start mem sd fs names = Some (st, files) \<Longrightarrow> ss_reachable mem sd fs names st"
| step: "ss_reachable mem sd fs names st \<Longrightarrow> ss_step st out st' \<Longrightarrow> ss_reachable mem sd fs names st'"

inductive_cases ss_stepE: "ss_step st out st'"

lemma ss_step_keeps:
  assumes "ss_inv st" and "ss_step st out st'"
  shows "ss_post st' out"
  using assms(2)
proof (cases rule: ss_step.cases)
  case (client env m rest)
  then show ?thesis using client_connection_keeps [OF assms(1)] by blast
next
  case (name_server env m)
  then show ?thesis using ns_request_keeps [OF assms(1)] by blast
next
  case (cleanup env)
  with assms(1) show ?thesis by (simp add: ss_post_def ss_inv_def lock_cleanup_round_def lock_cleanup_inv)
qed

lemma index_existing_inv:
  "index_inv ix \<Longrightarrow> \<forall>f\<in>set files. length f < MAX_FILENAME_LEN - 1 \<Longrightarrow> index_inv (index_existing mem sd fs ix files)"
proof (induction mem sd fs ix files rule: index_existing.induct)
  case (2 mem sd fs ix f files)
  have "index_inv (case read_file sd fs f MAX_CONTENT_LEN of
      (code, Some bytes) \<Rightarrow> snd (index_file (mem f) ix f (cstr_of bytes)) | (code, None) \<Rightarrow> ix)"
    using "2.prems" by (auto split: prod.split option.split intro: index_file_inv)
  with 2 show ?case by simp
qed simp

lemma set_scan_loop: "f \<in> set (scan_loop dir fs room names) \<Longrightarrow> \<exists>n\<in>set names. f = cbuf MAX_FILENAME_LEN n"
  by (induction dir fs room names rule: scan_loop.induct) (auto split: if_splits)

text \<open>A place to start in: the storage directory exists, or can be made where nothing is.\<close>

definition start_ok :: "cstring \<Rightarrow> FS \<Rightarrow> cstring list \<Rightarrow> bool" where
  "start_ok sd fs names \<longleftrightarrow> sd \<noteq> [] \<and> length sd \<le> 251 \<and> \<not> is_reg fs sd \<and>
     (\<forall>n\<in>set names. length n < MAX_FILENAME_LEN - 1)"

lemma plain_ckpt_resolve: "sd \<noteq> [] \<Longrightarrow> resolve fs (sd @ SLASH # CHECKPOINT_DIR) = resolve fs sd @ [CHECKPOINT_DIR]"
  by (rule resolve_child [OF _ plain_ckpt_dir])

lemma checkpoint_init_eq:
  assumes "sd \<noteq> []" and "length sd \<le> 251"
  shows "checkpoint_init sd fs =
    (if fs_nodes fs (resolve fs sd @ [CHECKPOINT_DIR]) = None \<and> fs_nodes fs (resolve fs sd) = Some FDir
     then set_node fs (sd @ SLASH # CHECKPOINT_DIR) (Some FDir) else fs)"
proof -
  have "cbuf MAX_PATH_LEN (sd @ SLASH # CHECKPOINT_DIR) = sd @ SLASH # CHECKPOINT_DIR"
    using assms(2) by (simp add: cbuf_id)
  then show ?thesis
    by (simp add: checkpoint_init_def Let_def stat_ok_def lookup_child [OF assms(1) plain_ckpt_dir] mkdir_def
        plain_ckpt_resolve [OF assms(1)] can_make_child [OF assms(1) plain_ckpt_dir])
qed

lemma start_storage:
  assumes ok: "start_ok sd fs names" and st: "ss_start mem sd fs names = Some (st, files)"
  shows "ss_dir st = sd \<and> storage_ok sd (ss_fs st) \<and>
    ss_fs st = (if stat_ok fs sd then checkpoint_init sd fs else set_node fs sd (Some FDir))"
proof -
  let ?fs0 = "checkpoint_init sd fs"
  have sd: "sd \<noteq> []" "length sd \<le> 251" and noreg: "\<not> is_reg fs sd" using ok by (simp_all add: start_ok_def)
  have res: "resolve ?fs0 sd = resolve fs sd" and same: "fs_nodes ?fs0 (resolve fs sd) = fs_nodes fs (resolve fs sd)"
    by (simp_all add: checkpoint_init_eq [OF sd] plain_ckpt_resolve [OF sd(1)])
  then have look: "fs_lookup ?fs0 sd = fs_lookup fs sd" by (simp add: fs_lookup_def)
  obtain code fs1 where e: "ensure_storage_dir sd ?fs0 = (code, fs1)" by fastforce
  with st have code: "\<not> code < 0" and f: "ss_dir st = sd" "ss_fs st = fs1"
    by (auto simp: ss_start_def Let_def split: if_splits)
  show ?thesis
  proof (cases "stat_ok fs sd")
    case True
    then have "fs_lookup fs sd = Some FDir"
      using noreg by (cases "fs_lookup fs sd") (auto simp: stat_ok_def is_reg_def, metis FNode.exhaust)
    then have "fs_nodes fs (resolve fs sd) = Some FDir"
      by (auto simp: fs_lookup_def split: if_splits option.splits FNode.splits)
    with True e f same res look sd show ?thesis
      by (auto simp: ensure_storage_dir_def stat_ok_def storage_ok_def)
  next
    case False
    with e code look have mk: "mkdir ?fs0 sd = Some fs1"
      by (auto simp: ensure_storage_dir_def stat_ok_def split: if_splits option.splits)
    then have n: "fs_nodes fs (resolve fs sd) = None" and fs1: "fs1 = set_node ?fs0 sd (Some FDir)"
      using same res by (auto simp: mkdir_def split: if_splits)
    have "?fs0 = fs" using n by (simp add: checkpoint_init_eq [OF sd])
    with False fs1 f sd show ?thesis by (simp add: storage_ok_def)
  qed
qed

lemma start_fs:
  assumes "start_ok sd fs names" and "ss_start mem sd fs names = Some (st, files)"
  shows "storage_ok sd (ss_fs st)"
    and "\<not> stat_ok fs sd \<Longrightarrow> ss_fs st = set_node fs sd (Some FDir)"
  using start_storage [OF assms] by (blast, metis)

lemma start_inv:
  assumes ok: "start_ok sd fs names" and st: "ss_start mem sd fs names = Some (st, files)"
  shows "ss_inv st"
proof -
  have names: "\<forall>f\<in>set (scan_storage_files sd g names 100). length f < MAX_FILENAME_LEN - 1" for g
  proof
    fix f assume "f \<in> set (scan_storage_files sd g names 100)"
    then have "f \<in> set (scan_loop sd g 100 names)" by (simp add: scan_storage_files_def split: if_splits)
    from set_scan_loop [OF this] obtain n where "n \<in> set names" "f = cbuf MAX_FILENAME_LEN n" by blast
    with ok show "length f < MAX_FILENAME_LEN - 1" by (simp add: start_ok_def length_cbuf)
  qed
  have "lock_inv (ss_locks st) \<and> undo_inv (ss_undo st) \<and> index_inv (ss_index st) \<and> session_inv (ss_session st)"
    using st index_existing_inv [OF index_inv_init names]
    by (auto simp: ss_start_def Let_def session_inv_def lock_inv_init undo_inv_init split: if_splits prod.splits)
  moreover have "ss_dir st = sd" using start_storage [OF assms] by blast
  ultimately show ?thesis using start_fs(1) [OF assms] by (simp only: ss_inv_def simp_thms)
qed

text \<open>
  C7. The invariant of the storage server: from a start whose storage directory exists or can
  be made, every state reached by client connections, name server requests and lock clean-ups
  in any order has its storage directory and well-formed lock, undo and search tables and
  session, and no message it sends overflows a field.
\<close>

theorem storage_server_invariant:
  assumes "start_ok sd fs names" and "ss_reachable mem sd fs names st"
  shows "ss_inv st \<and> (\<forall>out st'. ss_step st out st' \<longrightarrow> list_all msg_wf out)"
proof -
  have "ss_inv st" using assms(2)
  proof (induction rule: ss_reachable.induct)
    case (start st files)
    then show ?case by (rule start_inv [OF assms(1)])
  next
    case (step st out st')
    then show ?case using ss_step_keeps by (simp add: ss_post_def)
  qed
  then show ?thesis using ss_step_keeps by (auto simp: ss_post_def)
qed

lemma ss_start_defined:
  assumes "ensure_storage_dir sd (checkpoint_init sd fs) = (code, fs1)" and "0 \<le> code"
  shows "\<exists>st files. ss_start mem sd fs names = Some (st, files)"
  using assms by (simp add: ss_start_def Let_def)

lemma sample_stat: "fs_lookup sample_fs ''s'' = Some FDir"
  by (simp add: fs_lookup_def sample_fs_def resolve_def runs_one)

lemma sample_start_ok: "start_ok ''s'' sample_fs [''a'']"
  by (simp add: start_ok_def is_reg_def sample_stat)

theorem storage_server_invariant_witness:
  "\<exists>st files. ss_start (\<lambda>_ _. True) ''s'' sample_fs [''a''] = Some (st, files) \<and>
     (\<forall>env. ss_inv (lock_cleanup_round env st))"
proof -
  have "\<exists>st files. ss_start (\<lambda>_ _. True) ''s'' sample_fs [''a''] = Some (st, files)"
  proof -
    have "fs_nodes (checkpoint_init ''s'' sample_fs) (resolve sample_fs ''s'') = Some FDir"
      using storage_ok_sample keeps_mkdir [of sample_fs]
      by (simp add: checkpoint_init_def Let_def storage_ok_def keeps_dirs_def split: option.split)
    moreover have "resolve (checkpoint_init ''s'' sample_fs) ''s'' = resolve sample_fs ''s''"
      by (simp add: checkpoint_init_eq)
    ultimately have "stat_ok (checkpoint_init ''s'' sample_fs) ''s''"
      by (simp add: stat_ok_def fs_lookup_def)
    then have "ensure_storage_dir ''s'' (checkpoint_init ''s'' sample_fs) = (0, checkpoint_init ''s'' sample_fs)"
      by (simp only: ensure_storage_dir_def not_True_eq_False if_False)
    then show ?thesis by (rule ss_start_defined) simp
  qed
  then obtain st files where st: "ss_start (\<lambda>_ _. True) ''s'' sample_fs [''a''] = Some (st, files)" by blast
  have "ss_reachable (\<lambda>_ _. True) ''s'' sample_fs [''a''] (lock_cleanup_round env st)" for env
    using ss_reachable.start [OF st] ss_step.cleanup by (rule ss_reachable.step)
  from storage_server_invariant [OF sample_start_ok this] st show ?thesis by blast
qed

end
