(* ===== verification/Write_Path.thy ===== *)
theory Write_Path
  imports Storage_Server
begin

text \<open>
  What a write session does: the effect of a commit on the document and on the disk, the
  session from its start to its end, undo after a commit, and the streams and reads a client
  gets back. The document is the text a read of the file delivers.
\<close>

section \<open>The document after a commit\<close>

definition replace_sentence :: "cstring \<Rightarrow> nat \<Rightarrow> cstring \<Rightarrow> cstring" where
  "replace_sentence content n new_sentence =
     (let ss = parse_sentences content
      in concat (take n ss) @ new_sentence @ concat (drop (Suc n) ss))"

lemma concat_commit_sentences:
  assumes "sn \<ge> 0" and "sn \<le> int (length (parse_sentences content))"
  shows "\<exists>ss. commit_sentences (parse_sentences content) sn new = Some ss \<and>
    rebuild_file ss = replace_sentence content (nat sn) new"
proof -
  let ?ss = "parse_sentences content"
  have parts: "concat (split_by_delimiters new) = new"
    by (simp add: split_by_delimiters_eq concat_parse_sentences)
  have up: "?ss[nat sn := new] = take (nat sn) ?ss @ new # drop (Suc (nat sn)) ?ss"
    if "nat sn < length ?ss" using that by (rule upd_conv_take_nth_drop)
  have n1: "nat (sn + 1) = Suc (nat sn)" using assms(1) by simp
  show ?thesis
  proof (cases "?ss = []")
    case True
    with assms show ?thesis
      by (auto simp: commit_sentences_def replace_sentence_def rebuild_file_def parts parse_sentences_def)
  next
    case False
    with assms n1 up show ?thesis
      by (cases "sn = int (length ?ss)")
        (auto simp: commit_sentences_def replace_sentence_def rebuild_file_def parts Let_def)
  qed
qed

text \<open>The text a reader of the file gets: the first bytes, up to a NUL.\<close>

definition doc_of :: "char list \<Rightarrow> cstring" where
  "doc_of bs = cstr_of (take (MAX_CONTENT_LEN - 1) bs)"

lemma doc_of_small: "length bs < MAX_CONTENT_LEN \<Longrightarrow> NUL \<notin> set bs \<Longrightarrow> doc_of bs = bs"
  by (simp add: doc_of_def cstr_of_id)

lemma length_doc_of: "length (doc_of bs) < MAX_CONTENT_LEN"
proof -
  have "length (doc_of bs) \<le> length (take (MAX_CONTENT_LEN - 1) bs)"
    unfolding doc_of_def cstr_of_def by (rule length_takeWhile_le)
  then show ?thesis by simp
qed

section \<open>The temporary file and its rename\<close>

definition tmp_of :: "cstring \<Rightarrow> cstring" where
  "tmp_of fn = fn @ ''.tmp''"

lemma tmp_path:
  assumes "storage_ok sd fs" and "name_ok fn" and "name_ok (tmp_of fn)"
  shows "cbuf MAX_PATH_LEN (get_file_path sd fn @ ''.tmp'') = get_file_path sd (tmp_of fn)"
  using assms file_path [OF assms(1,2)] file_path [OF assms(1,3)]
  by (simp add: tmp_of_def storage_ok_def name_ok_def cbuf_id)

lemma tmp_ne: "tmp_of fn \<noteq> fn"
  by (simp add: tmp_of_def)

lemma fopen_w_file:
  assumes "storage_ok sd fs" and "name_ok n"
  shows "fopen_w fs (get_file_path sd n) =
    (if fs_lookup fs (get_file_path sd n) = Some FDir then None
     else Some (set_node fs (get_file_path sd n) (Some (FReg []))))"
proof -
  have w: "write_new fs (get_file_path sd n) [] =
    (if fs_lookup fs (get_file_path sd n) = Some FDir then None
     else Some (set_node fs (get_file_path sd n) (Some (FReg []))))"
    by (rule write_new_file [OF assms])
  show ?thesis
  proof (cases "fs_lookup fs (get_file_path sd n) = Some FDir")
    case False
    with w have "fopen_w fs (get_file_path sd n) \<noteq> None" by (auto simp: write_new_def)
    with False show ?thesis by (auto simp: fopen_w_def split: option.splits FNode.splits if_splits)
  qed (simp add: fopen_w_def)
qed

lemma fwrite_set_node [simp]:
  "fwrite (set_node fs p (Some (FReg bs))) p c = set_node fs p (Some (FReg (bs @ c)))"
  by (simp add: fwrite_def)

lemma rename_tmp:
  assumes ok: "storage_ok sd fs" and names: "name_ok fn" "name_ok (tmp_of fn)"
    and nodir: "fs_lookup fs (get_file_path sd fn) \<noteq> Some FDir"
  shows "rename_file (set_node fs (get_file_path sd (tmp_of fn)) (Some (FReg c)))
      (get_file_path sd (tmp_of fn)) (get_file_path sd fn) =
    Some (set_node (set_node fs (get_file_path sd (tmp_of fn)) None) (get_file_path sd fn) (Some (FReg c)))"
proof -
  let ?t = "get_file_path sd (tmp_of fn)" and ?f = "get_file_path sd fn"
  let ?fs = "set_node fs ?t (Some (FReg c))"
  have ok': "storage_ok sd ?fs" by (rule storage_ok_set_node [OF ok names(2)])
  have res: "resolve fs ?t \<noteq> resolve fs ?f" and res': "resolve ?fs ?t \<noteq> resolve ?fs ?f"
    by (simp_all add: file_resolve [OF ok names(1)] file_resolve [OF ok names(2)] tmp_ne)
  have t: "fs_lookup ?fs ?t = Some (FReg c)"
    by (simp add: file_lookup [OF ok' names(2)] file_resolve [OF ok names(2)])
  have f: "fs_lookup ?fs ?f = fs_lookup fs ?f"
    using res by (simp add: file_lookup [OF ok' names(1)] file_lookup [OF ok names(1)]
        file_resolve [OF ok names(1)] file_resolve [OF ok names(2)])
  have "fs_lookup ?fs ?f = None \<longrightarrow> can_make ?fs ?f"
    using ok' names(1) unfolding file_path [OF ok names(1)] can_make_child [OF storage_ne name_plain, OF ok names(1)]
    by (simp add: storage_ok_def name_ok_def)
  with t f nodir res' show ?thesis
    by (cases "fs_lookup fs ?f") (simp_all add: rename_file_def)
qed

text \<open>
  The effect on the store: the document is replaced, a file named like the temporary one is
  gone, and nothing else changes.
\<close>

lemma commit_files:
  assumes ok: "storage_ok sd fs" and names: "name_ok fn" "name_ok (tmp_of fn)"
    and nodir: "fs_lookup fs (get_file_path sd fn) \<noteq> Some FDir"
    and notmp: "fs_lookup fs (get_file_path sd (tmp_of fn)) \<noteq> Some FDir"
  shows "\<exists>fs1 fs3. fopen_w fs (cbuf MAX_PATH_LEN (get_file_path sd fn @ ''.tmp'')) = Some fs1 \<and>
    rename_file (fwrite fs1 (cbuf MAX_PATH_LEN (get_file_path sd fn @ ''.tmp'')) c)
      (cbuf MAX_PATH_LEN (get_file_path sd fn @ ''.tmp'')) (get_file_path sd fn) = Some fs3 \<and>
    storage_ok sd fs3 \<and>
    (\<forall>j. name_ok j \<longrightarrow> file_bytes sd fs3 j =
       (if j = fn then Some c else if j = tmp_of fn then None else file_bytes sd fs j))"
proof -
  let ?t = "get_file_path sd (tmp_of fn)" and ?f = "get_file_path sd fn"
  let ?fs2 = "set_node fs ?t None"
  let ?fs3 = "set_node ?fs2 ?f (Some (FReg c))"
  have t: "cbuf MAX_PATH_LEN (get_file_path sd fn @ ''.tmp'') = ?t" by (rule tmp_path [OF ok names])
  have ok2: "storage_ok sd ?fs2" by (rule storage_ok_set_node [OF ok names(2)])
  have ok3: "storage_ok sd ?fs3" by (rule storage_ok_set_node [OF ok2 names(1)])
  have "file_bytes sd ?fs3 j = (if j = fn then Some c else if j = tmp_of fn then None else file_bytes sd fs j)"
    if "name_ok j" for j
    using file_bytes_set_node [OF ok2 names(1) that, of "Some (FReg c)"]
      file_bytes_set_node [OF ok names(2) that, of None] by simp
  with rename_tmp [OF ok names nodir, of c] fopen_w_file [OF ok names(2)] notmp ok3
  show ?thesis unfolding t by simp
qed

section \<open>Commit\<close>

text \<open>
  A session whose commit is defined: its file is there, the temporary name is free to use, the
  sentence is still inside the document and the new sentence fits the buffer it is built in.
\<close>

definition commit_ready :: "SS \<Rightarrow> bool" where
  "commit_ready st \<longleftrightarrow>
     (let ws = ss_session st; fn = ws_filename ws
      in storage_ok (ss_dir st) (ss_fs st) \<and> ws_active ws \<and> name_ok fn \<and> name_ok (tmp_of fn) \<and>
         file_bytes (ss_dir st) (ss_fs st) fn \<noteq> None \<and>
         fs_lookup (ss_fs st) (get_file_path (ss_dir st) (tmp_of fn)) \<noteq> Some FDir \<and>
         0 \<le> ws_sentence_num ws \<and>
         ws_sentence_num ws \<le> int (length (parse_sentences
           (doc_of (the (file_bytes (ss_dir st) (ss_fs st) fn))))) \<and>
         length (join_words (ws_words ws)) < MAX_CONTENT_LEN)"

definition committed_doc :: "SS \<Rightarrow> cstring" where
  "committed_doc st =
     replace_sentence (doc_of (the (file_bytes (ss_dir st) (ss_fs st) (ws_filename (ss_session st)))))
       (nat (ws_sentence_num (ss_session st))) (join_words (ws_words (ss_session st)))"

text \<open>
  The disks a commit passes through: the temporary file is opened, takes the new content from the
  stream's buffer in pieces, and is renamed over the document. A crash leaves one of them behind.
\<close>

definition commit_disks :: "SS \<Rightarrow> cstring \<Rightarrow> FS list" where
  "commit_disks st new_content =
     (let filepath = get_file_path (ss_dir st) (ws_filename (ss_session st));
          temp_filepath = cbuf MAX_PATH_LEN (filepath @ ''.tmp'')
      in ss_fs st # (case fopen_w (ss_fs st) temp_filepath of
           None \<Rightarrow> []
         | Some fs1 \<Rightarrow>
             map (\<lambda>k. fwrite fs1 temp_filepath (take k new_content)) [0..<Suc (length new_content)] @
             (case rename_file (fwrite fs1 temp_filepath new_content) temp_filepath filepath of
                None \<Rightarrow> [] | Some fs' \<Rightarrow> [fs'])))"

lemma commit_run:
  assumes "commit_ready st"
  shows "\<exists>fs3. handle_write_commit env st =
      Some (st\<lparr>ss_fs := fs3,
          ss_locks := snd (lock_release (ss_locks st) (ws_filename (ss_session st))
            (ws_sentence_num (ss_session st)) (ws_client_id (ss_session st))),
          ss_index := snd (index_file (e_mem_index env (ws_filename (ss_session st))) (ss_index st) (ws_filename (ss_session st)) (doc_of (committed_doc st))),
          ss_session := (ss_session st)\<lparr>ws_active := False\<rparr>\<rparr>,
        [reply env ERR_SUCCESS ''WRITE committed successfully'']) \<and>
    storage_ok (ss_dir st) fs3 \<and>
    (\<forall>j. name_ok j \<longrightarrow> file_bytes (ss_dir st) fs3 j =
       (if j = ws_filename (ss_session st) then Some (committed_doc st)
        else if j = tmp_of (ws_filename (ss_session st)) then None
        else file_bytes (ss_dir st) (ss_fs st) j)) \<and>
    fs3 = last (commit_disks st (committed_doc st))"
proof -
  let ?ws = "ss_session st" and ?sd = "ss_dir st" and ?fs = "ss_fs st"
  let ?fn = "ws_filename ?ws"
  note r = assms [unfolded commit_ready_def Let_def]
  from r obtain bs where bs: "file_bytes ?sd ?fs ?fn = Some bs" by auto
  have names: "name_ok ?fn" "name_ok (tmp_of ?fn)" and ok: "storage_ok ?sd ?fs" using r by auto
  have rd: "read_file ?sd ?fs ?fn MAX_CONTENT_LEN = (ERR_SUCCESS, Some (take (MAX_CONTENT_LEN - 1) bs))"
    by (rule read_file_bytes [OF bs])
  from r bs have sn: "0 \<le> ws_sentence_num ?ws" "ws_sentence_num ?ws \<le> int (length (parse_sentences (doc_of bs)))"
    by auto
  from concat_commit_sentences [OF sn, of "join_words (ws_words ?ws)"] obtain ss where
    ss: "commit_sentences (parse_sentences (doc_of bs)) (ws_sentence_num ?ws) (join_words (ws_words ?ws)) = Some ss"
    "rebuild_file ss = committed_doc st" by (auto simp: committed_doc_def bs)
  have nodir: "fs_lookup ?fs (get_file_path ?sd ?fn) \<noteq> Some FDir" using bs by (simp add: file_bytes_Some)
  have notmp: "fs_lookup ?fs (get_file_path ?sd (tmp_of ?fn)) \<noteq> Some FDir" using r by simp
  from commit_files [OF ok names nodir notmp, of "committed_doc st"] obtain fs1 fs3 where
    fs: "fopen_w ?fs (cbuf MAX_PATH_LEN (get_file_path ?sd ?fn @ ''.tmp'')) = Some fs1"
    "rename_file (fwrite fs1 (cbuf MAX_PATH_LEN (get_file_path ?sd ?fn @ ''.tmp'')) (committed_doc st))
      (cbuf MAX_PATH_LEN (get_file_path ?sd ?fn @ ''.tmp'')) (get_file_path ?sd ?fn) = Some fs3"
    and post: "storage_ok ?sd fs3" "\<And>j. name_ok j \<Longrightarrow> file_bytes ?sd fs3 j =
       (if j = ?fn then Some (committed_doc st) else if j = tmp_of ?fn then None else file_bytes ?sd ?fs j)"
    by blast
  have rd3: "read_file ?sd fs3 ?fn MAX_CONTENT_LEN =
      (ERR_SUCCESS, Some (take (MAX_CONTENT_LEN - 1) (committed_doc st)))"
    by (rule read_file_bytes) (simp add: post(2) [OF names(1)])
  have len: "\<not> length (join_words (ws_words ?ws)) \<ge> MAX_CONTENT_LEN" using r by simp
  have act: "ws_active ?ws" using r by simp
  have "handle_write_commit env st =
      Some (st\<lparr>ss_fs := fs3,
          ss_locks := snd (lock_release (ss_locks st) ?fn (ws_sentence_num ?ws) (ws_client_id ?ws)),
          ss_index := snd (index_file (e_mem_index env ?fn) (ss_index st) ?fn (doc_of (committed_doc st))),
          ss_session := ?ws\<lparr>ws_active := False\<rparr>\<rparr>,
        [reply env ERR_SUCCESS ''WRITE committed successfully''])"
    using act len ss fs rd rd3
    by (simp add: handle_write_commit_def Let_def doc_of_def del: not_le)
  moreover have "fs3 = last (commit_disks st (committed_doc st))" using fs by (simp add: commit_disks_def Let_def)
  ultimately show ?thesis using post by blast
qed

lemma commit_disks_old:
  assumes "commit_ready st" and "fs' \<in> set (butlast (commit_disks st c))"
  shows "file_bytes (ss_dir st) fs' (ws_filename (ss_session st)) =
    file_bytes (ss_dir st) (ss_fs st) (ws_filename (ss_session st))"
proof -
  let ?sd = "ss_dir st" and ?fs = "ss_fs st" and ?fn = "ws_filename (ss_session st)"
  let ?t = "get_file_path ?sd (tmp_of ?fn)"
  note r = assms(1) [unfolded commit_ready_def Let_def]
  have names: "name_ok ?fn" "name_ok (tmp_of ?fn)" and ok: "storage_ok ?sd ?fs"
    and nodir: "fs_lookup ?fs ?t \<noteq> Some FDir" using r by auto
  have t: "cbuf MAX_PATH_LEN (get_file_path ?sd ?fn @ ''.tmp'') = ?t" by (rule tmp_path [OF ok names])
  have w: "fopen_w ?fs ?t = Some (set_node ?fs ?t (Some (FReg [])))"
    using nodir by (simp add: fopen_w_file [OF ok names(2)])
  have wr: "fwrite (set_node ?fs ?t (Some (FReg []))) ?t x = set_node ?fs ?t (Some (FReg x))" for x
    by (simp add: fwrite_def)
  have "fs' = ?fs \<or> (\<exists>x. fs' = set_node ?fs ?t (Some (FReg x)))"
    using assms(2) by (auto simp: commit_disks_def Let_def t w wr butlast_append split: option.splits if_splits dest: in_set_butlastD)
  then show ?thesis
    using file_bytes_set_node [OF ok names(2,1)] by (auto simp: tmp_ne [symmetric])
qed

text \<open>
  C20. A commit does what the client asked for, and no more: the document is the old one with
  the chosen sentence replaced by the session's words joined by blanks (appended after the
  last sentence when the number is one past it), whichever of the splitting and rebuilding
  branches of the code ran; the lock is released, the session closed, the search index
  refreshed, the answer is success, and no other file changes, except that a file which
  happens to have the temporary name is gone. The replacement is atomic: every disk the commit
  passes through before the one it ends with still holds the old document.
\<close>

theorem commit_effect:
  assumes "commit_ready st"
  shows "\<exists>st'. handle_write_commit env st = Some (st', [reply env ERR_SUCCESS ''WRITE committed successfully'']) \<and>
    storage_ok (ss_dir st) (ss_fs st') \<and> \<not> ws_active (ss_session st') \<and>
    ss_locks st' = snd (lock_release (ss_locks st) (ws_filename (ss_session st))
      (ws_sentence_num (ss_session st)) (ws_client_id (ss_session st))) \<and>
    (\<forall>j. name_ok j \<longrightarrow> file_bytes (ss_dir st) (ss_fs st') j =
       (if j = ws_filename (ss_session st) then Some (committed_doc st)
        else if j = tmp_of (ws_filename (ss_session st)) then None
        else file_bytes (ss_dir st) (ss_fs st) j)) \<and>
    ss_fs st' = last (commit_disks st (committed_doc st)) \<and>
    (\<forall>fs'\<in>set (butlast (commit_disks st (committed_doc st))).
       file_bytes (ss_dir st) fs' (ws_filename (ss_session st)) = file_bytes (ss_dir st) (ss_fs st) (ws_filename (ss_session st)))"
  using commit_run [OF assms, of env] commit_disks_old [OF assms] by fastforce

definition sample_ss :: SS where
  "sample_ss = \<lparr>ss_dir = ''s'', ss_fs = sample_fs, ss_locks = lock_table_init, ss_undo = undo_table_init,
     ss_index = index_init,
     ss_session = \<lparr>ws_filename = ''a'', ws_sentence_num = 1, ws_client_id = ''bob'',
                   ws_words = ['' Three!'', ''Four.''], ws_active = True\<rparr>\<rparr>"

lemma sample_file: "file_bytes ''s'' sample_fs ''a'' = Some ''One. Two.''"
  by (simp add: file_bytes_def sample_lookup)

lemma doc_of_sample: "doc_of ''One. Two.'' = ''One. Two.''"
  by (rule doc_of_small) simp_all

lemma sample_ready: "commit_ready sample_ss"
proof -
  have t: "name_ok (tmp_of ''a'')" by (simp add: name_ok_def plain_name_def tmp_of_def)
  moreover have "tmp_of ''a'' \<noteq> ''a''" by (rule tmp_ne)
  ultimately show ?thesis
    by (simp add: commit_ready_def sample_ss_def storage_ok_sample sample_file sample_lookup doc_of_sample
        parse_sentences_def is_delimiter_def)
qed

theorem commit_effect_witness:
  "\<forall>env. \<exists>st'. handle_write_commit env sample_ss = Some (st', [reply env ERR_SUCCESS ''WRITE committed successfully'']) \<and>
     file_bytes ''s'' (ss_fs st') ''a'' = Some ''One. Three! Four.''"
proof -
  have "committed_doc sample_ss = ''One. Three! Four.''"
    by (simp add: committed_doc_def sample_ss_def sample_file doc_of_sample replace_sentence_def
        parse_sentences_def is_delimiter_def)
  then show ?thesis using commit_effect [OF sample_ready] by (fastforce simp: sample_ss_def)
qed

section \<open>Starting a session\<close>

text \<open>The words a session starts with: those of the chosen sentence, none for a new one.\<close>

definition start_words :: "cstring \<Rightarrow> int \<Rightarrow> cstring list" where
  "start_words content sn =
     (let ss = parse_sentences content
      in if nat sn < length ss then words_of (ss ! nat sn) else [])"

text \<open>A start request that every check of the handler passes.\<close>

definition start_ready :: "Env \<Rightarrow> SS \<Rightarrow> Message \<Rightarrow> char list \<Rightarrow> bool" where
  "start_ready env st m bs \<longleftrightarrow>
     msg_wf m \<and> storage_ok (ss_dir st) (ss_fs st) \<and> lock_inv (ss_locks st) \<and> undo_inv (ss_undo st) \<and>
     e_mem_node env \<and> e_mem_content env \<and>
     name_ok (m_filename m) \<and> file_bytes (ss_dir st) (ss_fs st) (m_filename m) = Some bs \<and>
     fst (lock_acquire (ss_locks st) (m_filename m) (m_sentence_num m) (m_sender_id m) (e_now env)) \<noteq> ERR_LOCKED \<and>
     0 \<le> m_sentence_num m \<and> m_sentence_num m \<le> int (length (parse_sentences (doc_of bs))) \<and>
     words_fit (start_words (doc_of bs) (m_sentence_num m))"

definition started :: "Env \<Rightarrow> SS \<Rightarrow> Message \<Rightarrow> char list \<Rightarrow> SS" where
  "started env st m bs =
     st\<lparr>ss_locks := snd (lock_acquire (ss_locks st) (m_filename m) (m_sentence_num m) (m_sender_id m) (e_now env)),
        ss_session := \<lparr>ws_filename = m_filename m, ws_sentence_num = m_sentence_num m,
          ws_client_id = m_sender_id m, ws_words = start_words (doc_of bs) (m_sentence_num m), ws_active = True\<rparr>,
        ss_undo := snd (undo_save True True (ss_undo st) (m_filename m) (doc_of bs) (length (doc_of bs)))\<rparr>"

lemma start_run:
  assumes "start_ready env st m bs"
  shows "handle_write_start env st m = Some (started env st m bs,
    [reply env ERR_SUCCESS (''Lock acquired. Sentence has '' @
       show_nat (length (start_words (doc_of bs) (m_sentence_num m))) @ '' words. Send word updates.'')])"
proof -
  let ?fn = "m_filename m" and ?sn = "m_sentence_num m"
  note r = assms [unfolded start_ready_def]
  obtain code locks where acq: "lock_acquire (ss_locks st) ?fn ?sn (m_sender_id m) (e_now env) = (code, locks)"
    by fastforce
  have ex: "file_exists (ss_dir st) (ss_fs st) ?fn"
    using r by (simp add: file_exists_def stat_ok_def file_bytes_Some)
  have rd: "read_file (ss_dir st) (ss_fs st) ?fn MAX_CONTENT_LEN =
      (ERR_SUCCESS, Some (take (MAX_CONTENT_LEN - 1) bs))"
    using r by (intro read_file_bytes) simp
  have words: "target_words (parse_sentences (doc_of bs)) ?sn = Some (start_words (doc_of bs) ?sn)"
    using r by (auto simp: target_words_def start_words_def Let_def parse_words_eq split: if_splits)
  have c: "cstr_of (take 4095 bs) = doc_of bs" by (simp add: doc_of_def)
  have lens: "length ?fn < MAX_FILENAME_LEN" "length (m_sender_id m) < MAX_USERNAME_LEN"
    using r by (simp_all add: msg_wf_def)
  have rng: "\<not> (?sn < 0 \<or> ?sn > int (length (parse_sentences (doc_of bs))))" using r by auto
  have code: "code \<noteq> ERR_LOCKED" using r acq by simp
  show ?thesis
    using ex rd acq code rng lens r words
    by (simp add: handle_write_start_def Let_def c cbuf_id started_def)
qed

lemma write_start_refused_eq:
  assumes "file_exists (ss_dir st) (ss_fs st) (m_filename m)"
    and "lock_is_locked (ss_locks st) (m_filename m) (m_sentence_num m) (m_sender_id m) (e_now env)"
  shows "handle_write_start env st m = Some (st, [reply env ERR_LOCKED ''Sentence locked by another user''])"
proof -
  have "lock_acquire (ss_locks st) (m_filename m) (m_sentence_num m) (m_sender_id m) (e_now env) =
      (ERR_LOCKED, ss_locks st)"
    using assms(2) by (auto simp: lock_is_locked_def lock_acquire_def Let_def split: option.splits if_splits)
  with assms(1) show ?thesis by (simp add: handle_write_start_def Let_def)
qed

text \<open>
  A refused start has no effect: when another client holds an unexpired lock on the
  sentence, the server answers \<open>ERR_LOCKED\<close> and its whole state is what it was.
\<close>

theorem write_start_refused:
  assumes "file_exists (ss_dir st) (ss_fs st) (m_filename m)"
    and "lock_is_locked (ss_locks st) (m_filename m) (m_sentence_num m) (m_sender_id m) (e_now env)"
  shows "handle_write_start env st m = Some (st, [reply env ERR_LOCKED ''Sentence locked by another user''])"
  using assms by (rule write_start_refused_eq)

definition sample_msg :: Message where
  "sample_msg = (INIT_MESSAGE 0)\<lparr>m_operation := OP_WRITE_START, m_filename := ''a'', m_sentence_num := 1,
     m_sender_id := ''bob''\<rparr>"

definition sample_env :: Env where
  "sample_env = \<lparr>e_now = 10, e_mem_node = True, e_mem_content = True, e_mem_restore = True, e_mem_index = (\<lambda>_ _. True),
     e_times = (0, 0, 0), e_dir_size = 0, e_names = [], e_sent = 0\<rparr>"

theorem write_start_refused_witness:
  "handle_write_start sample_env
     (sample_ss\<lparr>ss_locks := snd (lock_acquire lock_table_init ''a'' 1 ''eve'' 5)\<rparr>) sample_msg =
   Some (sample_ss\<lparr>ss_locks := snd (lock_acquire lock_table_init ''a'' 1 ''eve'' 5)\<rparr>,
     [reply sample_env ERR_LOCKED ''Sentence locked by another user''])"
  by (rule write_start_refused)
    (simp_all add: sample_ss_def sample_msg_def sample_env_def file_exists_def stat_ok_def sample_lookup
      lock_acquire_def lock_is_locked_def lock_table_init_def lock_matches_def cbuf_id Let_def)

section \<open>A whole write connection\<close>

text \<open>The words after a run of updates, each at an index the sentence has then.\<close>

fun updates_valid :: "nat \<Rightarrow> (Env \<times> Message) list \<Rightarrow> bool" where
  "updates_valid n [] = True"
| "updates_valid n ((env, m) # ups) \<longleftrightarrow>
     m_operation m = OP_WRITE_UPDATE \<and> 0 \<le> m_word_index m \<and> m_word_index m \<le> int n \<and> updates_valid (Suc n) ups"

fun apply_updates :: "cstring list \<Rightarrow> (Env \<times> Message) list \<Rightarrow> cstring list" where
  "apply_updates ws [] = ws"
| "apply_updates ws ((env, m) # ups) =
     apply_updates (take (nat (m_word_index m)) ws @ m_content m # drop (nat (m_word_index m)) ws) ups"

lemma write_loop_updates:
  "ws_active (ss_session st) \<Longrightarrow> updates_valid (length (ws_words (ss_session st))) ups \<Longrightarrow>
   \<exists>out. write_loop st (ups @ rest) =
     map_option (\<lambda>(st', out'). (st', out @ out'))
       (write_loop (st\<lparr>ss_session := (ss_session st)\<lparr>ws_words := apply_updates (ws_words (ss_session st)) ups\<rparr>\<rparr>) rest)"
proof (induction ups arbitrary: st)
  case Nil
  show ?case by (intro exI [of _ "[]"]) (cases "write_loop st rest", simp_all)
next
  case (Cons u ups)
  obtain env m where u: "u = (env, m)" by fastforce
  let ?i = "nat (m_word_index m)" and ?ws = "ws_words (ss_session st)"
  let ?st = "st\<lparr>ss_session := (ss_session st)\<lparr>ws_words := take ?i ?ws @ m_content m # drop ?i ?ws\<rparr>\<rparr>"
  have v: "m_operation m = OP_WRITE_UPDATE" "0 \<le> m_word_index m" "m_word_index m \<le> int (length ?ws)"
    "updates_valid (Suc (length ?ws)) ups"
    using Cons.prems u by auto
  have "length (take ?i ?ws @ m_content m # drop ?i ?ws) = Suc (length ?ws)" using v(2,3) by auto
  moreover have "ws_words (ss_session ?st) = take ?i ?ws @ m_content m # drop ?i ?ws" by simp
  ultimately have "updates_valid (length (ws_words (ss_session ?st))) ups"
    using v(4) by (simp only:)
  from Cons.IH [OF _ this] Cons.prems(1) obtain out where
    ih: "write_loop ?st (ups @ rest) = map_option (\<lambda>(st', out'). (st', out @ out'))
       (write_loop (?st\<lparr>ss_session := (ss_session ?st)\<lparr>ws_words := apply_updates (ws_words (ss_session ?st)) ups\<rparr>\<rparr>) rest)"
    by auto
  obtain r where h: "handle_write_session env st m = Some (?st, [r])"
    using v Cons.prems(1) by (auto simp: handle_write_session_def handle_write_update_def Let_def)
  show ?case
    by (intro exI [of _ "r # out"])
      (simp add: u v h ih option.map_comp comp_def case_prod_beta)
qed

text \<open>The words of the session when it is committed.\<close>

definition final_words :: "Message \<Rightarrow> char list \<Rightarrow> (Env \<times> Message) list \<Rightarrow> cstring list" where
  "final_words m bs ups = apply_updates (start_words (doc_of bs) (m_sentence_num m)) ups"

text \<open>The whole exchange is defined: start, updates and the sizes of the commit.\<close>

definition exchange_ready ::
  "Env \<Rightarrow> SS \<Rightarrow> Message \<Rightarrow> char list \<Rightarrow> (Env \<times> Message) list \<Rightarrow> bool" where
  "exchange_ready env st m bs ups \<longleftrightarrow>
     start_ready env st m bs \<and> m_operation m = OP_WRITE_START \<and>
     updates_valid (length (start_words (doc_of bs) (m_sentence_num m))) ups \<and>
     length (join_words (final_words m bs ups)) < MAX_CONTENT_LEN \<and>
     name_ok (tmp_of (m_filename m)) \<and>
     fs_lookup (ss_fs st) (get_file_path (ss_dir st) (tmp_of (m_filename m))) \<noteq> Some FDir"

lemma lock_granted_released:
  assumes inv: "lock_inv t" and len: "length f < MAX_FILENAME_LEN" "length c < MAX_USERNAME_LEN"
    and granted: "fst (lock_acquire t f n c now) \<noteq> ERR_LOCKED"
  shows "lock_holders (snd (lock_release (snd (lock_acquire t f n c now)) f n c)) (f, n) = None \<and>
    (\<forall>k. k \<noteq> (f, n) \<longrightarrow>
       lock_holders (snd (lock_release (snd (lock_acquire t f n c now)) f n c)) k = lock_holders t k)"
proof -
  let ?t = "snd (lock_acquire t f n c now)"
  have a: "lock_inv ?t" "(fst (lock_acquire t f n c now), lock_holders ?t) = spec_acquire (lock_holders t) (f, n) c now"
    using lock_acquire_spec lock_acquire_inv inv len by (simp_all add: lock_valid_def)
  have r: "(fst (lock_release ?t f n c), lock_holders (snd (lock_release ?t f n c))) =
      spec_release (lock_holders ?t) (f, n) c"
    by (rule lock_release_spec [OF a(1)])
  from a(2) granted have h: "lock_holders ?t = (lock_holders t)((f, n) \<mapsto> (c, now))"
    by (auto simp: spec_acquire_def split: option.splits if_splits)
  show ?thesis using r unfolding h by (simp add: spec_release_def split: if_splits option.splits)
qed

text \<open>The state of the session just before the commit.\<close>

definition edited :: "Env \<Rightarrow> SS \<Rightarrow> Message \<Rightarrow> char list \<Rightarrow> (Env \<times> Message) list \<Rightarrow> SS" where
  "edited env st m bs ups =
     (let s = started env st m bs
      in s\<lparr>ss_session := (ss_session s)\<lparr>ws_words := apply_updates (ws_words (ss_session s)) ups\<rparr>\<rparr>)"

lemma edited_ready: "exchange_ready env st m bs ups \<Longrightarrow> commit_ready (edited env st m bs ups)"
  by (simp add: exchange_ready_def start_ready_def commit_ready_def edited_def started_def final_words_def Let_def)

lemma edited_doc:
  "exchange_ready env st m bs ups \<Longrightarrow> committed_doc (edited env st m bs ups) =
    replace_sentence (doc_of bs) (nat (m_sentence_num m)) (join_words (final_words m bs ups))"
  by (simp add: exchange_ready_def start_ready_def committed_doc_def edited_def started_def final_words_def Let_def)

text \<open>The commit of an edited session: its answer, and what it leaves behind.\<close>

definition exchange_done :: "Env \<Rightarrow> SS \<Rightarrow> Message \<Rightarrow> char list \<Rightarrow> (Env \<times> Message) list \<Rightarrow> SS \<Rightarrow> bool" where
  "exchange_done env st m bs ups st' \<longleftrightarrow>
     ss_dir st' = ss_dir st \<and> storage_ok (ss_dir st) (ss_fs st') \<and> \<not> ws_active (ss_session st') \<and>
     ss_undo st' = ss_undo (started env st m bs) \<and>
     lock_holders (ss_locks st') (m_filename m, m_sentence_num m) = None \<and>
     (\<forall>k. k \<noteq> (m_filename m, m_sentence_num m) \<longrightarrow>
        lock_holders (ss_locks st') k = lock_holders (ss_locks st) k) \<and>
     (\<forall>j. name_ok j \<longrightarrow> file_bytes (ss_dir st) (ss_fs st') j =
        (if j = m_filename m then Some (replace_sentence (doc_of bs) (nat (m_sentence_num m))
           (join_words (final_words m bs ups)))
         else if j = tmp_of (m_filename m) then None
         else file_bytes (ss_dir st) (ss_fs st) j))"

lemma edited_commit:
  assumes r: "exchange_ready env st m bs ups"
  shows "\<exists>st'. handle_write_commit envc (edited env st m bs ups) =
      Some (st', [reply envc ERR_SUCCESS ''WRITE committed successfully'']) \<and> exchange_done env st m bs ups st'"
proof -
  let ?e = "edited env st m bs ups"
  have s: "start_ready env st m bs" using r by (simp add: exchange_ready_def)
  note s = s [unfolded start_ready_def]
  from commit_run [OF edited_ready [OF r], of envc] obtain fs3 where
    commit: "handle_write_commit envc ?e = Some (?e\<lparr>ss_fs := fs3,
          ss_locks := snd (lock_release (ss_locks ?e) (ws_filename (ss_session ?e))
            (ws_sentence_num (ss_session ?e)) (ws_client_id (ss_session ?e))),
          ss_index := snd (index_file (e_mem_index envc (ws_filename (ss_session ?e))) (ss_index ?e) (ws_filename (ss_session ?e)) (doc_of (committed_doc ?e))),
          ss_session := (ss_session ?e)\<lparr>ws_active := False\<rparr>\<rparr>,
        [reply envc ERR_SUCCESS ''WRITE committed successfully''])"
    and post: "storage_ok (ss_dir ?e) fs3" "\<And>j. name_ok j \<Longrightarrow> file_bytes (ss_dir ?e) fs3 j =
       (if j = ws_filename (ss_session ?e) then Some (committed_doc ?e)
        else if j = tmp_of (ws_filename (ss_session ?e)) then None
        else file_bytes (ss_dir ?e) (ss_fs ?e) j)"
    by blast
  have lens: "length (m_filename m) < MAX_FILENAME_LEN" "length (m_sender_id m) < MAX_USERNAME_LEN"
    and inv: "lock_inv (ss_locks st)"
    and g: "fst (lock_acquire (ss_locks st) (m_filename m) (m_sentence_num m) (m_sender_id m) (e_now env)) \<noteq> ERR_LOCKED"
    using s by (auto simp: msg_wf_def)
  have e: "ss_dir ?e = ss_dir st" "ss_fs ?e = ss_fs st" "ss_undo ?e = ss_undo (started env st m bs)"
    "ws_filename (ss_session ?e) = m_filename m" "ws_sentence_num (ss_session ?e) = m_sentence_num m"
    "ws_client_id (ss_session ?e) = m_sender_id m"
    "ss_locks ?e = snd (lock_acquire (ss_locks st) (m_filename m) (m_sentence_num m) (m_sender_id m) (e_now env))"
    by (simp_all add: edited_def started_def Let_def)
  show ?thesis
    using commit post lock_granted_released [OF inv lens g] edited_doc [OF r]
    unfolding e by (simp add: exchange_done_def e)
qed

lemma exchange_run:
  assumes r: "exchange_ready env st m bs ups" and c: "m_operation mc = OP_WRITE_COMMIT"
  shows "\<exists>st' out. client_connection st env m (ups @ (envc, mc) # rest) = Some (st', out) \<and>
    last out = reply envc ERR_SUCCESS ''WRITE committed successfully'' \<and> exchange_done env st m bs ups st'"
proof -
  let ?s = "started env st m bs" and ?e = "edited env st m bs ups"
  note x = r [unfolded exchange_ready_def]
  have sr: "start_ready env st m bs" using x by simp
  obtain r0 where start: "handle_write_session env st m = Some (?s, [r0])"
    using start_run [OF sr] x by (simp add: handle_write_session_def)
  have "ws_active (ss_session ?s)" "updates_valid (length (ws_words (ss_session ?s))) ups"
    using x by (simp_all add: started_def)
  from write_loop_updates [OF this, of "(envc, mc) # rest"] obtain out where
    loop: "write_loop ?s (ups @ (envc, mc) # rest) = map_option (\<lambda>(st', out'). (st', out @ out'))
      (write_loop ?e ((envc, mc) # rest))" by (auto simp: edited_def Let_def)
  obtain st' where "handle_write_commit envc ?e = Some (st', [reply envc ERR_SUCCESS ''WRITE committed successfully''])"
    and done': "exchange_done env st m bs ups st'"
    using edited_commit [OF r] by blast
  then have "client_connection st env m (ups @ (envc, mc) # rest) =
      Some (st', (r0 # out) @ [reply envc ERR_SUCCESS ''WRITE committed successfully''])"
    using x c start loop by (simp add: client_connection_def handle_write_session_def [of envc])
  with done' show ?thesis by (intro exI conjI) (assumption, simp only: last_snoc)
qed

text \<open>
  C3. The write exchange end to end: on one connection, a start that passes its checks, any
  number of updates at valid word positions and a commit leave the document equal to the
  document at the start (the first 4095 bytes of the file) with the chosen sentence replaced by
  the edited words; the answer is success, the session is over, the sentence's lock is free, all
  other locks are as before, and so are all other files except one: a file whose name is that of
  the document with \<open>.tmp\<close> appended is destroyed, a user's own included.
\<close>

theorem write_exchange:
  assumes "exchange_ready env st m bs ups" and "m_operation mc = OP_WRITE_COMMIT"
  shows "\<exists>st' out. client_connection st env m (ups @ [(envc, mc)]) = Some (st', out) \<and>
    last out = reply envc ERR_SUCCESS ''WRITE committed successfully'' \<and>
    \<not> ws_active (ss_session st') \<and>
    lock_holders (ss_locks st') (m_filename m, m_sentence_num m) = None \<and>
    (\<forall>k. k \<noteq> (m_filename m, m_sentence_num m) \<longrightarrow>
       lock_holders (ss_locks st') k = lock_holders (ss_locks st) k) \<and>
    (\<forall>j. name_ok j \<longrightarrow> file_bytes (ss_dir st) (ss_fs st') j =
       (if j = m_filename m then Some (replace_sentence (doc_of bs) (nat (m_sentence_num m))
          (join_words (final_words m bs ups)))
        else if j = tmp_of (m_filename m) then None
        else file_bytes (ss_dir st) (ss_fs st) j))"
  using exchange_run [OF assms, of envc "[]"] unfolding exchange_done_def by blast

definition idle_ss :: SS where
  "idle_ss = sample_ss\<lparr>ss_session := (ss_session sample_ss)\<lparr>ws_active := False\<rparr>\<rparr>"

definition sample_update :: Message where
  "sample_update = (INIT_MESSAGE 0)\<lparr>m_operation := OP_WRITE_UPDATE, m_word_index := 0, m_content := ''Zwei''\<rparr>"

definition sample_commit :: Message where
  "sample_commit = (INIT_MESSAGE 0)\<lparr>m_operation := OP_WRITE_COMMIT\<rparr>"

lemma sample_start_words: "start_words (doc_of ''One. Two.'') 1 = [''Two.'']"
proof -
  have "words_of '' Two.'' = [''Two.'']" by (simp add: words_of_def runs.simps isspace_def)
  then show ?thesis by (simp add: start_words_def doc_of_sample parse_sentences_def is_delimiter_def)
qed

lemma sample_exchange: "exchange_ready sample_env idle_ss sample_msg ''One. Two.'' [(sample_env, sample_update)]"
proof -
  have sel: "ss_dir idle_ss = ''s''" "ss_fs idle_ss = sample_fs" "ss_locks idle_ss = lock_table_init"
    "ss_undo idle_ss = undo_table_init"
    by (simp_all add: idle_ss_def sample_ss_def)
  have m: "m_filename sample_msg = ''a''" "m_sentence_num sample_msg = 1" "m_sender_id sample_msg = ''bob''"
    "m_operation sample_msg = OP_WRITE_START" "msg_wf sample_msg"
    by (simp_all add: sample_msg_def msg_wf_def INIT_MESSAGE_def)
  have t: "name_ok (tmp_of ''a'')" by (simp add: name_ok_def plain_name_def tmp_of_def)
  have granted: "fst (lock_acquire lock_table_init ''a'' 1 ''bob'' (e_now sample_env)) \<noteq> ERR_LOCKED"
    by (simp add: lock_acquire_def lock_table_init_def Let_def)
  have mem: "e_mem_node sample_env" "e_mem_content sample_env" by (simp_all add: sample_env_def)
  have start: "start_ready sample_env idle_ss sample_msg ''One. Two.''"
    unfolding start_ready_def sel m sample_start_words
    using storage_ok_sample lock_inv_init undo_inv_init mem sample_file granted m(5)
    by (simp add: doc_of_sample parse_sentences_def is_delimiter_def)
  show ?thesis
    unfolding exchange_ready_def final_words_def sel m sample_start_words
    using start t tmp_ne [of "''a''"]
    by (simp add: sample_update_def sample_lookup)
qed

theorem write_exchange_witness:
  "\<exists>st' out. client_connection idle_ss sample_env sample_msg
      ([(sample_env, sample_update)] @ [(sample_env, sample_commit)]) = Some (st', out) \<and>
    file_bytes ''s'' (ss_fs st') ''a'' = Some ''One.Zwei Two.''"
proof -
  have c: "m_operation sample_commit = OP_WRITE_COMMIT" by (simp add: sample_commit_def)
  have "final_words sample_msg ''One. Two.'' [(sample_env, sample_update)] = [''Zwei'', ''Two.'']"
    using sample_start_words by (simp add: final_words_def sample_msg_def sample_update_def)
  then have "replace_sentence (doc_of ''One. Two.'') (nat (m_sentence_num sample_msg))
      (join_words (final_words sample_msg ''One. Two.'' [(sample_env, sample_update)])) = ''One.Zwei Two.''"
    by (simp add: sample_msg_def doc_of_sample replace_sentence_def parse_sentences_def is_delimiter_def)
  moreover have "m_filename sample_msg = ''a''" "ss_dir idle_ss = ''s''"
    by (simp_all add: sample_msg_def idle_ss_def sample_ss_def)
  ultimately show ?thesis using write_exchange [OF sample_exchange c, of sample_env] by auto
qed

section \<open>Undo\<close>

lemma undo_run:
  assumes ok: "storage_ok (ss_dir st) (ss_fs st)" and n: "name_ok (m_filename m)"
    and inv: "undo_inv (ss_undo st)" and p: "undo_pending (ss_undo st) (m_filename m) = Some c"
    and mem: "e_mem_restore env"
    and nodir: "fs_lookup (ss_fs st) (get_file_path (ss_dir st) (m_filename m)) \<noteq> Some FDir"
  shows "\<exists>st'. handle_undo_request env st m = Some (st', [reply env ERR_SUCCESS ''File restored from undo buffer'']) \<and>
    storage_ok (ss_dir st) (ss_fs st') \<and> ss_dir st' = ss_dir st \<and> ss_locks st' = ss_locks st \<and>
    undo_pending (ss_undo st') = (undo_pending (ss_undo st))(m_filename m := None) \<and>
    (\<forall>j. name_ok j \<longrightarrow> file_bytes (ss_dir st) (ss_fs st') j =
       (if j = m_filename m then Some c else file_bytes (ss_dir st) (ss_fs st) j))"
proof -
  let ?p = "get_file_path (ss_dir st) (m_filename m)"
  obtain u where u: "undo_restore True (ss_undo st) (m_filename m) = Some (ERR_SUCCESS, Some c, u)"
    "undo_pending u = (undo_pending (ss_undo st))(m_filename m := None)"
    using undo_restore_run [OF inv p] by blast
  have av: "undo_available (ss_undo st) (m_filename m)" using p by (simp add: undo_available_iff [OF inv])
  have w: "fopen_w (ss_fs st) ?p = Some (set_node (ss_fs st) ?p (Some (FReg [])))"
    using nodir by (simp add: fopen_w_file [OF ok n])
  have "handle_undo_request env st m = Some (st\<lparr>ss_undo := u, ss_fs := set_node (ss_fs st) ?p (Some (FReg c))\<rparr>,
      [reply env ERR_SUCCESS ''File restored from undo buffer''])"
    using av u(1) w mem by (simp add: handle_undo_request_def Let_def)
  with u(2) storage_ok_set_node [OF ok n] file_bytes_set_node [OF ok n, of _ "Some (FReg c)"]
  show ?thesis by simp
qed

text \<open>
  C4. Undo takes a write back: an undo request for the file after a write exchange answers
  success and gives the file the document it had when the exchange started, leaving all other
  files alone. (For a file of at most 4095 bytes without NUL that is its old content,
  \<open>doc_of_small\<close>; of a longer one only its first 4095 bytes come back.)
\<close>

theorem write_then_undo:
  assumes r: "exchange_ready env st m bs ups" and "m_operation mc = OP_WRITE_COMMIT"
    and u: "m_operation mu = OP_UNDO" "m_filename mu = m_filename m" "e_mem_restore envu"
  shows "\<exists>st1 out st2. client_connection st env m (ups @ [(envc, mc)]) = Some (st1, out) \<and>
    client_connection st1 envu mu [] =
      Some (st2, [reply envu ERR_SUCCESS ''File restored from undo buffer'']) \<and>
    file_bytes (ss_dir st) (ss_fs st2) (m_filename m) = Some (doc_of bs) \<and>
    (\<forall>j. name_ok j \<longrightarrow> j \<noteq> m_filename m \<longrightarrow>
       file_bytes (ss_dir st) (ss_fs st2) j = file_bytes (ss_dir st) (ss_fs st1) j)"
proof -
  from exchange_run [OF assms(1,2), of envc "[]"] obtain st1 out where
    one: "client_connection st env m (ups @ [(envc, mc)]) = Some (st1, out)" and dir: "ss_dir st1 = ss_dir st"
    and ok: "storage_ok (ss_dir st1) (ss_fs st1)" and undo: "ss_undo st1 = ss_undo (started env st m bs)"
    and "file_bytes (ss_dir st1) (ss_fs st1) (m_filename m) \<noteq> None"
    using r by (auto simp: exchange_ready_def start_ready_def exchange_done_def)
  then have nodir: "fs_lookup (ss_fs st1) (get_file_path (ss_dir st1) (m_filename mu)) \<noteq> Some FDir"
    by (auto simp: u file_bytes_def)
  have n: "name_ok (m_filename mu)" and len: "length (m_filename m) < MAX_FILENAME_LEN" and inv: "undo_inv (ss_undo st)"
    using r by (auto simp: exchange_ready_def start_ready_def u msg_wf_def)
  have d: "length (doc_of bs) \<le> MAX_UNDO_SIZE" using length_doc_of [of bs] by simp
  have inv1: "undo_inv (ss_undo st1)" unfolding undo started_def using undo_save_inv [OF inv len] by simp
  have p1: "undo_pending (ss_undo st1) (m_filename mu) = Some (doc_of bs)"
    unfolding undo started_def u using undo_save_pending [OF len d] by simp
  have cc: "client_connection st1 envu mu [] = handle_undo_request envu st1 mu"
    using u(1) by (simp add: client_connection_def)
  from undo_run [OF ok n inv1 p1 u(3) nodir] obtain st2 where
    two: "handle_undo_request envu st1 mu = Some (st2, [reply envu ERR_SUCCESS ''File restored from undo buffer''])"
    and post: "\<forall>j. name_ok j \<longrightarrow> file_bytes (ss_dir st) (ss_fs st2) j =
      (if j = m_filename mu then Some (doc_of bs) else file_bytes (ss_dir st) (ss_fs st1) j)"
    unfolding dir by blast
  show ?thesis
  proof (intro exI conjI)
    show "client_connection st env m (ups @ [(envc, mc)]) = Some (st1, out)" by (rule one)
    show "client_connection st1 envu mu [] =
        Some (st2, [reply envu ERR_SUCCESS ''File restored from undo buffer''])" unfolding cc by (rule two)
    show "file_bytes (ss_dir st) (ss_fs st2) (m_filename m) = Some (doc_of bs)"
      using post n by (simp add: u(2))
    show "\<forall>j. name_ok j \<longrightarrow> j \<noteq> m_filename m \<longrightarrow>
        file_bytes (ss_dir st) (ss_fs st2) j = file_bytes (ss_dir st) (ss_fs st1) j"
      using post by (simp add: u(2))
  qed
qed

theorem write_then_undo_witness:
  "\<exists>st1 out st2 out2. client_connection idle_ss sample_env sample_msg
      ([(sample_env, sample_update)] @ [(sample_env, sample_commit)]) = Some (st1, out) \<and>
    client_connection st1 sample_env (sample_msg\<lparr>m_operation := OP_UNDO\<rparr>) [] = Some (st2, out2) \<and>
    file_bytes ''s'' (ss_fs st2) ''a'' = Some ''One. Two.''"
proof -
  have c: "m_operation sample_commit = OP_WRITE_COMMIT" by (simp add: sample_commit_def)
  have "m_operation (sample_msg\<lparr>m_operation := OP_UNDO\<rparr>) = OP_UNDO"
    "m_filename (sample_msg\<lparr>m_operation := OP_UNDO\<rparr>) = m_filename sample_msg" "e_mem_restore sample_env"
    by (simp_all add: sample_env_def)
  from write_then_undo [OF sample_exchange c this, of sample_env] show ?thesis
    by (auto simp: doc_of_sample idle_ss_def sample_ss_def sample_msg_def)
qed

section \<open>Disconnects and abandoned sessions\<close>

text \<open>
  C21. A client that goes away before its commit changes nothing: after a granted start and any
  valid updates the end of the connection closes the session, frees the sentence's lock,
  leaves all other locks and every file as they were.
\<close>

theorem disconnect_rolls_back:
  assumes "start_ready env st m bs" and "m_operation m = OP_WRITE_START"
    and "updates_valid (length (start_words (doc_of bs) (m_sentence_num m))) ups"
  shows "\<exists>st' out. client_connection st env m ups = Some (st', out) \<and>
    \<not> ws_active (ss_session st') \<and> ss_fs st' = ss_fs st \<and> ss_index st' = ss_index st \<and>
    lock_holders (ss_locks st') (m_filename m, m_sentence_num m) = None \<and>
    (\<forall>k. k \<noteq> (m_filename m, m_sentence_num m) \<longrightarrow>
       lock_holders (ss_locks st') k = lock_holders (ss_locks st) k)"
proof -
  let ?s = "started env st m bs"
  note s = assms(1) [unfolded start_ready_def]
  obtain r0 where start: "handle_write_session env st m = Some (?s, [r0])"
    using start_run [OF assms(1)] assms(2) by (simp add: handle_write_session_def)
  have "ws_active (ss_session ?s)" "updates_valid (length (ws_words (ss_session ?s))) ups"
    using assms(3) by (simp_all add: started_def)
  from write_loop_updates [OF this, of "[]"] obtain out where
    loop: "write_loop ?s ups = map_option (\<lambda>(st', out'). (st', out @ out'))
      (write_loop (?s\<lparr>ss_session := (ss_session ?s)\<lparr>ws_words := apply_updates (ws_words (ss_session ?s)) ups\<rparr>\<rparr>) [])"
    by auto
  have lens: "length (m_filename m) < MAX_FILENAME_LEN" "length (m_sender_id m) < MAX_USERNAME_LEN"
    and inv: "lock_inv (ss_locks st)"
    and g: "fst (lock_acquire (ss_locks st) (m_filename m) (m_sentence_num m) (m_sender_id m) (e_now env)) \<noteq> ERR_LOCKED"
    using s by (auto simp: msg_wf_def)
  show ?thesis using start loop assms(2) lock_granted_released [OF inv lens g]
    by (simp add: client_connection_def started_def)
qed

theorem disconnect_rolls_back_witness:
  "\<exists>st' out. client_connection idle_ss sample_env sample_msg [(sample_env, sample_update)] = Some (st', out) \<and>
    ss_fs st' = sample_fs \<and> lock_holders (ss_locks st') (''a'', 1) = None"
proof -
  from sample_exchange have r: "start_ready sample_env idle_ss sample_msg ''One. Two.''"
    "m_operation sample_msg = OP_WRITE_START"
    "updates_valid (length (start_words (doc_of ''One. Two.'') (m_sentence_num sample_msg))) [(sample_env, sample_update)]"
    by (simp_all add: exchange_ready_def)
  from disconnect_rolls_back [OF r] show ?thesis
    by (auto simp: idle_ss_def sample_ss_def sample_msg_def)
qed

text \<open>A connection that leaves its session in the middle: what follows the other operation is not read.\<close>

lemma session_abandoned:
  assumes r: "exchange_ready env st m bs ups" and x: "m_operation mx \<notin> {OP_WRITE_UPDATE, OP_WRITE_COMMIT}"
  obtains out where "client_connection st env m (ups @ (envx, mx) # rest) = Some (edited env st m bs ups, out)"
proof -
  let ?s = "started env st m bs"
  have sr: "start_ready env st m bs" and op: "m_operation m = OP_WRITE_START"
    and ups: "updates_valid (length (start_words (doc_of bs) (m_sentence_num m))) ups"
    using r by (simp_all add: exchange_ready_def)
  obtain r0 where start: "handle_write_session env st m = Some (?s, [r0])"
    using start_run [OF sr] op by (simp add: handle_write_session_def)
  have "ws_active (ss_session ?s)" "updates_valid (length (ws_words (ss_session ?s))) ups"
    using ups by (simp_all add: started_def)
  from write_loop_updates [OF this, of "(envx, mx) # rest"] obtain out where
    "write_loop ?s (ups @ (envx, mx) # rest) = map_option (\<lambda>(st', out'). (st', out @ out'))
      (write_loop (edited env st m bs ups) ((envx, mx) # rest))" by (auto simp: edited_def Let_def)
  with x start op that show ?thesis by (simp add: client_connection_def)
qed

lemma acquire_locked:
  assumes "fst (lock_acquire t f n c now) = ERR_LOCKED"
  shows "lock_is_locked t f n c now"
  using assms by (auto simp: lock_acquire_def lock_is_locked_def Let_def split: option.splits if_splits)

lemma lock_still_held:
  assumes "start_ready env st m bs" and "m_sender_id m2 \<noteq> m_sender_id m" and "length (m_sender_id m2) < MAX_USERNAME_LEN"
    and "now - e_now env < LOCK_TIMEOUT"
  shows "lock_is_locked (snd (lock_acquire (ss_locks st) (m_filename m) (m_sentence_num m) (m_sender_id m) (e_now env)))
    (m_filename m) (m_sentence_num m) (m_sender_id m2) now"
proof (rule acquire_locked)
  let ?t = "snd (lock_acquire (ss_locks st) (m_filename m) (m_sentence_num m) (m_sender_id m) (e_now env))"
  let ?k = "(m_filename m, m_sentence_num m)"
  note s = assms(1) [unfolded start_ready_def msg_wf_def]
  have "(fst (lock_acquire (ss_locks st) (m_filename m) (m_sentence_num m) (m_sender_id m) (e_now env)), lock_holders ?t) =
      spec_acquire (lock_holders (ss_locks st)) ?k (m_sender_id m) (e_now env)"
    using s by (intro lock_acquire_spec) (simp add: lock_valid_def)
  then have "lock_holders ?t ?k = Some (m_sender_id m, e_now env)"
    using s by (auto simp: spec_acquire_def split: option.splits if_splits)
  moreover have "(fst (lock_acquire ?t (m_filename m) (m_sentence_num m) (m_sender_id m2) now),
      lock_holders (snd (lock_acquire ?t (m_filename m) (m_sentence_num m) (m_sender_id m2) now))) =
      spec_acquire (lock_holders ?t) ?k (m_sender_id m2) now"
    using s assms(3) by (intro lock_acquire_spec) (simp add: lock_valid_def)
  ultimately show "fst (lock_acquire ?t (m_filename m) (m_sentence_num m) (m_sender_id m2) now) = ERR_LOCKED"
    using assms(2,4) by (simp add: spec_acquire_def)
qed

text \<open>
  C36. An abandoned session can be committed by another client. A client starts a session, edits,
  and then sends an operation that does not belong to it: its connection ends with the session
  active and the lock held. When another client asks for the same sentence within the lock's
  time, its start is refused, yet a commit on that same connection succeeds and writes the first
  client's uncommitted words to the file.
\<close>

theorem abandoned_session_hijack:
  assumes r: "exchange_ready env st m bs ups" and x: "m_operation mx \<notin> {OP_WRITE_UPDATE, OP_WRITE_COMMIT}"
    and m2: "m_operation m2 = OP_WRITE_START" "m_filename m2 = m_filename m" "m_sentence_num m2 = m_sentence_num m"
    and other: "m_sender_id m2 \<noteq> m_sender_id m" "length (m_sender_id m2) < MAX_USERNAME_LEN"
    and soon: "e_now env2 - e_now env < LOCK_TIMEOUT" and mc: "m_operation mc = OP_WRITE_COMMIT"
  shows "\<exists>st1 out st2. client_connection st env m (ups @ (envx, mx) # rest) = Some (st1, out) \<and>
    ws_active (ss_session st1) \<and> ws_client_id (ss_session st1) = m_sender_id m \<and> ss_fs st1 = ss_fs st \<and>
    client_connection st1 env2 m2 [(envc, mc)] =
      Some (st2, [reply env2 ERR_LOCKED ''Sentence locked by another user'',
        reply envc ERR_SUCCESS ''WRITE committed successfully'']) \<and>
    file_bytes (ss_dir st) (ss_fs st2) (m_filename m) =
      Some (replace_sentence (doc_of bs) (nat (m_sentence_num m)) (join_words (final_words m bs ups)))"
proof -
  let ?e = "edited env st m bs ups"
  obtain out where one: "client_connection st env m (ups @ (envx, mx) # rest) = Some (?e, out)"
    by (rule session_abandoned [OF r x])
  have sr: "start_ready env st m bs" and n: "name_ok (m_filename m)"
    using r by (simp_all add: exchange_ready_def start_ready_def)
  have e: "ws_active (ss_session ?e)" "ws_client_id (ss_session ?e) = m_sender_id m" "ss_fs ?e = ss_fs st" "ss_dir ?e = ss_dir st"
    "ss_locks ?e = snd (lock_acquire (ss_locks st) (m_filename m) (m_sentence_num m) (m_sender_id m) (e_now env))"
    by (simp_all add: edited_def started_def Let_def)
  have ex: "file_exists (ss_dir ?e) (ss_fs ?e) (m_filename m2)"
    using sr unfolding e m2 by (simp add: start_ready_def file_exists_def stat_ok_def file_bytes_Some)
  have "lock_is_locked (ss_locks ?e) (m_filename m2) (m_sentence_num m2) (m_sender_id m2) (e_now env2)"
    unfolding e m2 by (rule lock_still_held [OF sr other soon])
  then have start: "handle_write_session env2 ?e m2 = Some (?e, [reply env2 ERR_LOCKED ''Sentence locked by another user''])"
    using write_start_refused_eq [OF ex] m2(1) by (simp add: handle_write_session_def)
  obtain st2 where commit: "handle_write_commit envc ?e = Some (st2, [reply envc ERR_SUCCESS ''WRITE committed successfully''])"
    and done': "exchange_done env st m bs ups st2"
    using edited_commit [OF r] by blast
  have "client_connection ?e env2 m2 [(envc, mc)] =
      Some (st2, [reply env2 ERR_LOCKED ''Sentence locked by another user'', reply envc ERR_SUCCESS ''WRITE committed successfully''])"
    using start commit m2(1) mc by (simp add: client_connection_def handle_write_session_def [of envc])
  with one e done' n show ?thesis by (intro exI [of _ ?e] exI [of _ out] exI [of _ st2]) (simp add: exchange_done_def)
qed

text \<open>bob edits and then asks for something else; eve is refused the sentence, commits, and bob's edit is written.\<close>

theorem abandoned_session_hijack_witness:
  "\<exists>st1 out st2 out2. client_connection idle_ss sample_env sample_msg
      [(sample_env, sample_update), (sample_env, sample_msg\<lparr>m_operation := OP_READ\<rparr>)] = Some (st1, out) \<and>
    client_connection st1 sample_env (sample_msg\<lparr>m_sender_id := ''eve''\<rparr>) [(sample_env, sample_commit)] = Some (st2, out2) \<and>
    file_bytes ''s'' (ss_fs st1) ''a'' = Some ''One. Two.'' \<and> file_bytes ''s'' (ss_fs st2) ''a'' = Some ''One.Zwei Two.''"
proof -
  let ?m2 = "sample_msg\<lparr>m_sender_id := ''eve''\<rparr>" and ?mx = "sample_msg\<lparr>m_operation := OP_READ\<rparr>"
  have m2: "m_operation ?m2 = OP_WRITE_START" "m_filename ?m2 = m_filename sample_msg" "m_sentence_num ?m2 = m_sentence_num sample_msg"
    "m_sender_id ?m2 \<noteq> m_sender_id sample_msg" "length (m_sender_id ?m2) < MAX_USERNAME_LEN"
    "e_now sample_env - e_now sample_env < LOCK_TIMEOUT" "m_operation sample_commit = OP_WRITE_COMMIT"
    by (simp_all add: sample_msg_def sample_commit_def)
  have x: "m_operation ?mx \<notin> {OP_WRITE_UPDATE, OP_WRITE_COMMIT}" by simp
  have "final_words sample_msg ''One. Two.'' [(sample_env, sample_update)] = [''Zwei'', ''Two.'']"
    using sample_start_words by (simp add: final_words_def sample_msg_def sample_update_def)
  then have doc: "replace_sentence (doc_of ''One. Two.'') (nat (m_sentence_num sample_msg))
      (join_words (final_words sample_msg ''One. Two.'' [(sample_env, sample_update)])) = ''One.Zwei Two.''"
    by (simp add: sample_msg_def doc_of_sample replace_sentence_def parse_sentences_def is_delimiter_def)
  have fn: "m_filename sample_msg = ''a''" and dir: "ss_dir idle_ss = ''s''" "ss_fs idle_ss = sample_fs"
    by (simp_all add: sample_msg_def idle_ss_def sample_ss_def)
  from abandoned_session_hijack [OF sample_exchange x m2, of sample_env "[]" sample_env, unfolded doc fn dir]
  show ?thesis using sample_file by fastforce
qed

section \<open>Reading and streaming\<close>

text \<open>
  A read returns the document: the reply to a read of a regular file carries success, the
  file's document as its content and its length, followed by \<open>STOP\<close>, and the server's state
  does not change.
\<close>

theorem read_returns_document:
  assumes "file_bytes (ss_dir st) (ss_fs st) (m_filename m) = Some bs" and "m_operation m = OP_READ"
  shows "\<exists>r. client_connection st env m rest = Some (st, [r, stop_msg env]) \<and>
    m_error_code r = ERR_SUCCESS \<and> m_content r = doc_of bs \<and> m_content_length r = length (doc_of bs)"
proof -
  have "cbuf MAX_CONTENT_LEN (doc_of bs) = doc_of bs" using length_doc_of by (rule cbuf_id)
  moreover have "cstr_of (take 4095 bs) = doc_of bs" by (simp add: doc_of_def)
  ultimately show ?thesis using read_file_bytes [OF assms(1), of MAX_CONTENT_LEN] assms(2)
    by (simp add: client_connection_def handle_read_from_client_def ack_def reply_def)
qed

theorem read_returns_document_witness:
  "\<exists>r. client_connection idle_ss sample_env (sample_msg\<lparr>m_operation := OP_READ\<rparr>) [] =
      Some (idle_ss, [r, stop_msg sample_env]) \<and> m_content r = ''One. Two.''"
proof -
  have "file_bytes (ss_dir idle_ss) (ss_fs idle_ss) (m_filename (sample_msg\<lparr>m_operation := OP_READ\<rparr>)) = Some ''One. Two.''"
    "m_operation (sample_msg\<lparr>m_operation := OP_READ\<rparr>) = OP_READ"
    by (simp_all add: idle_ss_def sample_ss_def sample_msg_def sample_file)
  from read_returns_document [OF this] show ?thesis by (auto simp: doc_of_sample)
qed

lemma stream_loop_eq:
  "stream_loop env i ws =
     map (\<lambda>k. word_msg env (i + k) (ws ! k)) [0..<min (length ws) (e_sent env - i)] @
     (if i + length ws \<le> e_sent env \<or> ws = [] then [stop_msg env] else [])"
proof (induction env i ws rule: stream_loop.induct)
  case (2 env i w ws)
  show ?case
  proof (cases "i < e_sent env")
    case True
    then have m: "min (length (w # ws)) (e_sent env - i) = Suc (min (length ws) (e_sent env - Suc i))" by auto
    have "map (\<lambda>k. word_msg env (i + k) ((w # ws) ! k)) [0..<Suc n] =
        word_msg env i w # map (\<lambda>k. word_msg env (Suc i + k) (ws ! k)) [0..<n]" for n
      by (simp add: map_upt_Suc del: upt_Suc)
    with True 2 m show ?thesis by auto
  qed simp
qed simp

text \<open>
  A stream delivers the words: for a regular file whose words fit the word buffer the
  client gets an acknowledgement, then the words of the document one by one in order, each
  with its position, and \<open>STOP\<close> exactly when every word was taken; if the client stops taking
  messages after \<open>k\<close> words it got the first \<open>k\<close> and no \<open>STOP\<close>.
\<close>

theorem stream_delivers_words:
  assumes "file_bytes (ss_dir st) (ss_fs st) (m_filename m) = Some bs"
    and "words_fit (words_of (doc_of bs))"
  shows "handle_stream_request env st m =
    (let ws = words_of (doc_of bs)
     in Some (st, ack env ERR_SUCCESS ''Starting stream'' #
          map (\<lambda>k. word_msg env k (ws ! k)) [0..<min (length ws) (e_sent env)] @
          (if length ws \<le> e_sent env then [stop_msg env] else [])))"
proof -
  have "file_exists (ss_dir st) (ss_fs st) (m_filename m)"
    using assms(1) by (simp add: file_exists_def stat_ok_def file_bytes_Some)
  moreover have "cstr_of (take 4095 bs) = doc_of bs" by (simp add: doc_of_def)
  ultimately show ?thesis
    using read_file_bytes [OF assms(1), of MAX_CONTENT_LEN] assms(2)
    by (simp add: handle_stream_request_def Let_def parse_words_eq stream_loop_eq)
qed

theorem stream_delivers_words_witness:
  "\<exists>out. handle_stream_request (sample_env\<lparr>e_sent := 2\<rparr>) idle_ss sample_msg = Some (idle_ss, out) \<and>
    map m_content out = [''Starting stream'', ''One.'', ''Two.'', []]"
proof -
  have w: "words_of ''One. Two.'' = [''One.'', ''Two.'']" by (simp add: words_of_def runs.simps isspace_def)
  have "file_bytes (ss_dir idle_ss) (ss_fs idle_ss) (m_filename sample_msg) = Some ''One. Two.''"
    "words_fit (words_of (doc_of ''One. Two.''))"
    by (simp_all add: idle_ss_def sample_ss_def sample_msg_def sample_file doc_of_sample w)
  from stream_delivers_words [OF this, of "sample_env\<lparr>e_sent := 2\<rparr>"] show ?thesis
    by (simp add: Let_def doc_of_sample w upt_conv_Cons ack_def reply_def word_msg_def stop_msg_def cbuf_id)
qed

end
