(* ===== verification/System.thy ===== *)
theory System
  imports NS_Properties Server_Invariant Write_Path
begin

text \<open>
  The two kinds of server together: the world of the name server is a network of storage
  servers (the state of \<^verbatim>\<open>storage_server.c\<close>, with the addresses it registered), and a contact
  is a request handled by the thread that serves the port it goes to. The network itself
  loses nothing here: losses are the other outcomes of a contact in the theories before.
\<close>

section \<open>The network of storage servers\<close>

record Node =
  nd_ip :: cstring
  nd_nm_port :: int
  nd_client_port :: int
  nd_env :: Env
  nd_ss :: SS

definition zero_message :: Message where
  "zero_message = (INIT_MESSAGE 0)\<lparr>m_error_code := 0\<rparr>"

lemma zero_message_wf [simp]: "msg_wf zero_message"
  by (simp add: zero_message_def msg_wf_def INIT_MESSAGE_def)

text \<open>
  A request handled by a node: its first answer; a node that sends none closes the connection
  (\<open>receive_message\<close> leaves zeros), one that goes wrong is gone.
\<close>

definition handle_at :: "(Env \<Rightarrow> SS \<Rightarrow> Message \<Rightarrow> ss_result) \<Rightarrow> Message \<Rightarrow> Node \<Rightarrow> Contact \<times> Node list" where
  "handle_at serve msg n =
     (case serve (nd_env n) (nd_ss n) msg of
        None \<Rightarrow> (NoReply zero_message, [])
      | Some (st, []) \<Rightarrow> (NoReply zero_message, [n\<lparr>nd_ss := st\<rparr>])
      | Some (st, r # out) \<Rightarrow> (Replied r, [n\<lparr>nd_ss := st\<rparr>]))"

fun net_contact :: "Node list \<Rightarrow> cstring \<Rightarrow> int \<Rightarrow> Message \<Rightarrow> Contact \<times> Node list" where
  "net_contact [] ip port msg = (NoConnection, [])"
| "net_contact (n # net) ip port msg =
     (if nd_ip n = ip \<and> nd_nm_port n = port then map_prod id (\<lambda>ns. ns @ net) (handle_at ns_request msg n)
      else if nd_ip n = ip \<and> nd_client_port n = port then
        map_prod id (\<lambda>ns. ns @ net) (handle_at (\<lambda>env st msg. client_connection st env msg []) msg n)
      else map_prod id ((#) n) (net_contact net ip port msg))"

definition system_env :: "Node list NsEnv \<Rightarrow> Node list NsEnv" where
  "system_env env = env\<lparr>ne_contact := net_contact\<rparr>"

lemma system_env_sel [simp]:
  "ne_contact (system_env env) = net_contact" "ne_mem_hash (system_env env) = ne_mem_hash env"
  "ne_mem_acl (system_env env) = ne_mem_acl env" "ne_time_short (system_env env) = ne_time_short env"
  "ne_time_long (system_env env) = ne_time_long env"
  by (simp_all add: system_env_def)

section \<open>Messages\<close>

lemma ns_request_sends_wf: "ns_request env st m = Some (st', out) \<Longrightarrow> list_all msg_wf out"
  by (auto simp: ns_request_def request_defs Let_def split: prod.splits if_splits option.splits)

lemma write_session_sends_wf: "handle_write_session env st m = Some (st', out) \<Longrightarrow> list_all msg_wf out"
  by (auto simp: handle_write_session_def handle_write_start_def handle_write_update_def handle_write_commit_def Let_def
      split: prod.splits if_splits option.splits)

lemma client_sends_wf: "client_connection st env m [] = Some (st', out) \<Longrightarrow> list_all msg_wf out"
  using write_session_sends_wf stream_wf
  by (fastforce simp: client_connection_def request_defs handle_undo_request_def Let_def
      split: prod.splits if_splits option.splits)

lemma net_contact_wf: "reply_ok (fst (net_contact net ip port msg))"
proof (induction net)
  case (Cons n net)
  have "reply_ok (fst (handle_at serve msg n))" if "\<And>st' out. serve (nd_env n) (nd_ss n) msg = Some (st', out) \<Longrightarrow> list_all msg_wf out" for serve
    using that by (auto simp: handle_at_def INIT_wf split: option.split list.split)
  with Cons ns_request_sends_wf client_sends_wf show ?case by auto
qed simp

lemma system_env_ok: "env_ok (system_env env)"
  using net_contact_wf by (simp add: env_ok_def reply_ok_def)

section \<open>A storage server in the network\<close>

text \<open>The node that serves the address of a registered storage server.\<close>

definition serves :: "Node \<Rightarrow> ExtendedSSInfo \<Rightarrow> bool" where
  "serves n s \<longleftrightarrow> nd_ip n = es_ip s \<and> nd_nm_port n = es_nm_port s \<and> nd_client_port n = es_client_port s \<and>
     es_nm_port s \<noteq> es_client_port s"

definition node_file :: "Node \<Rightarrow> cstring \<Rightarrow> char list option" where
  "node_file n f = file_bytes (ss_dir (nd_ss n)) (ss_fs (nd_ss n)) f"

definition node_ok :: "Node \<Rightarrow> bool" where
  "node_ok n \<longleftrightarrow> storage_ok (ss_dir (nd_ss n)) (ss_fs (nd_ss n))"

lemma node_creates:
  assumes "node_ok n" and "name_ok (m_filename msg)" and "m_operation msg = OP_CREATE"
    and "\<not> file_exists (ss_dir (nd_ss n)) (ss_fs (nd_ss n)) (m_filename msg)"
  obtains r n' where "handle_at ns_request msg n = (Replied r, [n'])" "m_error_code r = ERR_CREATED" "node_ok n'"
    "nd_ip n' = nd_ip n" "nd_nm_port n' = nd_nm_port n" "nd_client_port n' = nd_client_port n"
    "\<forall>g. name_ok g \<longrightarrow> node_file n' g = (if g = m_filename msg then Some [] else node_file n g)" "nd_env n' = nd_env n"
proof -
  let ?dir = "ss_dir (nd_ss n)" and ?fs = "ss_fs (nd_ss n)" and ?f = "m_filename msg"
  let ?fs' = "set_node ?fs (get_file_path ?dir ?f) (Some (FReg []))"
  have make: "create_file ?dir ?fs ?f = (ERR_CREATED, ?fs')"
    using create_file_eq [of ?dir ?fs ?f] assms(1,2,4) by (simp add: node_ok_def)
  let ?ss = "(nd_ss n)\<lparr>ss_fs := ?fs', ss_index := snd (index_file (e_mem_index (nd_env n) ?f) (ss_index (nd_ss n)) ?f [])\<rparr>"
  have run: "ns_request (nd_env n) (nd_ss n) msg = Some (?ss, [ack (nd_env n) ERR_CREATED ''Operation successful''])"
    using assms(3) make by (simp add: ns_request_def Let_def)
  have "\<forall>g. name_ok g \<longrightarrow> file_bytes ?dir ?fs' g = (if g = ?f then Some [] else file_bytes ?dir ?fs g)" "storage_ok ?dir ?fs'"
    using file_bytes_set_node [of ?dir ?fs ?f _ "Some (FReg [])"] storage_ok_set_node [of ?dir ?fs ?f] assms(1,2)
    by (auto simp: node_ok_def)
  then show ?thesis using run
    by (intro that [of "ack (nd_env n) ERR_CREATED ''Operation successful''" "n\<lparr>nd_ss := ?ss\<rparr>"])
      (simp_all add: handle_at_def node_ok_def node_file_def ack_def reply_def)
qed

lemma node_deletes:
  assumes "node_ok n" and "name_ok (m_filename msg)" and "m_operation msg = OP_DELETE" and "node_file n (m_filename msg) = Some bs"
  obtains r n' where "handle_at ns_request msg n = (Replied r, [n'])" "m_error_code r = ERR_SUCCESS" "node_ok n'"
    "\<forall>g. name_ok g \<longrightarrow> node_file n' g = (if g = m_filename msg then None else node_file n g)"
proof -
  let ?dir = "ss_dir (nd_ss n)" and ?fs = "ss_fs (nd_ss n)" and ?f = "m_filename msg"
  let ?fs' = "set_node ?fs (get_file_path ?dir ?f) None"
  have "fs_lookup ?fs (get_file_path ?dir ?f) = Some (FReg bs)" using assms(4) by (simp add: node_file_def file_bytes_Some)
  then have del: "delete_file ?dir ?fs ?f = (ERR_SUCCESS, ?fs')" by (simp add: delete_file_eq)
  let ?ss = "(nd_ss n)\<lparr>ss_fs := ?fs', ss_index := snd (index_remove_file (ss_index (nd_ss n)) ?f)\<rparr>"
  have run: "ns_request (nd_env n) (nd_ss n) msg = Some (?ss, [ack (nd_env n) ERR_SUCCESS ''Operation successful''])"
    using assms(3) del by (simp add: ns_request_def Let_def)
  have "\<forall>g. name_ok g \<longrightarrow> file_bytes ?dir ?fs' g = (if g = ?f then None else file_bytes ?dir ?fs g)" "storage_ok ?dir ?fs'"
    using file_bytes_set_node [of ?dir ?fs ?f _ None] storage_ok_set_node [of ?dir ?fs ?f] assms(1,2)
    by (auto simp: node_ok_def)
  then show ?thesis using run
    by (intro that [of "ack (nd_env n) ERR_SUCCESS ''Operation successful''" "n\<lparr>nd_ss := ?ss\<rparr>"])
      (simp_all add: handle_at_def node_ok_def node_file_def ack_def reply_def)
qed

lemma node_reads:
  assumes "node_file n (m_filename rd) = Some bs" and "m_operation rd = OP_READ"
  obtains a where "handle_at (\<lambda>env st msg. client_connection st env msg []) rd n = (Replied a, [n])"
    "m_error_code a = ERR_SUCCESS" "m_content a = doc_of bs"
proof -
  have "cbuf MAX_CONTENT_LEN (doc_of bs) = doc_of bs" using length_doc_of by (rule cbuf_id)
  moreover have "cstr_of (take 4095 bs) = doc_of bs" by (simp add: doc_of_def)
  ultimately show ?thesis
    using that read_file_bytes [OF assms(1) [unfolded node_file_def], of MAX_CONTENT_LEN] assms(2)
    by (simp add: handle_at_def client_connection_def handle_read_from_client_def ack_def reply_def)
qed

section \<open>The name server and its storage servers together\<close>

text \<open>The network with the node of a registered server singled out; no node before it has one of its ports.\<close>

definition at_node :: "Node list \<Rightarrow> ExtendedSSInfo \<Rightarrow> Node list \<Rightarrow> Node \<Rightarrow> Node list \<Rightarrow> bool" where
  "at_node net s pre n post \<longleftrightarrow> net = pre @ n # post \<and> serves n s \<and>
     (\<forall>k\<in>set pre. nd_ip k = es_ip s \<longrightarrow> {nd_nm_port k, nd_client_port k} \<inter> {es_nm_port s, es_client_port s} = {})"

lemma net_contact_skip:
  assumes "\<forall>k\<in>set pre. \<not> (nd_ip k = ip \<and> (nd_nm_port k = port \<or> nd_client_port k = port))"
  shows "net_contact (pre @ net) ip port msg = map_prod id ((@) pre) (net_contact net ip port msg)"
proof (cases "net_contact net ip port msg")
  case (Pair r net')
  with assms show ?thesis by (induction pre) auto
qed

lemma contact_at:
  assumes "at_node net s pre n post"
  shows "net_contact net (es_ip s) (es_nm_port s) msg = map_prod id (\<lambda>ns. pre @ ns @ post) (handle_at ns_request msg n)"
    and "net_contact net (es_ip s) (es_client_port s) msg =
      map_prod id (\<lambda>ns. pre @ ns @ post) (handle_at (\<lambda>env st msg. client_connection st env msg []) msg n)"
proof -
  have skip: "net_contact net (es_ip s) port msg = map_prod id ((@) pre) (net_contact (n # post) (es_ip s) port msg)"
    if "port = es_nm_port s \<or> port = es_client_port s" for port
  proof -
    have "net = pre @ n # post" using assms by (simp add: at_node_def)
    then show ?thesis using that assms by (simp only:) (intro net_contact_skip, auto simp: at_node_def)
  qed
  show "net_contact net (es_ip s) (es_nm_port s) msg = map_prod id (\<lambda>ns. pre @ ns @ post) (handle_at ns_request msg n)"
    "net_contact net (es_ip s) (es_client_port s) msg =
      map_prod id (\<lambda>ns. pre @ ns @ post) (handle_at (\<lambda>env st msg. client_connection st env msg []) msg n)"
    unfolding skip [OF disjI1 [OF refl]] skip [OF disjI2 [OF refl]]
    using assms by (simp_all add: at_node_def serves_def prod.map_comp comp_def id_def)
qed

text \<open>A CREATE in a system with one registered, live storage server.\<close>

definition create_ready :: "Node list NsEnv \<Rightarrow> Node list NS \<Rightarrow> Message \<Rightarrow> ExtendedSSInfo \<Rightarrow> Node \<Rightarrow> bool" where
  "create_ready env ns msg s n \<longleftrightarrow>
     msg_wf msg \<and> fresh_create ns msg \<and> room_everywhere (system_env env) ns (m_filename msg) \<and>
     ns_servers ns = [s] \<and> es_is_alive s \<and> node_ok n \<and> name_ok (m_filename msg) \<and>
     \<not> file_exists (ss_dir (nd_ss n)) (ss_fs (nd_ss n)) (m_filename msg)"

lemma create_end_run:
  assumes inv: "ns_inv ns" and ready: "create_ready env ns msg s n" and at: "at_node (ns_world ns) s pre n post"
  obtains r ns' n' where "dispatch (system_env env) ns msg = Some ([r], ns')" "m_error_code r = ERR_CREATED" "ns_inv ns'"
    "ns_world ns' = pre @ n' # post" "node_ok n'"
    "\<forall>g. name_ok g \<longrightarrow> node_file n' g = (if g = m_filename msg then Some [] else node_file n g)"
    "at_node (ns_world ns') (server ns' 0) pre n' post" "lookup_result ns' (m_filename msg) = 0"
    "acl_rights (ns_acl ns') (m_filename msg) = Some (m_sender_id msg, [], [])" "nd_env n' = nd_env n"
    "nd_ip n' = nd_ip n \<and> nd_nm_port n' = nd_nm_port n \<and> nd_client_port n' = nd_client_port n"
proof -
  let ?f = "m_filename msg" and ?env = "system_env env"
  note r = ready [unfolded create_ready_def]
  have wf: "msg_wf msg" and fresh: "fresh_create ns msg" and room: "room_everywhere ?env ns ?f" and one: "ns_servers ns = [s]"
    using r by simp_all
  have op: "m_operation msg = OP_CREATE" using fresh by (simp add: fresh_create_def)
  have count: "ss_count ns = 1" by (simp add: ss_count_def one)
  have alive: "ss_alive ns 0" using r by (simp add: ss_alive_def ss_count_def)
  have av: "find_available_ss ns = (0, ns\<lparr>ns_last_used := 0\<rparr>)"
  proof -
    have "\<forall>i. 0 \<le> i \<and> i < ss_count ns \<longrightarrow> ss_alive ns i"
    proof (intro allI impI)
      fix i assume "0 \<le> i \<and> i < ss_count ns"
      then have "i = 0" by (simp add: count)
      with alive show "ss_alive ns i" by simp
    qed
    then show ?thesis using available_all_alive [of ns] by (simp add: count)
  qed
  have node: "node_ok n" "name_ok ?f" "\<not> file_exists (ss_dir (nd_ss n)) (ss_fs (nd_ss n)) ?f" using r by simp_all
  obtain q n' where make: "handle_at ns_request msg n = (Replied q, [n'])" and created: "m_error_code q = ERR_CREATED"
    and node': "node_ok n'" "nd_ip n' = nd_ip n" "nd_nm_port n' = nd_nm_port n" "nd_client_port n' = nd_client_port n"
    and files: "\<forall>g. name_ok g \<longrightarrow> node_file n' g = (if g = ?f then Some [] else node_file n g)" and same: "nd_env n' = nd_env n"
    by (rule node_creates [OF node(1,2) op node(3)])
  have con: "ne_contact ?env (ns_world ns) (es_ip (server ns 0)) (es_nm_port (server ns 0)) msg = (Replied q, pre @ n' # post)"
    using contact_at(1) [OF at] make by (simp add: one)
  obtain ns' where run: "dispatch ?env ns msg = map_option (\<lambda>n. ([q], n)) (replicate_file ?env 0 msg ns')" and inv': "ns_inv ns'"
    and servers: "ns_servers ns' = (ns_servers ns)[nat 0 := (server ns 0)\<lparr>es_files := es_files (server ns 0) @ [cbuf MAX_FILENAME_LEN ?f]\<rparr>]"
    and world: "ns_world ns' = pre @ n' # post" and loc: "locations ns' = (locations ns)(?f \<mapsto> 0)" "cached ns' ?f = None"
    and rights: "acl_rights (ns_acl ns') = (acl_rights (ns_acl ns))(?f \<mapsto> (m_sender_id msg, [], []))"
    by (rule create_registers [OF inv wf fresh av alive con created room])
  have "ss_count ns' = 1" by (simp add: ss_count_def servers one)
  then have ran: "dispatch ?env ns msg = Some ([q], ns')" using run by (simp add: replicate_file_def)
  have "ss_alive ns' 0" using r by (simp add: ss_alive_def ss_count_def servers)
  then have "lookup_result ns' ?f = 0" using loc by (simp add: lookup_result_def backing_def)
  moreover have "at_node (ns_world ns') (server ns' 0) pre n' post"
    using at node' by (simp add: at_node_def serves_def world servers one)
  ultimately show ?thesis using that [OF ran created inv' world node'(1) files] rights same node' by simp
qed

text \<open>
  C15. CREATE end to end: with one registered, live storage server a CREATE of a new name makes
  an empty file on that server's disk and no other change to its files; a READ by the creator
  is then routed to the server's client port, and a READ sent there delivers the empty document.
\<close>

theorem create_end_to_end:
  assumes "ns_reachable ns" and "create_ready env ns msg s n" and "at_node (ns_world ns) s pre n post"
  shows "\<exists>r ns' n'. dispatch (system_env env) ns msg = Some ([r], ns') \<and> m_error_code r = ERR_CREATED \<and>
    ns_world ns' = pre @ n' # post \<and>
    (\<forall>g. name_ok g \<longrightarrow> node_file n' g = (if g = m_filename msg then Some [] else node_file n g)) \<and>
    (\<forall>rd. msg_wf rd \<and> m_operation rd = OP_READ \<and> m_filename rd = m_filename msg \<and> m_sender_id rd = m_sender_id msg \<longrightarrow>
      (\<exists>m c a. dispatch (system_env env) ns' rd = Some ([m], ns'\<lparr>ns_lru := c\<rparr>) \<and> m_operation m = OP_ROUTE_INFO \<and>
        m_ss_ip m = cbuf MAX_IP_LEN (nd_ip n') \<and> m_ss_port m = nd_client_port n' \<and>
        net_contact (ns_world ns') (nd_ip n') (nd_client_port n') rd = (Replied a, ns_world ns') \<and>
        m_error_code a = ERR_SUCCESS \<and> m_content a = []))"
proof -
  let ?f = "m_filename msg" and ?env = "system_env env"
  obtain r ns' n' where run: "dispatch ?env ns msg = Some ([r], ns')" "m_error_code r = ERR_CREATED"
    and inv': "ns_inv ns'" and world: "ns_world ns' = pre @ n' # post"
    and files: "\<forall>g. name_ok g \<longrightarrow> node_file n' g = (if g = ?f then Some [] else node_file n g)"
    and at': "at_node (ns_world ns') (server ns' 0) pre n' post" and look: "lookup_result ns' ?f = 0"
    and rights: "acl_rights (ns_acl ns') ?f = Some (m_sender_id msg, [], [])"
    by (rule create_end_run [OF reachable_inv [OF assms(1)] assms(2,3)])
  have addr: "es_ip (server ns' 0) = nd_ip n'" "es_client_port (server ns' 0) = nd_client_port n'"
    using at' by (simp_all add: at_node_def serves_def)
  have read: "\<exists>m c a. dispatch ?env ns' rd = Some ([m], ns'\<lparr>ns_lru := c\<rparr>) \<and> m_operation m = OP_ROUTE_INFO \<and>
      m_ss_ip m = cbuf MAX_IP_LEN (nd_ip n') \<and> m_ss_port m = nd_client_port n' \<and>
      net_contact (ns_world ns') (nd_ip n') (nd_client_port n') rd = (Replied a, ns_world ns') \<and>
      m_error_code a = ERR_SUCCESS \<and> m_content a = []"
    if rd: "msg_wf rd" "m_operation rd = OP_READ" "m_filename rd = ?f" "m_sender_id rd = m_sender_id msg" for rd
  proof -
    have perm: "permitted ns' rd"
      using rd by (simp add: permitted_def needs_write_def acl_check_rights rights can_read_def)
    obtain m c where route: "dispatch ?env ns' rd = Some ([m], ns'\<lparr>ns_lru := c\<rparr>)" "m_operation m = OP_ROUTE_INFO"
      "m_ss_ip m = cbuf MAX_IP_LEN (nd_ip n')" "m_ss_port m = nd_client_port n'"
      by (rule route_run [OF inv' rd(1), of ?env]) (use rd perm look addr in auto)
    have "name_ok ?f" using assms(2) by (simp add: create_ready_def)
    then have "node_file n' (m_filename rd) = Some []" using files rd(3) by simp
    then obtain a where "handle_at (\<lambda>env st msg. client_connection st env msg []) rd n' = (Replied a, [n'])"
      "m_error_code a = ERR_SUCCESS" "m_content a = doc_of []"
      by (rule node_reads [OF _ rd(2)])
    moreover from this have "net_contact (ns_world ns') (nd_ip n') (nd_client_port n') rd = (Replied a, ns_world ns')"
      using contact_at(2) [OF at', of rd] addr world by simp
    ultimately show ?thesis using route by (auto simp: doc_of_small)
  qed
  show ?thesis
    by (rule exI [of _ r], rule exI [of _ ns'], rule exI [of _ n'], intro conjI run world files allI impI)
      (elim conjE, rule read)
qed

text \<open>
  C16. DELETE end to end: when a user who may write the file deletes it, it disappears from the
  disk of the storage server that the name server located, every other file there stays, and
  the name server locates it no more.
\<close>

theorem delete_end_to_end:
  assumes "ns_reachable ns" and "msg_wf msg" and "m_operation msg = OP_DELETE"
    and "acl_check_write (ns_acl ns) (m_filename msg) (m_sender_id msg)" and "lookup_result ns (m_filename msg) = i" and "0 \<le> i"
    and "at_node (ns_world ns) (server ns i) pre n post" and "node_ok n" and "name_ok (m_filename msg)"
    and "node_file n (m_filename msg) = Some bs"
  shows "\<exists>r ns' n'. dispatch (system_env env) ns msg = Some ([r], ns') \<and> m_error_code r = ERR_SUCCESS \<and>
    ns_world ns' = pre @ n' # post \<and>
    (\<forall>g. name_ok g \<longrightarrow> node_file n' g = (if g = m_filename msg then None else node_file n g)) \<and>
    lookup_result ns' (m_filename msg) = - 1"
proof -
  let ?f = "m_filename msg" and ?env = "system_env env"
  note inv = reachable_inv [OF assms(1)]
  obtain c where find: "find_ss_for_file ?env ?f ns = Some (i, ns\<lparr>ns_lru := c\<rparr>)" and invc: "ns_inv (ns\<lparr>ns_lru := c\<rparr>)"
    using find_ss_run [OF inv msg_wfD(1) [OF assms(2)], of ?env] by (metis assms(5))
  obtain r n' where del: "handle_at ns_request msg n = (Replied r, [n'])" and ok: "m_error_code r = ERR_SUCCESS"
    and files: "\<forall>g. name_ok g \<longrightarrow> node_file n' g = (if g = ?f then None else node_file n g)"
    by (rule node_deletes [OF assms(8,9,3,10)])
  let ?ns1 = "ns\<lparr>ns_lru := c, ns_world := pre @ n' # post\<rparr>"
  have con: "contact_nm ?env i msg (ns\<lparr>ns_lru := c\<rparr>) = (Replied r, ?ns1)"
    using contact_at(1) [OF assms(7)] del by (simp add: contact_nm_def)
  have inv1: "ns_inv ?ns1" using invc by simp
  obtain fm c' where rem: "hashmap_remove ?f ?ns1 = Some (?ns1\<lparr>ns_lru := c', ns_file_map := fm\<rparr>)"
    and views: "map_view fm = (locations ?ns1)(?f := None)" "cache_map c' = (cached ?ns1)(?f := None)"
    by (rule hashmap_remove_inv [OF inv1])
  obtain code t where t: "acl_remove_file (ns_acl ns) ?f = (code, t)" by (cases "acl_remove_file (ns_acl ns) ?f")
  define ns2 where "ns2 = ?ns1\<lparr>ns_lru := c', ns_file_map := fm, ns_acl := t\<rparr>"
  define ns' where "ns' = upd_server i (\<lambda>s. s\<lparr>es_files := remove1 ?f (es_files s)\<rparr>) (if code = 0 then persist_acl ns2 else ns2)"
  have "dispatch ?env ns msg = Some ([r], ns')"
    using assms(3,4,6) find con ok rem t by (simp add: dispatch_def handle_delete_request_def ns'_def ns2_def Let_def)
  moreover have "ns_world ns' = pre @ n' # post" by (simp add: ns'_def ns2_def persist_acl_def)
  moreover have "locations ns' ?f = None" "cached ns' ?f = None"
    using views by (simp_all add: ns'_def ns2_def persist_acl_def)
  then have "lookup_result ns' ?f = - 1" by (simp add: lookup_result_def backing_def)
  ultimately show ?thesis using ok files by blast
qed

section \<open>A sample system\<close>

definition sample_node :: Node where
  "sample_node = \<lparr>nd_ip = ''10.0.0.1'', nd_nm_port = 8081, nd_client_port = 8082, nd_env = Write_Path.sample_env,
     nd_ss = idle_ss\<rparr>"

definition sample_system :: "Node list NS" where
  "sample_system = (fresh_start [sample_node])\<lparr>ns_servers := [sample_server 8081]\<rparr>"

definition sample_command :: "int \<Rightarrow> Message" where
  "sample_command op = (INIT_MESSAGE 0)\<lparr>m_operation := op, m_filename := ''b'', m_sender_id := ''ann''\<rparr>"

lemma sample_command_ok: "msg_wf (sample_command op)" "files_ok (sample_command op)"
  by (simp_all add: sample_command_def msg_wf_def INIT_MESSAGE_def files_ok_def listed_files_def cbuf_def)

lemma sample_system_reachable: "ns_reachable sample_system"
  using sample_server_reachable [OF fresh_start_reachable, of "[sample_node]" "[]" 8081] by (simp add: sample_system_def)

lemma sample_system_at: "at_node (ns_world sample_system) (sample_server 8081) [] sample_node []"
  by (simp add: at_node_def serves_def sample_system_def sample_node_def sample_server_def)

lemma sample_system_ready: "create_ready NS_Registry.sample_env sample_system (sample_command OP_CREATE) (sample_server 8081) sample_node"
proof -
  have "fresh_create sample_system (sample_command OP_CREATE)"
    by (simp add: fresh_create_def sample_system_def acl_rights_init) (simp add: sample_command_def contains_invalid_chars_def)
  moreover have "room_everywhere (system_env NS_Registry.sample_env) sample_system f" for f
    by (auto simp: room_everywhere_def ss_alive_def ss_count_def sample_system_def sample_server_def NS_Registry.sample_env_def)
  moreover have "node_ok sample_node"
    using storage_ok_sample by (simp add: node_ok_def sample_node_def idle_ss_def sample_ss_def)
  moreover have "\<not> file_exists (ss_dir (nd_ss sample_node)) (ss_fs (nd_ss sample_node)) ''b''"
    by (simp add: sample_node_def idle_ss_def sample_ss_def file_exists_def stat_ok_def sample_lookup)
  moreover have "name_ok ''b''" "m_filename (sample_command OP_CREATE) = ''b''" by (simp_all add: sample_command_def)
  ultimately show ?thesis
    by (simp add: create_ready_def sample_command_ok) (simp add: sample_system_def sample_server_def)
qed

theorem create_end_to_end_witness:
  "\<exists>r ns' n'. dispatch (system_env NS_Registry.sample_env) sample_system (sample_command OP_CREATE) = Some ([r], ns') \<and>
     m_error_code r = ERR_CREATED \<and> ns_world ns' = [n'] \<and> node_file n' ''b'' = Some []"
proof -
  have "name_ok ''b''" "m_filename (sample_command OP_CREATE) = ''b''" by (simp_all add: sample_command_def)
  with create_end_to_end [OF sample_system_reachable sample_system_ready sample_system_at] show ?thesis by fastforce
qed

theorem delete_end_to_end_witness:
  "\<exists>ns r ns' n'. dispatch (system_env NS_Registry.sample_env) ns (sample_command OP_DELETE) = Some ([r], ns') \<and>
     m_error_code r = ERR_SUCCESS \<and> ns_world ns' = [n'] \<and> node_file n' ''b'' = None"
proof -
  have b: "name_ok ''b''" "m_filename (sample_command op) = ''b''" "m_sender_id (sample_command op) = ''ann''"
      "m_operation (sample_command op) = op" for op by (simp_all add: sample_command_def)
  let ?env = "NS_Registry.sample_env :: Node list NsEnv"
  obtain r ns n where run: "dispatch (system_env ?env) sample_system (sample_command OP_CREATE) = Some ([r], ns)"
    and world: "ns_world ns = [] @ n # []" and ok: "node_ok n" and files: "\<forall>g. name_ok g \<longrightarrow>
        node_file n g = (if g = m_filename (sample_command OP_CREATE) then Some [] else node_file sample_node g)"
    and at: "at_node (ns_world ns) (server ns 0) [] n []" and look: "lookup_result ns (m_filename (sample_command OP_CREATE)) = 0"
    and rights: "acl_rights (ns_acl ns) (m_filename (sample_command OP_CREATE)) = Some (m_sender_id (sample_command OP_CREATE), [], [])"
    by (rule create_end_run [OF reachable_inv [OF sample_system_reachable] sample_system_ready sample_system_at])
  have env: "env_ok (system_env ?env)" using net_contact_wf by (simp add: env_ok_def reply_ok_def)
  have reach: "ns_reachable ns"
    by (rule ns_reachable.handle [OF sample_system_reachable env, of "Received (sample_command OP_CREATE)" "[]" 0 "[r]"])
      (simp_all add: sample_command_ok handle_connection_def run)
  have "acl_check_write (ns_acl ns) (m_filename (sample_command OP_DELETE)) (m_sender_id (sample_command OP_DELETE))"
    using rights by (simp add: acl_check_rights b can_write_def)
  moreover have "lookup_result ns (m_filename (sample_command OP_DELETE)) = 0" using look by (simp add: b)
  moreover have "node_file n (m_filename (sample_command OP_DELETE)) = Some []" using files b by simp
  ultimately show ?thesis
    using delete_end_to_end [OF reach sample_command_ok(1) b(4) _ _ _ at ok, of "[]" ?env] b by fastforce
qed

end
