(* ===== verification/Metadata.thy ===== *)
theory Metadata
  imports System
begin

text \<open>
  The metadata of a file on its way from the storage server's disk (\<^verbatim>\<open>get_file_metadata\<close>, printed
  with \<open>snprintf\<close>) to the answers of INFO and VIEW (\<^verbatim>\<open>nameserver.c\<close>, read back with \<open>sscanf\<close>): what
  the one prints the other can scan, so the two servers together answer INFO and VIEW.
\<close>

section \<open>Reading printed integers\<close>

lemma show_nat_Cons: obtains c s where "show_nat n = c # s" "isdigit c"
  using show_nat_nonempty [of n] show_nat_isdigit [of _ n] by (cases "show_nat n") auto

lemma isdigit_cases: "isdigit c \<Longrightarrow> \<not> isspace c \<and> c \<noteq> CHR ''-'' \<and> c \<noteq> CHR ''+''"
  by (auto simp: isdigit_def isspace_def code_of_def)

lemma scan_show_int:
  assumes "rest = [] \<or> \<not> isdigit (hd rest)"
  shows "scan_int (show_int i @ rest) = Some (i, rest)"
proof (cases "i < 0")
  case True
  then have "show_int i = CHR ''-'' # show_nat (nat (- i))" by (simp add: show_int_def)
  moreover have "\<not> isspace CHR ''-''" by (simp add: isspace_def)
  ultimately show ?thesis using True scan_digits [OF assms] by (simp add: scan_int_def Let_def digits_value_show)
next
  case False
  obtain c s where c: "show_nat (nat i) = c # s" "isdigit c" by (rule show_nat_Cons)
  have "show_int i = show_nat (nat i)" using False by (simp add: show_int_def)
  then show ?thesis using False scan_digits [OF assms, of "nat i"] isdigit_cases [OF c(2)] digits_value_show [of "nat i"] c(1)
    by (simp add: scan_int_def Let_def)
qed

fun print_ints :: "int list \<Rightarrow> cstring" where
  "print_ints [] = []"
| "print_ints [i] = show_int i"
| "print_ints (i # is) = show_int i @ BAR # print_ints is"

text \<open>Scanning gives back what was printed, up to the number of conversions, if each number fits its type.\<close>

lemma scan_print_ints:
  "list_all2 conv_fits cs (take (length cs) is) \<Longrightarrow> scan_ints cs (print_ints is) = Some (take (length cs) is)"
proof (induction "is" arbitrary: cs rule: print_ints.induct)
  case 1
  then show ?case by (cases cs) simp_all
next
  case (2 i)
  then show ?case using scan_show_int [of "[]" i] by (cases cs) simp_all
next
  case (3 i j "is")
  have "\<not> isdigit BAR" by (simp add: isdigit_def code_of_def)
  with 3 show ?case using scan_show_int [of "BAR # print_ints (j # is)" i] by (cases cs) simp_all
qed

lemma show_nat_int: "show_nat n = show_int (int n)"
  by (simp add: show_int_def)

lemma length_show_int: "\<bar>i\<bar> < 10 ^ Suc k \<Longrightarrow> length (show_int i) \<le> Suc (Suc k)"
  using length_show_nat [of "nat i" k] length_show_nat [of "nat (- i)" k]
  by (auto simp: show_int_def nat_less_iff of_nat_power split: if_splits)

section \<open>The row of a file in VIEW\<close>

definition word_count :: "char list \<Rightarrow> nat" where
  "word_count bs = length (runs (\<lambda>c. \<not> is_blank_char c) bs)"

text \<open>The C types hold the counts of the file and the three times.\<close>

definition counts_fit :: "Node \<Rightarrow> char list \<Rightarrow> bool" where
  "counts_fit n bs \<longleftrightarrow> length bs \<le> INT_MAX \<and>
     (case e_times (nd_env n) of (c, m, a) \<Rightarrow> list_all (conv_fits ConvLD) [c, m, a])"

lemma length_runs: "length (runs P s) \<le> length s"
proof (induction P s rule: runs.induct)
  case (1 P s)
  let ?s = "dropWhile (\<lambda>c. \<not> P c) s"
  show ?case
  proof (cases ?s)
    case Nil
    then show ?thesis by (simp add: runs_none)
  next
    case (Cons c r)
    then have "P c" by (metis hd_dropWhile list.sel(1) list.distinct(1))
    then have "length (dropWhile P ?s) \<le> length r" using Cons by (simp add: length_dropWhile_le)
    moreover have "length (runs P (dropWhile P ?s)) \<le> length (dropWhile P ?s)" using 1 [OF refl] Cons by simp
    moreover have "length ?s \<le> length s" by (rule length_dropWhile_le)
    moreover have "runs P s = takeWhile P ?s # runs P (dropWhile P ?s)"
      using Cons by (subst runs.simps) (simp add: Let_def)
    ultimately show ?thesis using Cons by simp
  qed
qed

lemma length_print_six:
  assumes "\<forall>i\<in>{a, b, c, d, e, f}. \<bar>i\<bar> < 10 ^ 20"
  shows "length (print_ints [a, b, c, d, e, f]) < MAX_CONTENT_LEN"
proof -
  have "length (show_int i) \<le> 21" if "i \<in> {a, b, c, d, e, f}" for i
    using length_show_int [of i 19] assms that by auto
  from this [of a] this [of b] this [of c] this [of d] this [of e] this [of f] show ?thesis by simp
qed

text \<open>What the storage server prints when it answers: six numbers that fit the types they are scanned into.\<close>

lemma metadata_text:
  assumes "get_file_metadata (c, m, a) dsz sd fs f MAX_CONTENT_LEN = Some (code, Some txt)"
    and "dsz < 2 ^ 63" and "list_all (conv_fits ConvLD) [c, m, a]"
  obtains sz w k where "txt = print_ints [int sz, int w, int k, c, m, a]"
    "list_all2 conv_fits INFO_FORMAT [int sz, int w, int k, c, m, a]"
proof -
  obtain bs w k where bs: "fopen_r fs (get_file_path sd f) = Some bs" "count_loop 0 0 False bs = Some (w, k)"
    and printed: "txt = cbuf MAX_CONTENT_LEN (print_ints [int (if is_dir fs (get_file_path sd f) then dsz else length bs), int w, int k, c, m, a])"
    using assms(1) by (auto simp: get_file_metadata_def show_nat_int Let_def split: if_splits option.splits)
  let ?sz = "if is_dir fs (get_file_path sd f) then dsz else length bs"
  have wk: "w = length (runs (\<lambda>c. \<not> is_blank_char c) bs)" "k = length bs" "length bs \<le> INT_MAX"
    using bs(2) by (auto simp: count_loop_eq split: if_splits)
  have "w \<le> k" unfolding wk(1,2) by (rule length_runs)
  then have fits: "list_all2 conv_fits INFO_FORMAT [int ?sz, int w, int k, c, m, a]"
    using assms(2,3) wk(2,3) by simp
  then have "\<forall>i\<in>{int ?sz, int w, int k, c, m, a}. \<bar>i\<bar> < 10 ^ 20" by auto
  from length_print_six [OF this] have "txt = print_ints [int ?sz, int w, int k, c, m, a]"
    unfolding printed by (rule cbuf_id)
  with fits that show thesis by blast
qed

section \<open>The two servers together\<close>

text \<open>
  What the name server needs of a storage server to print metadata: the three times of the files
  (and the size of a directory) are 64-bit numbers that \<open>localtime\<close> and \<open>strftime\<close> can print.
\<close>

definition times_printable :: "'w NsEnv \<Rightarrow> Node \<Rightarrow> bool" where
  "times_printable env n \<longleftrightarrow> e_dir_size (nd_env n) < 2 ^ 63 \<and>
     (case e_times (nd_env n) of
        (c, m, a) \<Rightarrow> list_all (conv_fits ConvLD) [c, m, a] \<and> ne_time_short env c \<noteq> None \<and>
          list_all (\<lambda>t. ne_time_long env t \<noteq> None) [c, m, a])"

lemma node_prints:
  assumes "times_printable env n" and "handle_at ns_request (metadata_req e f) n = (Replied r, ns)" and "m_error_code r = ERR_SUCCESS"
  shows "printable env (m_content r)"
proof -
  obtain c m a where times: "e_times (nd_env n) = (c, m, a)" by (cases "e_times (nd_env n)")
  have fit: "e_dir_size (nd_env n) < 2 ^ 63" "list_all (conv_fits ConvLD) [c, m, a]" "ne_time_short env c \<noteq> None"
      "list_all (\<lambda>t. ne_time_long env t \<noteq> None) [c, m, a]"
    using assms(1) by (simp_all add: times_printable_def times)
  obtain line where printed: "get_file_metadata (c, m, a) (e_dir_size (nd_env n)) (ss_dir (nd_ss n)) (ss_fs (nd_ss n))
      (m_filename (metadata_req e f)) MAX_CONTENT_LEN = Some (ERR_SUCCESS, Some line)" "m_content r = cbuf MAX_CONTENT_LEN line"
    using assms(2,3)
    by (auto simp: handle_at_def ns_request_def Let_def times ack_def reply_def put_content_def metadata_req_def get_file_metadata_def
        split: option.splits if_splits)
  obtain sz w k where "line = print_ints [int sz, int w, int k, c, m, a]"
    and fits: "list_all2 conv_fits INFO_FORMAT [int sz, int w, int k, c, m, a]"
    by (rule metadata_text [OF printed(1) fit(1,2)])
  moreover have "cbuf MAX_CONTENT_LEN line = line"
  proof (rule cbuf_id)
    have "\<forall>i\<in>{int sz, int w, int k, c, m, a}. \<bar>i\<bar> < 10 ^ 20" using fits by auto
    from length_print_six [OF this] show "length line < MAX_CONTENT_LEN" unfolding calculation .
  qed
  ultimately have "scan_ints INFO_FORMAT (m_content r) = Some [int sz, int w, int k, c, m, a]"
    using scan_print_ints [of INFO_FORMAT "[int sz, int w, int k, c, m, a]"] fits printed(2)
    by (simp del: scan_ints.simps print_ints.simps conv_fits.simps)
  then show ?thesis using fit(3,4) by (simp add: printable_def del: scan_ints.simps)
qed

lemma client_port_refuses:
  assumes "handle_at (\<lambda>env st msg. client_connection st env msg []) (metadata_req e f) n = (Replied r, ns)"
  shows "m_error_code r \<noteq> ERR_SUCCESS"
  using assms by (auto simp: handle_at_def client_connection_def metadata_req_def ack_def reply_def put_content_def)

lemma handle_at_env:
  "handle_at serve msg n = (r, ns) \<Longrightarrow> times_printable env n \<Longrightarrow> list_all (times_printable env) ns"
  by (auto simp: handle_at_def times_printable_def split: option.splits list.splits)

lemma net_metadata:
  assumes "list_all (times_printable env) net" and "net_contact net ip port (metadata_req e f) = (r, net')"
  shows "list_all (times_printable env) net' \<and>
    (case r of Replied m \<Rightarrow> m_error_code m = ERR_SUCCESS \<longrightarrow> printable env (m_content m) | _ \<Rightarrow> True)"
  using assms
proof (induction net arbitrary: net')
  case (Cons n net)
  have n: "times_printable env n" "list_all (times_printable env) net" using Cons.prems(1) by simp_all
  consider (nm) "nd_ip n = ip \<and> nd_nm_port n = port" | (cl) "\<not> (nd_ip n = ip \<and> nd_nm_port n = port)" "nd_ip n = ip \<and> nd_client_port n = port"
    | (on) "\<not> (nd_ip n = ip \<and> nd_nm_port n = port)" "\<not> (nd_ip n = ip \<and> nd_client_port n = port)" by blast
  then show ?case
  proof cases
    case nm
    obtain ns where h: "handle_at ns_request (metadata_req e f) n = (r, ns)" "net' = ns @ net"
      using Cons.prems(2) nm by (cases "handle_at ns_request (metadata_req e f) n") auto
    with n handle_at_env [OF h(1) n(1)] node_prints [OF n(1)] show ?thesis by (auto split: Contact.split)
  next
    case cl
    let ?serve = "\<lambda>env st msg. client_connection st env msg []"
    obtain ns where h: "handle_at ?serve (metadata_req e f) n = (r, ns)" "net' = ns @ net"
      using Cons.prems(2) cl by (cases "handle_at ?serve (metadata_req e f) n") auto
    with n handle_at_env [OF h(1) n(1)] show ?thesis by (cases r) (auto dest: client_port_refuses)
  next
    case on
    obtain net1 where rest: "net_contact net ip port (metadata_req e f) = (r, net1)" "net' = n # net1"
      using Cons.prems(2) on by (cases "net_contact net ip port (metadata_req e f)") auto
    with Cons.IH [OF n(2) rest(1)] n(1) show ?thesis by simp
  qed
qed simp

lemma net_metadata_served: "metadata_served (list_all (times_printable env)) (system_env env)"
  unfolding metadata_served_def
proof (intro allI impI)
  fix net ip port f assume net: "list_all (times_printable env) net"
  have same: "printable (system_env env) = printable env" by (rule ext) (simp only: printable_def system_env_sel)
  obtain r net' where run: "net_contact net ip port (metadata_req (system_env env) f) = (r, net')" by fastforce
  show "case ne_contact (system_env env) net ip port (metadata_req (system_env env) f) of (r, w') \<Rightarrow>
      list_all (times_printable env) w' \<and>
      (case r of Replied m \<Rightarrow> m_error_code m = ERR_SUCCESS \<longrightarrow> printable (system_env env) (m_content m) | _ \<Rightarrow> True)"
    using net_metadata [OF net run] unfolding same system_env_sel run prod.case .
qed

text \<open>
  C26. The two kinds of server fit together: whatever is on the storage servers' disks and in their
  memory, every answer the name server gets from one fits the message type, and the metadata one
  prints the name server scans and prints without undefined behaviour, as long as the times of
  the files are 64-bit numbers that \<open>localtime\<close> and \<open>strftime\<close> can print. So in the composed system a
  request (SEARCH excepted, and INFO on a file whose access list overruns its buffer) gets its
  one well-formed answer, and leaves the registries well-formed; the long VIEW and INFO
  included, which need what the storage servers print.
\<close>

theorem system_messages_typed:
  assumes "ns_reachable ns" and "msg_wf msg" and "files_ok msg" and "m_operation msg \<noteq> OP_SEARCH"
    and "m_operation msg = OP_INFO \<longrightarrow> acl_get_access_list (ns_acl ns) (m_filename msg) 512 \<noteq> None"
    and "list_all (times_printable env) (ns_world ns)"
  shows "env_ok (system_env env) \<and> metadata_served (list_all (times_printable env)) (system_env env) \<and>
    (\<exists>out ns'. dispatch (system_env env) ns msg = Some (out, ns') \<and> list_all msg_wf out \<and> ns_inv ns' \<and>
       length out = (if m_operation msg = OP_UNREGISTER_CLIENT then 0 else 1))"
proof -
  note inv = reachable_inv [OF assms(1)]
  note ok = dispatch_ok [OF inv system_env_ok assms(2,3)]
  have "safe_request (list_all (times_printable env)) (system_env env) ns msg"
    using assms(4-6) net_metadata_served [of env] by (simp add: safe_request_def)
  then have "dispatch (system_env env) ns msg \<noteq> None" by (rule ok(2))
  then obtain out ns' where run: "dispatch (system_env env) ns msg = Some (out, ns')" by auto
  with ok(1) [of env] dispatch_answers [OF inv system_env_ok assms(2,3) run] show ?thesis
    by (auto simp: gives_def step_ok_def list_all_iff system_env_ok net_metadata_served)
qed

section \<open>The row of a file in VIEW\<close>

lemma node_metadata:
  assumes "node_file n f = Some bs" and "length f < MAX_FILENAME_LEN" and "counts_fit n bs"
    and "e_times (nd_env n) = (c, m, a)"
  obtains r where "handle_at ns_request (metadata_req env f) n = (Replied r, [n])" "m_error_code r = ERR_SUCCESS"
    "m_content r = print_ints [int (length bs), int (word_count bs), int (length bs), c, m, a]"
proof -
  let ?txt = "print_ints [int (length bs), int (word_count bs), int (length bs), c, m, a]"
  have bytes: "file_bytes (ss_dir (nd_ss n)) (ss_fs (nd_ss n)) f = Some bs" using assms(1) by (simp add: node_file_def)
  have "get_file_metadata (c, m, a) k (ss_dir (nd_ss n)) (ss_fs (nd_ss n)) f MAX_CONTENT_LEN =
      Some (ERR_SUCCESS, Some (cbuf MAX_CONTENT_LEN ?txt))" for k
    using bytes assms(3) by (simp add: get_file_metadata_def file_bytes_Some file_exists_def stat_ok_def fopen_r_def is_dir_def
        count_loop_eq word_count_def show_nat_int counts_fit_def)
  moreover have "cbuf MAX_CONTENT_LEN ?txt = ?txt"
  proof (rule cbuf_id)
    have "word_count bs \<le> length bs" by (simp add: word_count_def length_runs)
    then have "\<forall>i\<in>{int (length bs), int (word_count bs), int (length bs), c, m, a}. \<bar>i\<bar> < 10 ^ 20"
      using assms(3,4) by (auto simp: counts_fit_def)
    then show "length ?txt < MAX_CONTENT_LEN" by (rule length_print_six)
  qed
  moreover have "m_operation (metadata_req env f) = OP_GET_METADATA" "m_filename (metadata_req env f) = f"
    using assms(2) by (simp_all add: metadata_req_def cbuf_id)
  ultimately show ?thesis using that assms(4)
    by (simp add: handle_at_def ns_request_def Let_def ack_def reply_def put_content_def)
qed

text \<open>
  C34. The metadata survives its journey, except for one column: what the storage server prints
  for a located file of at most \<open>INT_MAX\<close> characters (a longer one overflows its counters), whose
  times are 64-bit numbers, the name server reads back exactly, so INFO shows the size, the word
  and character counts and the three times; the row of VIEW shows, under the heading Modified,
  the time of the last status change and not that of the last modification.
\<close>

theorem metadata_roundtrip:
  assumes "ns_reachable ns" and "length f < MAX_FILENAME_LEN" and "lookup_result ns f = i" and "0 \<le> i"
    and "at_node (ns_world ns) (server ns i) pre n post" and "node_file n f = Some bs" and "counts_fit n bs"
    and "e_times (nd_env n) = (c, m, a)" and "ne_time_short env c = Some modified"
  shows "(\<exists>r. net_contact (ns_world ns) (es_ip (server ns i)) (es_nm_port (server ns i)) (metadata_req (system_env env) f) =
      (Replied r, ns_world ns) \<and>
      scan_ints INFO_FORMAT (m_content r) = Some [int (length bs), int (word_count bs), int (length bs), c, m, a]) \<and>
    (\<exists>ns'. metadata_row (system_env env) f ns = Some (view_row f (show_nat (length bs)) modified
      (show_nat (word_count bs)) (show_nat (length bs)), ns'))"
proof -
  let ?env = "system_env env" and ?vs = "[int (length bs), int (word_count bs), int (length bs), c, m, a]"
  obtain k where find: "find_ss_for_file ?env f ns = Some (i, ns\<lparr>ns_lru := k\<rparr>)"
    using find_ss_run [OF reachable_inv [OF assms(1)] assms(2), of ?env] by (metis assms(3))
  obtain r where h: "handle_at ns_request (metadata_req ?env f) n = (Replied r, [n])" and ok: "m_error_code r = ERR_SUCCESS"
    and cont: "m_content r = print_ints ?vs"
    by (rule node_metadata [OF assms(6,2,7,8)])
  have net: "net_contact (ns_world ns) (es_ip (server ns i)) (es_nm_port (server ns i)) (metadata_req ?env f) = (Replied r, ns_world ns)"
    using contact_at(1) [OF assms(5)] h assms(5) by (simp add: at_node_def)
  have con: "contact_nm ?env i (metadata_req ?env f) (ns\<lparr>ns_lru := k\<rparr>) = (Replied r, ns\<lparr>ns_lru := k\<rparr>)"
    using net by (simp add: contact_nm_def)
  have "word_count bs \<le> length bs" by (simp add: word_count_def length_runs)
  then have fits: "list_all2 conv_fits INFO_FORMAT ?vs" using assms(7,8) by (simp add: counts_fit_def)
  have len: "take (length INFO_FORMAT) ?vs = ?vs" "take (length VIEW_FORMAT) ?vs = [int (length bs), int (word_count bs), int (length bs), c]"
    by simp_all
  have fits': "list_all2 conv_fits VIEW_FORMAT [int (length bs), int (word_count bs), int (length bs), c]" using fits by simp
  have scan: "scan_ints INFO_FORMAT (m_content r) = Some ?vs"
    "scan_ints VIEW_FORMAT (m_content r) = Some [int (length bs), int (word_count bs), int (length bs), c]"
    unfolding cont using scan_print_ints [of INFO_FORMAT ?vs, unfolded len] scan_print_ints [of VIEW_FORMAT ?vs, unfolded len] fits fits'
    by blast+
  have "metadata_row ?env f ns = Some (view_row f (show_nat (length bs)) modified
      (show_nat (word_count bs)) (show_nat (length bs)), ns\<lparr>ns_lru := k\<rparr>)"
    using find con ok assms(4,9) scan(2) by (simp add: metadata_row_def show_nat_int del: scan_ints.simps)
  with net scan(1) show ?thesis by blast
qed

text \<open>A file created at the sample node, and the answers about it.\<close>

lemma sample_created_at:
  obtains ns n where "ns_reachable ns" "at_node (ns_world ns) (server ns 0) [] n []" "ns_world ns = [n]" "lookup_result ns ''b'' = 0"
    "node_file n ''b'' = Some []" "e_times (nd_env n) = (0, 0, 0)" "e_dir_size (nd_env n) < 2 ^ 63"
proof -
  have b: "name_ok ''b''" "m_filename (sample_command OP_CREATE) = ''b''" by (simp_all add: sample_command_def)
  let ?env = "NS_Registry.sample_env :: Node list NsEnv"
  obtain r ns n where run: "dispatch (system_env ?env) sample_system (sample_command OP_CREATE) = Some ([r], ns)"
    and world: "ns_world ns = [] @ n # []" and files: "\<forall>g. name_ok g \<longrightarrow>
        node_file n g = (if g = m_filename (sample_command OP_CREATE) then Some [] else node_file sample_node g)"
    and at: "at_node (ns_world ns) (server ns 0) [] n []" and look: "lookup_result ns (m_filename (sample_command OP_CREATE)) = 0"
    and env: "nd_env n = nd_env sample_node"
    by (rule create_end_run [OF reachable_inv [OF sample_system_reachable] sample_system_ready sample_system_at])
  have reach: "ns_reachable ns"
    by (rule ns_reachable.handle [OF sample_system_reachable system_env_ok [of ?env], where r = "Received (sample_command OP_CREATE)" and ip = "[]" and port = 0
        and out = "[r]"])
      (simp_all add: sample_command_ok handle_connection_def run)
  have "e_times (nd_env n) = (0, 0, 0)" "e_dir_size (nd_env n) < 2 ^ 63"
    by (simp_all add: env sample_node_def Write_Path.sample_env_def)
  with that [OF reach at] world look files b show thesis by simp
qed

theorem metadata_roundtrip_witness:
  "\<exists>ns ns'. metadata_row (system_env NS_Registry.sample_env) ''b'' ns = Some (view_row ''b'' (show_nat 0)
     (show_int 0) (show_nat 0) (show_nat 0), ns')"
proof -
  obtain ns n where s: "ns_reachable ns" "at_node (ns_world ns) (server ns 0) [] n []" "ns_world ns = [n]" "lookup_result ns ''b'' = 0"
    "node_file n ''b'' = Some []" "e_times (nd_env n) = (0, 0, 0)"
    by (rule sample_created_at)
  have "counts_fit n []" using s(6) by (simp add: counts_fit_def)
  moreover have "ne_time_short (NS_Registry.sample_env :: Node list NsEnv) 0 = Some (show_int 0)"
    by (simp add: NS_Registry.sample_env_def)
  ultimately show ?thesis using metadata_roundtrip [OF s(1) _ s(4) _ s(2,5) _ s(6), where env = NS_Registry.sample_env]
    by (auto simp: word_count_def)
qed

theorem system_messages_typed_witness:
  "\<exists>ns out ns'. lookup_result ns ''b'' = 0 \<and>
     dispatch (system_env NS_Registry.sample_env) ns ((INIT_MESSAGE 0)\<lparr>m_operation := OP_VIEW,
       m_view_flags := VIEW_FLAG_ALL OR VIEW_FLAG_LONG\<rparr>) = Some (out, ns') \<and> length out = 1"
proof -
  obtain ns n where s: "ns_reachable ns" "at_node (ns_world ns) (server ns 0) [] n []" "ns_world ns = [n]" "lookup_result ns ''b'' = 0"
    "node_file n ''b'' = Some []" "e_times (nd_env n) = (0, 0, 0)" "e_dir_size (nd_env n) < 2 ^ 63"
    by (rule sample_created_at)
  let ?msg = "(INIT_MESSAGE 0)\<lparr>m_operation := OP_VIEW, m_view_flags := VIEW_FLAG_ALL OR VIEW_FLAG_LONG\<rparr>"
  have "list_all (times_printable (NS_Registry.sample_env :: Node list NsEnv)) (ns_world ns)"
    using s(3,6,7) by (simp add: times_printable_def NS_Registry.sample_env_def)
  moreover have "msg_wf ?msg" "files_ok ?msg" by (simp_all add: msg_wf_def INIT_MESSAGE_def files_ok_def listed_files_def cbuf_def)
  ultimately show ?thesis using system_messages_typed [OF s(1), where msg = ?msg and env = NS_Registry.sample_env] s(4) by auto
qed

end
