(* ===== verification/Socket_Utils.thy ===== *)
theory Socket_Utils
  imports Protocol
begin

text \<open>
  \<^verbatim>\<open>common/socket_utils.c\<close>: the loops that push a message or a block of data through a TCP
  socket, and the bytes of a \<open>Message\<close> in memory, which are what it sends. A socket is what the
  kernel answers to the calls made on it: how much it takes, and in which pieces the peer's
  bytes arrive. The calls that make and configure sockets are in \<open>Socket_Calls\<close>.
\<close>

section \<open>The kernel's side of a connection\<close>

text \<open>\<open>send\<close>: a limit on what is taken by each call, or a failure; in the end it takes everything.\<close>

datatype Room = Takes nat | Fails

fun send :: "nat \<Rightarrow> Room list \<Rightarrow> nat option \<times> Room list" where
  "send n [] = (Some n, [])"
| "send n (Takes k # net) = (Some (min k n), net)"
| "send n (Fails # net) = (None, net)"

text \<open>
  \<open>recv\<close>: the pieces in which the stream arrives, of which a call takes what it has room for; a
  failure; the end of the list is the end of the stream (result 0).
\<close>

datatype Arrival = Piece "char list" | Broken

fun recv :: "nat \<Rightarrow> Arrival list \<Rightarrow> char list option \<times> Arrival list" where
  "recv n [] = (Some [], [])"
| "recv n (Broken # es) = (None, es)"
| "recv n (Piece p # es) =
     (if p = [] then recv n es
      else (Some (take n p), if length p \<le> n then es else Piece (drop n p) # es))"

section \<open>The loops\<close>

text \<open>The result, the bytes that went out, and the socket afterwards.\<close>

function send_message_loop :: "char list \<Rightarrow> nat \<Rightarrow> Room list \<Rightarrow> int \<times> char list \<times> Room list" where
  "send_message_loop ptr total_sent net =
     (if total_sent < length ptr then
        case send (length ptr - total_sent) net of
          (None, net') \<Rightarrow> (- 1, take total_sent ptr, net')
        | (Some bytes_sent, net') \<Rightarrow>
            if bytes_sent = 0 then (int total_sent, take total_sent ptr, net')
            else send_message_loop ptr (total_sent + bytes_sent) net'
      else (int total_sent, take total_sent ptr, net))"
  by pat_completeness auto
termination
  by (relation "measure (\<lambda>(ptr, total_sent, net). length ptr - total_sent)") auto

text \<open>\<open>None\<close> is the null pointer; else the bytes of the message.\<close>

definition send_message :: "char list option \<Rightarrow> Room list \<Rightarrow> int \<times> char list \<times> Room list" where
  "send_message msg net =
     (case msg of None \<Rightarrow> (- 1, [], net) | Some ptr \<Rightarrow> send_message_loop ptr 0 net)"

lemma send_progress:
  "send n net = (Some k, net') \<Longrightarrow> 0 < n \<Longrightarrow> length net' < length net \<or> (net' = [] \<and> net = [] \<and> k = n)"
  by (induction n net rule: send.induct) auto

text \<open>\<open>send_data\<close> has no test for a result of zero: it tries again.\<close>

function send_data_loop :: "char list \<Rightarrow> nat \<Rightarrow> Room list \<Rightarrow> int \<times> char list \<times> Room list" where
  "send_data_loop ptr total_sent net =
     (if total_sent < length ptr then
        case send (length ptr - total_sent) net of
          (None, net') \<Rightarrow> (- 1, take total_sent ptr, net')
        | (Some bytes_sent, net') \<Rightarrow> send_data_loop ptr (total_sent + bytes_sent) net'
      else (int total_sent, take total_sent ptr, net))"
  by pat_completeness auto
termination
  by (relation "measure (\<lambda>(ptr, total_sent, net). length net + (length ptr - total_sent))")
    (auto dest!: sym [of "(Some _, _)"] send_progress)

definition send_data :: "char list option \<Rightarrow> Room list \<Rightarrow> int \<times> char list \<times> Room list" where
  "send_data data net =
     (case data of None \<Rightarrow> (- 1, [], net) | Some ptr \<Rightarrow> send_data_loop ptr 0 net)"

text \<open>The result, the bytes stored so far, and the socket afterwards.\<close>

function receive_message_loop :: "nat \<Rightarrow> char list \<Rightarrow> Arrival list \<Rightarrow> int \<times> char list \<times> Arrival list" where
  "receive_message_loop msg_size ptr es =
     (let total_received = length ptr
      in if total_received < msg_size then
           case recv (msg_size - total_received) es of
             (None, es') \<Rightarrow> (- 1, ptr, es')
           | (Some bytes, es') \<Rightarrow>
               if bytes = [] then (if total_received = 0 then (0, ptr, es') else (- 1, ptr, es'))
               else receive_message_loop msg_size (ptr @ bytes) es'
         else (int total_received, ptr, es))"
  by pat_completeness auto
termination
  by (relation "measure (\<lambda>(msg_size, ptr, es). msg_size - length ptr)") (auto intro!: diff_less_mono2)

function receive_data_loop :: "nat \<Rightarrow> char list \<Rightarrow> Arrival list \<Rightarrow> int \<times> char list \<times> Arrival list" where
  "receive_data_loop n ptr es =
     (let total_received = length ptr
      in if total_received < n then
           case recv (n - total_received) es of
             (None, es') \<Rightarrow> (- 1, ptr, es')
           | (Some bytes, es') \<Rightarrow>
               if bytes = [] then (int total_received, ptr, es')
               else receive_data_loop n (ptr @ bytes) es'
         else (int total_received, ptr, es))"
  by pat_completeness auto
termination
  by (relation "measure (\<lambda>(n, ptr, es). n - length ptr)") (auto intro!: diff_less_mono2)

declare send_message_loop.simps [simp del] send_data_loop.simps [simp del] receive_message_loop.simps [simp del] receive_data_loop.simps [simp del]

definition receive_data :: "nat option \<Rightarrow> Arrival list \<Rightarrow> int \<times> char list \<times> Arrival list" where
  "receive_data buffer es =
     (case buffer of None \<Rightarrow> (- 1, [], es) | Some n \<Rightarrow> receive_data_loop n [] es)"

section \<open>The bytes of a message\<close>

text \<open>
  Little endian integers and NUL-padded arrays, with the padding the compiler inserts before
  \<open>timestamp\<close> and at the end: the layout of the structure on x86-64, 5096 bytes.
\<close>

fun le_bytes :: "nat \<Rightarrow> int \<Rightarrow> char list" where
  "le_bytes 0 i = []"
| "le_bytes (Suc n) i = char_of (nat (i mod 256)) # le_bytes n (i div 256)"

fun le_value :: "char list \<Rightarrow> int" where
  "le_value [] = 0"
| "le_value (c # cs) = uchar c + 256 * le_value cs"

definition le_signed :: "char list \<Rightarrow> int" where
  "le_signed bs =
     (let v = le_value bs; m = 256 ^ length bs in if 2 * v < m then v else v - m)"

definition padded :: "nat \<Rightarrow> cstring \<Rightarrow> char list" where
  "padded n s = s @ replicate (n - length s) NUL"

definition message_fields :: "Message \<Rightarrow> char list list" where
  "message_fields m =
     [le_bytes 4 (m_operation m), le_bytes 4 (m_error_code m),
      padded MAX_USERNAME_LEN (m_sender_id m), padded MAX_USERNAME_LEN (m_target_user m),
      padded MAX_FILENAME_LEN (m_filename m), le_bytes 4 (m_sentence_num m), le_bytes 4 (m_word_index m),
      padded MAX_CONTENT_LEN (m_content m), le_bytes 4 (m_access_type m), le_bytes 4 (m_view_flags m),
      padded MAX_FILENAME_LEN (m_folder_name m), padded MAX_FILENAME_LEN (m_checkpoint_tag m),
      le_bytes 4 (m_replica_index m), le_bytes 4 (m_is_primary m),
      padded MAX_IP_LEN (m_ss_ip m), le_bytes 4 (m_ss_port m), padded 4 [],
      le_bytes 8 (m_timestamp m), le_bytes 8 (int (m_content_length m)), le_bytes 4 (m_sequence_num m),
      padded MAX_IP_LEN (m_ip_address m), le_bytes 4 (m_nm_port m), le_bytes 4 (m_client_port m), padded 4 []]"

definition message_bytes :: "Message \<Rightarrow> char list" where
  "message_bytes m = concat (message_fields m)"

abbreviation SIZEOF_MESSAGE :: nat where "SIZEOF_MESSAGE \<equiv> 5096"

definition field_sizes :: "nat list" where
  "field_sizes = [4, 4, 64, 64, 256, 4, 4, 4096, 4, 4, 256, 256, 4, 4, 16, 4, 4, 8, 8, 4, 16, 4, 4, 4]"

fun cut :: "nat list \<Rightarrow> char list \<Rightarrow> char list list" where
  "cut [] bs = []"
| "cut (n # ns) bs = take n bs # cut ns (drop n bs)"

definition message_of_bytes :: "char list \<Rightarrow> Message" where
  "message_of_bytes bs =
     (let f = (\<lambda>k. cut field_sizes bs ! k); s = (\<lambda>k. cstr_of (f k)); i = (\<lambda>k. le_signed (f k))
      in \<lparr>m_operation = i 0, m_error_code = i 1, m_sender_id = s 2, m_target_user = s 3,
          m_filename = s 4, m_sentence_num = i 5, m_word_index = i 6, m_content = s 7,
          m_access_type = i 8, m_view_flags = i 9, m_folder_name = s 10, m_checkpoint_tag = s 11,
          m_replica_index = i 12, m_is_primary = i 13, m_ss_ip = s 14, m_ss_port = i 15,
          m_timestamp = i 17, m_content_length = nat (le_value (f 18)), m_sequence_num = i 19,
          m_ip_address = s 20, m_nm_port = i 21, m_client_port = i 22\<rparr>)"

text \<open>\<open>memset (msg, 0, sizeof (Message))\<close> first, so what did not arrive is zero.\<close>

definition receive_message :: "bool \<Rightarrow> Arrival list \<Rightarrow> int \<times> char list \<times> Arrival list" where
  "receive_message null es =
     (if null then (- 1, [], es)
      else let (r, ptr, es') = receive_message_loop SIZEOF_MESSAGE [] es
           in (r, padded SIZEOF_MESSAGE ptr, es'))"

section \<open>Encoding and decoding\<close>

lemma length_le_bytes [simp]: "length (le_bytes n i) = n"
  by (induction n i rule: le_bytes.induct) simp_all

lemma le_value_bytes: "le_value (le_bytes n i) = i mod 256 ^ n"
proof (induction n i rule: le_bytes.induct)
  case (2 n i)
  have "uchar (char_of (nat (i mod 256))) = i mod 256"
    by (simp add: uchar_def of_char_of take_bit_eq_mod)
  with 2 show ?case by (simp add: zmod_zmult2_eq)
qed simp

lemma le_signed_bytes:
  assumes "- (256 ^ n) \<le> 2 * i" and "2 * i < 256 ^ n"
  shows "le_signed (le_bytes n i) = i"
proof (cases "i < 0")
  case True
  have "i mod 256 ^ n = (i + 256 ^ n) mod 256 ^ n" by simp
  also have "\<dots> = i + 256 ^ n" using assms True by (intro mod_pos_pos_trivial) auto
  finally show ?thesis using assms True by (simp add: le_signed_def le_value_bytes Let_def)
next
  case False
  then have "i mod 256 ^ n = i" using assms by (intro mod_pos_pos_trivial) auto
  then show ?thesis using assms by (simp add: le_signed_def le_value_bytes Let_def)
qed

lemma length_padded [simp]: "length s \<le> n \<Longrightarrow> length (padded n s) = n"
  by (simp add: padded_def)

lemma cstr_of_padded: "NUL \<notin> set s \<Longrightarrow> cstr_of (padded n s) = s"
  by (auto simp: cstr_of_def padded_def takeWhile_eq_all_conv takeWhile_append)

lemma cut_concat: "map length xs = ns \<Longrightarrow> cut ns (concat xs) = xs"
  by (induction xs arbitrary: ns) auto

text \<open>Messages whose integers have their width and whose strings are C strings that fit.\<close>

definition int_ok :: "nat \<Rightarrow> int \<Rightarrow> bool" where
  "int_ok n i \<longleftrightarrow> - (256 ^ n) \<le> 2 * i \<and> 2 * i < 256 ^ n"

definition message_typed :: "Message \<Rightarrow> bool" where
  "message_typed m \<longleftrightarrow> msg_wf m \<and>
     (\<forall>s\<in>{m_sender_id m, m_target_user m, m_filename m, m_content m, m_folder_name m, m_checkpoint_tag m,
         m_ss_ip m, m_ip_address m}. NUL \<notin> set s) \<and>
     (\<forall>i\<in>{m_operation m, m_error_code m, m_sentence_num m, m_word_index m, m_access_type m, m_view_flags m,
         m_replica_index m, m_is_primary m, m_ss_port m, m_sequence_num m, m_nm_port m, m_client_port m}. int_ok 4 i) \<and>
     int_ok 8 (m_timestamp m) \<and> int (m_content_length m) < 256 ^ 8"

lemma message_field_sizes: "message_typed m \<Longrightarrow> map length (message_fields m) = field_sizes"
  by (simp add: message_typed_def msg_wf_def message_fields_def field_sizes_def)

lemma length_message_bytes: "message_typed m \<Longrightarrow> length (message_bytes m) = SIZEOF_MESSAGE"
  unfolding message_bytes_def length_concat by (simp add: message_field_sizes) (simp add: field_sizes_def)

lemma message_decoded:
  assumes "message_typed m"
  shows "message_of_bytes (message_bytes m) = m"
proof -
  have "cut field_sizes (message_bytes m) = message_fields m"
    unfolding message_bytes_def by (rule cut_concat [OF message_field_sizes [OF assms]])
  then show ?thesis using assms
    by (simp add: message_of_bytes_def message_fields_def message_typed_def int_ok_def cstr_of_padded
        le_signed_bytes le_value_bytes)
qed

section \<open>What the loops do\<close>

text \<open>The bytes on their way to the receiver, on a connection that does not break.\<close>

fun stream :: "Arrival list \<Rightarrow> char list" where
  "stream [] = []"
| "stream (Piece p # es) = p @ stream es"
| "stream (Broken # es) = []"

definition intact :: "Arrival list \<Rightarrow> bool" where
  "intact es \<longleftrightarrow> Broken \<notin> set es"

lemma recv_run:
  assumes "intact es" and "0 < n"
  shows "\<exists>bs es'. recv n es = (Some bs, es') \<and> intact es' \<and> stream es = bs @ stream es' \<and> length bs \<le> n \<and>
    (bs = [] \<longrightarrow> stream es = [])"
  using assms
proof (induction n es rule: recv.induct)
  case (3 n p es)
  show ?case
  proof (cases "p = []")
    case False
    with 3(2,3) show ?thesis by (auto simp: intact_def)
  qed (use 3 in \<open>simp add: intact_def\<close>)
qed (auto simp: intact_def)

definition received :: "nat \<Rightarrow> char list \<Rightarrow> Arrival list \<Rightarrow> char list" where
  "received n ptr es = take n (ptr @ stream es)"

lemma receive_loop_run:
  assumes "intact es" and "length ptr < n"
  shows "\<exists>es'. intact es' \<and> stream es' = drop n (ptr @ stream es) \<and>
    receive_message_loop n ptr es =
      (if n \<le> length ptr + length (stream es) then int n else if received n ptr es = [] then 0 else - 1, received n ptr es, es') \<and>
    receive_data_loop n ptr es = (int (length (received n ptr es)), received n ptr es, es')"
  using assms
proof (induction "n - length ptr" arbitrary: ptr es rule: less_induct)
  case less
  obtain bs es' where r: "recv (n - length ptr) es = (Some bs, es')" "intact es'" "stream es = bs @ stream es'"
    and fits: "length bs \<le> n - length ptr" and last: "bs = [] \<longrightarrow> stream es = []"
    using recv_run [OF less.prems(1), of "n - length ptr"] less.prems(2) by auto
  note step = receive_message_loop.simps [of n ptr es] receive_data_loop.simps [of n ptr es]
  show ?case
  proof (cases "bs = []")
    case True
    with r last less.prems(2) show ?thesis
      by (intro exI [of _ es']) (simp add: step received_def)
  next
    case False
    have more: "received n (ptr @ bs) es' = received n ptr es" using r(3) by (simp add: received_def)
    have on: "receive_message_loop n ptr es = receive_message_loop n (ptr @ bs) es'"
      "receive_data_loop n ptr es = receive_data_loop n (ptr @ bs) es'"
      using r(1) less.prems(2) False by (simp_all add: step)
    show ?thesis
    proof (cases "length (ptr @ bs) < n")
      case True
      have "n - length (ptr @ bs) < n - length ptr" using True False less.prems(2) by (auto intro!: diff_less_mono2)
      from less.hyps [OF this r(2) True] show ?thesis unfolding on more r(3) by (simp add: add.assoc)
    next
      case full: False
      then have "length (ptr @ bs) = n" using fits less.prems(2) by simp
      then show ?thesis unfolding on using r
        by (intro exI [of _ es'])
          (auto simp: receive_message_loop.simps [of n "ptr @ bs"] receive_data_loop.simps [of n "ptr @ bs"] received_def)
    qed
  qed
qed

lemma send_message_loop_run:
  assumes "\<forall>a\<in>set net. \<exists>k>0. a = Takes k" and "t \<le> length ptr"
  shows "\<exists>net'. send_message_loop ptr t net = (int (length ptr), ptr, net')"
  using assms
proof (induction ptr t net rule: send_message_loop.induct)
  case (1 ptr t net)
  show ?case
  proof (cases "t < length ptr")
    case True
    obtain k net' where s: "send (length ptr - t) net = (Some k, net')" "0 < k" "t + k \<le> length ptr" "set net' \<subseteq> set net"
    proof (cases net)
      case (Cons a net')
      with "1.prems" obtain j where "a = Takes j" "0 < j" by auto
      with Cons True show ?thesis by (intro that [of "min j (length ptr - t)" net']) auto
    qed (use True that [of "length ptr - t" "[]"] in auto)
    from "1.IH" [OF True s(1) [symmetric] refl] s "1.prems" True show ?thesis
      by (auto simp: send_message_loop.simps [of ptr t])
  qed (use "1.prems" in \<open>simp add: send_message_loop.simps [of ptr "length ptr"]\<close>)
qed

section \<open>Properties\<close>

text \<open>
  C25. A message survives the stream: whatever portions the sender's socket takes, and in
  whatever pieces the bytes arrive, \<open>send_message\<close> sends the whole message, \<open>receive_message\<close>
  takes exactly these bytes and leaves the following messages in the stream, and they are the
  message that was sent.
\<close>

theorem message_survives_stream:
  assumes "message_typed m" and "\<forall>a\<in>set net. \<exists>k>0. a = Takes k" and "send_message (Some (message_bytes m)) net = (r, out, net')"
    and "intact es" and "stream es = out @ later"
  shows "r = int SIZEOF_MESSAGE \<and>
    (\<exists>buf es'. receive_message False es = (int SIZEOF_MESSAGE, buf, es') \<and> message_of_bytes buf = m \<and> intact es' \<and> stream es' = later)"
proof -
  note len = length_message_bytes [OF assms(1)]
  have "r = int SIZEOF_MESSAGE" "out = message_bytes m"
    using send_message_loop_run [OF assms(2), of 0 "message_bytes m"] assms(3) len by (auto simp: send_message_def)
  moreover from this obtain es' where "receive_message_loop SIZEOF_MESSAGE [] es = (int SIZEOF_MESSAGE, message_bytes m, es')"
    "intact es'" "stream es' = later"
    using receive_loop_run [OF assms(4), of "[]" SIZEOF_MESSAGE] assms(5) len by (auto simp: received_def)
  ultimately show ?thesis
    using message_decoded [OF assms(1)] len by (simp add: receive_message_def padded_def)
qed

text \<open>
  \<open>receive_message\<close> on a connection that does not break: a whole message if enough bytes
  arrive, 0 if the peer closed before the first byte, -1 if it closed inside a message; what did
  not arrive is zero.
\<close>

theorem receive_message_exact:
  assumes "intact es"
  shows "\<exists>es'. receive_message False es =
    (if length (stream es) \<ge> SIZEOF_MESSAGE then (int SIZEOF_MESSAGE, take SIZEOF_MESSAGE (stream es), es')
     else if stream es = [] then (0, replicate SIZEOF_MESSAGE NUL, es')
     else (- 1, stream es @ replicate (SIZEOF_MESSAGE - length (stream es)) NUL, es'))"
  using receive_loop_run [OF assms, of "[]" SIZEOF_MESSAGE]
  by (auto simp: receive_message_def received_def padded_def Let_def split: if_splits)

definition sample_message :: Message where
  "sample_message = (INIT_MESSAGE 1)\<lparr>m_operation := OP_READ, m_error_code := - 1, m_filename := ''a''\<rparr>"

lemma sample_message_typed: "message_typed sample_message"
  by (simp add: message_typed_def msg_wf_def sample_message_def INIT_MESSAGE_def int_ok_def)

theorem message_survives_stream_witness:
  "\<exists>buf es'. receive_message False [Piece (take 10 (message_bytes sample_message)), Piece (drop 10 (message_bytes sample_message) @ ''xy'')] =
     (int SIZEOF_MESSAGE, buf, es') \<and> message_of_bytes buf = sample_message \<and> stream es' = ''xy''"
proof -
  let ?net = "[Takes 7]" and ?es = "[Piece (take 10 (message_bytes sample_message)), Piece (drop 10 (message_bytes sample_message) @ ''xy'')]"
  obtain net' where sent: "send_message (Some (message_bytes sample_message)) ?net = (int SIZEOF_MESSAGE, message_bytes sample_message, net')"
    using send_message_loop_run [of ?net 0 "message_bytes sample_message"] length_message_bytes [OF sample_message_typed]
    by (auto simp: send_message_def)
  have net: "\<forall>a\<in>set ?net. \<exists>k>0. a = Takes k" by simp
  have "intact ?es" "stream ?es = message_bytes sample_message @ ''xy''"
    by (simp_all add: intact_def append_assoc [symmetric] del: append_assoc)
  from message_survives_stream [OF sample_message_typed net sent this] show ?thesis by auto
qed

theorem receive_message_exact_witness:
  "\<exists>es'. receive_message False [Piece ''ab'', Piece ''c''] = (- 1, ''abc'' @ replicate 5093 NUL, es')"
  using receive_message_exact [of "[Piece ''ab'', Piece ''c'']"] by (simp add: intact_def)

end
