(* ===== verification/Network.thy ===== *)
theory Network
  imports Protocol
begin

text \<open>
  The network as a process of the program sees it: the functions of \<^verbatim>\<open>common/socket_utils.c\<close> it
  calls, as one record of operations on a world that the caller chooses (\<open>Client_System\<close> instantiates
  it with the modelled servers).
\<close>

text \<open>
  The calls of \<^verbatim>\<open>socket_utils.c\<close> with their results, over a world \<open>'w\<close>: a descriptor or a
  negative number; zero or negative; the number of bytes sent or negative; the number received
  (positive for a message, else no message) with the message.
\<close>

record 'w Net =
  nt_now :: int
  nt_socket :: "'w \<Rightarrow> int \<times> 'w"
  nt_connect :: "int \<Rightarrow> cstring \<Rightarrow> int \<Rightarrow> 'w \<Rightarrow> int \<times> 'w"
  nt_send :: "int \<Rightarrow> Message \<Rightarrow> 'w \<Rightarrow> int \<times> 'w"
  nt_receive :: "int \<Rightarrow> 'w \<Rightarrow> (int \<times> Message) \<times> 'w"
  nt_close :: "int \<Rightarrow> 'w \<Rightarrow> 'w"

end
