(* ===== verification/Client.thy ===== *)
theory Client
  imports Network "HOL-Library.Monad_Syntax"
begin

text \<open>
  \<^verbatim>\<open>client/client.c\<close>: the interactive client. A command is a function on the client's state: its
  name and address, the lines still to be typed, what it printed, and the rest of the world, which
  only the socket calls of \<open>Network\<close> change. \<open>None\<close> is undefined behaviour (a string that was never terminated, a number
  \<open>atoi\<close> cannot represent) or, for STREAM, not to return. Log lines are not modelled.
\<close>

section \<open>State\<close>

abbreviation NS_IP :: cstring where "NS_IP \<equiv> ''127.0.0.1''"
abbreviation NS_PORT :: int where "NS_PORT \<equiv> 8080"
abbreviation MAX_INPUT :: nat where "MAX_INPUT \<equiv> 1024"

record 'w Client =
  cl_username :: cstring
  cl_local_ip :: cstring
  cl_stdin :: "char list list"
  cl_stdout :: "char list"
  cl_world :: 'w

type_synonym 'w cmd = "'w Client \<Rightarrow> 'w Client option"

definition print :: "char list \<Rightarrow> 'w Client \<Rightarrow> 'w Client" where
  "print s cl = cl\<lparr>cl_stdout := cl_stdout cl @ s\<rparr>"

definition ln :: "cstring \<Rightarrow> char list" where
  "ln s = s @ [NL]"

text \<open>The check mark, the cross and the horizontal rules, in UTF-8.\<close>

definition CHECK :: "char list" where "CHECK = [CHR 0xE2, CHR 0x9C, CHR 0x93, CHR '' '']"
definition CROSS :: "char list" where "CROSS = [CHR 0xE2, CHR 0x9C, CHR 0x97, CHR '' '']"
definition RULE :: "char list" where "RULE = concat (replicate 61 [CHR 0xE2, CHR 0x94, CHR 0x80])"
definition DOUBLE_RULE :: "nat \<Rightarrow> char list" where "DOUBLE_RULE n = concat (replicate n [CHR 0xE2, CHR 0x95, CHR 0x90])"

definition BAR2 :: "char list" where "BAR2 = [CHR 0xE2, CHR 0x95, CHR 0x91]"

definition error_line :: "cstring \<Rightarrow> char list" where
  "error_line s = ln (''Error: '' @ s)"

section \<open>Input\<close>

definition trim :: "cstring \<Rightarrow> cstring" where
  "trim str = rev (dropWhile isspace (rev (dropWhile isspace str)))"

text \<open>The command in capitals and three arguments; \<open>None\<close> is the result 0.\<close>

definition parse_input :: "cstring \<Rightarrow> (cstring \<times> cstring \<times> cstring \<times> cstring) option" where
  "parse_input input =
     (let tokens = runs (\<lambda>c. c \<noteq> CHR '' '') (trim input);
          arg = (\<lambda>i. if i < length tokens then cbuf MAX_FILENAME_LEN (tokens ! i) else [])
      in if tokens = [] then None
         else Some (map toupper (cbuf MAX_FILENAME_LEN (tokens ! 0)), arg 1, arg 2, arg 3))"

section \<open>Conversations\<close>

definition close_socket :: "'w Net \<Rightarrow> int \<Rightarrow> 'w Client \<Rightarrow> 'w Client" where
  "close_socket net s cl = cl\<lparr>cl_world := nt_close net s (cl_world cl)\<rparr>"

text \<open>
  \<open>create_socket\<close> and \<open>connect_to_server\<close>, going on with \<open>k\<close> if both succeed; else the error is
  printed and the socket closed.
\<close>

definition open_server :: "'w Net \<Rightarrow> cstring \<Rightarrow> int \<Rightarrow> char list \<Rightarrow> (int \<Rightarrow> 'w cmd) \<Rightarrow> 'w cmd" where
  "open_server net ip port err k cl =
     (let (s, w) = nt_socket net (cl_world cl); cl = cl\<lparr>cl_world := w\<rparr>
      in if s < 0 then Some (print err cl)
         else let (r, w) = nt_connect net s ip port (cl_world cl); cl = cl\<lparr>cl_world := w\<rparr>
              in if r < 0 then Some (close_socket net s (print err cl)) else k s cl)"

definition open_ns :: "'w Net \<Rightarrow> char list \<Rightarrow> (int \<Rightarrow> 'w cmd) \<Rightarrow> 'w cmd" where
  "open_ns net err k = open_server net NS_IP NS_PORT err k"

text \<open>\<open>send_message\<close> with its result tested, or ignored; \<open>receive_message\<close> with its result tested.\<close>

definition checked_send :: "'w Net \<Rightarrow> int \<Rightarrow> Message \<Rightarrow> char list \<Rightarrow> 'w cmd \<Rightarrow> 'w cmd" where
  "checked_send net s msg err k cl =
     (let (r, w) = nt_send net s msg (cl_world cl); cl = cl\<lparr>cl_world := w\<rparr>
      in if r < 0 then Some (close_socket net s (print err cl)) else k cl)"

definition plain_send :: "'w Net \<Rightarrow> int \<Rightarrow> Message \<Rightarrow> 'w cmd \<Rightarrow> 'w cmd" where
  "plain_send net s msg k cl = k (cl\<lparr>cl_world := snd (nt_send net s msg (cl_world cl))\<rparr>)"

definition await :: "'w Net \<Rightarrow> int \<Rightarrow> char list \<Rightarrow> (Message \<Rightarrow> 'w cmd) \<Rightarrow> 'w cmd" where
  "await net s err k cl =
     (let ((r, m), w) = nt_receive net s (cl_world cl); cl = cl\<lparr>cl_world := w\<rparr>
      in if r \<le> 0 then Some (close_socket net s (print err cl)) else k m cl)"

definition user_msg :: "'w Net \<Rightarrow> 'w Client \<Rightarrow> int \<Rightarrow> Message" where
  "user_msg net cl op =
     (INIT_MESSAGE (nt_now net))\<lparr>m_operation := op, m_sender_id := cbuf MAX_USERNAME_LEN (cl_username cl)\<rparr>"

definition file_msg :: "'w Net \<Rightarrow> 'w Client \<Rightarrow> int \<Rightarrow> cstring \<Rightarrow> Message" where
  "file_msg net cl op filename = (user_msg net cl op)\<lparr>m_filename := cbuf MAX_FILENAME_LEN filename\<rparr>"

definition finish :: "'w Net \<Rightarrow> int \<Rightarrow> char list \<Rightarrow> 'w cmd" where
  "finish net s txt cl = Some (close_socket net s (print txt cl))"

section \<open>Registration\<close>

text \<open>The first component is the result, 0 or -1; the errors above are failures here.\<close>

definition register_with_nameserver :: "'w Net \<Rightarrow> 'w Client \<Rightarrow> int \<times> 'w Client" where
  "register_with_nameserver net cl =
     (let (s, w) = nt_socket net (cl_world cl); cl = cl\<lparr>cl_world := w\<rparr>
      in if s < 0 then (- 1, print (error_line ''Failed to create socket'') cl)
         else let (r, w) = nt_connect net s NS_IP NS_PORT (cl_world cl); cl = cl\<lparr>cl_world := w\<rparr>
         in if r < 0 then
              (- 1, close_socket net s (print (error_line (''Failed to connect to Name Server at '' @ NS_IP @ '':'' @ show_int NS_PORT) @
                 ln ''Make sure Name Server is running!'') cl))
         else let reg_msg = (user_msg net cl OP_REGISTER_CLIENT)\<lparr>m_ip_address := cbuf MAX_IP_LEN (cl_local_ip cl), m_nm_port := 0\<rparr>;
                  (r, w) = nt_send net s reg_msg (cl_world cl); cl = cl\<lparr>cl_world := w\<rparr>
         in if r < 0 then (- 1, close_socket net s (print (error_line ''Failed to send registration'') cl))
         else let ((r, ack), w) = nt_receive net s (cl_world cl); cl = cl\<lparr>cl_world := w\<rparr>
         in if r \<le> 0 then (- 1, close_socket net s (print (error_line ''Failed to receive registration response'') cl))
         else if m_error_code ack \<noteq> ERR_SUCCESS then
              (- 1, close_socket net s (print (error_line (''Registration failed: '' @ m_content ack)) cl))
         else (0, close_socket net s (print (ln (m_content ack)) cl)))"

definition unregister_from_nameserver :: "'w Net \<Rightarrow> 'w Client \<Rightarrow> 'w Client" where
  "unregister_from_nameserver net cl =
     (let (s, w) = nt_socket net (cl_world cl); cl = cl\<lparr>cl_world := w\<rparr>
      in if s < 0 then cl
         else let (r, w) = nt_connect net s NS_IP NS_PORT (cl_world cl); cl = cl\<lparr>cl_world := w\<rparr>
              in if r < 0 then close_socket net s cl
                 else let unreg_msg = (user_msg net cl OP_UNREGISTER_CLIENT)\<lparr>m_ip_address := cbuf MAX_IP_LEN (cl_local_ip cl)\<rparr>
                      in close_socket net s (cl\<lparr>cl_world := snd (nt_send net s unreg_msg (cl_world cl))\<rparr>))"

text \<open>What SIGINT does before the process exits.\<close>

definition signal_handler :: "'w Net \<Rightarrow> 'w Client \<Rightarrow> 'w Client" where
  "signal_handler net cl =
     unregister_from_nameserver net (print (NL # NL # ln ''Received Ctrl+C. Disconnecting gracefully...'') cl)"

section \<open>Commands answered by the name server\<close>

abbreviation no_ns :: "char list" where "no_ns \<equiv> error_line ''Cannot connect to Name Server''"
abbreviation no_ns2 :: "char list" where "no_ns2 \<equiv> error_line ''Failed to connect to Name Server''"
abbreviation no_response :: "char list" where "no_response \<equiv> error_line ''Failed to receive response''"

definition is_created :: "Message \<Rightarrow> bool" where
  "is_created response \<longleftrightarrow> m_error_code response = ERR_SUCCESS \<or> m_error_code response = ERR_CREATED"

definition cmd_create :: "'w Net \<Rightarrow> cstring \<Rightarrow> 'w cmd" where
  "cmd_create net filename cl =
     (if filename = [] then Some (print (ln ''Usage: CREATE <filename>'') cl)
      else open_ns net no_ns (\<lambda>s.
        checked_send net s (file_msg net cl OP_CREATE filename) (error_line ''Failed to send CREATE request'') (
        await net s no_response (\<lambda>response.
        finish net s (if is_created response then CHECK @ ln (''File '' @ quoted filename @ '' created successfully!'')
          else CROSS @ error_line (m_content response))))) cl)"

definition cmd_delete :: "'w Net \<Rightarrow> cstring \<Rightarrow> 'w cmd" where
  "cmd_delete net filename cl =
     (if filename = [] then Some (print (ln ''Usage: DELETE <filename>'') cl)
      else open_ns net no_ns (\<lambda>s.
        checked_send net s (file_msg net cl OP_DELETE filename) (error_line ''Failed to send DELETE request'') (
        await net s no_response (\<lambda>response.
        finish net s (if m_error_code response = ERR_SUCCESS then CHECK @ ln (''File '' @ quoted filename @ '' deleted successfully!'')
          else CROSS @ error_line (m_content response))))) cl)"

definition cmd_list :: "'w Net \<Rightarrow> 'w cmd" where
  "cmd_list net cl =
     open_ns net no_ns (\<lambda>s.
        checked_send net s (user_msg net cl OP_LIST) (error_line ''Failed to send LIST request'') (
        await net s no_response (\<lambda>response.
        finish net s (if m_error_code response = ERR_SUCCESS then NL # ln (m_content response)
          else CROSS @ error_line (m_content response))))) cl"

text \<open>\<open>None\<close> is an invalid flag.\<close>

definition view_flags :: "cstring \<Rightarrow> int option" where
  "view_flags flags =
     (if flags = [] then Some VIEW_FLAG_NONE
      else if flags = ''-a'' then Some VIEW_FLAG_ALL
      else if flags = ''-l'' then Some VIEW_FLAG_LONG
      else if flags = ''-al'' \<or> flags = ''-la'' then Some VIEW_FLAG_ALL_LONG
      else None)"

definition cmd_view :: "'w Net \<Rightarrow> cstring \<Rightarrow> 'w cmd" where
  "cmd_view net flags cl =
     open_ns net no_ns (\<lambda>s.
       case view_flags flags of
         None \<Rightarrow> finish net s (error_line (''Invalid flag '' @ quoted flags @ ''. Valid flags: -a, -l, -al, -la''))
       | Some f \<Rightarrow>
           checked_send net s ((user_msg net cl OP_VIEW)\<lparr>m_view_flags := f\<rparr>) (error_line ''Failed to send VIEW request'') (
           await net s no_response (\<lambda>response.
           finish net s (if m_error_code response = ERR_SUCCESS then NL # ln (m_content response)
             else CROSS @ error_line (m_content response))))) cl"

definition cmd_info :: "'w Net \<Rightarrow> cstring \<Rightarrow> 'w cmd" where
  "cmd_info net filename cl =
     (if filename = [] then Some (print (ln ''Usage: INFO <filename>'') cl)
      else open_ns net no_ns (\<lambda>s.
        checked_send net s (file_msg net cl OP_INFO filename) (error_line ''Failed to send INFO request'') (
        await net s no_response (\<lambda>response.
        finish net s (if m_error_code response = ERR_SUCCESS then NL # ln (m_content response)
          else CROSS @ error_line (m_content response))))) cl)"

text \<open>\<open>None\<close> is an invalid flag.\<close>

definition access_flag :: "cstring \<Rightarrow> int option" where
  "access_flag flag =
     (if flag = ''-R'' \<or> flag = ''-r'' then Some ACCESS_READ
      else if flag = ''-W'' \<or> flag = ''-w'' then Some ACCESS_WRITE else None)"

definition cmd_addaccess :: "'w Net \<Rightarrow> cstring \<Rightarrow> cstring \<Rightarrow> cstring \<Rightarrow> 'w cmd" where
  "cmd_addaccess net flag filename username cl =
     (if flag = [] \<or> filename = [] \<or> username = [] then
        Some (print (ln ''Usage: ADDACCESS -R|-W <filename> <username>'' @ ln ''  -R : Grant read access'' @
          ln ''  -W : Grant write access'') cl)
      else case access_flag flag of
        None \<Rightarrow> Some (print (error_line (''Invalid flag '' @ quoted flag @ ''. Use -R for read or -W for write'')) cl)
      | Some access_type \<Rightarrow>
          open_ns net no_ns (\<lambda>s.
            checked_send net s ((file_msg net cl OP_ADDACCESS filename)\<lparr>m_target_user := cbuf MAX_USERNAME_LEN username,
                m_access_type := access_type\<rparr>) (error_line ''Failed to send ADDACCESS request'') (
            await net s no_response (\<lambda>response.
            finish net s ((if m_error_code response = ERR_SUCCESS then CHECK @ ln (m_content response)
              else CROSS @ error_line (m_content response)))))) cl)"

definition cmd_remaccess :: "'w Net \<Rightarrow> cstring \<Rightarrow> cstring \<Rightarrow> 'w cmd" where
  "cmd_remaccess net filename username cl =
     (if filename = [] \<or> username = [] then Some (print (ln ''Usage: REMACCESS <filename> <username>'') cl)
      else open_ns net no_ns (\<lambda>s.
        checked_send net s ((file_msg net cl OP_REMACCESS filename)\<lparr>m_target_user := cbuf MAX_USERNAME_LEN username\<rparr>)
          (error_line ''Failed to send REMACCESS request'') (
        await net s no_response (\<lambda>response.
        finish net s (if m_error_code response = ERR_SUCCESS then CHECK @ ln (m_content response)
          else CROSS @ error_line (m_content response))))) cl)"

definition cmd_exec :: "'w Net \<Rightarrow> cstring \<Rightarrow> 'w cmd" where
  "cmd_exec net filename cl =
     (if filename = [] then Some (print (error_line ''Filename required'' @ ln ''Usage: EXEC <filename>'') cl)
      else open_ns net no_ns2 (\<lambda>s.
        checked_send net s (file_msg net cl OP_EXEC filename) (error_line ''Failed to send EXEC request'') (
        await net s (error_line ''No response from Name Server'') (\<lambda>response cl.
        Some (print (if m_error_code response = ERR_SUCCESS then
            NL # ln RULE @ ln (''Execution Output: '' @ filename) @ ln RULE @ m_content response @
            (if m_content response \<noteq> [] \<and> last (m_content response) \<noteq> NL then [NL] else []) @ ln RULE @
            CHECK @ ln ''Command executed successfully''
          else CROSS @ error_line (m_content response)) (close_socket net s cl))))) cl)"

text \<open>
  The later commands send without a test and close the socket before they print; \<open>ns_command\<close> is
  the part they share.
\<close>

definition ns_command :: "'w Net \<Rightarrow> Message \<Rightarrow> char list \<Rightarrow> (Message \<Rightarrow> char list) \<Rightarrow> 'w cmd" where
  "ns_command net msg err txt =
     open_ns net no_ns2 (\<lambda>s. plain_send net s msg (await net s err (\<lambda>response cl.
       Some (print (txt response) (close_socket net s cl)))))"

definition cmd_createfolder :: "'w Net \<Rightarrow> cstring \<Rightarrow> 'w cmd" where
  "cmd_createfolder net foldername cl =
     (if foldername = [] then
        Some (print (error_line ''Folder name cannot be empty'' @ ln ''Usage: CREATEFOLDER <foldername>'') cl)
      else ns_command net ((user_msg net cl OP_CREATEFOLDER)\<lparr>m_folder_name := cbuf MAX_FILENAME_LEN foldername\<rparr>)
        (error_line ''Failed to receive response from server'') (\<lambda>response.
          if is_created response then CHECK @ ln (''Folder '' @ quoted foldername @ '' created successfully!'')
          else CROSS @ error_line (m_content response)) cl)"

definition cmd_move :: "'w Net \<Rightarrow> cstring \<Rightarrow> cstring \<Rightarrow> 'w cmd" where
  "cmd_move net filename foldername cl =
     (if filename = [] \<or> foldername = [] then
        Some (print (error_line ''Filename and folder name cannot be empty'' @ ln ''Usage: MOVE <filename> <foldername>'') cl)
      else ns_command net ((file_msg net cl OP_MOVE filename)\<lparr>m_folder_name := cbuf MAX_FILENAME_LEN foldername\<rparr>)
        (error_line ''Failed to receive response from server'') (\<lambda>response.
          if m_error_code response = ERR_SUCCESS then
            ln (''File '' @ quoted filename @ '' moved to '' @ quoted foldername @ '' successfully!'')
          else error_line (m_content response)) cl)"

definition cmd_viewfolder :: "'w Net \<Rightarrow> cstring \<Rightarrow> 'w cmd" where
  "cmd_viewfolder net foldername cl =
     (if foldername = [] then
        Some (print (error_line ''Folder name cannot be empty'' @ ln ''Usage: VIEWFOLDER <foldername>'') cl)
      else ns_command net ((user_msg net cl OP_VIEWFOLDER)\<lparr>m_folder_name := cbuf MAX_FILENAME_LEN foldername\<rparr>)
        (error_line ''Failed to receive response from server'') (\<lambda>response.
          if m_error_code response = ERR_SUCCESS then
            ln (''Contents of folder '' @ quoted foldername @ '':'') @ ln (m_content response)
          else error_line (m_content response)) cl)"

definition cmd_requestaccess :: "'w Net \<Rightarrow> cstring \<Rightarrow> 'w cmd" where
  "cmd_requestaccess net filename cl =
     (if filename = [] then
        Some (print (error_line ''Filename cannot be empty'' @ ln ''Usage: REQUESTACCESS <filename>'') cl)
      else ns_command net (file_msg net cl OP_REQUESTACCESS filename) no_response (\<lambda>response.
          if m_error_code response = ERR_SUCCESS then ln (m_content response) else error_line (m_content response)) cl)"

definition cmd_viewrequests :: "'w Net \<Rightarrow> cstring \<Rightarrow> 'w cmd" where
  "cmd_viewrequests net filename cl =
     (if filename = [] then
        Some (print (error_line ''Filename cannot be empty'' @ ln ''Usage: VIEWREQUESTS <filename>'') cl)
      else ns_command net (file_msg net cl OP_VIEWREQUESTS filename) no_response (\<lambda>response.
          if m_error_code response = ERR_SUCCESS then
            ln (''Pending access requests for '' @ quoted filename @ '':'') @ ln (m_content response)
          else error_line (m_content response)) cl)"

text \<open>The user name travels in the content field.\<close>

definition decide_msg :: "'w Net \<Rightarrow> 'w Client \<Rightarrow> int \<Rightarrow> cstring \<Rightarrow> cstring \<Rightarrow> Message" where
  "decide_msg net cl op filename username = put_content username (file_msg net cl op filename)"

definition cmd_approverequest :: "'w Net \<Rightarrow> cstring \<Rightarrow> cstring \<Rightarrow> 'w cmd" where
  "cmd_approverequest net filename username cl =
     (if filename = [] \<or> username = [] then
        Some (print (error_line ''Filename and username cannot be empty'' @ ln ''Usage: APPROVEREQUEST <filename> <username>'') cl)
      else ns_command net (decide_msg net cl OP_APPROVEREQUEST filename username) no_response (\<lambda>response.
          if m_error_code response = ERR_SUCCESS then ln (m_content response) else error_line (m_content response)) cl)"

definition cmd_denyrequest :: "'w Net \<Rightarrow> cstring \<Rightarrow> cstring \<Rightarrow> 'w cmd" where
  "cmd_denyrequest net filename username cl =
     (if filename = [] \<or> username = [] then
        Some (print (error_line ''Filename and username cannot be empty'' @ ln ''Usage: DENYREQUEST <filename> <username>'') cl)
      else ns_command net (decide_msg net cl OP_DENYREQUEST filename username) no_response (\<lambda>response.
          if m_error_code response = ERR_SUCCESS then ln (m_content response) else error_line (m_content response)) cl)"

definition cmd_search :: "'w Net \<Rightarrow> cstring \<Rightarrow> 'w cmd" where
  "cmd_search net word cl =
     (if word = [] then
        Some (print (error_line ''Search word cannot be empty'' @ ln ''Usage: SEARCH <word>'') cl)
      else ns_command net (put_content word (user_msg net cl OP_SEARCH)) no_response (\<lambda>response.
          if m_error_code response = ERR_SUCCESS \<or> m_error_code response = ERR_NOT_FOUND then ln (m_content response)
          else error_line (m_content response)) cl)"

section \<open>Commands that go on to a storage server\<close>

definition read_box :: "cstring \<Rightarrow> cstring \<Rightarrow> char list" where
  "read_box filename content =
     NL # ln RULE @ ln (''File: '' @ filename) @ ln RULE @
     (if content = [] then ln ''(empty file)'' else ln content) @ ln RULE @ [NL]"

definition cmd_read :: "'w Net \<Rightarrow> cstring \<Rightarrow> 'w cmd" where
  "cmd_read net filename cl =
     (if filename = [] then Some (print (ln ''Usage: READ <filename>'') cl)
      else open_ns net no_ns (\<lambda>s.
        checked_send net s (file_msg net cl OP_READ filename) (error_line ''Failed to send READ request'') (
        await net s (error_line ''Failed to receive routing info'') (\<lambda>route cl.
        let cl = close_socket net s cl
        in if m_operation route \<noteq> OP_ROUTE_INFO then Some (print (CROSS @ error_line (m_content route)) cl)
           else open_server net (cbuf MAX_IP_LEN (m_ss_ip route)) (m_ss_port route) (error_line ''Cannot connect to Storage Server'') (\<lambda>ss.
             checked_send net ss (file_msg net cl OP_READ filename) (error_line ''Failed to send READ request to Storage Server'') (
             await net ss (error_line ''Failed to receive file content'') (\<lambda>response cl.
             if m_error_code response \<noteq> ERR_SUCCESS then finish net ss (CROSS @ error_line (m_content response)) cl
             else
               let cl = print (read_box filename (m_content response)) cl;
                   w = snd (nt_receive net ss (cl_world cl))
               in Some (close_socket net ss (cl\<lparr>cl_world := w\<rparr>))))) cl))) cl)"

text \<open>
  \<open>strncpy (ss_ip, response.ss_ip, MAX_IP_LEN - 1)\<close> into an array that is not initialised and
  whose last byte is never set: with an address of 15 characters the string has no end.
\<close>

definition unterminated :: "Message \<Rightarrow> bool" where
  "unterminated response \<longleftrightarrow> length (m_ss_ip response) \<ge> MAX_IP_LEN - 1"

definition cmd_undo :: "'w Net \<Rightarrow> cstring \<Rightarrow> 'w cmd" where
  "cmd_undo net filename cl =
     (if filename = [] then Some (print (error_line ''Filename required'' @ ln ''Usage: UNDO <filename>'') cl)
      else open_ns net no_ns2 (\<lambda>s.
        plain_send net s (file_msg net cl OP_UNDO filename) (
        await net s (error_line ''No response from Name Server'') (\<lambda>response cl.
        let cl = close_socket net s cl
        in if m_error_code response \<noteq> ERR_SUCCESS then Some (print (error_line (m_content response)) cl)
           else if unterminated response then None
           else open_server net (m_ss_ip response) (m_ss_port response) (error_line ''Failed to connect to Storage Server'') (\<lambda>ss.
             plain_send net ss (file_msg net cl OP_UNDO filename) (
             await net ss (error_line ''No response from Storage Server'') (\<lambda>undo_response.
             finish net ss (if m_error_code undo_response = ERR_SUCCESS then CHECK @ ln (''File restored: '' @ m_content undo_response)
               else error_line (m_content undo_response))))) cl))) cl)"

text \<open>The words of a stream, ten to a line, until the stop message; \<open>None\<close> if it never ends.\<close>

partial_function (option) stream_words :: "'w Net \<Rightarrow> int \<Rightarrow> nat \<Rightarrow> 'w Client \<Rightarrow> 'w Client option" where
  "stream_words net s word_count cl =
     (let ((bytes, word_msg), w) = nt_receive net s (cl_world cl); cl = cl\<lparr>cl_world := w\<rparr>
      in if bytes \<le> 0 then finish net s (NL # error_line ''Connection lost during streaming'') cl
         else if m_operation word_msg = OP_STOP then
           finish net s (NL # ln RULE @ CHECK @ ln (''Stream complete: '' @ show_nat word_count @ '' words received'')) cl
         else if m_error_code word_msg \<noteq> ERR_SUCCESS then finish net s (NL # error_line (m_content word_msg)) cl
         else stream_words net s (word_count + 1)
           (print (m_content word_msg @ '' '' @ (if (word_count + 1) mod 10 = 0 then [NL] else [])) cl))"

definition cmd_stream :: "'w Net \<Rightarrow> cstring \<Rightarrow> 'w cmd" where
  "cmd_stream net filename cl =
     (if filename = [] then Some (print (error_line ''Filename required'' @ ln ''Usage: STREAM <filename>'') cl)
      else open_ns net no_ns2 (\<lambda>s.
        plain_send net s (file_msg net cl OP_STREAM filename) (
        await net s (error_line ''No response from Name Server'') (\<lambda>response cl.
        let cl = close_socket net s cl
        in if m_operation response \<noteq> OP_ROUTE_INFO then Some (print (CROSS @ error_line (m_content response)) cl)
           else open_server net (cbuf MAX_IP_LEN (m_ss_ip response)) (m_ss_port response) (error_line ''Failed to connect to Storage Server'') (\<lambda>ss.
             checked_send net ss (file_msg net cl OP_STREAM filename) (error_line ''Failed to send STREAM request to Storage Server'') (\<lambda>cl.
             stream_words net ss 0 (print (NL # ln RULE @ ln (''Streaming: '' @ filename) @ ln RULE) cl))) cl))) cl)"

section \<open>Checkpoint commands\<close>

text \<open>The server of a file, found by asking the name server for a READ.\<close>

definition locate :: "'w Net \<Rightarrow> cstring \<Rightarrow> (Message \<Rightarrow> 'w cmd) \<Rightarrow> 'w cmd" where
  "locate net filename k cl =
     open_ns net no_ns2 (\<lambda>s. plain_send net s (file_msg net cl OP_READ filename) (
       await net s (error_line ''Failed to get file location'') (\<lambda>response cl.
       let cl = close_socket net s cl
       in if m_error_code response \<noteq> ERR_SUCCESS then Some (print (error_line (m_content response)) cl)
          else k response cl))) cl"

text \<open>One request to the located server; \<open>txt\<close> is what a successful answer prints.\<close>

definition ask_server :: "'w Net \<Rightarrow> Message \<Rightarrow> (Message \<Rightarrow> char list) \<Rightarrow> Message \<Rightarrow> 'w cmd" where
  "ask_server net msg txt route =
     open_server net (m_ss_ip route) (m_ss_port route) (error_line ''Failed to connect to Storage Server'') (\<lambda>ss.
       plain_send net ss msg (await net ss no_response (\<lambda>response cl.
       Some (print (if m_error_code response = ERR_SUCCESS then txt response else error_line (m_content response))
         (close_socket net ss cl)))))"

definition tag_msg :: "'w Net \<Rightarrow> 'w Client \<Rightarrow> int \<Rightarrow> cstring \<Rightarrow> cstring \<Rightarrow> Message" where
  "tag_msg net cl op filename tag = (file_msg net cl op filename)\<lparr>m_checkpoint_tag := cbuf MAX_FILENAME_LEN tag\<rparr>"

definition cmd_checkpoint :: "'w Net \<Rightarrow> cstring \<Rightarrow> cstring \<Rightarrow> 'w cmd" where
  "cmd_checkpoint net filename tag cl =
     (if filename = [] \<or> tag = [] then
        Some (print (error_line ''Filename and tag cannot be empty'' @ ln ''Usage: CHECKPOINT <filename> <tag>'') cl)
      else locate net filename (ask_server net (tag_msg net cl OP_CHECKPOINT filename tag)
        (\<lambda>response. ln (''Checkpoint '' @ quoted tag @ '' created for file '' @ quoted filename))) cl)"

definition cmd_viewcheckpoint :: "'w Net \<Rightarrow> cstring \<Rightarrow> cstring \<Rightarrow> 'w cmd" where
  "cmd_viewcheckpoint net filename tag cl =
     (if filename = [] \<or> tag = [] then
        Some (print (error_line ''Filename and tag cannot be empty'' @ ln ''Usage: VIEWCHECKPOINT <filename> <tag>'') cl)
      else locate net filename (ask_server net (tag_msg net cl OP_VIEWCHECKPOINT filename tag)
        (\<lambda>response. NL # ln (''=== Checkpoint '' @ quoted tag @ '' of '' @ quoted filename @ '' ==='') @ ln (m_content response))) cl)"

definition cmd_revert :: "'w Net \<Rightarrow> cstring \<Rightarrow> cstring \<Rightarrow> 'w cmd" where
  "cmd_revert net filename tag cl =
     (if filename = [] \<or> tag = [] then
        Some (print (error_line ''Filename and tag cannot be empty'' @ ln ''Usage: REVERT <filename> <tag>'') cl)
      else locate net filename (ask_server net (tag_msg net cl OP_REVERT filename tag)
        (\<lambda>response. ln (''File '' @ quoted filename @ '' reverted to checkpoint '' @ quoted tag))) cl)"

definition cmd_listcheckpoints :: "'w Net \<Rightarrow> cstring \<Rightarrow> 'w cmd" where
  "cmd_listcheckpoints net filename cl =
     (if filename = [] then
        Some (print (error_line ''Filename cannot be empty'' @ ln ''Usage: LISTCHECKPOINTS <filename>'') cl)
      else locate net filename (ask_server net (file_msg net cl OP_LISTCHECKPOINTS filename)
        (\<lambda>response. ln (''Checkpoints for '' @ quoted filename @ '':'') @ ln (m_content response))) cl)"

section \<open>The write session\<close>

definition write_msg :: "'w Net \<Rightarrow> 'w Client \<Rightarrow> int \<Rightarrow> cstring \<Rightarrow> int \<Rightarrow> Message" where
  "write_msg net cl op filename sentence_num = (file_msg net cl op filename)\<lparr>m_sentence_num := sentence_num\<rparr>"

text \<open>The lines typed in a session: \<open>[]\<close> is the end of the input.\<close>

fun write_lines :: "'w Net \<Rightarrow> cstring \<Rightarrow> int \<Rightarrow> int \<Rightarrow> nat \<Rightarrow> char list list \<Rightarrow> 'w cmd" where
  "write_lines net filename sn ss updates_made [] cl =
     finish net ss (NL # ''write> '') (cl\<lparr>cl_stdin := []\<rparr>)"
| "write_lines net filename sn ss updates_made (line # lines) cl =
     (let cl = print (NL # ''write> '') (cl\<lparr>cl_stdin := lines\<rparr>); input_line = trim (cstr_of line)
      in if input_line = [] then write_lines net filename sn ss updates_made lines cl
         else if input_line = ''ETIRW'' \<or> input_line = ''etirw'' then
           plain_send net ss (write_msg net cl OP_WRITE_COMMIT filename sn) (
           await net ss (error_line ''Failed to commit changes'') (\<lambda>commit_response.
           finish net ss (if m_error_code commit_response = ERR_SUCCESS then
               CHECK @ ln ''Changes committed successfully!'' @ ln (''  Total updates made: '' @ show_nat updates_made)
             else error_line (m_content commit_response)))) cl
         else if input_line = ''CANCEL'' \<or> input_line = ''cancel'' then
           finish net ss (ln ''Write session cancelled (lock will timeout)'') cl
         else if CHR '' '' \<notin> set input_line then
           write_lines net filename sn ss updates_made lines
             (print (error_line ''Invalid format. Use: <word_index> <word_content>'') cl)
         else case atoi (takeWhile (\<lambda>c. c \<noteq> CHR '' '') input_line) of
           None \<Rightarrow> None
         | Some word_idx \<Rightarrow>
             let word_content = tl (dropWhile (\<lambda>c. c \<noteq> CHR '' '') input_line)
             in if word_idx < 0 then
                  write_lines net filename sn ss updates_made lines (print (error_line ''Invalid word index'') cl)
                else if word_content = [] then
                  write_lines net filename sn ss updates_made lines (print (error_line ''Word content cannot be empty'') cl)
                else plain_send net ss (put_content word_content
                       ((write_msg net cl OP_WRITE_UPDATE filename sn)\<lparr>m_word_index := word_idx\<rparr>)) (
                     await net ss (error_line ''No response from Storage Server'') (\<lambda>update_response cl.
                     if m_error_code update_response = ERR_SUCCESS then
                       write_lines net filename sn ss (updates_made + 1) lines (print (CHECK @ ln (m_content update_response)) cl)
                     else
                       write_lines net filename sn ss updates_made lines (print (CROSS @ error_line (m_content update_response)) cl))) cl)"

definition session_banner :: "char list" where
  "session_banner =
     NL # ln ''WRITE Session Active'' @ ln (DOUBLE_RULE 63) @
     ln ''Enter word updates in format: <word_index> <word_content>'' @
     ln ([CHR ''T'', CHR ''y'', CHR ''p'', CHR ''e'', CHR '' ''] @ quoted ''ETIRW'' @ '' to commit changes, or '' @ quoted ''CANCEL'' @ '' to abort'') @
     ln (DOUBLE_RULE 63)"

definition cmd_write :: "'w Net \<Rightarrow> cstring \<Rightarrow> cstring \<Rightarrow> 'w cmd" where
  "cmd_write net filename sentence_num_str cl =
     (if filename = [] then
        Some (print (error_line ''Filename required'' @ ln ''Usage: WRITE <filename> <sentence_num>'') cl)
      else if sentence_num_str = [] then
        Some (print (error_line ''Sentence number required'' @ ln ''Usage: WRITE <filename> <sentence_num>'') cl)
      else case atoi sentence_num_str of
        None \<Rightarrow> None
      | Some sn \<Rightarrow>
          if sn < 0 then Some (print (error_line ''Invalid sentence number'') cl)
          else open_ns net no_ns2 (\<lambda>s.
            plain_send net s (write_msg net cl OP_WRITE filename sn) (
            await net s (error_line ''No response from Name Server'') (\<lambda>response cl.
            let cl = close_socket net s cl
            in if m_error_code response \<noteq> ERR_SUCCESS then Some (print (error_line (m_content response)) cl)
               else if unterminated response then None
               else open_server net (m_ss_ip response) (m_ss_port response) (error_line ''Failed to connect to Storage Server'') (\<lambda>ss.
                 plain_send net ss (write_msg net cl OP_WRITE_START filename sn) (
                 await net ss (error_line ''No response from Storage Server'') (\<lambda>start_response cl.
                 if m_error_code start_response \<noteq> ERR_SUCCESS then finish net ss (error_line (m_content start_response)) cl
                 else write_lines net filename sn ss 0 (cl_stdin cl)
                   (print (ln (''Lock acquired! '' @ m_content start_response) @ session_banner) cl))))
                 (print (ln (''Connecting to Storage Server at '' @ m_ss_ip response @ '':'' @ show_int (m_ss_port response) @ ''...'')) cl)))) cl)"

section \<open>The command loop\<close>

definition help_lines :: "cstring list" where
  "help_lines =
    [[],
     ''Available Commands:'',
     DOUBLE_RULE 72,
     ''  File Operations:'',
     ''    CREATE <filename>                - Create a new file'',
     ''    READ <filename>                  - Read and display file content'',
     ''    WRITE <filename> <sentence_num>  - Edit words in a sentence'',
     ''    DELETE <filename>                - Delete a file'',
     ''    UNDO <filename>                  - Restore file to previous state'',
     ''    STREAM <filename>                - Stream file content word-by-word'',
     ''    EXEC <filename>                  - Execute file content as command'',
     [],
     ''  File Information:'',
     ''    VIEW                             - List files you can access'',
     ''    VIEW -a                          - List all files in system'',
     ''    VIEW -l                          - List accessible files with details'',
     ''    VIEW -al                         - List all files with details'',
     ''    INFO <filename>                  - Show detailed file information'',
     [],
     ''  Access Control:'',
     ''    ADDACCESS -R <filename> <user>   - Grant read access to user'',
     ''    ADDACCESS -W <filename> <user>   - Grant write access to user'',
     ''    REMACCESS <filename> <user>      - Revoke all access from user'',
     [],
     ''  User Management:'',
     ''    LIST                             - Show all registered users'',
     [],
     ''  Additional - Hierarchical Folders:'',
     ''    CREATEFOLDER <foldername>        - Create a new folder'',
     ''    MOVE <filename> <foldername>     - Move file to folder'',
     ''    VIEWFOLDER <foldername>          - List files in folder'',
     [],
     ''  Additional - Checkpoints:'',
     ''    CHECKPOINT <file> <tag>          - Create a checkpoint'',
     ''    VIEWCHECKPOINT <file> <tag>      - View checkpoint content'',
     ''    REVERT <file> <tag>              - Revert to checkpoint'',
     ''    LISTCHECKPOINTS <file>           - List all checkpoints'',
     [],
     ''  Additional - Access Requests:'',
     ''    REQUESTACCESS <filename>         - Request access to file'',
     ''    VIEWREQUESTS <filename>          - View pending requests (owner)'',
     ''    APPROVEREQUEST <file> <user>     - Approve access request'',
     ''    DENYREQUEST <file> <user>        - Deny access request'',
     [],
     ''  Additional - Content Search:'',
     ''    SEARCH <word>                    - Search for files containing word'',
     [],
     ''  General:'',
     ''    HELP                             - Show this help message'',
     ''    EXIT                             - Exit the client'',
     DOUBLE_RULE 72,
     [],
     ''Examples:'',
     ''  CREATE mydoc.txt'',
     ''  READ mydoc.txt'',
     ''  WRITE mydoc.txt 0'',
     ''  UNDO mydoc.txt'',
     ''  STREAM mydoc.txt'',
     ''  EXEC script.sh'',
     ''  VIEW -l'',
     ''  INFO mydoc.txt'',
     ''  ADDACCESS -R mydoc.txt alice'',
     ''  LIST'',
     ''  CREATEFOLDER reports'',
     ''  MOVE mydoc.txt reports'',
     ''  CHECKPOINT mydoc.txt v1'',
     ''  REQUESTACCESS mydoc.txt'',
     ''  SEARCH hello'',
     []]"

definition cmd_help :: "'w cmd" where
  "cmd_help cl = Some (print (concat (map ln help_lines)) cl)"

text \<open>One command but EXIT and QUIT.\<close>

definition run_command :: "'w Net \<Rightarrow> cstring \<Rightarrow> cstring \<Rightarrow> cstring \<Rightarrow> cstring \<Rightarrow> 'w cmd" where
  "run_command net command arg1 arg2 arg3 =
     (if command = ''CREATE'' then cmd_create net arg1
      else if command = ''READ'' then cmd_read net arg1
      else if command = ''WRITE'' then cmd_write net arg1 arg2
      else if command = ''DELETE'' then cmd_delete net arg1
      else if command = ''UNDO'' then cmd_undo net arg1
      else if command = ''STREAM'' then cmd_stream net arg1
      else if command = ''EXEC'' then cmd_exec net arg1
      else if command = ''LIST'' then cmd_list net
      else if command = ''VIEW'' then cmd_view net arg1
      else if command = ''INFO'' then cmd_info net arg1
      else if command = ''ADDACCESS'' then cmd_addaccess net arg1 arg2 arg3
      else if command = ''REMACCESS'' then cmd_remaccess net arg1 arg2
      else if command = ''CREATEFOLDER'' then cmd_createfolder net arg1
      else if command = ''MOVE'' then cmd_move net arg1 arg2
      else if command = ''VIEWFOLDER'' then cmd_viewfolder net arg1
      else if command = ''CHECKPOINT'' then cmd_checkpoint net arg1 arg2
      else if command = ''VIEWCHECKPOINT'' then cmd_viewcheckpoint net arg1 arg2
      else if command = ''REVERT'' then cmd_revert net arg1 arg2
      else if command = ''LISTCHECKPOINTS'' then cmd_listcheckpoints net arg1
      else if command = ''REQUESTACCESS'' then cmd_requestaccess net arg1
      else if command = ''VIEWREQUESTS'' then cmd_viewrequests net arg1
      else if command = ''APPROVEREQUEST'' then cmd_approverequest net arg1 arg2
      else if command = ''DENYREQUEST'' then cmd_denyrequest net arg1 arg2
      else if command = ''SEARCH'' then cmd_search net arg1
      else if command = ''HELP'' then cmd_help
      else (\<lambda>cl. Some (print (ln (''Unknown command: '' @ command) @ ln (''Type '' @ quoted ''HELP'' @ '' for list of commands'')) cl)))"

section \<open>Commands only consume input\<close>

named_theorems quiet_rules \<open>commands that leave the client's name alone and type no more lines\<close>

definition quieter :: "'w Client \<Rightarrow> 'w Client \<Rightarrow> bool" where
  "quieter cl cl' \<longleftrightarrow> length (cl_stdin cl') \<le> length (cl_stdin cl) \<and> cl_username cl' = cl_username cl \<and>
     cl_local_ip cl' = cl_local_ip cl"

definition quiet :: "'w Client \<Rightarrow> 'w Client option \<Rightarrow> bool" where
  "quiet cl r \<longleftrightarrow> (\<forall>cl'. r = Some cl' \<longrightarrow> quieter cl cl')"

lemma print_sel [simp]:
  "cl_stdin (print s cl) = cl_stdin cl" "cl_username (print s cl) = cl_username cl"
  "cl_local_ip (print s cl) = cl_local_ip cl" "cl_world (print s cl) = cl_world cl"
  "cl_stdout (print s cl) = cl_stdout cl @ s"
  by (simp_all add: print_def)

lemma close_socket_sel [simp]:
  "cl_stdin (close_socket net s cl) = cl_stdin cl" "cl_username (close_socket net s cl) = cl_username cl"
  "cl_local_ip (close_socket net s cl) = cl_local_ip cl" "cl_world (close_socket net s cl) = nt_close net s (cl_world cl)"
  "cl_stdout (close_socket net s cl) = cl_stdout cl"
  by (simp_all add: close_socket_def)

lemma quieter_simps [simp]:
  "quieter cl (print s cl') \<longleftrightarrow> quieter cl cl'" "quieter cl (close_socket net n cl') \<longleftrightarrow> quieter cl cl'"
  "quieter cl (cl'\<lparr>cl_world := w\<rparr>) \<longleftrightarrow> quieter cl cl'" "quieter cl cl"
  by (simp_all add: quieter_def print_def close_socket_def)

lemma quieter_shorter: "quieter cl cl' \<Longrightarrow> length lines \<le> length (cl_stdin cl') \<Longrightarrow> quieter cl (cl'\<lparr>cl_stdin := lines\<rparr>)"
  by (simp add: quieter_def)

lemma quiet_Some [simp]: "quiet cl (Some cl') \<longleftrightarrow> quieter cl cl'"
  and quiet_None [simp]: "quiet cl None"
  by (simp_all add: quiet_def)

lemma quiet_finish [simp]: "quiet cl (finish net s txt cl') \<longleftrightarrow> quieter cl cl'"
  by (simp add: finish_def)

lemma quiet_open [quiet_rules]:
  assumes "quieter cl cl'" and "\<And>s cl'. quieter cl cl' \<Longrightarrow> quiet cl (k s cl')"
  shows "quiet cl (open_server net ip port err k cl')" and "quiet cl (open_ns net err k cl')"
  using assms by (simp_all add: open_server_def open_ns_def Let_def split: prod.split)

lemma quiet_send [quiet_rules]:
  assumes "quieter cl cl'" and "\<And>cl'. quieter cl cl' \<Longrightarrow> quiet cl (k cl')"
  shows "quiet cl (checked_send net s msg err k cl')" and "quiet cl (plain_send net s msg k cl')"
  using assms by (simp_all add: checked_send_def plain_send_def Let_def split: prod.split)

lemma quiet_await [quiet_rules]:
  assumes "quieter cl cl'" and "\<And>m cl'. quieter cl cl' \<Longrightarrow> quiet cl (k m cl')"
  shows "quiet cl (await net s err k cl')"
  using assms by (simp add: await_def Let_def split: prod.split)

lemma quiet_ns_command [quiet_rules]: "quiet cl (ns_command net msg err txt cl)"
  unfolding ns_command_def by (intro quiet_rules) simp_all

lemma quiet_ask_server [quiet_rules]: "quieter cl cl' \<Longrightarrow> quiet cl (ask_server net msg txt m cl')"
  unfolding ask_server_def by (intro quiet_rules) simp_all

lemma quiet_locate [quiet_rules]:
  assumes "\<And>m cl'. quieter cl cl' \<Longrightarrow> quiet cl (k m cl')"
  shows "quiet cl (locate net filename k cl)"
  unfolding locate_def using assms by (intro quiet_rules) (simp_all add: Let_def)

lemma quieter_trans: "quieter a b \<Longrightarrow> quieter b c \<Longrightarrow> quieter a c"
  by (simp add: quieter_def)

lemma stream_words_quieter:
  assumes "stream_words net s n cl = Some r"
  shows "quieter cl r"
proof (rule stream_words.raw_induct [where P = "\<lambda>net s n cl r. quieter cl r", OF _ assms])
  fix rec :: "'a Net \<Rightarrow> int \<Rightarrow> nat \<Rightarrow> 'a Client \<Rightarrow> 'a Client option" and net s n cl r
  assume ih: "\<And>net s n cl r. rec net s n cl = Some r \<Longrightarrow> quieter cl r"
    and run: "(let ((bytes, word_msg), w) = nt_receive net s (cl_world cl); cl = cl\<lparr>cl_world := w\<rparr>
      in if bytes \<le> 0 then finish net s (NL # error_line ''Connection lost during streaming'') cl
         else if m_operation word_msg = OP_STOP then
           finish net s (NL # ln RULE @ CHECK @ ln (''Stream complete: '' @ show_nat n @ '' words received'')) cl
         else if m_error_code word_msg \<noteq> ERR_SUCCESS then finish net s (NL # error_line (m_content word_msg)) cl
         else rec net s (n + 1)
           (print (m_content word_msg @ '' '' @ (if (n + 1) mod 10 = 0 then [NL] else [])) cl)) = Some r"
  obtain b m w where rcv: "nt_receive net s (cl_world cl) = ((b, m), w)" by (metis surj_pair)
  have on: "quieter cl r" if "rec net s (Suc n) (print t (cl\<lparr>cl_world := w\<rparr>)) = Some r" for t
    using quieter_trans [OF _ ih [OF that], of cl] by simp
  show "quieter cl r" using run rcv on by (auto simp: Let_def finish_def split: if_splits)
qed

lemma quiet_stream [quiet_rules]: "quieter cl cl' \<Longrightarrow> quiet cl (stream_words net s n cl')"
  by (auto simp: quiet_def intro: quieter_trans stream_words_quieter)

lemma quiet_write_lines:
  "quieter cl cl' \<Longrightarrow> length lines \<le> length (cl_stdin cl) \<Longrightarrow> quiet cl (write_lines net f sn ss u lines cl')"
proof (induction lines arbitrary: u cl')
  case Nil
  then show ?case by (simp add: quieter_def)
next
  case (Cons line lines)
  let ?cl = "print (NL # ''write> '') (cl'\<lparr>cl_stdin := lines\<rparr>)"
  have here: "quieter cl ?cl" using Cons.prems by (simp add: quieter_def)
  have ih: "\<And>u cl'. quieter cl cl' \<Longrightarrow> quiet cl (write_lines net f sn ss u lines cl')" using Cons by simp
  have "quiet cl (plain_send net ss msg (await net ss err (\<lambda>m. finish net ss (a m))) ?cl)" for msg err a
    by (intro quiet_rules here) simp_all
  moreover have "quiet cl (plain_send net ss msg (await net ss err (\<lambda>m cl. if ok m then write_lines net f sn ss u' lines (print (a m) cl)
      else write_lines net f sn ss u'' lines (print (b m) cl))) ?cl)" for msg err ok u' u'' a b
    by (intro quiet_rules here) (simp_all add: ih)
  ultimately show ?case using here by (simp add: Let_def ih split: option.split)
qed

lemma quiet_write [quiet_rules]: "quieter cl cl' \<Longrightarrow> quiet cl (write_lines net f sn ss u (cl_stdin cl') (print t cl'))"
  by (rule quiet_write_lines) (simp_all add: quieter_def)

lemmas ns_commands =
  cmd_create_def cmd_delete_def cmd_list_def cmd_view_def cmd_info_def cmd_addaccess_def cmd_remaccess_def cmd_exec_def
  cmd_createfolder_def cmd_move_def cmd_viewfolder_def cmd_requestaccess_def cmd_viewrequests_def cmd_approverequest_def
  cmd_denyrequest_def cmd_search_def cmd_help_def

lemmas ss_commands =
  cmd_read_def cmd_write_def cmd_undo_def cmd_stream_def cmd_checkpoint_def cmd_viewcheckpoint_def cmd_revert_def
  cmd_listcheckpoints_def

lemma ns_commands_quiet:
  "quiet cl (cmd_create net a cl)" "quiet cl (cmd_delete net a cl)" "quiet cl (cmd_list net cl)" "quiet cl (cmd_view net a cl)"
  "quiet cl (cmd_info net a cl)" "quiet cl (cmd_addaccess net a b c cl)" "quiet cl (cmd_remaccess net a b cl)"
  "quiet cl (cmd_exec net a cl)" "quiet cl (cmd_createfolder net a cl)" "quiet cl (cmd_move net a b cl)"
  "quiet cl (cmd_viewfolder net a cl)" "quiet cl (cmd_requestaccess net a cl)" "quiet cl (cmd_viewrequests net a cl)"
  "quiet cl (cmd_approverequest net a b cl)" "quiet cl (cmd_denyrequest net a b cl)" "quiet cl (cmd_search net a cl)"
  "quiet cl (cmd_help cl)"
  unfolding ns_commands
  by (simp_all split: option.split) (intro quiet_rules impI conjI allI; simp split: option.split; intro quiet_rules impI conjI allI; simp)+

lemma ss_commands_quiet:
  "quiet cl (cmd_read net a cl)" "quiet cl (cmd_write net a b cl)" "quiet cl (cmd_undo net a cl)" "quiet cl (cmd_stream net a cl)"
  "quiet cl (cmd_checkpoint net a b cl)" "quiet cl (cmd_viewcheckpoint net a b cl)" "quiet cl (cmd_revert net a b cl)"
  "quiet cl (cmd_listcheckpoints net a cl)"
  unfolding ss_commands Let_def
  by (auto split: option.split intro!: quiet_rules)

lemma run_command_quiet: "quiet cl (run_command net c a1 a2 a3 cl)"
  by (simp add: run_command_def ns_commands_quiet ss_commands_quiet)

section \<open>The main loop\<close>

text \<open>The loop of \<open>main\<close>: it ends at the end of the input, or at EXIT or QUIT.\<close>

function main_loop :: "'w Net \<Rightarrow> 'w Client \<Rightarrow> 'w Client option" where
  "main_loop net cl =
     (case cl_stdin cl of
        [] \<Rightarrow> Some (print ''docs++> '' cl)
      | line # lines \<Rightarrow>
          let cl = print ''docs++> '' (cl\<lparr>cl_stdin := lines\<rparr>)
          in case parse_input (cstr_of line) of
               None \<Rightarrow> main_loop net cl
             | Some (command, arg1, arg2, arg3) \<Rightarrow>
                 if command = [] then main_loop net cl
                 else if command = ''EXIT'' \<or> command = ''QUIT'' then
                   Some (print (ln (''Goodbye, '' @ cl_username cl @ ''!'')) cl)
                 else case run_command net command arg1 arg2 arg3 cl of
                   None \<Rightarrow> None
                 | Some cl \<Rightarrow> main_loop net (print [NL] cl))"
  by pat_completeness auto
termination
proof (relation "measure (\<lambda>(net, cl). length (cl_stdin cl))", goal_cases)
  case (4 net cl line lines cl1 p c q a1 r a2 a3 cl2)
  then have "quiet cl1 (Some cl2)" using run_command_quiet by metis
  with 4 show ?case by (auto simp: quieter_def)
qed auto

declare main_loop.simps [simp del]

text \<open>The rest of the input, line by line as \<open>fgets (input, sizeof (input), stdin)\<close> delivers it.\<close>

function input_lines :: "char list \<Rightarrow> char list list" where
  "input_lines s =
     (if s = [] then [] else fst (fgets MAX_INPUT s) # input_lines (snd (fgets MAX_INPUT s)))"
  by pat_completeness auto
termination
  by (relation "measure length") (auto simp: fgets_def Let_def)

declare input_lines.simps [simp del]

definition banner :: "char list" where
  "banner =
     NL # ln ([CHR 0xE2, CHR 0x95, CHR 0x94] @ DOUBLE_RULE 60 @ [CHR 0xE2, CHR 0x95, CHR 0x97]) @
     ln (BAR2 @ ''                    Docs++ Client                           '' @ BAR2) @
     ln (BAR2 @ ''         Distributed Document Collaboration System          '' @ BAR2) @
     ln ([CHR 0xE2, CHR 0x95, CHR 0x9A] @ DOUBLE_RULE 60 @ [CHR 0xE2, CHR 0x95, CHR 0x9D]) @ [NL]"

text \<open>\<open>main\<close>: the exit status and the final state; \<open>ip\<close> is what \<open>get_local_ip\<close> found.\<close>

definition client_main :: "'w Net \<Rightarrow> cstring \<Rightarrow> char list \<Rightarrow> 'w \<Rightarrow> (int \<times> 'w Client) option" where
  "client_main net ip input w =
     (let cl = \<lparr>cl_username = [], cl_local_ip = [], cl_stdin = [], cl_stdout = banner @ ''Enter your username: '', cl_world = w\<rparr>
      in if input = [] then Some (1, print (ln ''Error reading username'') cl)
         else let (line, rest) = fgets MAX_USERNAME_LEN input;
                  cl = cl\<lparr>cl_username := trim (cstr_of line), cl_stdin := input_lines rest\<rparr>
         in if cl_username cl = [] then Some (1, print (error_line ''Username cannot be empty'') cl)
         else case register_with_nameserver net (print (ln ''Connecting to Name Server...'') (cl\<lparr>cl_local_ip := ip\<rparr>)) of
           (r, cl) \<Rightarrow>
             if r < 0 then Some (1, print (ln ''Failed to connect to Name Server. Exiting.'') cl)
             else map_option (\<lambda>cl. (0, cl))
               (main_loop net (print (NL # ln (''Type '' @ quoted ''HELP'' @ '' for list of commands'') @ [NL]) cl)))"

end
