(* ===== verification/Client_Contract.thy ===== *)
theory Client_Contract
  imports Client
begin

text \<open>
  What a client relies on and what it gives in return. The contract \<open>server_side\<close> is that of the
  sockets: a new descriptor is not one in use, \<open>close\<close> gives it back, a message of the right shape
  may be sent on an open one, what comes in has the right shape, and some invariant of the
  servers survives each of these. A client keeps the invariant, sends only such messages, and
  leaves no descriptor behind, whatever it is told to do.
\<close>

text \<open>
  What the client of a user sends: a message within its fields, in the user's name, that is not a
  storage server's registration.
\<close>

definition client_message :: "cstring \<Rightarrow> Message \<Rightarrow> bool" where
  "client_message user m \<longleftrightarrow> msg_wf m \<and> m_operation m \<noteq> OP_REGISTER_SS \<and> m_sender_id m = cbuf MAX_USERNAME_LEN user"

locale server_side =
  fixes net :: "'w Net"
    and good :: "'w \<Rightarrow> bool"
    and opens :: "'w \<Rightarrow> int set"
    and user :: cstring
  assumes socket: "good w \<Longrightarrow> nt_socket net w = (s, w') \<Longrightarrow>
      good w' \<and> (if s < 0 then opens w' = opens w else s \<notin> opens w \<and> opens w' = insert s (opens w))"
    and connect: "good w \<Longrightarrow> s \<in> opens w \<Longrightarrow> nt_connect net s ip port w = (r, w') \<Longrightarrow> good w' \<and> opens w' = opens w"
    and send: "good w \<Longrightarrow> s \<in> opens w \<Longrightarrow> client_message user m \<Longrightarrow> nt_send net s m w = (r, w') \<Longrightarrow> good w' \<and> opens w' = opens w"
    and receive: "good w \<Longrightarrow> s \<in> opens w \<Longrightarrow> nt_receive net s w = ((r, m), w') \<Longrightarrow> good w' \<and> opens w' = opens w \<and> msg_wf m"
    and close: "good w \<Longrightarrow> s \<in> opens w \<Longrightarrow> good (nt_close net s w) \<and> opens (nt_close net s w) = opens w - {s}"

text \<open>The user's client at a point where the descriptors \<open>S\<close> are in use, and a command that ends there.\<close>

definition at_rest :: "('w \<Rightarrow> bool) \<Rightarrow> ('w \<Rightarrow> int set) \<Rightarrow> cstring \<Rightarrow> int set \<Rightarrow> 'w Client \<Rightarrow> bool" where
  "at_rest good opens user S cl \<longleftrightarrow> good (cl_world cl) \<and> opens (cl_world cl) = S \<and> cl_username cl = user"

definition ends_at :: "('w \<Rightarrow> bool) \<Rightarrow> ('w \<Rightarrow> int set) \<Rightarrow> cstring \<Rightarrow> int set \<Rightarrow> 'w Client option \<Rightarrow> bool" where
  "ends_at good opens user S r \<longleftrightarrow> (\<forall>cl. r = Some cl \<longrightarrow> at_rest good opens user S cl)"

named_theorems clean_rules \<open>conversations that close what they open\<close>

lemma at_rest_print [simp]: "at_rest good opens user S (print t cl) \<longleftrightarrow> at_rest good opens user S cl"
  by (simp add: at_rest_def)

lemma at_rest_stdin [simp]: "at_rest good opens user S (cl\<lparr>cl_stdin := l\<rparr>) \<longleftrightarrow> at_rest good opens user S cl"
  by (simp add: at_rest_def)

lemma ends_at_simps [simp]: "ends_at good opens user S (Some cl) \<longleftrightarrow> at_rest good opens user S cl" "ends_at good opens user S None"
  by (simp_all add: ends_at_def)

lemma user_msg_same [simp]:
  "user_msg net (cl\<lparr>cl_world := w\<rparr>) op = user_msg net cl op" "user_msg net (print t cl) op = user_msg net cl op"
  by (simp_all add: user_msg_def)

text \<open>The messages of a client fit their fields and carry its user, whatever was typed.\<close>

lemma client_messages [simp]:
  assumes "op \<noteq> OP_REGISTER_SS" and "cl_username cl = user"
  shows "client_message user (user_msg net cl op)" "client_message user (file_msg net cl op f)" "client_message user (decide_msg net cl op f t)"
    "client_message user (put_content t (user_msg net cl op))" "client_message user (write_msg net cl op f n)"
    "client_message user (put_content t (write_msg net cl op f n\<lparr>m_word_index := i\<rparr>))" "client_message user (tag_msg net cl op f t)"
  using assms
  by (simp_all add: user_msg_def file_msg_def decide_msg_def write_msg_def tag_msg_def put_content_def client_message_def
      msg_wf_def INIT_MESSAGE_def length_cbuf_less)

lemma client_message_updates [simp]:
  assumes "client_message user m"
  shows "client_message user (m\<lparr>m_folder_name := cbuf 256 s\<rparr>)" "client_message user (m\<lparr>m_target_user := cbuf 64 s\<rparr>)"
    "client_message user (m\<lparr>m_view_flags := i\<rparr>)" "client_message user (m\<lparr>m_target_user := cbuf 64 s, m_access_type := i\<rparr>)"
    "client_message user (m\<lparr>m_ip_address := cbuf 16 s\<rparr>)" "client_message user (m\<lparr>m_ip_address := cbuf 16 s, m_nm_port := i\<rparr>)"
  using assms by (simp_all add: client_message_def msg_wf_def length_cbuf_less)

lemma close_socket_user [simp]: "cl_username (close_socket net s cl) = cl_username cl"
  by (simp add: close_socket_def)

text \<open>The user name read from the first line of the input.\<close>

definition login :: "char list \<Rightarrow> cstring" where
  "login input = trim (cstr_of (fst (fgets MAX_USERNAME_LEN input)))"

section \<open>Conversations under the contract\<close>

context server_side
begin

abbreviation rest :: "int set \<Rightarrow> 'w Client \<Rightarrow> bool" where
  "rest S cl \<equiv> at_rest good opens user S cl"

abbreviation ends :: "int set \<Rightarrow> 'w Client option \<Rightarrow> bool" where
  "ends S r \<equiv> ends_at good opens user S r"

lemma rest_user: "rest S cl \<Longrightarrow> cl_username cl = user"
  by (simp add: at_rest_def)

lemma rest_close: "rest (insert s S) cl \<Longrightarrow> s \<notin> S \<Longrightarrow> rest S (close_socket net s cl)"
  using close [of "cl_world cl" s] by (auto simp: at_rest_def)

lemma finish_clean [clean_rules]: "rest (insert s S) cl \<Longrightarrow> s \<notin> S \<Longrightarrow> ends S (finish net s t cl)"
  by (simp add: finish_def rest_close)

lemma open_clean [clean_rules]:
  assumes "rest S cl" and "\<And>s cl. rest (insert s S) cl \<Longrightarrow> s \<notin> S \<Longrightarrow> ends S (k s cl)"
  shows "ends S (open_server net ip port err k cl)" and "ends S (open_ns net err k cl)"
proof -
  show all: "ends S (open_server net ip port err k cl)" for ip port
  proof -
    obtain s w where s: "nt_socket net (cl_world cl) = (s, w)" by (cases "nt_socket net (cl_world cl)")
    note sock = socket [OF _ s, of]
    show ?thesis
    proof (cases "s < 0")
      case True
      with assms(1) sock s show ?thesis by (simp add: open_server_def at_rest_def)
    next
      case False
      obtain r w' where r: "nt_connect net s ip port w = (r, w')" by (cases "nt_connect net s ip port w")
      from False assms(1) sock have w: "good w" "s \<notin> S" "opens w = insert s S" by (simp_all add: at_rest_def)
      from connect [OF w(1) _ r] w rest_user [OF assms(1)] have "rest (insert s S) (cl\<lparr>cl_world := w'\<rparr>)" by (simp add: at_rest_def)
      with w(2) assms(2) [OF this w(2)] False s r show ?thesis
        by (simp add: open_server_def Let_def rest_close)
    qed
  qed
  show "ends S (open_ns net err k cl)" unfolding open_ns_def by (rule all)
qed

lemma send_clean [clean_rules]:
  assumes "rest (insert s S) cl" and "s \<notin> S" and "client_message user m" and "\<And>cl. rest (insert s S) cl \<Longrightarrow> ends S (k cl)"
  shows "ends S (checked_send net s m err k cl)" and "ends S (plain_send net s m k cl)"
proof -
  obtain r w where r: "nt_send net s m (cl_world cl) = (r, w)" by (cases "nt_send net s m (cl_world cl)")
  have "rest (insert s S) (cl\<lparr>cl_world := w\<rparr>)"
    using send [OF _ _ assms(3) r] assms(1) by (simp add: at_rest_def)
  with r assms(2) assms(4) [OF this] show "ends S (checked_send net s m err k cl)" "ends S (plain_send net s m k cl)"
    by (simp_all add: checked_send_def plain_send_def Let_def rest_close)
qed

lemma receive_rest: "rest S cl \<Longrightarrow> s \<in> S \<Longrightarrow> nt_receive net s (cl_world cl) = ((r, m), w) \<Longrightarrow> rest S (cl\<lparr>cl_world := w\<rparr>) \<and> msg_wf m"
  using receive [of "cl_world cl" s r m w] by (simp add: at_rest_def)

lemma drain_clean [clean_rules]:
  assumes "rest (insert s S) cl" and "s \<notin> S"
  shows "rest S (close_socket net s (print t cl\<lparr>cl_world := snd (nt_receive net s (cl_world cl))\<rparr>))"
proof -
  obtain r m w where r: "nt_receive net s (cl_world cl) = ((r, m), w)" by (metis surj_pair)
  with receive_rest [OF assms(1) _ r] have "rest (insert s S) (print t cl\<lparr>cl_world := w\<rparr>)" by (simp add: at_rest_def)
  then show ?thesis using r assms(2) by (simp add: rest_close)
qed

lemma await_clean [clean_rules]:
  assumes "rest (insert s S) cl" and "s \<notin> S" and "\<And>m cl. rest (insert s S) cl \<Longrightarrow> msg_wf m \<Longrightarrow> ends S (k m cl)"
  shows "ends S (await net s err k cl)"
proof -
  obtain r m w where r: "nt_receive net s (cl_world cl) = ((r, m), w)" by (metis surj_pair)
  with receive_rest [OF assms(1) _ r] have "rest (insert s S) (cl\<lparr>cl_world := w\<rparr>)" "msg_wf m" by simp_all
  with r assms(2) assms(3) [OF this] show ?thesis by (simp add: await_def Let_def rest_close)
qed

lemma ns_command_clean [clean_rules]:
  assumes "rest S cl" and "client_message user m"
  shows "ends S (ns_command net m err t cl)"
  unfolding ns_command_def by (intro clean_rules assms) (simp_all add: rest_close)

lemma ask_server_clean [clean_rules]:
  assumes "rest S cl" and "client_message user m"
  shows "ends S (ask_server net m t route cl)"
  unfolding ask_server_def by (intro clean_rules assms) (simp_all add: rest_close)

lemma locate_clean [clean_rules]:
  assumes "rest S cl" and "\<And>m cl. rest S cl \<Longrightarrow> ends S (k m cl)"
  shows "ends S (locate net f k cl)"
  unfolding locate_def by (intro clean_rules assms(1)) (simp_all add: assms(2) rest_user [OF assms(1)] rest_close Let_def)

lemma stream_words_clean [clean_rules]:
  assumes "rest (insert s S) cl" and "s \<notin> S"
  shows "ends S (stream_words net s n cl)"
proof -
  have "nt = net \<longrightarrow> s' = s \<longrightarrow> rest (insert s S) cl \<longrightarrow> rest S r" if "stream_words nt s' n cl = Some r" for nt s' n cl r
  proof (rule stream_words.raw_induct [where P = "\<lambda>nt s' n cl r. nt = net \<longrightarrow> s' = s \<longrightarrow> rest (insert s S) cl \<longrightarrow> rest S r", OF _ that])
    fix rec :: "'w Net \<Rightarrow> int \<Rightarrow> nat \<Rightarrow> 'w Client \<Rightarrow> 'w Client option" and nt s' n cl r
    assume ih: "\<And>nt s' n cl r. rec nt s' n cl = Some r \<Longrightarrow> nt = net \<longrightarrow> s' = s \<longrightarrow> rest (insert s S) cl \<longrightarrow> rest S r"
      and run: "(let ((bytes, word_msg), w) = nt_receive nt s' (cl_world cl); cl = cl\<lparr>cl_world := w\<rparr>
        in if bytes \<le> 0 then finish nt s' (NL # error_line ''Connection lost during streaming'') cl
           else if m_operation word_msg = OP_STOP then
             finish nt s' (NL # ln RULE @ CHECK @ ln (''Stream complete: '' @ show_nat n @ '' words received'')) cl
           else if m_error_code word_msg \<noteq> ERR_SUCCESS then finish nt s' (NL # error_line (m_content word_msg)) cl
           else rec nt s' (n + 1)
             (print (m_content word_msg @ '' '' @ (if (n + 1) mod 10 = 0 then [NL] else [])) cl)) = Some r"
    show "nt = net \<longrightarrow> s' = s \<longrightarrow> rest (insert s S) cl \<longrightarrow> rest S r"
    proof (intro impI)
      assume same: "nt = net" "s' = s" and here: "rest (insert s S) cl"
      obtain b m w where rcv: "nt_receive net s (cl_world cl) = ((b, m), w)" by (metis surj_pair)
      have on: "rest (insert s S) (cl\<lparr>cl_world := w\<rparr>)" using receive_rest [OF here _ rcv] by simp
      have "rest S r" if "rec net s (Suc n) (print t (cl\<lparr>cl_world := w\<rparr>)) = Some r" for t
        using ih [OF that] on by simp
      moreover have "rest S r" if "finish net s t (cl\<lparr>cl_world := w\<rparr>) = Some r" for t
        using finish_clean [OF on assms(2), of t] that by simp
      ultimately show "rest S r" using run rcv same by (auto simp: Let_def split: if_splits)
    qed
  qed
  with assms(1) show ?thesis by (auto simp: ends_at_def)
qed

lemma write_lines_clean:
  "rest (insert s S) cl \<Longrightarrow> s \<notin> S \<Longrightarrow> ends S (write_lines net f sn s u lines cl)"
proof (induction lines arbitrary: u cl)
  case Nil
  then show ?case by (simp add: clean_rules)
next
  case (Cons line lines)
  let ?cl = "print (NL # ''write> '') (cl\<lparr>cl_stdin := lines\<rparr>)"
  have here: "rest (insert s S) ?cl" using Cons.prems by simp
  note me = rest_user [OF here]
  note ih = Cons.IH [OF _ Cons.prems(2)]
  have "ends S (plain_send net s (write_msg net ?cl OP_WRITE_COMMIT f sn) (await net s err (\<lambda>m. finish net s (a m))) ?cl)" for err a
    by (intro clean_rules here Cons.prems(2)) (simp_all add: me [simplified])
  moreover have "ends S (plain_send net s (put_content t (write_msg net ?cl OP_WRITE_UPDATE f sn\<lparr>m_word_index := i\<rparr>))
      (await net s err (\<lambda>m cl. if ok m then write_lines net f sn s u' lines (print (a m) cl)
        else write_lines net f sn s u'' lines (print (b m) cl))) ?cl)" for t i err ok u' u'' a b
    by (intro clean_rules here Cons.prems(2)) (simp_all add: ih me [simplified])
  ultimately show ?case using here Cons.prems(2) by (simp add: Let_def ih finish_clean split: option.split)
qed

lemma write_clean [clean_rules]: "rest (insert s S) cl \<Longrightarrow> s \<notin> S \<Longrightarrow> ends S (write_lines net f sn s u lines (print t cl))"
  by (rule write_lines_clean) simp_all

lemma ns_commands_clean:
  assumes "rest S cl"
  shows "ends S (cmd_create net a cl)" "ends S (cmd_delete net a cl)" "ends S (cmd_list net cl)" "ends S (cmd_view net a cl)"
    "ends S (cmd_info net a cl)" "ends S (cmd_addaccess net a b c cl)" "ends S (cmd_remaccess net a b cl)"
    "ends S (cmd_exec net a cl)" "ends S (cmd_createfolder net a cl)" "ends S (cmd_move net a b cl)"
    "ends S (cmd_viewfolder net a cl)" "ends S (cmd_requestaccess net a cl)" "ends S (cmd_viewrequests net a cl)"
    "ends S (cmd_approverequest net a b cl)" "ends S (cmd_denyrequest net a b cl)" "ends S (cmd_search net a cl)"
    "ends S (cmd_help cl)"
  unfolding ns_commands using assms
  by (auto split: option.split intro!: clean_rules simp: rest_close rest_user)

lemma ss_commands_clean:
  assumes "rest S cl"
  shows "ends S (cmd_read net a cl)" "ends S (cmd_write net a b cl)" "ends S (cmd_undo net a cl)" "ends S (cmd_stream net a cl)"
    "ends S (cmd_checkpoint net a b cl)" "ends S (cmd_viewcheckpoint net a b cl)" "ends S (cmd_revert net a b cl)"
    "ends S (cmd_listcheckpoints net a cl)"
  unfolding ss_commands Let_def using assms
  by (auto split: option.split intro!: clean_rules simp: rest_close rest_user)

lemma run_command_clean: "rest S cl \<Longrightarrow> ends S (run_command net c a1 a2 a3 cl)"
  by (simp add: run_command_def ns_commands_clean ss_commands_clean)

lemma main_loop_clean: "rest S cl \<Longrightarrow> ends S (main_loop net cl)"
proof (induction "length (cl_stdin cl)" arbitrary: cl rule: less_induct)
  case less
  show ?case
  proof (cases "cl_stdin cl")
    case Nil
    with less.prems show ?thesis by (simp add: main_loop.simps [of net cl])
  next
    case (Cons line lines)
    let ?cl = "print ''docs++> '' (cl\<lparr>cl_stdin := lines\<rparr>)"
    have rest: "rest S ?cl" and len: "length (cl_stdin ?cl) < length (cl_stdin cl)" using less.prems Cons by simp_all
    have "ends S (case run_command net c a1 a2 a3 ?cl of None \<Rightarrow> None | Some cl \<Rightarrow> main_loop net (print [NL] cl))" for c a1 a2 a3
    proof (cases "run_command net c a1 a2 a3 ?cl")
      case (Some cl')
      from run_command_clean [OF rest, of c a1 a2 a3] Some have clean: "rest S cl'" by simp
      have "quieter ?cl cl'" using run_command_quiet [of ?cl net c a1 a2 a3] Some by simp
      then have "length (cl_stdin (print [NL] cl')) < length (cl_stdin cl)" using len by (simp add: quieter_def)
      from less.hyps [OF this] clean Some show ?thesis by simp
    qed simp
    moreover have "ends S (main_loop net ?cl)" by (rule less.hyps [OF len rest])
    ultimately show ?thesis using rest
      by (simp add: main_loop.simps [of net cl] Cons Let_def split: option.split)
  qed
qed

lemma connected_rest:
  assumes "rest S cl" and "nt_socket net (cl_world cl) = (s, w)" and "\<not> s < 0" and "nt_connect net s ip port w = (r, w')"
  shows "s \<notin> S" and "rest (insert s S) (cl\<lparr>cl_world := w'\<rparr>)"
proof -
  have w: "good w" "s \<notin> S" "opens w = insert s S" using socket [OF _ assms(2)] assms(1,3) by (simp_all add: at_rest_def)
  with connect [OF w(1) _ assms(4)] rest_user [OF assms(1)] show "s \<notin> S" "rest (insert s S) (cl\<lparr>cl_world := w'\<rparr>)" by (simp_all add: at_rest_def)
qed

lemma sent_rest:
  assumes "rest (insert s S) cl" and "client_message user m" and "nt_send net s m (cl_world cl) = (r, w)"
  shows "rest (insert s S) (cl\<lparr>cl_world := w\<rparr>)"
  using send [OF _ _ assms(2,3)] assms(1) by (simp add: at_rest_def)

lemma no_socket_rest: "rest S cl \<Longrightarrow> nt_socket net (cl_world cl) = (s, w) \<Longrightarrow> s < 0 \<Longrightarrow> rest S (cl\<lparr>cl_world := w\<rparr>)"
  using socket [of "cl_world cl" s w] by (simp add: at_rest_def)

lemma register_clean:
  assumes "rest S cl"
  shows "rest S (snd (register_with_nameserver net cl))" and "rest S (unregister_from_nameserver net cl)"
proof -
  let ?reg = "(user_msg net cl OP_REGISTER_CLIENT)\<lparr>m_ip_address := cbuf MAX_IP_LEN (cl_local_ip cl), m_nm_port := 0\<rparr>"
    and ?unreg = "(user_msg net cl OP_UNREGISTER_CLIENT)\<lparr>m_ip_address := cbuf MAX_IP_LEN (cl_local_ip cl)\<rparr>"
  obtain s w where s: "nt_socket net (cl_world cl) = (s, w)" by (cases "nt_socket net (cl_world cl)")
  obtain c w1 where c: "nt_connect net s NS_IP NS_PORT w = (c, w1)" by (cases "nt_connect net s NS_IP NS_PORT w")
  obtain r w2 where r: "nt_send net s ?reg w1 = (r, w2)" by (cases "nt_send net s ?reg w1")
  obtain u w3 where u: "nt_send net s ?unreg w1 = (u, w3)" by (cases "nt_send net s ?unreg w1")
  obtain b m w4 where b: "nt_receive net s w2 = ((b, m), w4)" by (metis surj_pair)
  have "rest S (snd (register_with_nameserver net cl)) \<and> rest S (unregister_from_nameserver net cl)"
  proof (cases "s < 0")
    case True
    with no_socket_rest [OF assms s] s show ?thesis
      by (simp add: register_with_nameserver_def unregister_from_nameserver_def)
  next
    case False
    note on = connected_rest [OF assms s False c]
    have "rest (insert s S) (cl\<lparr>cl_world := w2\<rparr>)" "rest (insert s S) (cl\<lparr>cl_world := w3\<rparr>)"
      using sent_rest [OF on(2), of ?reg r w2] sent_rest [OF on(2), of ?unreg u w3] r u rest_user [OF assms] by simp_all
    moreover from this(1) have "rest (insert s S) (cl\<lparr>cl_world := w4\<rparr>)"
      using receive_rest [of "insert s S" "cl\<lparr>cl_world := w2\<rparr>" s b m w4] b by simp
    ultimately show ?thesis using False s c r u b on
      by (simp add: register_with_nameserver_def unregister_from_nameserver_def Let_def rest_close)
  qed
  then show "rest S (snd (register_with_nameserver net cl))" "rest S (unregister_from_nameserver net cl)" by simp_all
qed

lemma signal_clean: "rest S cl \<Longrightarrow> rest S (signal_handler net cl)"
  by (simp add: signal_handler_def register_clean)

lemma client_main_clean:
  assumes "good w" and "opens w = S" and "user = login input" and "client_main net ip input w = Some (status, cl)"
  shows "good (cl_world cl) \<and> opens (cl_world cl) = S"
proof -
  have start: "rest S \<lparr>cl_username = user, cl_local_ip = ip', cl_stdin = l, cl_stdout = t, cl_world = w\<rparr>" for ip' l t
    using assms(1,2) by (simp add: at_rest_def)
  have run: "rest S r" if "main_loop net c = Some r" "rest S c" for c r
    using main_loop_clean [OF that(2)] that(1) by simp
  show ?thesis
  proof (cases "input = [] \<or> login input = []")
    case True
    with assms show ?thesis by (auto simp: client_main_def login_def Let_def case_prod_beta split: if_splits)
  next
    case False
    note user = assms(3) [unfolded login_def, symmetric]
    have "rest S cl" using assms(4) start False
      by (auto simp: client_main_def user login_def Let_def case_prod_beta split: if_splits intro!: run [where r = cl] register_clean(1))
    then show ?thesis by (simp add: at_rest_def)
  qed
qed

end

end
