(* ===== verification/Client_System.thy ===== *)
theory Client_System
  imports System Client_Contract
begin

text \<open>
  The whole system: the client of \<open>Client\<close> over sockets that lead to the name server of
  \<open>Name_Server\<close> and to the storage servers of \<open>System\<close>. A connection to the name server carries one
  request; one to a storage server carries one request or a write session, whose messages are
  handled as they come. The network loses nothing and a listening server accepts.
\<close>

section \<open>Connections\<close>

datatype Phase = Unconnected | Fresh | Session | Over

record Sock =
  sk_phase :: Phase
  sk_ip :: cstring
  sk_port :: int
  sk_inbox :: "Message list"

record Docs =
  dw_ns :: "Node list NS"
  dw_up :: bool
  dw_socks :: "int \<Rightarrow> Sock option"
  dw_next :: int

text \<open>
  What the first node listening at an address does; \<open>nm\<close> and \<open>cp\<close> serve its two ports. \<open>None\<close>
  means nobody listens, and a node that goes wrong is gone.
\<close>

definition serve_node :: "(Env \<Rightarrow> SS \<Rightarrow> ss_result) \<Rightarrow> Node \<Rightarrow> Message list \<times> Node list" where
  "serve_node serve n =
     (case serve (nd_env n) (nd_ss n) of None \<Rightarrow> ([], []) | Some (st, out) \<Rightarrow> (out, [n\<lparr>nd_ss := st\<rparr>]))"

fun on_port :: "(Env \<Rightarrow> SS \<Rightarrow> ss_result) \<Rightarrow> (Env \<Rightarrow> SS \<Rightarrow> ss_result) \<Rightarrow> cstring \<Rightarrow> int \<Rightarrow> Node list \<Rightarrow>
    (Message list \<times> Node list) option" where
  "on_port nm cp ip port [] = None"
| "on_port nm cp ip port (n # net) =
     (if nd_ip n = ip \<and> nd_nm_port n = port then Some (map_prod id (\<lambda>ns. ns @ net) (serve_node nm n))
      else if nd_ip n = ip \<and> nd_client_port n = port then Some (map_prod id (\<lambda>ns. ns @ net) (serve_node cp n))
      else map_option (map_prod id ((#) n)) (on_port nm cp ip port net))"

text \<open>One message of a connection, as \<open>client_connection\<close> and its loop handle it; and its end.\<close>

definition first_message :: "Message \<Rightarrow> Env \<Rightarrow> SS \<Rightarrow> ss_result" where
  "first_message msg env st =
     (if m_operation msg = OP_WRITE_START then handle_write_session env st msg else client_connection st env msg [])"

definition session_message :: "Message \<Rightarrow> Env \<Rightarrow> SS \<Rightarrow> ss_result" where
  "session_message msg env st =
     (if m_operation msg = OP_WRITE_UPDATE \<or> m_operation msg = OP_WRITE_COMMIT then handle_write_session env st msg
      else Some (st, []))"

definition next_phase :: "Phase \<Rightarrow> Message \<Rightarrow> Phase" where
  "next_phase p msg =
     (if p = Fresh \<and> m_operation msg = OP_WRITE_START \<or> p = Session \<and> m_operation msg = OP_WRITE_UPDATE then Session else Over)"

section \<open>The socket calls\<close>

definition docs_socket :: "Docs \<Rightarrow> int \<times> Docs" where
  "docs_socket w =
     (dw_next w, w\<lparr>dw_socks := (dw_socks w)(dw_next w \<mapsto> \<lparr>sk_phase = Unconnected, sk_ip = [], sk_port = 0, sk_inbox = []\<rparr>),
        dw_next := dw_next w + 1\<rparr>)"

definition is_ns :: "cstring \<Rightarrow> int \<Rightarrow> bool" where
  "is_ns ip port \<longleftrightarrow> ip = NS_IP \<and> port = NS_PORT"

definition listens :: "Docs \<Rightarrow> cstring \<Rightarrow> int \<Rightarrow> bool" where
  "listens w ip port \<longleftrightarrow>
     (if is_ns ip port then dw_up w
      else list_ex (\<lambda>n. nd_ip n = ip \<and> (nd_nm_port n = port \<or> nd_client_port n = port)) (ns_world (dw_ns w)))"

definition docs_connect :: "int \<Rightarrow> cstring \<Rightarrow> int \<Rightarrow> Docs \<Rightarrow> int \<times> Docs" where
  "docs_connect s ip port w =
     (if listens w ip port then
        (0, w\<lparr>dw_socks := (dw_socks w)(s \<mapsto> \<lparr>sk_phase = Fresh, sk_ip = ip, sk_port = port, sk_inbox = []\<rparr>)\<rparr>)
      else (- 1, w))"

text \<open>The name server handles a request; if that goes wrong the server is down.\<close>

definition ns_serves :: "Node list NsEnv \<Rightarrow> Message \<Rightarrow> Docs \<Rightarrow> Message list \<times> Docs" where
  "ns_serves env msg w =
     (if \<not> dw_up w then ([], w)
      else case dispatch (system_env env) (dw_ns w) msg of
             None \<Rightarrow> ([], w\<lparr>dw_up := False\<rparr>)
           | Some (out, ns) \<Rightarrow> (out, w\<lparr>dw_ns := ns\<rparr>))"

definition node_serves :: "(Env \<Rightarrow> SS \<Rightarrow> ss_result) \<Rightarrow> (Env \<Rightarrow> SS \<Rightarrow> ss_result) \<Rightarrow> Sock \<Rightarrow> Docs \<Rightarrow> Message list \<times> Docs" where
  "node_serves nm cp sk w =
     (case on_port nm cp (sk_ip sk) (sk_port sk) (ns_world (dw_ns w)) of
        None \<Rightarrow> ([], w)
      | Some (out, net) \<Rightarrow> (out, w\<lparr>dw_ns := (dw_ns w)\<lparr>ns_world := net\<rparr>\<rparr>))"

definition handled :: "Node list NsEnv \<Rightarrow> Sock \<Rightarrow> Message \<Rightarrow> Docs \<Rightarrow> Message list \<times> Docs" where
  "handled env sk msg w =
     (if is_ns (sk_ip sk) (sk_port sk) then if sk_phase sk = Fresh then ns_serves env msg w else ([], w)
      else if sk_phase sk = Fresh then node_serves (\<lambda>env st. ns_request env st msg) (first_message msg) sk w
      else if sk_phase sk = Session then node_serves (\<lambda>env st. Some (st, [])) (session_message msg) sk w
      else ([], w))"

definition docs_send :: "Node list NsEnv \<Rightarrow> int \<Rightarrow> Message \<Rightarrow> Docs \<Rightarrow> int \<times> Docs" where
  "docs_send env s msg w =
     (case dw_socks w s of
        None \<Rightarrow> (- 1, w)
      | Some sk \<Rightarrow>
          if sk_phase sk = Unconnected then (- 1, w)
          else let (out, w') = handled env sk msg w
               in (5096, w'\<lparr>dw_socks := (dw_socks w')(s \<mapsto>
                    sk\<lparr>sk_phase := next_phase (sk_phase sk) msg, sk_inbox := sk_inbox sk @ out\<rparr>)\<rparr>))"

definition docs_receive :: "int \<Rightarrow> Docs \<Rightarrow> (int \<times> Message) \<times> Docs" where
  "docs_receive s w =
     (case dw_socks w s of
        None \<Rightarrow> ((- 1, zero_message), w)
      | Some sk \<Rightarrow>
          (case sk_inbox sk of
             [] \<Rightarrow> ((0, zero_message), w)
           | m # ms \<Rightarrow> ((5096, m), w\<lparr>dw_socks := (dw_socks w)(s \<mapsto> sk\<lparr>sk_inbox := ms\<rparr>)\<rparr>)))"

definition docs_close :: "int \<Rightarrow> Docs \<Rightarrow> Docs" where
  "docs_close s w =
     (case dw_socks w s of
        None \<Rightarrow> w
      | Some sk \<Rightarrow>
          let w' = (if sk_phase sk = Session then snd (node_serves (\<lambda>env st. Some (st, [])) (\<lambda>env st. write_loop st []) sk w) else w)
          in w'\<lparr>dw_socks := (dw_socks w')(s := None)\<rparr>)"

definition docs_net :: "Node list NsEnv \<Rightarrow> Docs Net" where
  "docs_net env =
     \<lparr>nt_now = ne_now env, nt_socket = docs_socket, nt_connect = docs_connect, nt_send = docs_send env,
      nt_receive = docs_receive, nt_close = docs_close\<rparr>"

lemma docs_net_sel [simp]:
  "nt_now (docs_net env) = ne_now env" "nt_socket (docs_net env) = docs_socket" "nt_connect (docs_net env) = docs_connect"
  "nt_send (docs_net env) = docs_send env" "nt_receive (docs_net env) = docs_receive" "nt_close (docs_net env) = docs_close"
  by (simp_all add: docs_net_def)

section \<open>The contract holds\<close>

definition sends_wf :: "ss_result \<Rightarrow> bool" where
  "sends_wf r \<longleftrightarrow> (case r of None \<Rightarrow> True | Some (st, out) \<Rightarrow> list_all msg_wf out)"

definition docs_inv :: "Docs \<Rightarrow> bool" where
  "docs_inv w \<longleftrightarrow> ns_inv (dw_ns w) \<and> 0 \<le> dw_next w \<and>
     (\<forall>s sk. dw_socks w s = Some sk \<longrightarrow> s < dw_next w \<and> list_all msg_wf (sk_inbox sk))"

lemma on_port_wf:
  assumes "\<And>env st. sends_wf (nm env st)" and "\<And>env st. sends_wf (cp env st)" and "on_port nm cp ip port net = Some (out, net')"
  shows "list_all msg_wf out"
  using assms(3)
proof (induction net arbitrary: net')
  case (Cons n net)
  with assms(1,2) [of "nd_env n" "nd_ss n"] show ?case
    by (auto simp: serve_node_def sends_wf_def split: if_splits option.splits)
qed simp

lemma messages_wf: "sends_wf (ns_request env st msg)" "sends_wf (first_message msg env st)" "sends_wf (session_message msg env st)"
  using ns_request_sends_wf [of env st msg] client_sends_wf [of st env msg] write_session_sends_wf [of env st msg]
  by (auto simp: sends_wf_def first_message_def session_message_def split: option.split)

text \<open>
  The invariant a client of \<open>user\<close> maintains: that of the servers, and the rights \<open>R\<close> of some files
  the user may not write (\<open>Map.empty\<close> claims nothing about rights).
\<close>

definition keeps :: "cstring \<Rightarrow> (cstring \<rightharpoonup> cstring \<times> cstring list \<times> cstring list) \<Rightarrow> Docs \<Rightarrow> bool" where
  "keeps user R w \<longleftrightarrow> docs_inv w \<and>
     (\<forall>f r. R f = Some r \<longrightarrow> acl_rights (ns_acl (dw_ns w)) f = Some r \<and> \<not> can_write (Some r) (cbuf MAX_USERNAME_LEN user))"

text \<open>What may come from a peer of \<open>user\<close>'s process, the storage servers included.\<close>

definition peer_message :: "cstring \<Rightarrow> Message \<Rightarrow> bool" where
  "peer_message user m \<longleftrightarrow> msg_wf m \<and> (m_operation m = OP_REGISTER_SS \<longrightarrow> files_ok m) \<and>
     m_sender_id m = cbuf MAX_USERNAME_LEN user"

lemma client_message_peer: "client_message user m \<Longrightarrow> peer_message user m"
  by (simp add: client_message_def peer_message_def)

lemma owner_writes: "acl_check_owner t f u \<Longrightarrow> acl_check_write t f u"
  by (auto simp: acl_check_owner_def acl_check_write_def split: option.splits)

lemma node_serves_inv:
  assumes "keeps user R w" and "\<And>env st. sends_wf (nm env st)" and "\<And>env st. sends_wf (cp env st)" and "node_serves nm cp sk w = (out, w')"
  shows "keeps user R w' \<and> dw_socks w' = dw_socks w \<and> list_all msg_wf out"
proof (cases "on_port nm cp (sk_ip sk) (sk_port sk) (ns_world (dw_ns w))")
  case (Some r)
  with assms(4,1) on_port_wf [where nm = nm and cp = cp, OF assms(2,3)] show ?thesis
    by (cases r) (auto simp: node_serves_def keeps_def docs_inv_def)
qed (use assms(1,4) in \<open>auto simp: node_serves_def\<close>)

lemma ns_serves_inv:
  assumes "keeps user R w" and "peer_message user msg" and "ns_serves env msg w = (out, w')"
  shows "keeps user R w' \<and> dw_socks w' = dw_socks w \<and> list_all msg_wf out"
proof -
  have "gives (step_ok (dw_ns w) msg) (dispatch (system_env env) (dw_ns w) msg)"
    using assms(1,2) by (intro dispatch_ok system_env_ok) (simp_all add: keeps_def docs_inv_def peer_message_def)
  moreover have "acl_rights (ns_acl ns) f = acl_rights (ns_acl (dw_ns w)) f" if "rights_step (dw_ns w) msg ns" "R f = Some r" for ns f r
  proof (rule ccontr)
    assume "acl_rights (ns_acl ns) f \<noteq> acl_rights (ns_acl (dw_ns w)) f"
    with that(1) have "f = m_filename msg" "may_change (dw_ns w) msg" by (simp_all add: rights_step_def)
    moreover have "acl_rights (ns_acl (dw_ns w)) f = Some r \<and> \<not> acl_check_write (ns_acl (dw_ns w)) f (m_sender_id msg)"
      using assms(1,2) that(2) by (cases r) (auto simp: keeps_def peer_message_def acl_check_rights)
    ultimately show False by (auto simp: may_change_def dest: owner_writes)
  qed
  ultimately show ?thesis using assms(1,3)
    by (auto simp: ns_serves_def gives_def step_ok_def keeps_def docs_inv_def list_all_iff split: if_splits option.splits)
qed

lemma handled_inv:
  assumes "keeps user R w" and "peer_message user m" and "handled env sk m w = (out, w')"
  shows "keeps user R w' \<and> dw_socks w' = dw_socks w \<and> list_all msg_wf out"
proof -
  have new: "keeps user R w' \<and> dw_socks w' = dw_socks w \<and> list_all msg_wf out"
    if "node_serves (\<lambda>env st. ns_request env st m) (first_message m) sk w = (out, w')"
    by (rule node_serves_inv [OF assms(1) messages_wf(1,2) that])
  have more: "keeps user R w' \<and> dw_socks w' = dw_socks w \<and> list_all msg_wf out"
    if "node_serves (\<lambda>env st. Some (st, [])) (session_message m) sk w = (out, w')"
    by (rule node_serves_inv [OF assms(1) _ messages_wf(3) that]) (simp add: sends_wf_def)
  show ?thesis using assms(3) ns_serves_inv [OF assms(1,2), of env out w'] new more assms(1)
    by (simp add: handled_def split: if_splits)
qed

lemma docs_send_inv:
  assumes "keeps user R w" and "s \<in> dom (dw_socks w)" and "peer_message user m" and "docs_send env s m w = (r, w')"
  shows "keeps user R w' \<and> dom (dw_socks w') = dom (dw_socks w)"
proof -
  obtain sk where sk: "dw_socks w s = Some sk" using assms(2) by auto
  obtain out w1 where h: "handled env sk m w = (out, w1)" by (cases "handled env sk m w")
  note keep = handled_inv [OF assms(1,3) h]
  with assms(1) sk have "s < dw_next w1" "list_all msg_wf (sk_inbox sk)" by (auto simp: keeps_def docs_inv_def)
  with keep sk h assms(1,4) show ?thesis by (auto simp: docs_send_def keeps_def docs_inv_def split: if_splits)
qed

lemma docs_receive_inv:
  assumes "keeps user R w" and "s \<in> dom (dw_socks w)" and "docs_receive s w = ((r, m), w')"
  shows "keeps user R w' \<and> dom (dw_socks w') = dom (dw_socks w) \<and> msg_wf m"
proof -
  obtain sk where sk: "dw_socks w s = Some sk" using assms(2) by auto
  with assms(1) have "s < dw_next w" "list_all msg_wf (sk_inbox sk)" by (auto simp: keeps_def docs_inv_def)
  with sk assms(1,3) show ?thesis
    by (cases "sk_inbox sk") (auto simp: docs_receive_def keeps_def docs_inv_def split: if_splits)
qed

lemma docs_close_inv:
  assumes "keeps user R w"
  shows "keeps user R (docs_close s w) \<and> dom (dw_socks (docs_close s w)) = dom (dw_socks w) - {s}"
proof (cases "dw_socks w s")
  case (Some sk)
  obtain out w1 where n: "node_serves (\<lambda>env st. Some (st, [])) (\<lambda>env st. write_loop st []) sk w = (out, w1)"
    by (cases "node_serves (\<lambda>env st. Some (st, [])) (\<lambda>env st. write_loop st []) sk w")
  have "keeps user R w1 \<and> dw_socks w1 = dw_socks w"
    using node_serves_inv [OF assms _ _ n] by (simp add: sends_wf_def)
  with Some n assms show ?thesis by (auto simp: docs_close_def keeps_def docs_inv_def Let_def)
qed (use assms in \<open>auto simp: docs_close_def\<close>)

lemma docs_socket_inv:
  assumes "keeps user R w" and "docs_socket w = (s, w')"
  shows "keeps user R w' \<and> 0 \<le> s \<and> s \<notin> dom (dw_socks w) \<and> dom (dw_socks w') = insert s (dom (dw_socks w))"
proof -
  have "dw_next w \<notin> dom (dw_socks w)" using assms(1) by (auto simp: keeps_def docs_inv_def)
  moreover have "sk < dw_next w + 1" if "dw_socks w sk = Some x" for sk x
    using assms(1) that by (force simp: keeps_def docs_inv_def)
  ultimately show ?thesis using assms by (auto simp: docs_socket_def keeps_def docs_inv_def split: if_splits)
qed

lemma docs_connect_inv:
  assumes "keeps user R w" and "s \<in> dom (dw_socks w)" and "docs_connect s ip port w = (r, w')"
  shows "keeps user R w' \<and> dom (dw_socks w') = dom (dw_socks w)"
  using assms by (auto simp: docs_connect_def keeps_def docs_inv_def split: if_splits)

interpretation docs: server_side "docs_net env" "keeps user R" "\<lambda>w. dom (dw_socks w)" user for env user R
proof unfold_locales
  fix w w' s ip port r m
  assume inv: "keeps user R w"
  show "nt_socket (docs_net env) w = (s, w') \<Longrightarrow> keeps user R w' \<and>
      (if s < 0 then dom (dw_socks w') = dom (dw_socks w)
       else s \<notin> dom (dw_socks w) \<and> dom (dw_socks w') = insert s (dom (dw_socks w)))"
    using docs_socket_inv [OF inv, of s w'] by (cases "s < 0") simp_all
  show "keeps user R (nt_close (docs_net env) s w) \<and> dom (dw_socks (nt_close (docs_net env) s w)) = dom (dw_socks w) - {s}"
    using docs_close_inv [OF inv] by simp
  assume s: "s \<in> dom (dw_socks w)"
  show "nt_connect (docs_net env) s ip port w = (r, w') \<Longrightarrow> keeps user R w' \<and> dom (dw_socks w') = dom (dw_socks w)"
    using docs_connect_inv [OF inv s] by simp
  show "client_message user m \<Longrightarrow> nt_send (docs_net env) s m w = (r, w') \<Longrightarrow> keeps user R w' \<and> dom (dw_socks w') = dom (dw_socks w)"
    using docs_send_inv [OF inv s client_message_peer] by simp
  show "nt_receive (docs_net env) s w = ((r, m), w') \<Longrightarrow> keeps user R w' \<and> dom (dw_socks w') = dom (dw_socks w) \<and> msg_wf m"
    using docs_receive_inv [OF inv s] by simp
qed

section \<open>One exchange\<close>

text \<open>The world while the newest socket is open, and after it was closed.\<close>

definition talking :: "Docs \<Rightarrow> Node list NS \<Rightarrow> Sock \<Rightarrow> Docs" where
  "talking w ns sk = w\<lparr>dw_ns := ns, dw_socks := (dw_socks w)(dw_next w \<mapsto> sk), dw_next := dw_next w + 1\<rparr>"

lemma docs_update_order [simp]:
  "w\<lparr>dw_next := i, dw_socks := d\<rparr> = w\<lparr>dw_socks := d, dw_next := i\<rparr>" "w\<lparr>dw_socks := d, dw_ns := ns\<rparr> = w\<lparr>dw_ns := ns, dw_socks := d\<rparr>"
  by simp_all

definition hung_up :: "Docs \<Rightarrow> Node list NS \<Rightarrow> Docs" where
  "hung_up w ns = w\<lparr>dw_ns := ns, dw_next := dw_next w + 1\<rparr>"

abbreviation over :: "cstring \<Rightarrow> int \<Rightarrow> Message list \<Rightarrow> Sock" where
  "over ip port ms \<equiv> \<lparr>sk_phase = Over, sk_ip = ip, sk_port = port, sk_inbox = ms\<rparr>"

lemma docs_inv_fresh: "docs_inv w \<Longrightarrow> dw_socks w (dw_next w) = None \<and> 0 \<le> dw_next w"
  unfolding docs_inv_def by (metis less_irrefl not_None_eq)

lemma talking_close:
  assumes "docs_inv w" and "sk_phase sk \<noteq> Session"
  shows "close_socket (docs_net env) (dw_next w) (cl\<lparr>cl_world := talking w ns sk\<rparr>) = cl\<lparr>cl_world := hung_up w ns\<rparr>"
proof -
  have "(dw_socks w)(dw_next w := None) = dw_socks w" using docs_inv_fresh [OF assms(1)] by (simp add: fun_upd_idem)
  with assms(2) show ?thesis by (simp add: close_socket_def docs_close_def talking_def hung_up_def)
qed

lemma open_run:
  assumes "docs_inv w" and "cl_world cl = w" and "listens w ip port"
  shows "open_server (docs_net env) ip port err k cl =
    k (dw_next w) (cl\<lparr>cl_world := talking w (dw_ns w) \<lparr>sk_phase = Fresh, sk_ip = ip, sk_port = port, sk_inbox = []\<rparr>\<rparr>)"
proof -
  have "\<not> dw_next w < 0" using docs_inv_fresh [OF assms(1)] by simp
  moreover have "listens (w\<lparr>dw_socks := d, dw_next := i\<rparr>) ip port" for d i using assms(3) by (simp add: listens_def)
  ultimately show ?thesis using assms(2) by (simp add: open_server_def docs_socket_def docs_connect_def talking_def Let_def)
qed

lemma send_run:
  assumes "handled env sk msg (talking w ns sk) = (out, talking w ns' sk)" and "sk_phase sk \<noteq> Unconnected"
  shows "checked_send (docs_net env) (dw_next w) msg err k (cl\<lparr>cl_world := talking w ns sk\<rparr>) =
      k (cl\<lparr>cl_world := talking w ns' (sk\<lparr>sk_phase := next_phase (sk_phase sk) msg, sk_inbox := sk_inbox sk @ out\<rparr>)\<rparr>)"
    and "plain_send (docs_net env) (dw_next w) msg k (cl\<lparr>cl_world := talking w ns sk\<rparr>) =
      k (cl\<lparr>cl_world := talking w ns' (sk\<lparr>sk_phase := next_phase (sk_phase sk) msg, sk_inbox := sk_inbox sk @ out\<rparr>)\<rparr>)"
proof -
  have "docs_send env (dw_next w) msg (talking w ns sk) =
      (5096, talking w ns' (sk\<lparr>sk_phase := next_phase (sk_phase sk) msg, sk_inbox := sk_inbox sk @ out\<rparr>))"
    using assms by (simp add: docs_send_def talking_def)
  then show "checked_send (docs_net env) (dw_next w) msg err k (cl\<lparr>cl_world := talking w ns sk\<rparr>) =
      k (cl\<lparr>cl_world := talking w ns' (sk\<lparr>sk_phase := next_phase (sk_phase sk) msg, sk_inbox := sk_inbox sk @ out\<rparr>)\<rparr>)"
    "plain_send (docs_net env) (dw_next w) msg k (cl\<lparr>cl_world := talking w ns sk\<rparr>) =
      k (cl\<lparr>cl_world := talking w ns' (sk\<lparr>sk_phase := next_phase (sk_phase sk) msg, sk_inbox := sk_inbox sk @ out\<rparr>)\<rparr>)"
    by (simp_all add: checked_send_def plain_send_def)
qed

lemma await_run:
  "sk_inbox sk = m # ms \<Longrightarrow> await (docs_net env) (dw_next w) err k (cl\<lparr>cl_world := talking w ns sk\<rparr>) =
     k m (cl\<lparr>cl_world := talking w ns (sk\<lparr>sk_inbox := ms\<rparr>)\<rparr>)"
  by (simp add: await_def docs_receive_def talking_def)

text \<open>A request to the name server and one to a storage server, up to the answer.\<close>

lemma ask_ns:
  assumes "docs_inv w" and "cl_world cl = w" and "dw_up w" and "dispatch (system_env env) (dw_ns w) msg = Some (m # ms, ns')"
    and "m_operation msg \<noteq> OP_WRITE_START"
  shows "open_ns (docs_net env) err (\<lambda>s. checked_send (docs_net env) s msg err2 (await (docs_net env) s err3 (k s))) cl =
      k (dw_next w) m (cl\<lparr>cl_world := talking w ns' (over NS_IP NS_PORT ms)\<rparr>)"
    and "open_ns (docs_net env) err (\<lambda>s. plain_send (docs_net env) s msg (await (docs_net env) s err3 (k s))) cl =
      k (dw_next w) m (cl\<lparr>cl_world := talking w ns' (over NS_IP NS_PORT ms)\<rparr>)"
proof -
  let ?sk = "\<lparr>sk_phase = Fresh, sk_ip = NS_IP, sk_port = NS_PORT, sk_inbox = []\<rparr>"
  have l: "listens w NS_IP NS_PORT" using assms(3) by (simp add: listens_def is_ns_def)
  have h: "handled env ?sk msg (talking w (dw_ns w) ?sk) = (m # ms, talking w ns' ?sk)"
    using assms(3,4) by (simp add: handled_def is_ns_def ns_serves_def talking_def)
  show "open_ns (docs_net env) err (\<lambda>s. checked_send (docs_net env) s msg err2 (await (docs_net env) s err3 (k s))) cl =
      k (dw_next w) m (cl\<lparr>cl_world := talking w ns' (over NS_IP NS_PORT ms)\<rparr>)"
    "open_ns (docs_net env) err (\<lambda>s. plain_send (docs_net env) s msg (await (docs_net env) s err3 (k s))) cl =
      k (dw_next w) m (cl\<lparr>cl_world := talking w ns' (over NS_IP NS_PORT ms)\<rparr>)"
    unfolding open_ns_def open_run [OF assms(1,2) l] using assms(5)
    by (simp_all add: send_run [OF h] await_run next_phase_def)
qed

lemma on_port_skip:
  assumes "\<forall>k\<in>set pre. \<not> (nd_ip k = ip \<and> (nd_nm_port k = port \<or> nd_client_port k = port))"
  shows "on_port nm cp ip port (pre @ net) = map_option (map_prod id ((@) pre)) (on_port nm cp ip port net)"
proof (cases "on_port nm cp ip port net")
  case None
  with assms show ?thesis by (induction pre) auto
next
  case (Some r)
  with assms show ?thesis by (induction pre; cases r) auto
qed

lemma on_port_at:
  assumes "at_node net s pre n post"
  shows "on_port nm cp (es_ip s) (es_client_port s) net = Some (map_prod id (\<lambda>ns. pre @ ns @ post) (serve_node cp n))"
proof -
  have "net = pre @ n # post" and skip: "\<forall>k\<in>set pre. \<not> (nd_ip k = es_ip s \<and> (nd_nm_port k = es_client_port s \<or> nd_client_port k = es_client_port s))"
    using assms by (auto simp: at_node_def)
  then show ?thesis using assms
    by (simp only: on_port_skip [OF skip]) (simp add: at_node_def serves_def prod.map_comp comp_def id_def)
qed

text \<open>The registered server \<open>s\<close>, served by the node \<open>n\<close>, at an address that is not the name server's.\<close>

definition reaches :: "Docs \<Rightarrow> ExtendedSSInfo \<Rightarrow> Node list \<Rightarrow> Node \<Rightarrow> Node list \<Rightarrow> bool" where
  "reaches w s pre n post \<longleftrightarrow> at_node (ns_world (dw_ns w)) s pre n post \<and> \<not> is_ns (es_ip s) (es_client_port s)"

lemma reaches_listens: "reaches w s pre n post \<Longrightarrow> listens w (es_ip s) (es_client_port s)"
  by (auto simp: reaches_def at_node_def serves_def listens_def)

lemma handled_at:
  assumes "reaches w s pre n post" and "sk_ip sk = es_ip s" and "sk_port sk = es_client_port s" and "ns_world ns = ns_world (dw_ns w)"
    and "sk_phase sk = Fresh \<and> serve = first_message msg \<or> sk_phase sk = Session \<and> serve = session_message msg"
    and "serve (nd_env n) (nd_ss n) = Some (st, out)"
  shows "handled env sk msg (talking w ns sk) = (out, talking w (ns\<lparr>ns_world := pre @ n\<lparr>nd_ss := st\<rparr> # post\<rparr>) sk)"
proof -
  have at: "at_node (ns_world ns) s pre n post" using assms(1,4) by (simp add: reaches_def)
  have "node_serves nm serve sk (talking w ns sk) = (out, talking w (ns\<lparr>ns_world := pre @ n\<lparr>nd_ss := st\<rparr> # post\<rparr>) sk)" for nm
    using on_port_at [OF at, of nm serve] assms(2,3,6) by (simp add: node_serves_def talking_def serve_node_def)
  with assms(1,2,3,5) show ?thesis by (auto simp: handled_def reaches_def)
qed

lemma ask_node:
  assumes "docs_inv w" and "cl_world cl = w" and "reaches w s pre n post" and "m_operation msg \<noteq> OP_WRITE_START"
    and "client_connection (nd_ss n) (nd_env n) msg [] = Some (st, m # ms)"
    and "ns' = (dw_ns w)\<lparr>ns_world := pre @ n\<lparr>nd_ss := st\<rparr> # post\<rparr>"
  shows "open_server (docs_net env) (es_ip s) (es_client_port s) err (\<lambda>s. checked_send (docs_net env) s msg err2 (await (docs_net env) s err3 (k s))) cl =
      k (dw_next w) m (cl\<lparr>cl_world := talking w ns' (over (es_ip s) (es_client_port s) ms)\<rparr>)"
    and "open_server (docs_net env) (es_ip s) (es_client_port s) err (\<lambda>s. plain_send (docs_net env) s msg (await (docs_net env) s err3 (k s))) cl =
      k (dw_next w) m (cl\<lparr>cl_world := talking w ns' (over (es_ip s) (es_client_port s) ms)\<rparr>)"
proof -
  let ?sk = "\<lparr>sk_phase = Fresh, sk_ip = es_ip s, sk_port = es_client_port s, sk_inbox = []\<rparr>"
  have h: "handled env ?sk msg (talking w (dw_ns w) ?sk) = (m # ms, talking w ns' ?sk)"
    unfolding assms(6) by (rule handled_at [OF assms(3), of _ _ "first_message msg"]) (use assms(4,5) in \<open>simp_all add: first_message_def\<close>)
  show "open_server (docs_net env) (es_ip s) (es_client_port s) err (\<lambda>s. checked_send (docs_net env) s msg err2 (await (docs_net env) s err3 (k s))) cl =
      k (dw_next w) m (cl\<lparr>cl_world := talking w ns' (over (es_ip s) (es_client_port s) ms)\<rparr>)"
    "open_server (docs_net env) (es_ip s) (es_client_port s) err (\<lambda>s. plain_send (docs_net env) s msg (await (docs_net env) s err3 (k s))) cl =
      k (dw_next w) m (cl\<lparr>cl_world := talking w ns' (over (es_ip s) (es_client_port s) ms)\<rparr>)"
    unfolding open_run [OF assms(1,2) reaches_listens [OF assms(3)]] using assms(4)
    by (simp_all add: send_run [OF h] await_run next_phase_def)
qed

end
