(* ===== verification/Client_Properties.thy ===== *)
theory Client_Properties
  imports Client_System
begin

text \<open>
  What a user at the client sees and causes in the whole system: reading, reverting and writing
  a document through the name server to the disk of a storage server, and a whole session of
  commands. Two properties record behaviour the program does not intend: a checkpoint that was
  made is reported as an error, and a user who may only read a file can revert it.
\<close>

section \<open>Finding the server of a file\<close>

text \<open>The file \<open>f\<close> is located at a live server, which the node \<open>n\<close> serves.\<close>

definition located :: "Docs \<Rightarrow> cstring \<Rightarrow> Node list \<Rightarrow> Node \<Rightarrow> Node list \<Rightarrow> bool" where
  "located w f pre n post \<longleftrightarrow> docs_inv w \<and> dw_up w \<and> 0 \<le> lookup_result (dw_ns w) f \<and>
     reaches w (server (dw_ns w) (lookup_result (dw_ns w) f)) pre n post \<and> length (nd_ip n) < MAX_IP_LEN \<and>
     name_ok f \<and> node_ok n"

text \<open>The client of a user at a world, and its file requests.\<close>

definition client_of :: "cstring \<Rightarrow> Docs \<Rightarrow> Docs Client \<Rightarrow> bool" where
  "client_of user w cl \<longleftrightarrow> cl_username cl = user \<and> length user < MAX_USERNAME_LEN \<and> cl_world cl = w"

lemma name_okD: "name_ok f \<Longrightarrow> f \<noteq> [] \<and> length f < MAX_FILENAME_LEN"
  by (auto simp: name_ok_def plain_name_def)

lemma file_msg_sel [simp]:
  "m_operation (file_msg net cl op f) = op" "m_filename (file_msg net cl op f) = cbuf MAX_FILENAME_LEN f"
  "m_sender_id (file_msg net cl op f) = cbuf MAX_USERNAME_LEN (cl_username cl)"
  by (simp_all add: file_msg_def user_msg_def)

lemma tag_msg_sel [simp]:
  "m_operation (tag_msg net cl op f t) = op" "m_filename (tag_msg net cl op f t) = cbuf MAX_FILENAME_LEN f"
  "m_checkpoint_tag (tag_msg net cl op f t) = cbuf MAX_FILENAME_LEN t"
  by (simp_all add: tag_msg_def)

lemma msg_same [simp]:
  "file_msg net (cl\<lparr>cl_world := w\<rparr>) op f = file_msg net cl op f" "tag_msg net (cl\<lparr>cl_world := w\<rparr>) op f t = tag_msg net cl op f t"
  by (simp_all add: file_msg_def tag_msg_def)

lemma print_world [simp]: "print t (cl\<lparr>cl_world := w\<rparr>) = (print t cl)\<lparr>cl_world := w\<rparr>"
  by (simp add: print_def)

text \<open>A routed request: the answer of the name server, and the world after it.\<close>

lemma routed:
  assumes "located w f pre n post" and "client_of user w cl" and "op \<in> {OP_READ, OP_WRITE, OP_UNDO, OP_STREAM}"
    and "if needs_write op then acl_check_write (ns_acl (dw_ns w)) f user else acl_check_read (ns_acl (dw_ns w)) f user"
    and msg: "m_operation msg = op" "m_filename msg = f" "m_sender_id msg = user" "client_message user msg"
  obtains m c where "dispatch (system_env env) (dw_ns w) msg = Some ([m], (dw_ns w)\<lparr>ns_lru := c\<rparr>)"
    "m_operation m = OP_ROUTE_INFO" "m_error_code m = ERR_SUCCESS"
    "m_ss_ip m = es_ip (server (dw_ns w) (lookup_result (dw_ns w) f))"
    "m_ss_port m = es_client_port (server (dw_ns w) (lookup_result (dw_ns w) f))"
    "docs_inv (hung_up w ((dw_ns w)\<lparr>ns_lru := c\<rparr>))"
proof -
  let ?s = "server (dw_ns w) (lookup_result (dw_ns w) f)"
  have inv: "ns_inv (dw_ns w)" "0 \<le> dw_next w" and wf: "msg_wf msg"
    using assms(1) msg(4) by (simp_all add: located_def docs_inv_def client_message_def)
  have perm: "permitted (dw_ns w) msg" using assms(4) msg by (simp add: permitted_def)
  have there: "\<not> lookup_result (dw_ns w) (m_filename msg) < 0" and ip: "cbuf MAX_IP_LEN (es_ip ?s) = es_ip ?s"
    using assms(1) msg(2) by (auto simp: located_def reaches_def at_node_def serves_def intro!: cbuf_id)
  from assms(3) msg(1) have op: "m_operation msg \<in> {OP_READ, OP_WRITE, OP_UNDO, OP_STREAM}" by simp
  obtain m c where run: "dispatch (system_env env) (dw_ns w) msg = Some ([m], (dw_ns w)\<lparr>ns_lru := c\<rparr>)"
    and m: "m_operation m = OP_ROUTE_INFO \<and> m_error_code m = ERR_SUCCESS \<and>
      m_ss_ip m = cbuf MAX_IP_LEN (es_ip (server (dw_ns w) (lookup_result (dw_ns w) (m_filename msg)))) \<and>
      m_ss_port m = es_client_port (server (dw_ns w) (lookup_result (dw_ns w) (m_filename msg)))"
    by (rule route_run [OF inv(1) wf op, of "system_env env"]) (use there perm in blast)
  have "ns_inv ((dw_ns w)\<lparr>ns_lru := c\<rparr>)"
    using dispatch_ok(1) [OF inv(1) system_env_ok wf, of env] msg(4) run
    by (simp add: gives_def step_ok_def client_message_def)
  then have "docs_inv (hung_up w ((dw_ns w)\<lparr>ns_lru := c\<rparr>))"
    using assms(1) by (fastforce simp: located_def docs_inv_def hung_up_def)
  with that [OF run] m ip msg(2) show ?thesis by simp
qed

lemma located_hung_up:
  assumes "located w f pre n post"
  shows "reaches (hung_up w ((dw_ns w)\<lparr>ns_lru := c\<rparr>)) (server (dw_ns w) (lookup_result (dw_ns w) f)) pre n post"
  using assms by (simp add: located_def reaches_def hung_up_def)

section \<open>Reading\<close>

text \<open>
  C2. READ end to end: for a user who may read a file that is located at a live server, the
  client prints exactly the document on that server's disk, and the servers are as before but
  for the order of the name server's cache.
\<close>

theorem client_reads_document:
  assumes "located w f pre n post" and "client_of user w cl" and "acl_check_read (ns_acl (dw_ns w)) f user"
    and "node_file n f = Some bs"
  shows "\<exists>c. cmd_read (docs_net env) f cl =
    Some (print (read_box f (doc_of bs)) cl\<lparr>cl_world := w\<lparr>dw_ns := (dw_ns w)\<lparr>ns_lru := c\<rparr>, dw_next := dw_next w + 2\<rparr>\<rparr>)"
proof -
  let ?net = "docs_net env" and ?s = "server (dw_ns w) (lookup_result (dw_ns w) f)"
  have f: "f \<noteq> []" "cbuf MAX_FILENAME_LEN f = f" and user: "cbuf MAX_USERNAME_LEN user = user" "cl_username cl = user" "cl_world cl = w"
    and inv: "docs_inv w" "dw_up w"
    using assms(1,2) name_okD [of f] by (auto simp: located_def client_of_def intro!: cbuf_id)
  let ?msg = "file_msg ?net cl OP_READ f"
  obtain m c where ns: "dispatch (system_env env) (dw_ns w) ?msg = Some ([m], (dw_ns w)\<lparr>ns_lru := c\<rparr>)"
    and m: "m_operation m = OP_ROUTE_INFO" "m_ss_ip m = es_ip ?s" "m_ss_port m = es_client_port ?s"
    and inv': "docs_inv (hung_up w ((dw_ns w)\<lparr>ns_lru := c\<rparr>))"
    by (rule routed [OF assms(1,2), of OP_READ ?msg env]) (use assms(3) f user in \<open>simp_all add: needs_write_def\<close>)
  let ?w = "hung_up w ((dw_ns w)\<lparr>ns_lru := c\<rparr>)" and ?cl = "cl\<lparr>cl_world := hung_up w ((dw_ns w)\<lparr>ns_lru := c\<rparr>)\<rparr>"
  have reach: "reaches ?w ?s pre n post" by (rule located_hung_up [OF assms(1)])
  have ip: "cbuf MAX_IP_LEN (es_ip ?s) = es_ip ?s"
    using assms(1) by (auto simp: located_def reaches_def at_node_def serves_def intro!: cbuf_id)
  let ?a = "(ack (nd_env n) ERR_SUCCESS (doc_of bs))\<lparr>m_content_length := length (cbuf MAX_CONTENT_LEN (doc_of bs))\<rparr>"
  have read: "client_connection (nd_ss n) (nd_env n) ?msg [] = Some (nd_ss n, [?a, stop_msg (nd_env n)])"
    using read_file_bytes [OF assms(4) [unfolded node_file_def], of MAX_CONTENT_LEN] f
    by (simp add: client_connection_def handle_read_from_client_def doc_of_def)
  have same: "(dw_ns ?w)\<lparr>ns_world := pre @ n # post\<rparr> = dw_ns ?w"
    using reach by (simp add: reaches_def at_node_def)
  have a: "m_error_code ?a = ERR_SUCCESS" "m_content ?a = doc_of bs"
    using length_doc_of [of bs] by (simp_all add: ack_def reply_def cbuf_id)
  have drain: "docs_receive (dw_next ?w) (talking ?w (dw_ns ?w) (over i p [x])) = ((5096, x), talking ?w (dw_ns ?w) (over i p []))" for i p x
    by (simp add: docs_receive_def talking_def)
  have "cmd_read ?net f cl = Some (close_socket ?net (dw_next ?w)
      ((print (read_box f (doc_of bs)) cl)\<lparr>cl_world := talking ?w (dw_ns ?w) (over (es_ip ?s) (es_client_port ?s) [])\<rparr>))"
    using f m ip a drain
    by (simp add: cmd_read_def ask_ns(1) [OF inv(1) user(3) inv(2) ns] talking_close [OF inv(1)] Let_def
        ask_node(1) [OF inv' _ reach _ read refl] same)
  also have "\<dots> = Some ((print (read_box f (doc_of bs)) cl)\<lparr>cl_world := hung_up ?w (dw_ns ?w)\<rparr>)"
    by (simp add: talking_close [OF inv'])
  finally show ?thesis by (intro exI [of _ c]) (simp add: hung_up_def)
qed

section \<open>Checkpoints\<close>

text \<open>The world after a routed request that left a storage server in the state \<open>st\<close>.\<close>

definition after_request :: "Docs \<Rightarrow> Node list \<Rightarrow> Node \<Rightarrow> SS \<Rightarrow> Node list \<Rightarrow> LRUCache \<Rightarrow> Docs" where
  "after_request w pre n st post c =
     w\<lparr>dw_ns := (dw_ns w)\<lparr>ns_lru := c, ns_world := pre @ n\<lparr>nd_ss := st\<rparr> # post\<rparr>, dw_next := dw_next w + 2\<rparr>"

lemma server_asked:
  assumes "located w f pre n post" and "client_of user w cl" and "acl_check_read (ns_acl (dw_ns w)) f user"
    and "client_connection (nd_ss n) (nd_env n) msg [] = Some (st, [a])" and "m_operation msg \<noteq> OP_WRITE_START"
  shows "\<exists>c. locate (docs_net env) f (ask_server (docs_net env) msg t) cl =
    Some (print (if m_error_code a = ERR_SUCCESS then t a else error_line (m_content a)) cl\<lparr>cl_world := after_request w pre n st post c\<rparr>)"
proof -
  let ?net = "docs_net env" and ?s = "server (dw_ns w) (lookup_result (dw_ns w) f)"
  have f: "cbuf MAX_FILENAME_LEN f = f" and user: "cbuf MAX_USERNAME_LEN user = user" "cl_username cl = user" "cl_world cl = w"
    and inv: "docs_inv w" "dw_up w"
    using assms(1,2) name_okD [of f] by (auto simp: located_def client_of_def intro!: cbuf_id)
  let ?msg = "file_msg ?net cl OP_READ f"
  obtain m c where ns: "dispatch (system_env env) (dw_ns w) ?msg = Some ([m], (dw_ns w)\<lparr>ns_lru := c\<rparr>)"
    and m: "m_error_code m = ERR_SUCCESS" "m_ss_ip m = es_ip ?s" "m_ss_port m = es_client_port ?s"
    and inv': "docs_inv (hung_up w ((dw_ns w)\<lparr>ns_lru := c\<rparr>))"
    by (rule routed [OF assms(1,2), of OP_READ ?msg env]) (use assms(3) f user in \<open>simp_all add: needs_write_def\<close>)
  let ?w = "hung_up w ((dw_ns w)\<lparr>ns_lru := c\<rparr>)"
  have reach: "reaches ?w ?s pre n post" by (rule located_hung_up [OF assms(1)])
  have "locate ?net f (ask_server ?net msg t) cl =
    Some (print (if m_error_code a = ERR_SUCCESS then t a else error_line (m_content a))
      (cl\<lparr>cl_world := hung_up ?w ((dw_ns ?w)\<lparr>ns_world := pre @ n\<lparr>nd_ss := st\<rparr> # post\<rparr>)\<rparr>))"
    using m by (simp add: locate_def ask_ns(2) [OF inv(1) user(3) inv(2) ns] talking_close [OF inv(1)] Let_def
        ask_server_def ask_node(2) [OF inv' _ reach assms(5,4) refl] talking_close [OF inv'] del: print_world)
  then show ?thesis by (intro exI [of _ c]) (simp add: hung_up_def after_request_def)
qed

text \<open>
  C39. A checkpoint that was made is reported as an error: CHECKPOINT by a user who may read the
  file, when the storage server can store it, saves the file's bytes under the tag, and the
  client prints \<open>Error: Checkpoint \<dots> created\<close>, because it expects 200 where the server answers 201.
\<close>

theorem client_checkpoint_misreported:
  assumes "located w f pre n post" and "client_of user w cl" and "acl_check_read (ns_acl (dw_ns w)) f user"
    and "node_file n f = Some bs" and "ckpt_ok (ss_dir (nd_ss n)) f tag" and "tag \<noteq> []"
    and "checkpoint_create (ss_dir (nd_ss n)) (ss_fs (nd_ss n)) f tag = (ERR_CREATED, fs)"
  shows "ckpt_bytes (ss_dir (nd_ss n)) fs f tag = Some bs \<and>
    (\<exists>c. cmd_checkpoint (docs_net env) f tag cl =
      Some (print (error_line (''Checkpoint '' @ quoted tag @ '' created for file '' @ quoted f)) cl
        \<lparr>cl_world := after_request w pre n ((nd_ss n)\<lparr>ss_fs := fs\<rparr>) post c\<rparr>))"
proof -
  let ?text = "''Checkpoint '' @ quoted tag @ '' created for file '' @ quoted f"
  have len: "length tag \<le> 244" "length f \<le> 255" using assms(5) by (simp_all add: ckpt_ok_def name_ok_def)
  have f: "f \<noteq> []" "cbuf MAX_FILENAME_LEN f = f" "cbuf MAX_FILENAME_LEN tag = tag" "cbuf MAX_CONTENT_LEN ?text = ?text"
    using len assms(1) name_okD [of f] by (auto simp: located_def quoted_def intro!: cbuf_id)
  have run: "client_connection (nd_ss n) (nd_env n) (tag_msg (docs_net env) cl OP_CHECKPOINT f tag) [] =
      Some ((nd_ss n)\<lparr>ss_fs := fs\<rparr>, [ack (nd_env n) ERR_CREATED ?text])"
    using assms(7) f by (simp add: client_connection_def handle_checkpoint_request_def)
  have made: "ckpt_bytes (ss_dir (nd_ss n)) fs f tag = Some bs"
    using checkpoint_created [OF _ assms(5) _ assms(7), of bs] assms(1,4) by (simp add: located_def node_ok_def node_file_def)
  from server_asked [OF assms(1,2,3) run] made show ?thesis
    using f assms(6) by (simp add: cmd_checkpoint_def ack_def reply_def)
qed

text \<open>
  C38. Reading is enough to revert: REVERT by any user who may read the file gives it the bytes of
  the checkpoint, whether or not the user may write it.
\<close>

theorem reader_reverts:
  assumes "located w f pre n post" and "client_of user w cl" and "acl_check_read (ns_acl (dw_ns w)) f user"
    and "ckpt_ok (ss_dir (nd_ss n)) f tag" and "tag \<noteq> []" and "ckpt_bytes (ss_dir (nd_ss n)) (ss_fs (nd_ss n)) f tag = Some bs"
    and "node_file n f \<noteq> None"
  shows "\<exists>c st. cmd_revert (docs_net env) f tag cl =
      Some (print (ln (''File '' @ quoted f @ '' reverted to checkpoint '' @ quoted tag)) cl\<lparr>cl_world := after_request w pre n st post c\<rparr>) \<and>
    node_file (n\<lparr>nd_ss := st\<rparr>) f = Some bs"
proof -
  let ?dir = "ss_dir (nd_ss n)" and ?fs = "ss_fs (nd_ss n)"
  let ?st = "(nd_ss n)\<lparr>ss_fs := set_node ?fs (get_file_path ?dir f) (Some (FReg bs))\<rparr>"
  have len: "length tag \<le> 244" using assms(4) by (simp add: ckpt_ok_def)
  have f: "f \<noteq> []" "cbuf MAX_FILENAME_LEN f = f" "cbuf MAX_FILENAME_LEN tag = tag" and ok: "storage_ok ?dir ?fs" "name_ok f"
    using len assms(1) name_okD [of f] by (auto simp: located_def node_ok_def intro!: cbuf_id)
  have "fs_lookup ?fs (get_file_path ?dir f) \<noteq> Some FDir" using assms(7) by (auto simp: node_file_def file_bytes_Some)
  from checkpoint_reverted [OF ok(1) assms(4,6) this]
  have run: "client_connection (nd_ss n) (nd_env n) (tag_msg (docs_net env) cl OP_REVERT f tag) [] =
      Some (?st, [ack (nd_env n) ERR_SUCCESS (''File '' @ quoted f @ '' reverted to checkpoint '' @ quoted tag)])"
    using f by (simp add: client_connection_def handle_revert_request_def)
  have "node_file (n\<lparr>nd_ss := ?st\<rparr>) f = Some bs"
    using file_bytes_set_node [OF ok, of f "Some (FReg bs)"] ok(2) by (simp add: node_file_def)
  moreover obtain c where "cmd_revert (docs_net env) f tag cl =
      Some (print (ln (''File '' @ quoted f @ '' reverted to checkpoint '' @ quoted tag)) cl\<lparr>cl_world := after_request w pre n ?st post c\<rparr>)"
    using server_asked [OF assms(1,2,3) run, of env "\<lambda>r. ln (''File '' @ quoted f @ '' reverted to checkpoint '' @ quoted tag)"] f assms(5)
    by (auto simp: cmd_revert_def ack_def reply_def)
  ultimately show ?thesis by blast
qed

section \<open>A whole session\<close>

lemma length_login: "length (login input) < MAX_USERNAME_LEN"
proof -
  have "length (dropWhile isspace xs) \<le> length xs" for xs by (rule length_dropWhile_le)
  then have "length (trim xs) \<le> length xs" for xs unfolding trim_def by (metis length_rev order_trans)
  moreover have "length (cstr_of xs) \<le> length xs" for xs by (simp add: cstr_of_def length_takeWhile_le)
  ultimately have "length (login input) \<le> length (fst (fgets MAX_USERNAME_LEN input))"
    unfolding login_def by (metis order_trans)
  also have "\<dots> < MAX_USERNAME_LEN"
    using length_takeWhile_le [of "\<lambda>c. c \<noteq> NL" "take 63 input"] by (auto simp: fgets_def Let_def min_def split: if_splits)
  finally show ?thesis .
qed

text \<open>
  C6. A whole run of the client, from the login to its end, whatever lines are typed: the
  invariant of the name server holds afterwards, the process has closed every socket it opened,
  and no file that its user could not write has other access rights than before.
\<close>

theorem client_run_safe:
  assumes "docs_inv w" and "client_main (docs_net env) ip input w = Some (status, cl)"
  shows "docs_inv (cl_world cl) \<and> dom (dw_socks (cl_world cl)) = dom (dw_socks w) \<and>
    (\<forall>f. acl_rights (ns_acl (dw_ns w)) f \<noteq> None \<and> \<not> acl_check_write (ns_acl (dw_ns w)) f (login input) \<longrightarrow>
       acl_rights (ns_acl (dw_ns (cl_world cl))) f = acl_rights (ns_acl (dw_ns w)) f)"
proof -
  let ?t = "ns_acl (dw_ns w)" and ?user = "login input"
  let ?R = "\<lambda>f. if acl_check_write ?t f ?user then None else acl_rights ?t f"
  have "cbuf MAX_USERNAME_LEN ?user = ?user" using length_login by (rule cbuf_id)
  then have "keeps ?user ?R w" using assms(1) by (auto simp: keeps_def acl_check_rights split: if_splits)
  from docs.client_main_clean [OF this refl refl assms(2)]
  show ?thesis by (auto simp: keeps_def)
qed

section \<open>A sample world\<close>

text \<open>A storage server with two files and room for checkpoints, in a system where \<open>b\<close> was created.\<close>

definition demo_fs :: FS where
  "demo_fs = ckpt_fs\<lparr>fs_nodes := (fs_nodes ckpt_fs)([''s'', ''b''] \<mapsto> FReg ''Hi.'')\<rparr>"

lemma demo_resolve: "resolve demo_fs ''s'' = [''s'']"
  by (simp add: demo_fs_def ckpt_fs_def resolve_s)

lemma demo_fs_ok: "storage_ok ''s'' demo_fs" "ckpt_ok ''s'' ''b'' ''v1''" "file_bytes ''s'' demo_fs ''b'' = Some ''Hi.''"
proof -
  show ok: "storage_ok ''s'' demo_fs"
    by (simp add: storage_ok_def demo_resolve) (simp add: demo_fs_def ckpt_fs_def sample_fs_def CHECKPOINT_DIR_def)
  show "ckpt_ok ''s'' ''b'' ''v1''" by (simp add: ckpt_ok_def)
  show "file_bytes ''s'' demo_fs ''b'' = Some ''Hi.''"
    by (simp add: file_bytes_def file_lookup [OF ok]) (simp add: demo_resolve, simp add: demo_fs_def)
qed

lemma demo_checkpoint: "\<exists>fs. checkpoint_create ''s'' demo_fs ''b'' ''v1'' = (ERR_CREATED, fs)"
  using demo_fs_ok
  by (intro first_checkpoint_created) (simp_all add: demo_resolve, simp_all add: demo_fs_def ckpt_fs_def sample_fs_def CHECKPOINT_DIR_def)

definition demo_node :: "FS \<Rightarrow> Node" where
  "demo_node fs = sample_node\<lparr>nd_ss := idle_ss\<lparr>ss_fs := fs\<rparr>\<rparr>"

lemma demo_node_sel [simp]: "ss_dir (nd_ss (demo_node fs)) = ''s''" "ss_fs (nd_ss (demo_node fs)) = fs"
  by (simp_all add: demo_node_def idle_ss_def sample_ss_def)

definition demo_client :: "Docs \<Rightarrow> cstring \<Rightarrow> char list list \<Rightarrow> Docs Client" where
  "demo_client w user lines = \<lparr>cl_username = user, cl_local_ip = [], cl_stdin = lines, cl_stdout = [], cl_world = w\<rparr>"

lemma demo_client_of: "length user < MAX_USERNAME_LEN \<Longrightarrow> client_of user w (demo_client w user lines)"
  by (simp add: client_of_def demo_client_def)

lemmas demo_ann = demo_client_of [where user = "''ann''", simplified] and demo_bob = demo_client_of [where user = "''bob''", simplified]

text \<open>The lookup of a file reads neither the access table nor the servers' state.\<close>

lemma lookup_frame:
  assumes "ns_file_map ns' = ns_file_map ns" "ns_lru ns' = ns_lru ns" "ns_servers ns' = ns_servers ns" "ns_replication ns' = ns_replication ns"
  shows "lookup_result ns' f = lookup_result ns f"
proof -
  have alive: "ss_alive ns' i = ss_alive ns i" for i by (simp add: ss_alive_def ss_count_def assms)
  have "find_replica_ss f ns' = find_replica_ss f ns" by (simp add: find_replica_ss_def assms)
  then have "backing ns' f = backing ns f" by (simp add: backing_def alive assms split: option.split)
  then show ?thesis by (simp add: lookup_result_def alive assms split: option.split)
qed

lemma lookup_world [simp]:
  "lookup_result (ns\<lparr>ns_world := v\<rparr>) f = lookup_result ns f" "lookup_result (ns\<lparr>ns_acl := t\<rparr>) f = lookup_result ns f"
  by (rule lookup_frame; simp)+

lemma demo_world:
  assumes "storage_ok ''s'' fs"
  obtains w where "located w ''b'' [] (demo_node fs) []" "acl_rights (ns_acl (dw_ns w)) ''b'' = Some (''ann'', [], [])" "dw_socks w = Map.empty"
proof -
  have b: "m_filename (sample_command op) = ''b''" "m_sender_id (sample_command op) = ''ann''" for op
    by (simp_all add: sample_command_def)
  let ?env = "NS_Registry.sample_env :: Node list NsEnv"
  obtain r ns n where run: "dispatch (system_env ?env) sample_system (sample_command OP_CREATE) = Some ([r], ns)" "m_error_code r = ERR_CREATED"
    and inv: "ns_inv ns" and world: "ns_world ns = [] @ n # []" "node_ok n"
    and files: "\<forall>g. name_ok g \<longrightarrow> node_file n g = (if g = m_filename (sample_command OP_CREATE) then Some [] else node_file sample_node g)"
    and at: "at_node (ns_world ns) (server ns 0) [] n []" and look: "lookup_result ns (m_filename (sample_command OP_CREATE)) = 0"
    and rights: "acl_rights (ns_acl ns) (m_filename (sample_command OP_CREATE)) = Some (m_sender_id (sample_command OP_CREATE), [], [])"
    and "nd_env n = nd_env sample_node"
    and same: "nd_ip n = nd_ip sample_node \<and> nd_nm_port n = nd_nm_port sample_node \<and> nd_client_port n = nd_client_port sample_node"
    by (rule create_end_run [OF reachable_inv [OF sample_system_reachable] sample_system_ready sample_system_at])
  note look = look [unfolded b] and rights = rights [unfolded b]
  let ?w = "\<lparr>dw_ns = ns\<lparr>ns_world := [demo_node fs]\<rparr>, dw_up = True, dw_socks = Map.empty, dw_next = 3\<rparr>"
  have "at_node [demo_node fs] (server ns 0) [] (demo_node fs) []" "es_ip (server ns 0) = ''10.0.0.1''"
    using at same by (simp_all add: at_node_def serves_def demo_node_def sample_node_def)
  then have "located ?w ''b'' [] (demo_node fs) []"
    using inv look assms
    by (simp add: located_def docs_inv_def reaches_def is_ns_def node_ok_def)
      (simp add: demo_node_def sample_node_def)
  then show ?thesis using that [of ?w] rights by simp
qed


lemma demo_read:
  assumes "located w ''b'' [] (demo_node fs) []" "acl_rights (ns_acl (dw_ns w)) ''b'' = Some (''ann'', [], [])"
  shows "acl_check_read (ns_acl (dw_ns w)) ''b'' ''ann''"
  using assms by (simp add: acl_check_rights can_read_def)

text \<open>The same world once \<open>ann\<close> has given \<open>bob\<close> read access.\<close>

lemma demo_shared:
  assumes "storage_ok ''s'' fs"
  obtains w where "located w ''b'' [] (demo_node fs) []" "acl_check_read (ns_acl (dw_ns w)) ''b'' ''bob''"
    "\<not> acl_check_write (ns_acl (dw_ns w)) ''b'' ''bob''"
proof -
  obtain w where w: "located w ''b'' [] (demo_node fs) []" "acl_rights (ns_acl (dw_ns w)) ''b'' = Some (''ann'', [], [])"
    by (rule demo_world [OF assms])
  let ?t = "snd (acl_add_access (ns_acl (dw_ns w)) ''b'' ''bob'' ACCESS_READ)"
  have inv: "ns_inv (dw_ns w)" using w(1) by (simp add: located_def docs_inv_def)
  have "acl_rights ?t ''b'' = Some (''ann'', [''bob''], [])"
    using acl_step_rights [OF ns_invD(3) [OF inv], of "Grant ''b'' ''bob'' ACCESS_READ"] w(2) by (simp add: limited_add_def)
  then have rights: "acl_check_read ?t ''b'' ''bob''" "\<not> acl_check_write ?t ''b'' ''bob''"
    by (simp_all add: acl_check_rights can_read_def can_write_def)
  have "ns_inv ((dw_ns w)\<lparr>ns_acl := ?t\<rparr>)"
    by (intro ns_inv_acl inv acl_add_access_inv ns_invD(3)) simp_all
  then have "located (w\<lparr>dw_ns := (dw_ns w)\<lparr>ns_acl := ?t\<rparr>\<rparr>) ''b'' [] (demo_node fs) []"
    using w(1) by (simp add: located_def docs_inv_def reaches_def is_ns_def)
  then show ?thesis by (rule that) (simp_all add: rights)
qed

theorem client_reads_document_witness:
  "\<exists>w cl. cmd_read (docs_net (NS_Registry.sample_env :: Node list NsEnv)) ''b'' (demo_client w ''ann'' []) = Some cl \<and>
     cl_stdout cl = read_box ''b'' ''Hi.''"
proof -
  obtain w where w: "located w ''b'' [] (demo_node demo_fs) []" "acl_rights (ns_acl (dw_ns w)) ''b'' = Some (''ann'', [], [])"
    by (rule demo_world [OF demo_fs_ok(1)])
  have b: "node_file (demo_node demo_fs) ''b'' = Some ''Hi.''" by (simp add: node_file_def demo_fs_ok(3))
  obtain c where "cmd_read (docs_net (NS_Registry.sample_env :: Node list NsEnv)) ''b'' (demo_client w ''ann'' []) =
      Some (print (read_box ''b'' (doc_of ''Hi.'')) (demo_client w ''ann'' [])
        \<lparr>cl_world := w\<lparr>dw_ns := (dw_ns w)\<lparr>ns_lru := c\<rparr>, dw_next := dw_next w + 2\<rparr>\<rparr>)"
    using client_reads_document [OF w(1) demo_ann demo_read [OF w] b] by blast
  moreover have "doc_of ''Hi.'' = ''Hi.''" by (simp add: doc_of_small)
  ultimately show ?thesis by (intro exI conjI) (assumption, simp add: print_def demo_client_def)
qed

theorem client_checkpoint_misreported_witness:
  "\<exists>w cl. cmd_checkpoint (docs_net (NS_Registry.sample_env :: Node list NsEnv)) ''b'' ''v1'' (demo_client w ''ann'' []) = Some cl \<and>
     cl_stdout cl = error_line (''Checkpoint '' @ quoted ''v1'' @ '' created for file '' @ quoted ''b'')"
proof -
  obtain w where w: "located w ''b'' [] (demo_node demo_fs) []" "acl_rights (ns_acl (dw_ns w)) ''b'' = Some (''ann'', [], [])"
    by (rule demo_world [OF demo_fs_ok(1)])
  have b: "node_file (demo_node demo_fs) ''b'' = Some ''Hi.''" by (simp add: node_file_def demo_fs_ok(3))
  obtain fs where "checkpoint_create ''s'' demo_fs ''b'' ''v1'' = (ERR_CREATED, fs)" using demo_checkpoint by blast
  from client_checkpoint_misreported [OF w(1) demo_ann demo_read [OF w] b, of "''v1''" fs] demo_fs_ok(2) this
  obtain c where "cmd_checkpoint (docs_net (NS_Registry.sample_env :: Node list NsEnv)) ''b'' ''v1'' (demo_client w ''ann'' []) =
      Some (print (error_line (''Checkpoint '' @ quoted ''v1'' @ '' created for file '' @ quoted ''b'')) (demo_client w ''ann'' [])
        \<lparr>cl_world := after_request w [] (demo_node demo_fs) ((nd_ss (demo_node demo_fs))\<lparr>ss_fs := fs\<rparr>) [] c\<rparr>)"
    by auto
  then show ?thesis by (intro exI conjI) (assumption, simp add: print_def demo_client_def)
qed

theorem reader_reverts_witness:
  "\<exists>w cl. cmd_revert (docs_net (NS_Registry.sample_env :: Node list NsEnv)) ''b'' ''v1'' (demo_client w ''bob'' []) = Some cl \<and>
     \<not> acl_check_write (ns_acl (dw_ns w)) ''b'' ''bob'' \<and>
     cl_stdout cl = ln (''File '' @ quoted ''b'' @ '' reverted to checkpoint '' @ quoted ''v1'')"
proof -
  obtain fs where made: "checkpoint_create ''s'' demo_fs ''b'' ''v1'' = (ERR_CREATED, fs)" using demo_checkpoint by blast
  have fs: "storage_ok ''s'' fs" "ckpt_bytes ''s'' fs ''b'' ''v1'' = Some ''Hi.''" "file_bytes ''s'' fs ''b'' = Some ''Hi.''"
    using checkpoint_created [OF demo_fs_ok(1,2,3) made] demo_fs_ok(2,3) by (auto simp: ckpt_ok_def)
  obtain w where w: "located w ''b'' [] (demo_node fs) []" "acl_check_read (ns_acl (dw_ns w)) ''b'' ''bob''"
    "\<not> acl_check_write (ns_acl (dw_ns w)) ''b'' ''bob''"
    by (rule demo_shared [OF fs(1)])
  from fs have "\<exists>c st. cmd_revert (docs_net NS_Registry.sample_env) ''b'' ''v1'' (demo_client w ''bob'' []) =
      Some (print (ln (''File '' @ quoted ''b'' @ '' reverted to checkpoint '' @ quoted ''v1'')) (demo_client w ''bob'' [])
        \<lparr>cl_world := after_request w [] (demo_node fs) st [] c\<rparr>) \<and>
    node_file ((demo_node fs)\<lparr>nd_ss := st\<rparr>) ''b'' = Some ''Hi.''"
    by (intro reader_reverts [OF w(1) demo_bob w(2)]) (simp_all add: demo_fs_ok(2) node_file_def)
  then obtain c st where "cmd_revert (docs_net (NS_Registry.sample_env :: Node list NsEnv)) ''b'' ''v1'' (demo_client w ''bob'' []) =
      Some (print (ln (''File '' @ quoted ''b'' @ '' reverted to checkpoint '' @ quoted ''v1'')) (demo_client w ''bob'' [])
        \<lparr>cl_world := after_request w [] (demo_node fs) st [] c\<rparr>)"
    by blast
  with w(3) show ?thesis by (intro exI conjI) (assumption+, simp add: print_def demo_client_def)
qed

lemma register_input:
  "cl_stdin (snd (register_with_nameserver net cl)) = cl_stdin cl" "cl_username (snd (register_with_nameserver net cl)) = cl_username cl"
  by (simp_all add: register_with_nameserver_def Let_def case_prod_beta close_socket_def print_def)

lemma delete_returns: "\<exists>cl'. cmd_delete net f cl = Some cl'"
  by (simp add: cmd_delete_def open_ns_def open_server_def checked_send_def await_def finish_def Let_def case_prod_beta)

lemma demo_session: "\<exists>status cl. client_main net ip (''bob'' @ [NL] @ ''DELETE b'' @ [NL]) w = Some (status, cl)"
proof -
  have lines: "fgets MAX_USERNAME_LEN (''bob'' @ [NL] @ ''DELETE b'' @ [NL]) = (''bob'' @ [NL], ''DELETE b'' @ [NL])"
    by (simp add: fgets_def Let_def)
  have rest: "input_lines (''DELETE b'' @ [NL]) = [''DELETE b'' @ [NL]]"
    by code_simp
  have parse: "parse_input (cstr_of (''DELETE b'' @ [NL])) = Some (''DELETE'', ''b'', [], [])"
    by code_simp
  have bob: "trim (cstr_of (''bob'' @ [NL])) = ''bob''" by code_simp
  have "\<exists>cl'. main_loop net cl = Some cl'" if "cl_stdin cl = [''DELETE b'' @ [NL]]" for cl
  proof -
    let ?cl = "print ''docs++> '' (cl\<lparr>cl_stdin := []\<rparr>)"
    obtain cl' where cl': "cmd_delete net ''b'' ?cl = Some cl'" using delete_returns by blast
    then have "quieter ?cl cl'" using ns_commands_quiet(2) [of ?cl net "''b''"] by simp
    then have "cl_stdin (print [NL] cl') = []" by (simp add: quieter_def)
    with that cl' show ?thesis
      by (simp add: main_loop.simps [of net cl] main_loop.simps [of net "print [NL] cl'"] parse [simplified] run_command_def)
  qed
  then show ?thesis using lines rest bob
    by (auto simp: client_main_def register_input Let_def case_prod_beta)
qed

theorem client_run_safe_witness:
  "\<exists>w status cl. client_main (docs_net (NS_Registry.sample_env :: Node list NsEnv)) ''127.0.0.1'' (''bob'' @ [NL] @ ''DELETE b'' @ [NL]) w =
       Some (status, cl) \<and>
     acl_rights (ns_acl (dw_ns w)) ''b'' \<noteq> None \<and>
     acl_rights (ns_acl (dw_ns (cl_world cl))) ''b'' = acl_rights (ns_acl (dw_ns w)) ''b''"
proof -
  obtain w where w: "located w ''b'' [] (demo_node demo_fs) []" "acl_check_read (ns_acl (dw_ns w)) ''b'' ''bob''"
    "\<not> acl_check_write (ns_acl (dw_ns w)) ''b'' ''bob''"
    by (rule demo_shared [OF demo_fs_ok(1)])
  obtain status cl where run: "client_main (docs_net (NS_Registry.sample_env :: Node list NsEnv)) ''127.0.0.1''
      (''bob'' @ [NL] @ ''DELETE b'' @ [NL]) w = Some (status, cl)"
    using demo_session [where net = "docs_net NS_Registry.sample_env" and ip = "''127.0.0.1''" and w = w] by (elim exE)
  have inv: "docs_inv w" using w(1) by (simp add: located_def)
  have bob: "login (''bob'' @ [NL] @ ''DELETE b'' @ [NL]) = ''bob''" by code_simp
  have there: "acl_rights (ns_acl (dw_ns w)) ''b'' \<noteq> None" using w(2) by (auto simp: acl_check_rights can_read_def split: option.splits)
  with client_run_safe [OF inv run] w(3) bob have
    "acl_rights (ns_acl (dw_ns (cl_world cl))) ''b'' = acl_rights (ns_acl (dw_ns w)) ''b''" by simp
  with run there show ?thesis by blast
qed

end
