(* ===== verification/Client_Write.thy ===== *)
theory Client_Write
  imports Client_Properties
begin

text \<open>
  A write session at the client, end to end: from the lines typed at the prompt, through the name
  server, to the document on the disk of a storage server.
\<close>

section \<open>What is typed\<close>

text \<open>The update the client makes of a line, and the lines that end a session with a commit.\<close>

definition edit_of :: "char list \<Rightarrow> (int \<times> cstring) option" where
  "edit_of line =
     (let s = trim (cstr_of line); c = tl (dropWhile (\<lambda>c. c \<noteq> CHR '' '') s)
      in if s \<in> {[], ''ETIRW'', ''etirw'', ''CANCEL'', ''cancel''} \<or> CHR '' '' \<notin> set s then None
         else case atoi (takeWhile (\<lambda>c. c \<noteq> CHR '' '') s) of
           None \<Rightarrow> None
         | Some i \<Rightarrow> if i < 0 \<or> c = [] then None else Some (i, cbuf MAX_CONTENT_LEN c))"

definition commits :: "char list \<Rightarrow> bool" where
  "commits line \<longleftrightarrow> trim (cstr_of line) \<in> {''ETIRW'', ''etirw''}"

fun edited_words :: "cstring list \<Rightarrow> (int \<times> cstring) list \<Rightarrow> cstring list" where
  "edited_words ws [] = ws"
| "edited_words ws ((i, c) # es) = edited_words (take (nat i) ws @ c # drop (nat i) ws) es"

fun edits_valid :: "nat \<Rightarrow> (int \<times> cstring) list \<Rightarrow> bool" where
  "edits_valid n [] = True"
| "edits_valid n ((i, c) # es) \<longleftrightarrow> 0 \<le> i \<and> i \<le> int n \<and> edits_valid (Suc n) es"

declare write_lines.simps [simp del]

lemma client_update_order [simp]:
  "cl\<lparr>cl_world := w, cl_stdin := l\<rparr> = cl\<lparr>cl_stdin := l, cl_world := w\<rparr>"
  "cl\<lparr>cl_world := w, cl_stdout := t\<rparr> = cl\<lparr>cl_stdout := t, cl_world := w\<rparr>"
  "cl\<lparr>cl_stdout := t, cl_stdin := l\<rparr> = cl\<lparr>cl_stdin := l, cl_stdout := t\<rparr>"
  by simp_all

lemma edits_valid_words:
  "edits_valid n ((i, c) # es) \<Longrightarrow> n = length ws \<Longrightarrow> edits_valid (length (take (nat i) ws @ c # drop (nat i) ws)) es"
  by (simp add: Suc_diff_le min_def split: if_splits) 

definition update_msg :: "'w Net \<Rightarrow> 'w Client \<Rightarrow> cstring \<Rightarrow> int \<Rightarrow> int \<times> cstring \<Rightarrow> Message" where
  "update_msg net cl f sn e = (write_msg net cl OP_WRITE_UPDATE f sn)\<lparr>m_word_index := fst e, m_content := snd e\<rparr>"

lemma write_lines_edit:
  assumes "edit_of line = Some e"
  shows "write_lines net f sn ss u (line # lines) cl =
    plain_send net ss (update_msg net cl f sn e) (await net ss (error_line ''No response from Storage Server'') (\<lambda>r cl.
      if m_error_code r = ERR_SUCCESS then write_lines net f sn ss (u + 1) lines (print (CHECK @ ln (m_content r)) cl)
      else write_lines net f sn ss u lines (print (CROSS @ error_line (m_content r)) cl)))
    (print (NL # ''write> '') (cl\<lparr>cl_stdin := lines\<rparr>))"
  using assms
  by (auto simp: write_lines.simps edit_of_def update_msg_def Let_def put_content_def write_msg_def file_msg_def user_msg_def split: if_splits option.splits)

lemma write_lines_commit:
  assumes "commits line"
  shows "write_lines net f sn ss u (line # lines) cl =
    plain_send net ss (write_msg net cl OP_WRITE_COMMIT f sn) (await net ss (error_line ''Failed to commit changes'') (\<lambda>r.
      finish net ss (if m_error_code r = ERR_SUCCESS then
          CHECK @ ln ''Changes committed successfully!'' @ ln (''  Total updates made: '' @ show_nat u)
        else error_line (m_content r))))
    (print (NL # ''write> '') (cl\<lparr>cl_stdin := lines\<rparr>))"
  using assms by (auto simp: write_lines.simps commits_def write_msg_def file_msg_def user_msg_def Let_def)

lemma write_msg_sel [simp]:
  "m_operation (write_msg net cl op f sn) = op" "m_filename (write_msg net cl op f sn) = cbuf MAX_FILENAME_LEN f"
  "m_sender_id (write_msg net cl op f sn) = cbuf MAX_USERNAME_LEN (cl_username cl)" "m_sentence_num (write_msg net cl op f sn) = sn"
  by (simp_all add: write_msg_def)

lemma write_msg_same [simp]: "write_msg net (cl\<lparr>cl_world := w\<rparr>) op f sn = write_msg net cl op f sn"
  "write_msg net (print t cl) op f sn = write_msg net cl op f sn" "write_msg net (close_socket net s cl) op f sn = write_msg net cl op f sn"
  "write_msg net (cl\<lparr>cl_stdin := l\<rparr>) op f sn = write_msg net cl op f sn" "write_msg net (cl\<lparr>cl_stdout := t\<rparr>) op f sn = write_msg net cl op f sn"
  by (simp_all add: write_msg_def file_msg_def user_msg_def close_socket_def)

lemma update_msg_sel [simp]:
  "m_operation (update_msg net cl f sn e) = OP_WRITE_UPDATE" "m_word_index (update_msg net cl f sn e) = fst e"
  "m_content (update_msg net cl f sn e) = snd e"
  by (simp_all add: update_msg_def write_msg_def)

lemma update_msg_same [simp]: "update_msg net (cl\<lparr>cl_world := w\<rparr>) f sn e = update_msg net cl f sn e"
  "update_msg net (cl\<lparr>cl_stdin := l\<rparr>) f sn e = update_msg net cl f sn e" "update_msg net (cl\<lparr>cl_stdout := t\<rparr>) f sn e = update_msg net cl f sn e"
  by (simp_all add: update_msg_def)

section \<open>The session at the storage server\<close>

text \<open>The name server while the node \<open>n\<close> is in the state \<open>st\<close>, and the socket of a session.\<close>

definition node_world :: "Docs \<Rightarrow> Node list \<Rightarrow> Node \<Rightarrow> SS \<Rightarrow> Node list \<Rightarrow> Node list NS" where
  "node_world w pre n st post = (dw_ns w)\<lparr>ns_world := pre @ n\<lparr>nd_ss := st\<rparr> # post\<rparr>"

abbreviation sess :: "ExtendedSSInfo \<Rightarrow> Sock" where
  "sess s \<equiv> \<lparr>sk_phase = Session, sk_ip = es_ip s, sk_port = es_client_port s, sk_inbox = []\<rparr>"

lemma session_handled:
  assumes "reaches w s pre n post" and "session_message msg (nd_env n) st = Some (st', out)"
  shows "handled env (sess s) msg (talking w (node_world w pre n st post) (sess s)) =
    (out, talking w (node_world w pre n st' post) (sess s))"
proof -
  let ?w = "w\<lparr>dw_ns := node_world w pre n st post\<rparr>"
  have reach: "reaches ?w s pre (n\<lparr>nd_ss := st\<rparr>) post"
    using assms(1) by (auto simp: reaches_def at_node_def serves_def node_world_def)
  have "handled env (sess s) msg (talking ?w (node_world w pre n st post) (sess s)) =
      (out, talking ?w ((node_world w pre n st post)\<lparr>ns_world := pre @ (n\<lparr>nd_ss := st\<rparr>)\<lparr>nd_ss := st'\<rparr> # post\<rparr>) (sess s))"
    by (rule handled_at [OF reach, where serve = "session_message msg"]) (use assms(2) in simp_all)
  then show ?thesis by (simp add: talking_def node_world_def)
qed

lemma session_exchange:
  assumes "reaches w s pre n post" and "session_message msg (nd_env n) st = Some (st', [r])"
  shows "plain_send (docs_net env) (dw_next w) msg (await (docs_net env) (dw_next w) err k)
      (cl\<lparr>cl_world := talking w (node_world w pre n st post) (sess s)\<rparr>) =
    k r (cl\<lparr>cl_world := talking w (node_world w pre n st' post)
      ((sess s)\<lparr>sk_phase := if m_operation msg = OP_WRITE_UPDATE then Session else Over\<rparr>)\<rparr>)"
  by (simp add: send_run(2) [OF session_handled [OF assms]] await_run next_phase_def)

lemma update_run:
  assumes "ws_active (ss_session st)" and "0 \<le> i" and "i \<le> int (length (ws_words (ss_session st)))"
    and "m_operation m = OP_WRITE_UPDATE" and "m_word_index m = i" and "m_content m = c"
  obtains r where "session_message m env st =
      Some (st\<lparr>ss_session := (ss_session st)\<lparr>ws_words := take (nat i) (ws_words (ss_session st)) @ c # drop (nat i) (ws_words (ss_session st))\<rparr>\<rparr>, [r])"
    and "m_error_code r = ERR_SUCCESS"
  using assms by (auto simp: session_message_def handle_write_session_def handle_write_update_def Let_def reply_def)

text \<open>The state of the storage server after some edits of the session.\<close>

definition edited_ss :: "SS \<Rightarrow> (int \<times> cstring) list \<Rightarrow> SS" where
  "edited_ss st es = st\<lparr>ss_session := (ss_session st)\<lparr>ws_words := edited_words (ws_words (ss_session st)) es\<rparr>\<rparr>"

lemma write_edits:
  assumes "reaches w s pre n post" and "list_all2 (\<lambda>line e. edit_of line = Some e) lines es"
    and "ws_active (ss_session st)" and "edits_valid (length (ws_words (ss_session st))) es" and "cl_stdin cl = lines @ rest"
  shows "\<exists>t. write_lines (docs_net env) f sn (dw_next w) u (lines @ rest) (cl\<lparr>cl_world := talking w (node_world w pre n st post) (sess s)\<rparr>) =
      write_lines (docs_net env) f sn (dw_next w) (u + length es) rest
        (cl\<lparr>cl_stdin := rest, cl_stdout := cl_stdout cl @ t,
           cl_world := talking w (node_world w pre n (edited_ss st es) post) (sess s)\<rparr>)"
using assms(2-) proof (induction lines es arbitrary: st cl u rule: list_all2_induct)
  case Nil
  then show ?case by (intro exI [of _ "[]"]) (cases cl, simp add: edited_ss_def)
next
  case (Cons line lines e es)
  obtain i c where e: "e = (i, c)" by fastforce
  let ?ws = "ws_words (ss_session st)" and ?net = "docs_net env"
  let ?st = "st\<lparr>ss_session := (ss_session st)\<lparr>ws_words := take (nat i) ?ws @ c # drop (nat i) ?ws\<rparr>\<rparr>"
  have v: "0 \<le> i" "i \<le> int (length ?ws)" using Cons.prems(2) e by simp_all
  let ?m = "update_msg ?net cl f sn e"
  obtain r where r: "session_message ?m (nd_env n) st = Some (?st, [r])" "m_error_code r = ERR_SUCCESS"
    by (rule update_run [OF Cons.prems(1) v, of ?m c]) (simp_all add: e)
  let ?cl = "print (CHECK @ ln (m_content r)) (print (NL # ''write> '') (cl\<lparr>cl_stdin := lines @ rest\<rparr>))"
  have "edits_valid (length (ws_words (ss_session ?st))) es"
    using edits_valid_words [OF Cons.prems(2) [unfolded e] refl] by simp
  then obtain t where t: "write_lines ?net f sn (dw_next w) (u + 1) (lines @ rest)
      (?cl\<lparr>cl_world := talking w (node_world w pre n ?st post) (sess s)\<rparr>) =
    write_lines ?net f sn (dw_next w) (u + 1 + length es) rest
      (?cl\<lparr>cl_stdin := rest, cl_stdout := cl_stdout ?cl @ t, cl_world := talking w (node_world w pre n (edited_ss ?st es) post) (sess s)\<rparr>)"
    using Cons.IH [of ?st ?cl "u + 1"] Cons.prems(1) by (auto simp: print_def)
  have "write_lines ?net f sn (dw_next w) u ((line # lines) @ rest) (cl\<lparr>cl_world := talking w (node_world w pre n st post) (sess s)\<rparr>) =
      write_lines ?net f sn (dw_next w) (u + 1) (lines @ rest) (?cl\<lparr>cl_world := talking w (node_world w pre n ?st post) (sess s)\<rparr>)"
    by (simp add: write_lines_edit [OF Cons.hyps(1)] session_exchange [OF assms(1) r(1)] r(2) print_def)
  then show ?case unfolding t by (auto simp: print_def edited_ss_def e)
qed

section \<open>From the prompt to the disk\<close>

text \<open>
  The storage server \<open>n\<close> accepts a session of \<open>user\<close> on sentence \<open>sn\<close> of the file \<open>f\<close>, whose bytes are
  \<open>bs\<close>, with these edits: memory is there, nobody else holds the sentence, sentence and words are
  in range, and the result fits.
\<close>

definition write_ready :: "Node \<Rightarrow> cstring \<Rightarrow> int \<Rightarrow> cstring \<Rightarrow> char list \<Rightarrow> (int \<times> cstring) list \<Rightarrow> bool" where
  "write_ready n f sn user bs es \<longleftrightarrow>
     lock_inv (ss_locks (nd_ss n)) \<and> undo_inv (ss_undo (nd_ss n)) \<and> e_mem_node (nd_env n) \<and> e_mem_content (nd_env n) \<and>
     node_file n f = Some bs \<and> fst (lock_acquire (ss_locks (nd_ss n)) f sn user (e_now (nd_env n))) \<noteq> ERR_LOCKED \<and>
     0 \<le> sn \<and> sn \<le> int (length (parse_sentences (doc_of bs))) \<and> words_fit (start_words (doc_of bs) sn) \<and>
     edits_valid (length (start_words (doc_of bs) sn)) es \<and>
     length (join_words (edited_words (start_words (doc_of bs) sn) es)) < MAX_CONTENT_LEN \<and>
     name_ok (tmp_of f) \<and> fs_lookup (ss_fs (nd_ss n)) (get_file_path (ss_dir (nd_ss n)) (tmp_of f)) = None"

definition update_messages :: "'w Net \<Rightarrow> 'w Client \<Rightarrow> Node \<Rightarrow> cstring \<Rightarrow> int \<Rightarrow> (int \<times> cstring) list \<Rightarrow> (Env \<times> Message) list" where
  "update_messages net cl n f sn es = map (\<lambda>e. (nd_env n, update_msg net cl f sn e)) es"

lemma update_messages_valid: "updates_valid k (update_messages net cl n f sn es) = edits_valid k es"
proof (induction es arbitrary: k)
  case (Cons e es)
  then show ?case by (cases e) (simp add: update_messages_def)
qed (simp add: update_messages_def)

lemma update_messages_words: "apply_updates ws (update_messages net cl n f sn es) = edited_words ws es"
proof (induction es arbitrary: ws)
  case (Cons e es)
  then show ?case by (cases e) (simp add: update_messages_def)
qed (simp add: update_messages_def)

lemma write_ready_exchange:
  assumes "write_ready n f sn user bs es" and "node_ok n" and "name_ok f" and "client_of user w cl"
  shows "exchange_ready (nd_env n) (nd_ss n) (write_msg (docs_net env) cl OP_WRITE_START f sn) bs (update_messages (docs_net env) cl n f sn es)"
proof -
  have f: "cbuf MAX_FILENAME_LEN f = f" and u: "cbuf MAX_USERNAME_LEN user = user" "cl_username cl = user"
    using assms(3,4) name_okD [of f] by (auto simp: client_of_def intro!: cbuf_id)
  have "msg_wf (write_msg (docs_net env) cl OP_WRITE_START f sn)"
    using client_messages(5) [of OP_WRITE_START cl user] u(2) by (simp add: client_message_def)
  with assms f u show ?thesis
    by (simp add: exchange_ready_def start_ready_def write_ready_def node_ok_def node_file_def final_words_def
        update_messages_valid update_messages_words)
qed

lemma edited_is_edited_ss:
  "edited env st m bs (update_messages net cl n f sn es) = edited_ss (started env st m bs) es"
  by (simp add: edited_def edited_ss_def update_messages_words Let_def)

lemma session_opened:
  assumes "docs_inv w" and "cl_world cl = w" and "reaches w s pre n post" and "m_operation msg = OP_WRITE_START"
    and "handle_write_session (nd_env n) (nd_ss n) msg = Some (st, [r])"
  shows "open_server (docs_net env) (es_ip s) (es_client_port s) err (\<lambda>s. plain_send (docs_net env) s msg (await (docs_net env) s err2 (k s))) cl =
    k (dw_next w) r (cl\<lparr>cl_world := talking w (node_world w pre n st post) (sess s)\<rparr>)"
proof -
  let ?sk = "\<lparr>sk_phase = Fresh, sk_ip = es_ip s, sk_port = es_client_port s, sk_inbox = []\<rparr>"
  have h: "handled env ?sk msg (talking w (dw_ns w) ?sk) = ([r], talking w (node_world w pre n st post) ?sk)"
    unfolding node_world_def
    by (rule handled_at [OF assms(3), of _ _ "first_message msg"]) (use assms(4,5) in \<open>simp_all add: first_message_def\<close>)
  show ?thesis unfolding open_run [OF assms(1,2) reaches_listens [OF assms(3)]] using assms(4)
    by (simp add: send_run(2) [OF h] await_run next_phase_def)
qed

lemma session_committed:
  assumes "docs_inv w" and "reaches w s pre n post" and "commits line" and "handle_write_commit (nd_env n) st = Some (st', [r])"
    and "m_error_code r = ERR_SUCCESS"
  shows "write_lines (docs_net env) f sn (dw_next w) u (line # rest) (cl\<lparr>cl_world := talking w (node_world w pre n st post) (sess s)\<rparr>) =
    Some (print (NL # ''write> '' @ CHECK @ ln ''Changes committed successfully!'' @ ln (''  Total updates made: '' @ show_nat u))
      (cl\<lparr>cl_stdin := rest, cl_world := hung_up w (node_world w pre n st' post)\<rparr>))"
proof -
  let ?m = "write_msg (docs_net env) cl OP_WRITE_COMMIT f sn"
  have "session_message ?m (nd_env n) st = Some (st', [r])"
    using assms(4) by (simp add: session_message_def handle_write_session_def)
  note go = session_exchange [OF assms(2) this]
  show ?thesis
    using go [of env _ _ "print (NL # ''write> '') (cl\<lparr>cl_stdin := rest\<rparr>)"] assms(5) talking_close [OF assms(1)]
    by (simp add: write_lines_commit [OF assms(3)] finish_def print_def)
qed

lemma typed_session:
  assumes inv: "docs_inv w" and reach: "reaches w s pre n post"
    and typed: "list_all2 (\<lambda>line e. edit_of line = Some e) lines es" "commits line" "cl_stdin cl = lines @ line # rest"
    and session: "ws_active (ss_session st)" "edits_valid (length (ws_words (ss_session st))) es"
    and commit: "handle_write_commit (nd_env n) (edited_ss st es) = Some (st', [r])" "m_error_code r = ERR_SUCCESS"
  shows "\<exists>t. write_lines (docs_net env) f sn (dw_next w) 0 (cl_stdin cl) (cl\<lparr>cl_world := talking w (node_world w pre n st post) (sess s)\<rparr>) =
    Some (cl\<lparr>cl_stdin := rest,
      cl_stdout := cl_stdout cl @ t @ CHECK @ ln ''Changes committed successfully!'' @ ln (''  Total updates made: '' @ show_nat (length es)),
      cl_world := hung_up w (node_world w pre n st' post)\<rparr>)"
proof -
  obtain t where "write_lines (docs_net env) f sn (dw_next w) 0 (lines @ line # rest)
      (cl\<lparr>cl_world := talking w (node_world w pre n st post) (sess s)\<rparr>) =
    write_lines (docs_net env) f sn (dw_next w) (0 + length es) (line # rest)
      (cl\<lparr>cl_stdin := line # rest, cl_stdout := cl_stdout cl @ t,
        cl_world := talking w (node_world w pre n (edited_ss st es) post) (sess s)\<rparr>)"
    using write_edits [OF reach typed(1) session typed(3), of env f sn 0] by auto
  with session_committed [OF inv reach typed(2) commit, of env f sn "length es" rest
      "cl\<lparr>cl_stdin := line # rest, cl_stdout := cl_stdout cl @ t\<rparr>"]
  show ?thesis by (intro exI [of _ "t @ NL # ''write> ''"]) (simp add: typed(3) print_def)
qed

text \<open>
  C1. WRITE end to end: for a user who may write a file located at a live server, the words typed
  at the prompt of a session and ETIRW replace the chosen sentence of the document on that
  server's disk by the edited words, no other file changes, and the client reports success with
  the number of edits.
\<close>

theorem client_writes_document:
  assumes "located w f pre n post" and "client_of user w cl" and "acl_check_write (ns_acl (dw_ns w)) f user"
    and "length (nd_ip n) < MAX_IP_LEN - 1" and "num \<noteq> []" and "atoi num = Some sn" and "write_ready n f sn user bs es"
    and "cl_stdin cl = lines @ line # rest" and "list_all2 (\<lambda>line e. edit_of line = Some e) lines es" and "commits line"
  shows "\<exists>c st t. cmd_write (docs_net env) f num cl = Some (cl\<lparr>cl_stdin := rest,
        cl_stdout := cl_stdout cl @ t @ CHECK @ ln ''Changes committed successfully!'' @ ln (''  Total updates made: '' @ show_nat (length es)),
        cl_world := after_request w pre n st post c\<rparr>) \<and>
    (\<forall>g. name_ok g \<longrightarrow> node_file (n\<lparr>nd_ss := st\<rparr>) g =
       (if g = f then Some (replace_sentence (doc_of bs) (nat sn) (join_words (edited_words (start_words (doc_of bs) sn) es)))
        else node_file n g))"
proof -
  let ?net = "docs_net env" and ?s = "server (dw_ns w) (lookup_result (dw_ns w) f)"
  have f: "f \<noteq> []" "cbuf MAX_FILENAME_LEN f = f" and user: "cbuf MAX_USERNAME_LEN user = user" "cl_username cl = user" "cl_world cl = w"
    and inv: "docs_inv w" "dw_up w" and n: "node_ok n" "name_ok f"
    using assms(1,2) name_okD [of f] by (auto simp: located_def client_of_def intro!: cbuf_id)
  let ?msg = "write_msg ?net cl OP_WRITE f sn" and ?start = "write_msg ?net cl OP_WRITE_START f sn"
  obtain m c where ns: "dispatch (system_env env) (dw_ns w) ?msg = Some ([m], (dw_ns w)\<lparr>ns_lru := c\<rparr>)"
    and m: "m_error_code m = ERR_SUCCESS" "m_ss_ip m = es_ip ?s" "m_ss_port m = es_client_port ?s"
    and inv': "docs_inv (hung_up w ((dw_ns w)\<lparr>ns_lru := c\<rparr>))"
    by (rule routed [OF assms(1,2), of OP_WRITE ?msg env]) (use assms(3) f user in \<open>simp_all add: needs_write_def\<close>)
  let ?w = "hung_up w ((dw_ns w)\<lparr>ns_lru := c\<rparr>)"
  have reach: "reaches ?w ?s pre n post" by (rule located_hung_up [OF assms(1)])
  have ip: "\<not> unterminated m"
    using assms(1,4) m(2) by (auto simp: unterminated_def located_def reaches_def at_node_def serves_def)
  let ?ups = "update_messages ?net cl n f sn es"
  have ready: "exchange_ready (nd_env n) (nd_ss n) ?start bs ?ups" by (rule write_ready_exchange [OF assms(7) n assms(2)])
  let ?st = "started (nd_env n) (nd_ss n) ?start bs"
  obtain r where start: "handle_write_session (nd_env n) (nd_ss n) ?start = Some (?st, [r])" "m_error_code r = ERR_SUCCESS"
    using ready start_run [of "nd_env n" "nd_ss n" ?start bs] by (simp add: exchange_ready_def handle_write_session_def reply_def)
  obtain st where commit: "handle_write_commit (nd_env n) (edited_ss ?st es) = Some (st, [reply (nd_env n) ERR_SUCCESS ''WRITE committed successfully''])"
    and made: "exchange_done (nd_env n) (nd_ss n) ?start bs ?ups st"
    using edited_commit [OF ready, of "nd_env n"] by (auto simp: edited_is_edited_ss)
  have session: "ws_active (ss_session ?st)" "edits_valid (length (ws_words (ss_session ?st))) es"
    using assms(7) by (simp_all add: started_def write_ready_def)
  let ?cl = "print (ln (''Lock acquired! '' @ m_content r) @ session_banner)
    (print (ln (''Connecting to Storage Server at '' @ m_ss_ip m @ '':'' @ show_int (m_ss_port m) @ ''...'')) (cl\<lparr>cl_world := ?w\<rparr>))"
  obtain t where t: "write_lines ?net f sn (dw_next ?w) 0 (cl_stdin ?cl) (?cl\<lparr>cl_world := talking ?w (node_world ?w pre n ?st post) (sess ?s)\<rparr>) =
    Some (?cl\<lparr>cl_stdin := rest,
      cl_stdout := cl_stdout ?cl @ t @ CHECK @ ln ''Changes committed successfully!'' @ ln (''  Total updates made: '' @ show_nat (length es)),
      cl_world := hung_up ?w (node_world ?w pre n st post)\<rparr>)"
    using typed_session [OF inv' reach assms(9,10) _ session commit, of ?cl rest env f sn] assms(8) by (auto simp: print_def reply_def)
  have "cmd_write ?net f num cl =
      write_lines ?net f sn (dw_next ?w) 0 (cl_stdin ?cl) (?cl\<lparr>cl_world := talking ?w (node_world ?w pre n ?st post) (sess ?s)\<rparr>)"
    using f m ip assms(5,6,7) start(2)
    by (simp add: cmd_write_def ask_ns(2) [OF inv(1) user(3) inv(2) ns] talking_close [OF inv(1)] Let_def write_ready_def
        session_opened [OF inv' _ reach _ start(1)] print_def)
  also have "\<dots> = Some (cl\<lparr>cl_stdin := rest, cl_stdout := cl_stdout cl @
        (ln (''Connecting to Storage Server at '' @ m_ss_ip m @ '':'' @ show_int (m_ss_port m) @ ''...'') @
         ln (''Lock acquired! '' @ m_content r) @ session_banner @ t) @
        CHECK @ ln ''Changes committed successfully!'' @ ln (''  Total updates made: '' @ show_nat (length es)),
      cl_world := after_request w pre n st post c\<rparr>)"
    unfolding t by (simp add: print_def hung_up_def node_world_def after_request_def)
  finally have run: "cmd_write ?net f num cl = \<dots>" .
  have files: "\<forall>g. name_ok g \<longrightarrow> node_file (n\<lparr>nd_ss := st\<rparr>) g =
      (if g = f then Some (replace_sentence (doc_of bs) (nat sn) (join_words (edited_words (start_words (doc_of bs) sn) es)))
       else node_file n g)"
    using made f assms(7)
    by (auto simp: exchange_done_def node_file_def final_words_def update_messages_words write_ready_def file_bytes_def)
  show ?thesis by (intro exI conjI) (rule run, rule files)
qed

lemma demo_write_ready: "write_ready (demo_node demo_fs) ''b'' 0 ''ann'' ''Hi.'' [(0, ''Oh'')]"
proof -
  have sel: "ss_locks (nd_ss (demo_node demo_fs)) = lock_table_init" "ss_undo (nd_ss (demo_node demo_fs)) = undo_table_init"
    "nd_env (demo_node demo_fs) = Write_Path.sample_env"
    by (simp_all add: demo_node_def idle_ss_def sample_ss_def sample_node_def)
  have doc: "doc_of ''Hi.'' = ''Hi.''" by (simp add: doc_of_small)
  have words: "start_words ''Hi.'' 0 = [''Hi.'']"
    by (simp add: start_words_def parse_sentences_def is_delimiter_def words_of_def runs.simps isspace_def)
  have tmp: "name_ok (tmp_of ''b'')" by (simp add: name_ok_def plain_name_def tmp_of_def)
  have free: "fs_lookup demo_fs (get_file_path ''s'' (tmp_of ''b'')) = None"
    using file_lookup [OF demo_fs_ok(1) tmp] by (simp add: demo_resolve) (simp add: demo_fs_def ckpt_fs_def sample_fs_def tmp_of_def CHECKPOINT_DIR_def)
  have granted: "fst (lock_acquire lock_table_init ''b'' 0 ''ann'' now) \<noteq> ERR_LOCKED" for now
    by (simp add: lock_acquire_def lock_table_init_def Let_def)
  show ?thesis
    unfolding write_ready_def sel doc words demo_node_sel
    using lock_inv_init undo_inv_init tmp free granted demo_fs_ok(3)
    by (simp add: node_file_def Write_Path.sample_env_def parse_sentences_def is_delimiter_def)
qed

theorem client_writes_document_witness:
  "\<exists>w n st cl. cmd_write (docs_net (NS_Registry.sample_env :: Node list NsEnv)) ''b'' ''0''
       (demo_client w ''ann'' [''0 Oh'' @ [NL], ''ETIRW'' @ [NL]]) = Some cl \<and>
     cl_stdin cl = [] \<and> node_file (n\<lparr>nd_ss := st\<rparr>) ''b'' = Some ''Oh Hi.'' \<and> ns_world (dw_ns (cl_world cl)) = [n\<lparr>nd_ss := st\<rparr>]"
proof -
  obtain w where w: "located w ''b'' [] (demo_node demo_fs) []" "acl_rights (ns_acl (dw_ns w)) ''b'' = Some (''ann'', [], [])"
    by (rule demo_world [OF demo_fs_ok(1)])
  have may: "acl_check_write (ns_acl (dw_ns w)) ''b'' ''ann''" using w(2) by (simp add: acl_check_rights can_write_def)
  let ?lines = "[''0 Oh'' @ [NL]]"
  have typed: "list_all2 (\<lambda>line e. edit_of line = Some e) ?lines [(0, ''Oh'')]" "commits (''ETIRW'' @ [NL])" "atoi ''0'' = Some 0"
    by code_simp+
  have ip: "length (nd_ip (demo_node demo_fs)) < MAX_IP_LEN - 1" by (simp add: demo_node_def sample_node_def)
  have result: "replace_sentence (doc_of ''Hi.'') (nat 0) (join_words (edited_words (start_words (doc_of ''Hi.'') 0) [(0, ''Oh'')])) = ''Oh Hi.''"
    by (simp add: doc_of_small start_words_def replace_sentence_def parse_sentences_def is_delimiter_def words_of_def runs.simps isspace_def)
  let ?net = "docs_net (NS_Registry.sample_env :: Node list NsEnv)" and ?cl = "demo_client w ''ann'' (?lines @ (''ETIRW'' @ [NL]) # [])"
  have "\<exists>c st t. cmd_write ?net ''b'' ''0'' ?cl = Some (?cl\<lparr>cl_stdin := [],
        cl_stdout := cl_stdout ?cl @ t @ CHECK @ ln ''Changes committed successfully!'' @
          ln (''  Total updates made: '' @ show_nat (length [(0 :: int, ''Oh'')])),
        cl_world := after_request w [] (demo_node demo_fs) st [] c\<rparr>) \<and>
    (\<forall>g. name_ok g \<longrightarrow> node_file ((demo_node demo_fs)\<lparr>nd_ss := st\<rparr>) g =
      (if g = ''b'' then Some (replace_sentence (doc_of ''Hi.'') (nat 0) (join_words (edited_words (start_words (doc_of ''Hi.'') 0) [(0, ''Oh'')])))
       else node_file (demo_node demo_fs) g))"
    by (rule client_writes_document [OF w(1) demo_ann may ip _ typed(3) demo_write_ready _ typed(1,2)]) (simp_all add: demo_client_def)
  then obtain c st t r where run: "cmd_write ?net ''b'' ''0'' ?cl = Some r" and r: "r = ?cl\<lparr>cl_stdin := [],
        cl_stdout := cl_stdout ?cl @ t @ CHECK @ ln ''Changes committed successfully!'' @
          ln (''  Total updates made: '' @ show_nat (length [(0 :: int, ''Oh'')])),
        cl_world := after_request w [] (demo_node demo_fs) st [] c\<rparr>"
    and made: "\<forall>g. name_ok g \<longrightarrow> node_file ((demo_node demo_fs)\<lparr>nd_ss := st\<rparr>) g =
      (if g = ''b'' then Some (replace_sentence (doc_of ''Hi.'') (nat 0) (join_words (edited_words (start_words (doc_of ''Hi.'') 0) [(0, ''Oh'')])))
       else node_file (demo_node demo_fs) g)"
    by blast
  have "name_ok ''b''" using demo_fs_ok(2) by (simp add: ckpt_ok_def)
  with made result have doc: "node_file ((demo_node demo_fs)\<lparr>nd_ss := st\<rparr>) ''b'' = Some ''Oh Hi.''" by simp
  have "cl_stdin r = []" "ns_world (dw_ns (cl_world r)) = [(demo_node demo_fs)\<lparr>nd_ss := st\<rparr>]"
    by (simp_all add: r after_request_def)
  with run doc show ?thesis by (metis append_Cons append_Nil)
qed

end
