(* ===== verification/Logger.thy ===== *)
theory Logger
  imports Protocol
begin

text \<open>
  \<^verbatim>\<open>common/logger.c\<close>: the logger of a process, its console and its log file. What
  \<open>vsnprintf\<close> would make of a format and its arguments is given as a text, the time as the text
  \<open>strftime\<close> makes of it, and opening the log file as its result.
\<close>

section \<open>State and levels\<close>

abbreviation LOG_DEBUG :: int where "LOG_DEBUG \<equiv> 0"
abbreviation LOG_INFO :: int where "LOG_INFO \<equiv> 1"
abbreviation LOG_WARNING :: int where "LOG_WARNING \<equiv> 2"
abbreviation LOG_ERROR :: int where "LOG_ERROR \<equiv> 3"
abbreviation LOG_CRITICAL :: int where "LOG_CRITICAL \<equiv> 4"

text \<open>\<open>lg_open\<close> is whether \<open>log_file_ptr\<close> is set, \<open>lg_file\<close> what was written to the file.\<close>

record Logger =
  lg_component :: cstring
  lg_min_level :: int
  lg_open :: bool
  lg_file :: "char list"
  lg_console :: "char list"

definition logger_start :: Logger where
  "logger_start = \<lparr>lg_component = ''UNKNOWN'', lg_min_level = LOG_DEBUG, lg_open = False, lg_file = [], lg_console = []\<rparr>"

definition get_log_level_string :: "int \<Rightarrow> cstring" where
  "get_log_level_string level =
     (if level = LOG_DEBUG then ''DEBUG'' else if level = LOG_INFO then ''INFO''
      else if level = LOG_WARNING then ''WARNING'' else if level = LOG_ERROR then ''ERROR''
      else if level = LOG_CRITICAL then ''CRITICAL'' else ''UNKNOWN'')"

section \<open>Logging\<close>

definition log_line :: "cstring \<Rightarrow> cstring \<Rightarrow> int \<Rightarrow> cstring \<Rightarrow> cstring" where
  "log_line timestamp component level message =
     ''['' @ timestamp @ ''] ['' @ component @ ''] ['' @ get_log_level_string level @ ''] '' @ message @ [NL]"

definition log_message :: "cstring \<Rightarrow> int \<Rightarrow> cstring \<Rightarrow> Logger \<Rightarrow> Logger" where
  "log_message timestamp level msg lg =
     (if level < lg_min_level lg then lg
      else let message = cbuf 1024 msg;
               line = cbuf 1200 (log_line timestamp (lg_component lg) level message);
               lg = lg\<lparr>lg_console := lg_console lg @ line\<rparr>
           in if lg_open lg then lg\<lparr>lg_file := lg_file lg @ line\<rparr> else lg)"

text \<open>The convenience functions format first and pass the result on as an argument of \<open>%s\<close>.\<close>

definition log_debug :: "cstring \<Rightarrow> cstring \<Rightarrow> Logger \<Rightarrow> Logger" where
  "log_debug timestamp msg = log_message timestamp LOG_DEBUG (cbuf 1024 msg)"

definition log_info :: "cstring \<Rightarrow> cstring \<Rightarrow> Logger \<Rightarrow> Logger" where
  "log_info timestamp msg = log_message timestamp LOG_INFO (cbuf 1024 msg)"

definition log_warning :: "cstring \<Rightarrow> cstring \<Rightarrow> Logger \<Rightarrow> Logger" where
  "log_warning timestamp msg = log_message timestamp LOG_WARNING (cbuf 1024 msg)"

definition log_error :: "cstring \<Rightarrow> cstring \<Rightarrow> Logger \<Rightarrow> Logger" where
  "log_error timestamp msg = log_message timestamp LOG_ERROR (cbuf 1024 msg)"

definition log_critical :: "cstring \<Rightarrow> cstring \<Rightarrow> Logger \<Rightarrow> Logger" where
  "log_critical timestamp msg = log_message timestamp LOG_CRITICAL (cbuf 1024 msg)"

text \<open>\<open>None\<close> is a null pointer; \<open>opens\<close> is whether \<open>fopen (log_file, "a")\<close> succeeds.\<close>

definition init_logger :: "bool \<Rightarrow> cstring \<Rightarrow> cstring option \<Rightarrow> cstring option \<Rightarrow> Logger \<Rightarrow> int \<times> Logger" where
  "init_logger opens timestamp component log_file lg =
     (case component of
        None \<Rightarrow> (- 1, lg)
      | Some c \<Rightarrow>
          let lg = lg\<lparr>lg_component := cbuf 32 c\<rparr>
          in if log_file \<noteq> None \<and> \<not> opens then (- 1, lg\<lparr>lg_open := False\<rparr>)
             else (0, log_info timestamp (''Logger initialized for component: '' @ c)
               (if log_file \<noteq> None then lg\<lparr>lg_open := True\<rparr> else lg)))"

definition close_logger :: "cstring \<Rightarrow> Logger \<Rightarrow> Logger" where
  "close_logger timestamp lg =
     (if lg_open lg then (log_info timestamp ''Logger closing'' lg)\<lparr>lg_open := False\<rparr> else lg)"

definition or_na :: "cstring option \<Rightarrow> cstring" where
  "or_na s = (case s of None \<Rightarrow> ''N/A'' | Some t \<Rightarrow> t)"

definition log_operation ::
  "cstring \<Rightarrow> cstring \<Rightarrow> cstring option \<Rightarrow> cstring option \<Rightarrow> cstring option \<Rightarrow> int \<Rightarrow> cstring \<Rightarrow> Logger \<Rightarrow> Logger" where
  "log_operation timestamp operation filename username ip port result =
     log_info timestamp (''OPERATION: '' @ operation @ '' | FILE: '' @ or_na filename @ '' | USER: '' @ or_na username @
       '' | FROM: '' @ or_na ip @ '':'' @ show_int port @ '' | RESULT: '' @ result)"

definition log_request :: "cstring \<Rightarrow> cstring \<Rightarrow> cstring \<Rightarrow> cstring \<Rightarrow> Logger \<Rightarrow> Logger" where
  "log_request timestamp sender operation details =
     log_info timestamp (''REQUEST from '' @ sender @ '': '' @ operation @ '' | '' @ details)"

definition log_response :: "cstring \<Rightarrow> cstring \<Rightarrow> cstring \<Rightarrow> cstring \<Rightarrow> Logger \<Rightarrow> Logger" where
  "log_response timestamp receiver operation result =
     log_info timestamp (''RESPONSE to '' @ receiver @ '': '' @ operation @ '' | '' @ result)"

definition log_ack :: "cstring \<Rightarrow> cstring \<Rightarrow> cstring \<Rightarrow> cstring \<Rightarrow> Logger \<Rightarrow> Logger" where
  "log_ack timestamp receiver operation status =
     log_info timestamp (''ACK to '' @ receiver @ '': '' @ operation @ '' | '' @ status)"

section \<open>No line is cut\<close>

lemma length_level: "length (get_log_level_string level) \<le> 8"
  by (simp add: get_log_level_string_def)

text \<open>
  Between the buffers of the time (32), the component (32) and the message (1024), the line
  buffer of 1200 bytes never cuts a line: what is printed is the whole line, with its line feed.
\<close>

lemma log_line_complete:
  assumes "length timestamp < 32" and "length (lg_component lg) < 32"
  shows "log_message timestamp level msg lg =
    (if level < lg_min_level lg then lg
     else let line = log_line timestamp (lg_component lg) level (cbuf 1024 msg)
          in lg\<lparr>lg_file := lg_file lg @ (if lg_open lg then line else []), lg_console := lg_console lg @ line\<rparr>)"
proof -
  have "length (cbuf 1024 msg) < 1024" by (rule length_cbuf_less) simp
  then have "length (log_line timestamp (lg_component lg) level (cbuf 1024 msg)) < 1200"
    using assms length_level [of level] by (simp add: log_line_def)
  then show ?thesis by (cases lg) (simp add: log_message_def Let_def cbuf_id)
qed

text \<open>A run of calls, each with the time at which it is made.\<close>

definition log_all :: "(cstring \<times> int \<times> cstring) list \<Rightarrow> Logger \<Rightarrow> Logger" where
  "log_all calls lg = fold (\<lambda>(timestamp, level, msg). log_message timestamp level msg) calls lg"

lemma log_message_config:
  "lg_component (log_message timestamp level msg lg) = lg_component lg" "lg_open (log_message timestamp level msg lg) = lg_open lg"
  "lg_min_level (log_message timestamp level msg lg) = lg_min_level lg"
  by (simp_all add: log_message_def Let_def)

text \<open>
  C40. The log file of an open logger is the console's twin: over any run of log calls, each with its
  own time, both grow by the same text, one complete line for every call at or above the level.
\<close>

theorem log_file_mirrors_console:
  assumes "list_all (\<lambda>(timestamp, level, msg). length timestamp < 32) calls" and "length (lg_component lg) < 32" and "lg_open lg"
  shows "\<exists>t. lg_file (log_all calls lg) = lg_file lg @ t \<and> lg_console (log_all calls lg) = lg_console lg @ t \<and>
    t = concat (map (\<lambda>(timestamp, level, msg). log_line timestamp (lg_component lg) level (cbuf 1024 msg))
      (filter (\<lambda>(timestamp, level, msg). lg_min_level lg \<le> level) calls))"
  using assms
proof (induction calls arbitrary: lg)
  case (Cons call calls)
  obtain timestamp level msg where call: "call = (timestamp, level, msg)" by (cases call)
  have now: "length timestamp < 32" using Cons.prems(1) by (simp add: call)
  let ?lg = "log_message timestamp level msg lg"
  from Cons.IH [of ?lg] Cons.prems show ?case
    unfolding log_message_config
    by (auto simp: log_all_def call log_line_complete [OF now Cons.prems(2)] Let_def)
qed (simp add: log_all_def)

theorem log_file_mirrors_console_witness:
  "lg_file (log_all [(''2025-01-01 00:00:00'', LOG_INFO, ''up''), (''2025-01-01 00:00:09'', LOG_ERROR, ''down'')]
      (snd (init_logger True ''2025-01-01 00:00:00'' (Some ''NS'') (Some ''ns.log'') logger_start))) =
    lg_file (snd (init_logger True ''2025-01-01 00:00:00'' (Some ''NS'') (Some ''ns.log'') logger_start)) @
      ''[2025-01-01 00:00:00] [NS] [INFO] up'' @ [NL] @ ''[2025-01-01 00:00:09] [NS] [ERROR] down'' @ [NL]"
proof -
  let ?lg = "snd (init_logger True ''2025-01-01 00:00:00'' (Some ''NS'') (Some ''ns.log'') logger_start)"
  have lg: "lg_component ?lg = ''NS''" "lg_open ?lg" "lg_min_level ?lg = LOG_DEBUG"
    by (simp_all add: init_logger_def log_info_def log_message_config cbuf_id logger_start_def)
  then show ?thesis
    using log_file_mirrors_console [of "[(''2025-01-01 00:00:00'', LOG_INFO, ''up''), (''2025-01-01 00:00:09'', LOG_ERROR, ''down'')]" ?lg]
    by (simp add: lg log_line_def get_log_level_string_def cbuf_id)
qed

end
