(* ===== verification/Socket_Calls.thy ===== *)
theory Socket_Calls
  imports Protocol "HOL-Library.Word"
begin

text \<open>
  The calls of \<^verbatim>\<open>common/socket_utils.c\<close> that make and configure sockets, on the kernel's table of
  descriptors, and the listening sockets the servers set up with them. Which calls succeed is a
  list of answers; where it ends they all do.
\<close>

section \<open>Addresses\<close>

text \<open>\<open>struct in_addr\<close> byte by byte; \<open>htons\<close> keeps 16 bits of a port.\<close>

type_synonym in_addr = "8 word \<times> 8 word \<times> 8 word \<times> 8 word"

definition htons :: "int \<Rightarrow> 16 word" where
  "htons port = word_of_int port"

definition ntohs :: "16 word \<Rightarrow> int" where
  "ntohs port = uint port"

definition inet_ntop :: "in_addr \<Rightarrow> cstring" where
  "inet_ntop addr =
     (case addr of (a, b, c, d) \<Rightarrow>
        show_nat (unat a) @ CHR ''.'' # show_nat (unat b) @ CHR ''.'' # show_nat (unat c) @ CHR ''.'' # show_nat (unat d))"

fun dotted :: "cstring \<Rightarrow> cstring list" where
  "dotted [] = [[]]"
| "dotted (c # s) = (if c = CHR ''.'' then [] # dotted s else (c # hd (dotted s)) # tl (dotted s))"

text \<open>\<open>ddd.ddd.ddd.ddd\<close>, each a number of one to three digits up to 255.\<close>

definition octet :: "cstring \<Rightarrow> 8 word option" where
  "octet s =
     (if s \<noteq> [] \<and> length s \<le> 3 \<and> list_all isdigit s \<and> digits_value 0 s \<le> 255 then Some (of_nat (digits_value 0 s)) else None)"

definition inet_pton :: "cstring \<Rightarrow> in_addr option" where
  "inet_pton s =
     (case map octet (dotted s) of
        [Some a, Some b, Some c, Some d] \<Rightarrow> Some (a, b, c, d)
      | _ \<Rightarrow> None)"

section \<open>The kernel\<close>

text \<open>An open socket: its port, its backlog while it listens, its peer, its options.\<close>

record Desc =
  ds_port :: "16 word option"
  ds_backlog :: "int option"
  ds_peer :: "(in_addr \<times> 16 word) option"
  ds_reuseaddr :: bool
  ds_nonblock :: bool
  ds_rcvtimeo :: int
  ds_sndtimeo :: int

definition fresh_desc :: Desc where
  "fresh_desc = \<lparr>ds_port = None, ds_backlog = None, ds_peer = None, ds_reuseaddr = False, ds_nonblock = False,
     ds_rcvtimeo = 0, ds_sndtimeo = 0\<rparr>"

text \<open>\<open>kn_route\<close> is the address the kernel would send from.\<close>

record Kernel =
  kn_descs :: "(int \<times> Desc) list"
  kn_answers :: "bool list"
  kn_route :: in_addr

definition answered :: "Kernel \<Rightarrow> bool \<times> Kernel" where
  "answered k = (case kn_answers k of [] \<Rightarrow> (True, k) | ok # oks \<Rightarrow> (ok, k\<lparr>kn_answers := oks\<rparr>))"

text \<open>The lowest descriptor that is not open.\<close>

definition free_fd :: "(int \<times> Desc) list \<Rightarrow> int" where
  "free_fd ds = hd (filter (\<lambda>fd. fd \<notin> fst ` set ds) (map int [0..<Suc (length ds)]))"

definition sys_open :: "Desc \<Rightarrow> Kernel \<Rightarrow> int \<times> Kernel" where
  "sys_open d k =
     (let (ok, k) = answered k; fd = free_fd (kn_descs k)
      in if ok then (fd, k\<lparr>kn_descs := (fd, d) # kn_descs k\<rparr>) else (- 1, k))"

definition sys_call :: "int \<Rightarrow> (Desc \<Rightarrow> Desc) \<Rightarrow> Kernel \<Rightarrow> int \<times> Kernel" where
  "sys_call fd f k =
     (let (ok, k) = answered k
      in if ok \<and> fd \<in> fst ` set (kn_descs k)
         then (0, k\<lparr>kn_descs := map (\<lambda>(x, d). if x = fd then (x, f d) else (x, d)) (kn_descs k)\<rparr>)
         else (- 1, k))"

definition sys_close :: "int \<Rightarrow> Kernel \<Rightarrow> Kernel" where
  "sys_close fd k = k\<lparr>kn_descs := filter (\<lambda>(x, d). x \<noteq> fd) (kn_descs k)\<rparr>"

section \<open>\<^verbatim>\<open>socket_utils.c\<close>\<close>

definition enable_reuseaddr :: "int \<Rightarrow> Kernel \<Rightarrow> int \<times> Kernel" where
  "enable_reuseaddr sockfd k =
     (let (r, k) = sys_call sockfd (\<lambda>d. d\<lparr>ds_reuseaddr := True\<rparr>) k in if r < 0 then (- 1, k) else (0, k))"

definition create_socket :: "Kernel \<Rightarrow> int \<times> Kernel" where
  "create_socket k =
     (let (sockfd, k) = sys_open fresh_desc k
      in if sockfd < 0 then (- 1, k)
         else let (r, k) = enable_reuseaddr sockfd k
         in if r < 0 then (- 1, sys_close sockfd k) else (sockfd, k))"

definition bind_socket :: "int \<Rightarrow> int \<Rightarrow> Kernel \<Rightarrow> int \<times> Kernel" where
  "bind_socket sockfd port k =
     (let (r, k) = sys_call sockfd (\<lambda>d. d\<lparr>ds_port := Some (htons port)\<rparr>) k in if r < 0 then (- 1, k) else (0, k))"

definition listen_socket :: "int \<Rightarrow> int \<Rightarrow> Kernel \<Rightarrow> int \<times> Kernel" where
  "listen_socket sockfd backlog k =
     (let (r, k) = sys_call sockfd (\<lambda>d. d\<lparr>ds_backlog := Some backlog\<rparr>) k in if r < 0 then (- 1, k) else (0, k))"

definition connect_to_server :: "int \<Rightarrow> cstring \<Rightarrow> int \<Rightarrow> Kernel \<Rightarrow> int \<times> Kernel" where
  "connect_to_server sockfd ip port k =
     (case inet_pton ip of
        None \<Rightarrow> (- 1, k)
      | Some a \<Rightarrow>
          let (r, k) = sys_call sockfd (\<lambda>d. d\<lparr>ds_peer := Some (a, htons port)\<rparr>) k
          in if r < 0 then (- 1, k) else (0, k))"

text \<open>The peer that is next in the queue; what is stored for the caller, where it asks for it.\<close>

definition accept_connection ::
  "in_addr \<times> 16 word \<Rightarrow> bool \<Rightarrow> bool \<Rightarrow> Kernel \<Rightarrow> (int \<times> cstring option \<times> int option) \<times> Kernel" where
  "accept_connection peer client_ip client_port k =
     (let (client_sockfd, k) = sys_open (fresh_desc\<lparr>ds_peer := Some peer\<rparr>) k
      in if client_sockfd < 0 then ((- 1, None, None), k)
         else ((client_sockfd, if client_ip then Some (inet_ntop (fst peer)) else None,
                if client_port then Some (ntohs (snd peer)) else None), k))"

definition set_nonblocking :: "int \<Rightarrow> Kernel \<Rightarrow> int \<times> Kernel" where
  "set_nonblocking sockfd k =
     (let (flags, k) = sys_call sockfd id k
      in if flags < 0 then (- 1, k)
         else let (r, k) = sys_call sockfd (\<lambda>d. d\<lparr>ds_nonblock := True\<rparr>) k
         in if r < 0 then (- 1, k) else (0, k))"

definition set_socket_timeout :: "int \<Rightarrow> int \<Rightarrow> Kernel \<Rightarrow> int \<times> Kernel" where
  "set_socket_timeout sockfd seconds k =
     (let (r, k) = sys_call sockfd (\<lambda>d. d\<lparr>ds_rcvtimeo := seconds\<rparr>) k
      in if r < 0 then (- 1, k)
         else let (r, k) = sys_call sockfd (\<lambda>d. d\<lparr>ds_sndtimeo := seconds\<rparr>) k
         in if r < 0 then (- 1, k) else (0, k))"

text \<open>The result and what is stored in the buffer, if anything is.\<close>

definition get_local_ip :: "Kernel \<Rightarrow> (int \<times> cstring option) \<times> Kernel" where
  "get_local_ip k =
     (let (sockfd, k) = sys_open fresh_desc k
      in if sockfd < 0 then ((- 1, None), k)
         else let (r, k) = sys_call sockfd (\<lambda>d. d\<lparr>ds_peer := Some ((8, 8, 8, 8), htons 53)\<rparr>) k
         in if r < 0 then ((0, Some ''127.0.0.1''), sys_close sockfd k)
         else let (r, k) = sys_call sockfd id k
         in if r < 0 then ((0, Some ''127.0.0.1''), sys_close sockfd k)
         else ((0, Some (inet_ntop (kn_route k))), sys_close sockfd k))"

text \<open>
  How the name server and the storage server set up a listening socket in their \<open>main\<close>; the
  result of the second \<open>setsockopt\<close> is only logged.
\<close>

definition open_listener :: "int \<Rightarrow> int \<Rightarrow> Kernel \<Rightarrow> int \<times> Kernel" where
  "open_listener port backlog k =
     (let (server_socket, k) = create_socket k
      in if server_socket < 0 then (- 1, k)
         else let (_, k) = sys_call server_socket (\<lambda>d. d\<lparr>ds_reuseaddr := True\<rparr>) k;
                  (r, k) = bind_socket server_socket port k
         in if r < 0 then (- 1, sys_close server_socket k)
         else let (r, k) = listen_socket server_socket backlog k
         in if r < 0 then (- 1, sys_close server_socket k)
         else (server_socket, k))"

section \<open>Printed addresses are read back\<close>

lemma dotted_nonempty [simp]: "dotted s \<noteq> []"
  by (induction s) auto

lemma dotted_field: "CHR ''.'' \<notin> set w \<Longrightarrow> dotted (w @ CHR ''.'' # s) = w # dotted s"
  by (induction w) auto

lemma dotted_last: "CHR ''.'' \<notin> set w \<Longrightarrow> dotted w = [w]"
  by (induction w) auto

lemma unat_octet: "unat (a :: 8 word) < 256"
  using unsigned_less [of a] by simp

lemma show_octet: "CHR ''.'' \<notin> set (show_nat n)"
  using show_nat_isdigit [of "CHR ''.''" n] by (auto simp: isdigit_def code_of_def)

lemma octet_show: "octet (show_nat (unat a)) = Some a"
proof -
  have "length (show_nat (unat a)) \<le> 3" using length_show_nat [of "unat a" 2] unat_octet [of a] by simp
  moreover have "list_all isdigit (show_nat (unat a))" by (auto simp: list_all_iff show_nat_isdigit)
  ultimately show ?thesis using unat_octet [of a] by (simp add: octet_def digits_value_show)
qed

lemma inet_roundtrip: "inet_pton (inet_ntop addr) = Some addr"
  by (cases addr) (simp add: inet_pton_def inet_ntop_def dotted_field dotted_last show_octet octet_show)

lemma length_inet_ntop: "length (inet_ntop addr) < MAX_IP_LEN"
proof -
  obtain a b c d where addr: "addr = (a, b, c, d)" by (cases addr) auto
  have "length (show_nat (unat x)) \<le> 3" for x :: "8 word" using length_show_nat [of "unat x" 2] unat_octet [of x] by simp
  from this [of a] this [of b] this [of c] this [of d] show ?thesis by (simp add: addr inet_ntop_def)
qed

section \<open>Descriptors\<close>

lemma free_fd_fresh: "free_fd ds \<notin> fst ` set ds" "0 \<le> free_fd ds \<and> free_fd ds \<le> int (length ds)"
proof -
  let ?P = "\<lambda>fd. fd \<notin> fst ` set ds" and ?xs = "map int [0..<Suc (length ds)]"
  have "\<not> set ?xs \<subseteq> fst ` set ds"
  proof
    assume "set ?xs \<subseteq> fst ` set ds"
    then have "card (set ?xs) \<le> card (fst ` set ds)" by (rule card_mono [rotated]) simp
    moreover have "card (set ?xs) = Suc (length ds)" by (subst distinct_card) (simp_all add: distinct_map inj_on_def del: upt_Suc)
    moreover have "card (fst ` set ds) \<le> length ds" by (metis card_length list.set_map length_map)
    ultimately show False by simp
  qed
  then have "filter ?P ?xs \<noteq> []" unfolding filter_empty_conv by blast
  then have "free_fd ds \<in> set (filter ?P ?xs)" unfolding free_fd_def by (rule hd_in_set)
  then show "free_fd ds \<notin> fst ` set ds" "0 \<le> free_fd ds \<and> free_fd ds \<le> int (length ds)" by (auto simp del: upt_Suc)
qed


text \<open>What a call leaves: the rest of the kernel, and a promise to answer kept.\<close>

definition willing :: "Kernel \<Rightarrow> bool" where
  "willing k \<longleftrightarrow> list_all id (kn_answers k)"

definition after :: "Kernel \<Rightarrow> (int \<times> Desc) list \<Rightarrow> Kernel \<Rightarrow> bool" where
  "after k ds k' \<longleftrightarrow> kn_descs k' = ds \<and> kn_route k' = kn_route k \<and> (willing k \<longrightarrow> willing k')"

lemma after_trans: "after k ds k' \<Longrightarrow> after k' ds' k'' \<Longrightarrow> after k ds' k''"
  by (simp add: after_def)

lemma answered_cases:
  obtains ok k' where "answered k = (ok, k')" "after k (kn_descs k) k'" "willing k \<longrightarrow> ok"
proof (cases "kn_answers k")
  case Nil
  with that [of True k] show ?thesis by (simp add: answered_def after_def)
next
  case (Cons ok oks)
  with that [of ok "k\<lparr>kn_answers := oks\<rparr>"] show ?thesis by (simp add: answered_def after_def willing_def)
qed

lemma sys_open_cases:
  obtains (refused) k' where "sys_open d k = (- 1, k')" "after k (kn_descs k) k'" "\<not> willing k"
  | (opened) fd k' where "sys_open d k = (fd, k')" "0 \<le> fd \<and> fd \<le> int (length (kn_descs k))" "fd \<notin> fst ` set (kn_descs k)" "after k ((fd, d) # kn_descs k) k'"
proof -
  obtain ok k' where k': "answered k = (ok, k')" "after k (kn_descs k) k'" "willing k \<longrightarrow> ok" by (rule answered_cases)
  show ?thesis
  proof (cases ok)
    case True
    let ?fd = "free_fd (kn_descs k)"
    have "sys_open d k = (?fd, k'\<lparr>kn_descs := (?fd, d) # kn_descs k\<rparr>)" using k' True by (simp add: sys_open_def after_def Let_def)
    moreover have "after k ((?fd, d) # kn_descs k) (k'\<lparr>kn_descs := (?fd, d) # kn_descs k\<rparr>)"
      using k'(2) by (simp add: after_def willing_def)
    ultimately show ?thesis using opened free_fd_fresh [of "kn_descs k"] by blast
  qed (use refused k' in \<open>simp add: sys_open_def\<close>)
qed

lemma sys_call_cases:
  assumes "kn_descs k = (fd, d) # ds" and "fd \<notin> fst ` set ds"
  obtains (refused) k' where "sys_call fd f k = (- 1, k')" "after k ((fd, d) # ds) k'" "\<not> willing k"
  | (done_) k' where "sys_call fd f k = (0, k')" "after k ((fd, f d) # ds) k'"
proof -
  obtain ok k' where k': "answered k = (ok, k')" "after k (kn_descs k) k'" "willing k \<longrightarrow> ok" by (rule answered_cases)
  have others: "map (\<lambda>(x, d). if x = fd then (x, f d) else (x, d)) ds = ds"
    using assms(2) by (intro map_idI) (auto simp: image_iff)
  show ?thesis
  proof (cases ok)
    case True
    have "sys_call fd f k = (0, k'\<lparr>kn_descs := (fd, f d) # ds\<rparr>)"
      using k' True assms(1) others by (simp add: sys_call_def after_def)
    moreover have "after k ((fd, f d) # ds) (k'\<lparr>kn_descs := (fd, f d) # ds\<rparr>)" using k'(2) by (simp add: after_def willing_def)
    ultimately show ?thesis by (rule done_)
  qed (use refused k' assms(1) in \<open>simp add: sys_call_def\<close>)
qed

lemma sys_close_after:
  assumes "after k ((fd, d) # ds) k'" and "fd \<notin> fst ` set ds"
  shows "after k ds (sys_close fd k')"
proof -
  have "filter (\<lambda>(x, d). x \<noteq> fd) ds = ds" using assms(2) by (auto simp: filter_id_conv image_iff)
  with assms(1) show ?thesis by (simp add: after_def sys_close_def willing_def)
qed


text \<open>The wrappers around one call hand its result on.\<close>

lemma call_result:
  "(case sys_call fd f k of (r, k) \<Rightarrow> if r < 0 then (- 1, k) else (0, k)) = sys_call fd f k"
  by (simp add: sys_call_def Let_def split: prod.split)

lemmas one_call = bind_socket_def listen_socket_def enable_reuseaddr_def call_result

lemma create_socket_cases:
  obtains (refused) k' where "create_socket k = (- 1, k')" "after k (kn_descs k) k'" "\<not> willing k"
  | (opened) fd k' where "create_socket k = (fd, k')" "0 \<le> fd \<and> fd \<le> int (length (kn_descs k))" "fd \<notin> fst ` set (kn_descs k)"
      "after k ((fd, fresh_desc\<lparr>ds_reuseaddr := True\<rparr>) # kn_descs k) k'"
proof (cases rule: sys_open_cases [of fresh_desc k])
  case (refused k')
  then show ?thesis by (intro that(1)) (simp_all add: create_socket_def)
next
  case (opened fd k')
  have descs: "kn_descs k' = (fd, fresh_desc) # kn_descs k" using opened(4) by (simp add: after_def)
  note * = opened(1,2) one_call create_socket_def
  show ?thesis using descs opened(3)
  proof (cases rule: sys_call_cases [where f = "\<lambda>d. d\<lparr>ds_reuseaddr := True\<rparr>"])
    case (refused k'')
    with * opened(4) show ?thesis
      by (intro that(1) [of "sys_close fd k''"] sys_close_after [OF after_trans [OF opened(4) refused(2)] opened(3)])
        (auto simp: after_def)
  next
    case (done_ k'')
    with * opened(3) show ?thesis by (intro that(2) [of fd k''] after_trans [OF opened(4) done_(2)]) simp_all
  qed
qed

section \<open>What is set up\<close>

definition listener :: "int \<Rightarrow> int \<Rightarrow> Desc" where
  "listener port backlog = fresh_desc\<lparr>ds_reuseaddr := True, ds_port := Some (htons port), ds_backlog := Some backlog\<rparr>"

text \<open>
  Setting up a listener is all or nothing: it gives a new descriptor that listens at the port,
  beside those already open, or, only where the kernel refuses a call, it fails and leaves every
  descriptor as it was.
\<close>

lemma listener_all_or_nothing:
  "case open_listener port backlog k of (s, k') \<Rightarrow>
     if s < 0 then s = - 1 \<and> after k (kn_descs k) k' \<and> \<not> willing k else 0 \<le> s \<and> s \<le> int (length (kn_descs k)) \<and> s \<notin> fst ` set (kn_descs k) \<and> after k ((s, listener port backlog) # kn_descs k) k'"
proof (cases rule: create_socket_cases [of k])
  case (refused k')
  then show ?thesis by (simp add: open_listener_def)
next
  case (opened s k1)
  let ?d = "fresh_desc\<lparr>ds_reuseaddr := True\<rparr>"
  have d1: "kn_descs k1 = (s, ?d) # kn_descs k" using opened(4) by (simp add: after_def)
  obtain r k2 where k2: "sys_call s (\<lambda>d. d\<lparr>ds_reuseaddr := True\<rparr>) k1 = (r, k2)" "after k ((s, ?d) # kn_descs k) k2"
    using d1 opened(3) by (cases rule: sys_call_cases [where f = "\<lambda>d. d\<lparr>ds_reuseaddr := True\<rparr>"]) (auto dest: after_trans [OF opened(4)])
  then have d2: "kn_descs k2 = (s, ?d) # kn_descs k" by (simp add: after_def)
  note * = opened(1,2) k2(1) one_call open_listener_def
  show ?thesis using d2 opened(3)
  proof (cases rule: sys_call_cases [where f = "\<lambda>d. d\<lparr>ds_port := Some (htons port)\<rparr>"])
    case (refused k3)
    with * sys_close_after [OF after_trans [OF k2(2) refused(2)] opened(3)] k2(2) show ?thesis by (auto simp: after_def)
  next
    case (done_ k3)
    note k3 = done_ after_trans [OF k2(2) done_(2)]
    then have d3: "kn_descs k3 = (s, ?d\<lparr>ds_port := Some (htons port)\<rparr>) # kn_descs k" by (simp add: after_def)
    show ?thesis using d3 opened(3)
    proof (cases rule: sys_call_cases [where f = "\<lambda>d. d\<lparr>ds_backlog := Some backlog\<rparr>"])
      case (refused k4)
      with * k3 sys_close_after [OF after_trans [OF k3(3) refused(2)] opened(3)] show ?thesis by (auto simp: after_def)
    next
      case (done_ k4)
      with * k3 opened(3) after_trans [OF k3(3) done_(2)] show ?thesis by (simp add: listener_def)
    qed
  qed
qed

text \<open>
  \<open>get_local_ip\<close> leaves no descriptor open whatever the kernel answers, and the address it
  stores fits the fields of a message, terminator included, and is one \<open>connect_to_server\<close> can
  read; without an address (no socket could be made) it returns -1.
\<close>

lemma local_ip_usable:
  "case get_local_ip k of ((r, ip), k') \<Rightarrow>
     after k (kn_descs k) k' \<and>
     (if r = 0 then \<exists>s. ip = Some s \<and> length s < MAX_IP_LEN \<and> inet_pton s \<noteq> None else r = - 1 \<and> ip = None \<and> \<not> willing k)"
proof (cases rule: sys_open_cases [of fresh_desc k])
  case (refused k')
  then show ?thesis by (simp add: get_local_ip_def)
next
  case (opened s k1)
  let ?to = "\<lambda>d. d\<lparr>ds_peer := Some ((8, 8, 8, 8), htons 53)\<rparr>"
  have d1: "kn_descs k1 = (s, fresh_desc) # kn_descs k" using opened(4) by (simp add: after_def)
  have lo: "length ''127.0.0.1'' < MAX_IP_LEN" "inet_pton ''127.0.0.1'' = Some (127, 0, 0, 1)" by (simp, code_simp)
  note * = opened(1,2) get_local_ip_def lo
  show ?thesis using d1 opened(3)
  proof (cases rule: sys_call_cases [where f = ?to])
    case (refused k2)
    with * sys_close_after [OF after_trans [OF opened(4) refused(2)] opened(3)] show ?thesis by simp
  next
    case (done_ k2)
    note k2 = done_ after_trans [OF opened(4) done_(2)]
    then have d2: "kn_descs k2 = (s, ?to fresh_desc) # kn_descs k" by (simp add: after_def)
    show ?thesis using d2 opened(3)
    proof (cases rule: sys_call_cases [where f = id])
      case (refused k3)
      with * k2 sys_close_after [OF after_trans [OF k2(3) refused(2)] opened(3)] show ?thesis by simp
    next
      case (done_ k3)
      with * k2 sys_close_after [OF after_trans [OF k2(3) done_(2)] opened(3)] show ?thesis
        by (simp add: inet_roundtrip length_inet_ntop del: not_None_eq)
    qed
  qed
qed


lemma listener_opened:
  assumes "open_listener port backlog k = (s, k')" and "willing k"
  shows "0 \<le> s \<and> s \<le> int (length (kn_descs k))" "s \<notin> fst ` set (kn_descs k)" "kn_descs k' = (s, listener port backlog) # kn_descs k" "willing k'"
  using listener_all_or_nothing [where port = port and backlog = backlog and k = k] assms by (auto simp: after_def split: if_splits)

lemma local_ip_found:
  assumes "get_local_ip k = ((r, ip), k')" and "willing k"
  obtains s where "ip = Some s" "length s < MAX_IP_LEN" "inet_pton s \<noteq> None" "kn_descs k' = kn_descs k" "willing k'"
  using local_ip_usable [where k = k] assms that by (auto simp: after_def split: if_splits)

end
