(* ===== verification/Storage_Main.thy ===== *)
theory Storage_Main
  imports Storage_Server Network Socket_Calls
begin

text \<open>
  The rest of \<^verbatim>\<open>storage_server.c\<close>: its command line, its start with the registration at the name
  server, and a round of the heartbeat thread, over the socket calls of \<open>Network\<close>.
\<close>

section \<open>Command line\<close>

text \<open>\<open>NS_IP\<close>, \<open>NS_PORT\<close>, \<open>SS_NM_PORT\<close>, \<open>SS_CLIENT_PORT\<close> and \<open>STORAGE_DIR\<close>.\<close>

record SS_Config =
  sc_ns_ip :: cstring
  sc_ns_port :: int
  sc_nm_port :: int
  sc_client_port :: int
  sc_storage_dir :: cstring

definition default_config :: SS_Config where
  "default_config = \<lparr>sc_ns_ip = ''127.0.0.1'', sc_ns_port = 8080, sc_nm_port = 8081, sc_client_port = 8082,
     sc_storage_dir = ''./storage_server/storage''\<rparr>"

text \<open>\<open>argv\<close> with the program's name; \<open>None\<close> is a port \<open>atoi\<close> cannot represent.\<close>

definition parse_args :: "cstring list \<Rightarrow> SS_Config option" where
  "parse_args argv =
     (if length argv \<ge> 4 then
        case (atoi (argv ! 2), atoi (argv ! 3)) of
          (Some nm, Some client) \<Rightarrow>
            Some \<lparr>sc_ns_ip = cbuf MAX_IP_LEN (argv ! 1), sc_ns_port = 8080, sc_nm_port = nm, sc_client_port = client,
              sc_storage_dir =
                if length argv \<ge> 5 then cbuf MAX_PATH_LEN (argv ! 4)
                else cbuf MAX_PATH_LEN (''./storage_'' @ show_int nm)\<rparr>
        | _ \<Rightarrow> None
      else Some default_config)"

section \<open>Talking to the name server\<close>

text \<open>The result, 0 or -1, and the world afterwards; \<open>files\<close> is what the scan found.\<close>

definition ss_register :: "'w Net \<Rightarrow> Env \<Rightarrow> SS_Config \<Rightarrow> cstring \<Rightarrow> cstring list \<Rightarrow> 'w \<Rightarrow> int \<times> 'w" where
  "ss_register net env cfg local_ip files w =
     (let (s, w) = nt_socket net w
      in if s < 0 then (- 1, w)
         else let (r, w) = nt_connect net s (sc_ns_ip cfg) (sc_ns_port cfg) w
         in if r < 0 then (- 1, nt_close net s w)
         else let (r, w) = nt_send net s (registration_message env local_ip (sc_nm_port cfg) (sc_client_port cfg) files) w
         in if r < 0 then (- 1, nt_close net s w)
         else let ((r, ack), w) = nt_receive net s w
         in if r \<le> 0 then (- 1, nt_close net s w)
         else if m_error_code ack \<noteq> ERR_SUCCESS then (- 1, nt_close net s w)
         else (0, nt_close net s w))"

text \<open>One round of \<open>heartbeat_thread\<close>; the answer is only logged.\<close>

definition heartbeat_round :: "'w Net \<Rightarrow> Env \<Rightarrow> SS_Config \<Rightarrow> cstring \<Rightarrow> 'w \<Rightarrow> 'w" where
  "heartbeat_round net env cfg local_ip w =
     (let (s, w) = nt_socket net w
      in if s < 0 then w
         else let (r, w) = nt_connect net s (sc_ns_ip cfg) (sc_ns_port cfg) w
         in if r < 0 then nt_close net s w
         else let (r, w) = nt_send net s (heartbeat_message env local_ip (sc_nm_port cfg) (sc_client_port cfg)) w
         in if r < 0 then nt_close net s w
         else nt_close net s (snd (nt_receive net s w)))"

section \<open>Start\<close>

text \<open>
  \<open>main\<close> up to the point where it waits for its threads: the exit status 1, or 0 with the state in
  which the threads find the server and its two listening sockets. \<open>fs\<close> and \<open>names\<close> are the disk
  and the order in which \<open>readdir\<close> lists the storage directory; \<open>ns_thread\<close> and \<open>client_thread\<close>
  are whether the two serving threads can be made (the other two are not critical). The result
  of \<open>get_local_ip\<close> is not tested: without an address \<open>local_ip\<close> stays empty.
\<close>

definition ss_main ::
  "'w Net \<Rightarrow> Env \<Rightarrow> bool \<Rightarrow> bool \<Rightarrow> SS_Config \<Rightarrow> FS \<Rightarrow> cstring list \<Rightarrow> Kernel \<Rightarrow> 'w \<Rightarrow>
    int \<times> (SS \<times> int \<times> int) option \<times> Kernel \<times> 'w" where
  "ss_main net env ns_thread client_thread cfg fs names k w =
     (let ((_, ip), k) = get_local_ip k;
          local_ip = (case ip of None \<Rightarrow> [] | Some s \<Rightarrow> s)
      in case ss_start (e_mem_index env) (sc_storage_dir cfg) fs names of
           None \<Rightarrow> (1, None, k, w)
         | Some (st, existing_files) \<Rightarrow>
             let (nm_server_socket, k) = open_listener (sc_nm_port cfg) 10 k
             in if nm_server_socket < 0 then (1, None, k, w)
             else let (client_server_socket, k) = open_listener (sc_client_port cfg) 10 k
             in if client_server_socket < 0 then (1, None, k, w)
             else let (r, w) = ss_register net env cfg local_ip existing_files w
             in if r < 0 then (1, None, k, w)
             else if \<not> ns_thread then (1, None, k, w)
             else if \<not> client_thread then (1, None, k, w)
             else (0, Some (st, nm_server_socket, client_server_socket), k, w))"

end
