(* ===== verification/Registration.thy ===== *)
theory Registration
  imports Client_System Storage_Main
begin

text \<open>
  The start of a storage server in the whole system: its registration reaches the name server,
  which from then on finds every file of the disk at it; and its heartbeat keeps it alive there.
\<close>

section \<open>The file list\<close>

lemma serialize_loop_all:
  "length acc + sum_list (map (\<lambda>f. length f + 1) files) < MAX_CONTENT_LEN \<Longrightarrow>
   serialize_loop acc files = acc @ concat (map (\<lambda>f. f @ ''|'') files)"
  by (induction files arbitrary: acc) auto

lemma runs_bars:
  "\<forall>f\<in>set files. f \<noteq> [] \<and> BAR \<notin> set f \<Longrightarrow> runs (\<lambda>c. c \<noteq> BAR) (concat (map (\<lambda>f. f @ ''|'') files)) = files"
proof (induction files)
  case (Cons f files)
  then have "\<forall>c\<in>set f. c \<noteq> BAR" "f \<noteq> []" by auto
  with Cons runs_sep [of "\<lambda>c. c \<noteq> BAR" BAR f "concat (map (\<lambda>f. f @ ''|'') files)"] show ?case by simp
qed simp

text \<open>
  What a storage server sends as its file list is what the name server reads: if the names are
  free of \<open>|\<close> and fit the content field together, every one arrives, in order.
\<close>

lemma registration_files:
  assumes "\<forall>f\<in>set files. f \<noteq> [] \<and> BAR \<notin> set f" and "sum_list (map (\<lambda>f. length f + 1) files) < MAX_CONTENT_LEN"
    and "length files \<le> MAX_FILES"
  shows "listed_files (registration_message env ip nm cp files) = files"
proof -
  let ?s = "concat (map (\<lambda>f. f @ ''|'') files)"
  have s: "serialize_files files = butlast ?s" using serialize_loop_all [of "[]" files] assms(2) by (simp add: serialize_files_def)
  have len: "length ?s = sum_list (map (\<lambda>f. length f + 1) files)" unfolding length_concat map_map comp_def by simp
  have "runs (\<lambda>c. c \<noteq> BAR) (butlast ?s) = files"
  proof (cases files rule: rev_cases)
    case (snoc fs f)
    define t where "t = concat (map (\<lambda>f. f @ ''|'') fs) @ f"
    have s': "?s = t @ [BAR]" by (simp add: snoc t_def)
    have "runs (\<lambda>c. c \<noteq> BAR) (t @ [BAR]) = runs (\<lambda>c. c \<noteq> BAR) t" by (rule runs_snoc) simp
    moreover have "runs (\<lambda>c. c \<noteq> BAR) (t @ [BAR]) = files" using runs_bars [OF assms(1)] s' by simp
    ultimately show ?thesis unfolding s' by simp
  qed simp
  moreover have "length (butlast ?s) < MAX_CONTENT_LEN" using len assms(2) by simp
  moreover have "m_content (registration_message env ip nm cp files) = cbuf MAX_CONTENT_LEN (butlast ?s)"
    by (simp add: registration_message_def put_content_def s)
  ultimately show ?thesis unfolding listed_files_def using assms(3) by (simp only: cbuf_id take_all)
qed

section \<open>The exchange\<close>

lemma registration_sel [simp]:
  "m_operation (registration_message env ip nm cp files) = OP_REGISTER_SS" "m_nm_port (registration_message env ip nm cp files) = nm"
  "m_ip_address (registration_message env ip nm cp files) = cbuf MAX_IP_LEN ip"
  "m_client_port (registration_message env ip nm cp files) = cp"
  by (simp_all add: registration_message_def put_content_def)

lemma heartbeat_sel [simp]:
  "m_operation (heartbeat_message env ip nm cp) = OP_HEARTBEAT" "m_nm_port (heartbeat_message env ip nm cp) = nm"
  "m_ip_address (heartbeat_message env ip nm cp) = cbuf MAX_IP_LEN ip"
  by (simp_all add: heartbeat_message_def)

lemma server_messages_wf: "msg_wf (registration_message env ip nm cp files)" "msg_wf (heartbeat_message env ip nm cp)"
  by (simp_all add: registration_message_def heartbeat_message_def put_content_def msg_wf_def INIT_MESSAGE_def length_cbuf_less)

text \<open>The four calls of an exchange with the name server that is answered by one message.\<close>

lemma ns_exchange:
  assumes "docs_inv w" and "dw_up w" and "dispatch (system_env env) (dw_ns w) msg = Some ([m], ns')" and "m_operation msg \<noteq> OP_WRITE_START"
  defines "w1 \<equiv> talking w (dw_ns w) \<lparr>sk_phase = Unconnected, sk_ip = [], sk_port = 0, sk_inbox = []\<rparr>"
    and "w2 \<equiv> talking w (dw_ns w) \<lparr>sk_phase = Fresh, sk_ip = NS_IP, sk_port = NS_PORT, sk_inbox = []\<rparr>"
    and "w3 \<equiv> talking w ns' (over NS_IP NS_PORT [m])" and "w4 \<equiv> talking w ns' (over NS_IP NS_PORT [])"
  shows "docs_socket w = (dw_next w, w1)" "\<not> dw_next w < 0" "docs_connect (dw_next w) NS_IP NS_PORT w1 = (0, w2)"
    "docs_send env (dw_next w) msg w2 = (5096, w3)" "docs_receive (dw_next w) w3 = ((5096, m), w4)"
    "docs_close (dw_next w) w4 = hung_up w ns'"
proof -
  show "docs_socket w = (dw_next w, w1)" by (simp add: docs_socket_def w1_def talking_def)
  show "\<not> dw_next w < 0" using docs_inv_fresh [OF assms(1)] by simp
  show "docs_connect (dw_next w) NS_IP NS_PORT w1 = (0, w2)"
    using assms(2) by (simp add: docs_connect_def w1_def w2_def talking_def listens_def is_ns_def)
  show "docs_send env (dw_next w) msg w2 = (5096, w3)"
    using assms(2,3,4) by (simp add: docs_send_def handled_def is_ns_def ns_serves_def w2_def w3_def talking_def next_phase_def)
  show "docs_receive (dw_next w) w3 = ((5096, m), w4)" by (simp add: docs_receive_def w3_def w4_def talking_def)
  have "(dw_socks w)(dw_next w := None) = dw_socks w" using docs_inv_fresh [OF assms(1)] by (simp add: fun_upd_idem)
  then show "docs_close (dw_next w) w4 = hung_up w ns'" by (simp add: docs_close_def w4_def talking_def hung_up_def)
qed

section \<open>Start and registration\<close>

text \<open>A list of files that fits a registration.\<close>

definition list_fits :: "cstring list \<Rightarrow> bool" where
  "list_fits files \<longleftrightarrow> (\<forall>f\<in>set files. name_ok f \<and> BAR \<notin> set f) \<and> length files \<le> 100 \<and>
     sum_list (map (\<lambda>f. length f + 1) files) < MAX_CONTENT_LEN"

lemma ss_register_run:
  assumes "docs_inv w" and "dw_up w" and cfg: "sc_ns_ip cfg = NS_IP" "sc_ns_port cfg = NS_PORT"
    and fits: "list_fits files" and room: "length (ns_servers (dw_ns w)) < MAX_STORAGE_SERVERS"
  obtains ns' i where "ss_register (docs_net env) senv cfg ip files w = (0, hung_up w ns')" "docs_inv (hung_up w ns')"
    "registered (system_env env) (dw_ns w) (registration_message senv ip (sc_nm_port cfg) (sc_client_port cfg) files) i ns'"
proof -
  let ?m = "registration_message senv ip (sc_nm_port cfg) (sc_client_port cfg) files"
  have inv: "ns_inv (dw_ns w)" using assms(1) by (simp add: docs_inv_def)
  have "\<forall>f\<in>set files. f \<noteq> [] \<and> BAR \<notin> set f" "length files \<le> MAX_FILES"
    using fits by (auto simp: list_fits_def name_ok_def plain_name_def)
  then have files: "listed_files ?m = files" using fits by (intro registration_files) (simp_all add: list_fits_def)
  have ok: "files_ok ?m" using fits unfolding files_ok_def files by (auto simp: list_fits_def name_ok_def)
  obtain code s ns' where run: "handle_ss_registration (system_env env) (dw_ns w) ?m = answer (system_env env) code s ns'" "ns_inv ns'"
    and post: "if no_slot (dw_ns w) ?m then code = ERR_SERVER_ERROR \<and> ns' = dw_ns w
      else code = ERR_SUCCESS \<and> (\<exists>i. registered (system_env env) (dw_ns w) ?m i ns')"
    by (rule registration_run [OF inv server_messages_wf(1) ok, of "system_env env"])
  have "\<not> no_slot (dw_ns w) ?m" using room by (simp add: no_slot_def)
  with post obtain i where code: "code = ERR_SUCCESS" and reg: "registered (system_env env) (dw_ns w) ?m i ns'" by auto
  let ?r = "ns_reply (system_env env) code s"
  have disp: "dispatch (system_env env) (dw_ns w) ?m = Some ([?r], ns')"
    using run(1) by (simp add: dispatch_def answer_def)
  have "m_error_code ?r = ERR_SUCCESS" by (simp add: code ns_reply_def)
  with ns_exchange [OF assms(1,2) disp] have "ss_register (docs_net env) senv cfg ip files w = (0, hung_up w ns')"
    by (simp add: ss_register_def cfg Let_def)
  moreover have "docs_inv (hung_up w ns')" using assms(1) run(2) by (fastforce simp: docs_inv_def hung_up_def)
  ultimately show ?thesis using reg by (rule that)
qed

text \<open>
  C11. A storage server comes up: when the kernel answers its calls, its directory is there or can
  be made, the name server listens and has room and memory, and the files of the directory are
  at most 100 with names that fit one registration together (4095 bytes with their separators)
  and contain no separator, \<open>main\<close> reaches its serving state with the server's invariant and two
  sockets that listen at its ports, and the name server then looks up every file that lies in
  the directory itself at this server, which it holds for alive, at an address that can be
  connected to. It registers nothing else: the scan does not descend, so a file that was moved
  into a folder is not at this server after a start.
\<close>

theorem storage_server_boots:
  assumes "docs_inv w" and "dw_up w" and "length (ns_servers (dw_ns w)) < MAX_STORAGE_SERVERS" and "\<forall>f. ne_mem_hash env f"
    and "sc_ns_ip cfg = NS_IP" "sc_ns_port cfg = NS_PORT" and "willing k"
    and "start_ok (sc_storage_dir cfg) fs names" and start: "ss_start (e_mem_index senv) (sc_storage_dir cfg) fs names = Some (st, files)"
    and "readdir_of (ss_fs st) (sc_storage_dir cfg) names" and "list_fits files"
    and "\<forall>n. fs_nodes (ss_fs st) (resolve (ss_fs st) (sc_storage_dir cfg) @ [n]) \<noteq> None \<longrightarrow> name_ok n"
    and "card {f. name_ok f \<and> file_bytes (sc_storage_dir cfg) (ss_fs st) f \<noteq> None} \<le> 100"
  shows "\<exists>nm cs k' w' i. ss_main (docs_net env) senv True True cfg fs names k w = (0, Some (st, nm, cs), k', w') \<and>
    kn_descs k' = (cs, listener (sc_client_port cfg) 10) # (nm, listener (sc_nm_port cfg) 10) # kn_descs k \<and>
    docs_inv w' \<and> ss_inv st \<and>
    ss_alive (dw_ns w') i \<and> inet_pton (es_ip (server (dw_ns w') i)) \<noteq> None \<and> es_client_port (server (dw_ns w') i) = sc_client_port cfg \<and>
    (\<forall>f. name_ok f \<and> file_bytes (sc_storage_dir cfg) (ss_fs st) f \<noteq> None \<longrightarrow> lookup_result (dw_ns w') f = i) \<and>
    (\<forall>f. \<not> (name_ok f \<and> file_bytes (sc_storage_dir cfg) (ss_fs st) f \<noteq> None) \<longrightarrow>
       locations (dw_ns w') f = locations (dw_ns w) f)"
proof -
  let ?dir = "sc_storage_dir cfg"
  obtain q ip k1 where found: "get_local_ip k = ((q, ip), k1)" by (metis prod.exhaust)
  then obtain s where ip: "ip = Some s" "length s < MAX_IP_LEN" "inet_pton s \<noteq> None" "kn_descs k1 = kn_descs k" "willing k1"
    using assms(7) by (rule local_ip_found)
  obtain nm k2 where nm: "open_listener (sc_nm_port cfg) 10 k1 = (nm, k2)" by fastforce
  obtain cs k3 where cs: "open_listener (sc_client_port cfg) 10 k2 = (cs, k3)" by fastforce
  note nm' = listener_opened [OF nm ip(5)] and cs' = listener_opened [OF cs listener_opened(4) [OF nm ip(5)]]
  let ?m = "registration_message senv s (sc_nm_port cfg) (sc_client_port cfg) files"
  obtain ns' i where run: "ss_register (docs_net env) senv cfg s files w = (0, hung_up w ns')" and inv': "docs_inv (hung_up w ns')"
    and reg: "registered (system_env env) (dw_ns w) ?m i ns'"
    by (rule ss_register_run [OF assms(1,2,5,6,11,3)])
  have main: "ss_main (docs_net env) senv True True cfg fs names k w = (0, Some (st, nm, cs), k3, hung_up w ns')"
    using run start found ip(1) nm cs nm'(1) cs'(1) by (simp add: ss_main_def)
  have "files = scan_storage_files ?dir (ss_fs st) names 100" using start by (auto simp: ss_start_def Let_def split: if_splits prod.splits)
  moreover have "storage_ok ?dir (ss_fs st)" using start_fs(1) [OF assms(8) start] by simp
  ultimately have all: "set files = {f. name_ok f \<and> file_bytes ?dir (ss_fs st) f \<noteq> None}"
    using scan_storage_files_complete [OF _ assms(10,12,13)] by simp
  have "\<forall>f\<in>set files. f \<noteq> [] \<and> BAR \<notin> set f" using assms(11) by (auto simp: list_fits_def name_ok_def plain_name_def)
  then have listed: "listed_files ?m = files" using assms(11) by (intro registration_files) (simp_all add: list_fits_def)
  have "lookup_result ns' f = i" if "f \<in> set files" for f
    using reg that assms(4) by (simp add: registered_def listed lookup_result_def backing_def)
  moreover have "locations ns' f = locations (dw_ns w) f" if "f \<notin> set files" for f
    using reg that by (simp add: registered_def listed)
  moreover have "ss_alive ns' i" "es_ip (server ns' i) = s" "es_client_port (server ns' i) = sc_client_port cfg"
    using reg ip(2) by (simp_all add: registered_def cbuf_id)
  moreover have "kn_descs k3 = (cs, listener (sc_client_port cfg) 10) # (nm, listener (sc_nm_port cfg) 10) # kn_descs k"
    using nm'(3) cs'(3) ip(4) by simp
  ultimately show ?thesis using main inv' start_inv [OF assms(8) start] all ip(3)
    by (intro exI [of _ nm] exI [of _ cs] exI [of _ k3] exI [of _ "hung_up w ns'"] exI [of _ i]) (simp add: hung_up_def)
qed

definition boot_config :: SS_Config where
  "boot_config = default_config\<lparr>sc_storage_dir := ''s''\<rparr>"

definition boot_world :: Docs where
  "boot_world = \<lparr>dw_ns = sample_system, dw_up = True, dw_socks = Map.empty, dw_next = 3\<rparr>"

lemma boot_start:
  "\<exists>st. ss_start mem ''s'' ckpt_fs [''.'', ''a'', ''.checkpoints'', ''..''] = Some (st, [''a'']) \<and> ss_fs st = ckpt_fs"
proof -
  have "stat_ok ckpt_fs (cbuf MAX_PATH_LEN (''s'' @ SLASH # CHECKPOINT_DIR))" "stat_ok ckpt_fs ''s''" by code_simp+
  then have "checkpoint_init ''s'' ckpt_fs = ckpt_fs" "ensure_storage_dir ''s'' ckpt_fs = (0, ckpt_fs)"
    by (simp_all only: checkpoint_init_def ensure_storage_dir_def Let_def not_True_eq_False if_False)
  moreover have "scan_storage_files ''s'' ckpt_fs [''.'', ''a'', ''.checkpoints'', ''..''] 100 = [''a'']" by code_simp
  ultimately show ?thesis by (simp add: ss_start_def Let_def)
qed

definition boot_kernel :: Kernel where
  "boot_kernel = \<lparr>kn_descs = [], kn_answers = [], kn_route = (10, 0, 0, 7)\<rparr>"

theorem storage_server_boots_witness:
  "\<exists>st nm cs k' w' i. ss_main (docs_net (NS_Registry.sample_env :: Node list NsEnv)) Write_Path.sample_env True True
       boot_config ckpt_fs [''.'', ''a'', ''.checkpoints'', ''..''] boot_kernel boot_world = (0, Some (st, nm, cs), k', w') \<and>
     ss_inv st \<and> map fst (kn_descs k') = [cs, nm] \<and> lookup_result (dw_ns w') ''a'' = i"
proof -
  let ?names = "[''.'', ''a'', ''.checkpoints'', ''..'']"
  obtain st where st: "ss_start (e_mem_index Write_Path.sample_env) ''s'' ckpt_fs ?names = Some (st, [''a''])" "ss_fs st = ckpt_fs" using boot_start by blast
  have cfg: "sc_storage_dir boot_config = ''s''" "sc_ns_ip boot_config = NS_IP" "sc_ns_port boot_config = NS_PORT"
    by (simp_all add: boot_config_def default_config_def)
  have w: "docs_inv boot_world" "dw_up boot_world" "length (ns_servers (dw_ns boot_world)) < MAX_STORAGE_SERVERS"
    using reachable_inv [OF sample_system_reachable] by (simp_all add: boot_world_def docs_inv_def) (simp add: sample_system_def)
  have ok: "start_ok ''s'' ckpt_fs ?names" by code_simp
  have nodes: "fs_nodes ckpt_fs [''s'', n] \<noteq> None \<longleftrightarrow> n = ''a'' \<or> n = ''.checkpoints''" for n
    by (simp add: ckpt_fs_def sample_fs_def CHECKPOINT_DIR_def)
  have res: "resolve ckpt_fs ''s'' = [''s'']" by (simp add: ckpt_fs_def resolve_s)
  have dir: "readdir_of ckpt_fs ''s'' ?names" unfolding readdir_of_def res append.simps nodes by auto
  have plain: "\<forall>n. fs_nodes ckpt_fs [''s'', n] \<noteq> None \<longrightarrow> name_ok n" unfolding nodes by (auto simp: name_ok_def plain_name_def)
  have fits: "list_fits [''a'']" by (simp add: list_fits_def name_ok_def plain_name_def)
  have "{f. name_ok f \<and> file_bytes ''s'' ckpt_fs f \<noteq> None} \<subseteq> {''a'', ''.checkpoints''}"
  proof
    fix f assume "f \<in> {f. name_ok f \<and> file_bytes ''s'' ckpt_fs f \<noteq> None}"
    then have f: "name_ok f" "file_bytes ''s'' ckpt_fs f \<noteq> None" by simp_all
    from file_lookup [OF conjunct1 [OF ckpt_fs_ok] f(1)] f(2) have "fs_nodes ckpt_fs [''s'', f] \<noteq> None"
      unfolding res append.simps file_bytes_def by (simp split: option.splits)
    then show "f \<in> {''a'', ''.checkpoints''}" unfolding nodes by simp
  qed
  then have "card {f. name_ok f \<and> file_bytes ''s'' ckpt_fs f \<noteq> None} \<le> card {''a'', ''.checkpoints''}" by (intro card_mono) simp_all
  then have few: "card {f. name_ok f \<and> file_bytes ''s'' ckpt_fs f \<noteq> None} \<le> 100" by simp
  have mem: "\<forall>f. ne_mem_hash (NS_Registry.sample_env :: Node list NsEnv) f" by (simp add: NS_Registry.sample_env_def)
  have a: "name_ok ''a''" "file_bytes ''s'' ckpt_fs ''a'' \<noteq> None" using ckpt_fs_ok by (simp_all add: name_ok_def plain_name_def)
  let ?net = "docs_net (NS_Registry.sample_env :: Node list NsEnv)" and ?dir = "sc_storage_dir boot_config"
  have kernel: "willing boot_kernel" "kn_descs boot_kernel = []" by (simp_all add: boot_kernel_def willing_def)
  have "\<exists>nm cs k' w' i. ss_main ?net Write_Path.sample_env True True boot_config ckpt_fs ?names boot_kernel boot_world =
      (0, Some (st, nm, cs), k', w') \<and>
    kn_descs k' = (cs, listener (sc_client_port boot_config) 10) # (nm, listener (sc_nm_port boot_config) 10) # kn_descs boot_kernel \<and>
    docs_inv w' \<and> ss_inv st \<and>
    ss_alive (dw_ns w') i \<and> inet_pton (es_ip (server (dw_ns w') i)) \<noteq> None \<and> es_client_port (server (dw_ns w') i) = sc_client_port boot_config \<and>
    (\<forall>f. name_ok f \<and> file_bytes ?dir (ss_fs st) f \<noteq> None \<longrightarrow> lookup_result (dw_ns w') f = i) \<and>
    (\<forall>f. \<not> (name_ok f \<and> file_bytes ?dir (ss_fs st) f \<noteq> None) \<longrightarrow> locations (dw_ns w') f = locations (dw_ns boot_world) f)"
    by (rule storage_server_boots [OF w mem cfg(2,3) kernel(1)])
      (unfold cfg(1) st(2) res append.simps, rule ok, rule st(1), rule dir, rule fits, rule plain, rule few)
  then obtain nm cs k' w' i where boot: "ss_main ?net Write_Path.sample_env True True boot_config ckpt_fs ?names boot_kernel boot_world =
      (0, Some (st, nm, cs), k', w')" "ss_inv st"
    and descs: "kn_descs k' = (cs, listener (sc_client_port boot_config) 10) # (nm, listener (sc_nm_port boot_config) 10) # kn_descs boot_kernel"
    and look: "\<forall>f. name_ok f \<and> file_bytes ''s'' ckpt_fs f \<noteq> None \<longrightarrow> lookup_result (dw_ns w') f = i"
    unfolding cfg(1) st(2) by blast
  have "map fst (kn_descs k') = [cs, nm]" "lookup_result (dw_ns w') ''a'' = i" using descs kernel(2) look a by simp_all
  with boot show ?thesis by (intro exI conjI) (assumption | rule boot)+
qed

section \<open>Heartbeats\<close>

text \<open>
  C23. A heartbeat keeps a server alive: whether or not the name server had given it up, after one
  round of the heartbeat thread of a registered server it holds the server for alive, and every
  failure detection within the timeout leaves it so.
\<close>

theorem heartbeat_keeps_alive:
  assumes "docs_inv w" and "dw_up w" and "sc_ns_ip cfg = NS_IP" "sc_ns_port cfg = NS_PORT"
    and "find_server (heartbeat_message senv ip (sc_nm_port cfg) (sc_client_port cfg)) (dw_ns w) = i" and "0 \<le> i"
    and "now \<le> ne_now env + HEARTBEAT_TIMEOUT"
  shows "docs_inv (heartbeat_round (docs_net env) senv cfg ip w) \<and>
    ss_alive (failure_detection_round now (dw_ns (heartbeat_round (docs_net env) senv cfg ip w))) i"
proof -
  let ?m = "heartbeat_message senv ip (sc_nm_port cfg) (sc_client_port cfg)"
  let ?ns = "upd_server i (\<lambda>s. s\<lparr>es_last_heartbeat := ne_now (system_env env), es_is_alive := True\<rparr>) (dw_ns w)"
  obtain m where run: "dispatch (system_env env) (dw_ns w) ?m = Some ([m], ?ns)"
    using assms(5,6) by (simp add: dispatch_def handle_heartbeat_def answer_def Let_def)
  have "gives (step_ok (dw_ns w) ?m) (dispatch (system_env env) (dw_ns w) ?m)"
    using assms(1) by (intro dispatch_ok system_env_ok server_messages_wf) (simp_all add: docs_inv_def)
  then have inv: "docs_inv (hung_up w ?ns)"
    using assms(1) run by (fastforce simp: gives_def step_ok_def docs_inv_def hung_up_def)
  have round: "heartbeat_round (docs_net env) senv cfg ip w = hung_up w ?ns"
    using ns_exchange [OF assms(1,2) run] assms(3,4) by (simp add: heartbeat_round_def Let_def)
  have "i < ss_count (dw_ns w)" using find_server_index [of ?m "dw_ns w"] assms(5,6) by (simp add: index_ok_def)
  then have "ss_alive ?ns i" "es_last_heartbeat (server ?ns i) = ne_now env"
    using assms(6) by (simp_all add: ss_alive_def upd_server_def ss_count_def system_env_def)
  with inv round assms(7) show ?thesis by (simp add: detection_alive hung_up_def)
qed

theorem heartbeat_keeps_alive_witness:
  "ss_alive (failure_detection_round (ne_now (NS_Registry.sample_env :: Node list NsEnv) + 15) (dw_ns (heartbeat_round
     (docs_net (NS_Registry.sample_env :: Node list NsEnv)) Write_Path.sample_env default_config ''10.0.0.1'' boot_world))) 0"
proof -
  have w: "docs_inv boot_world" "dw_up boot_world"
    using reachable_inv [OF sample_system_reachable] by (simp_all add: boot_world_def docs_inv_def)
  have cfg: "sc_ns_ip default_config = NS_IP" "sc_ns_port default_config = NS_PORT" by (simp_all add: default_config_def)
  have "find_server (heartbeat_message Write_Path.sample_env ''10.0.0.1'' (sc_nm_port default_config) (sc_client_port default_config))
      (dw_ns boot_world) = 0"
    by (simp add: find_server_def boot_world_def sample_system_def sample_server_def default_config_def cbuf_id)
  from heartbeat_keeps_alive [OF w cfg this] show ?thesis by simp
qed

end
