(* ===== verification/NS_Loop.thy ===== *)
theory NS_Loop
  imports NS_Invariant Socket_Calls
begin

text \<open>
  \<open>main\<close> of the name server: its start, and its loop: \<open>select\<close> over the listening socket and the open connections,
  \<open>accept\<close>, and one \<open>handle_connection\<close> for every connection that has something to read. What the
  kernel answers in a round is a record; the descriptor sets are sets of numbers. A round is
  \<open>None\<close> where the code is undefined (a number that does not fit an \<open>fd_set\<close>, a handler that runs into
  undefined behaviour) and where it does not return: \<open>receive_message\<close> waits for a whole message,
  so a peer that sends a part of one and keeps the connection open stops the server.
\<close>

section \<open>State and one round\<close>

abbreviation FD_SETSIZE :: int where "FD_SETSIZE \<equiv> 1024"

record 'w Loop =
  lp_ns :: "'w NS"
  lp_active :: "int set"
  lp_max_fd :: int
  lp_sent :: "(int \<times> Message list) list"

text \<open>
  \<open>select\<close>'s result and the descriptors it reports, \<open>accept\<close>'s result, and what is received on
  a connection with its peer, in its environment; \<open>None\<close> is a message whose end never arrives.
\<close>

record 'w Round =
  rd_activity :: int
  rd_ready :: "int set"
  rd_accept :: int
  rd_received :: "int \<Rightarrow> Received option"
  rd_peer :: "int \<Rightarrow> cstring \<times> int"
  rd_env :: "int \<Rightarrow> 'w NsEnv"

function scan_fds :: "int \<Rightarrow> 'w Round \<Rightarrow> int set \<Rightarrow> int \<Rightarrow> 'w Loop \<Rightarrow> 'w Loop option" where
  "scan_fds srv rd read_fds fd lp =
     (if fd > lp_max_fd lp then Some lp
      else if fd \<notin> read_fds then scan_fds srv rd read_fds (fd + 1) lp
      else if fd = srv then
        let new_socket = rd_accept rd
        in if new_socket < 0 then scan_fds srv rd read_fds (fd + 1) lp
           else if new_socket \<ge> FD_SETSIZE then None
           else scan_fds srv rd read_fds (fd + 1) (lp\<lparr>lp_active := insert new_socket (lp_active lp),
                  lp_max_fd := (if new_socket > lp_max_fd lp then new_socket else lp_max_fd lp)\<rparr>)
      else case rd_received rd fd of
             None \<Rightarrow> None
           | Some received \<Rightarrow>
               (case handle_connection (rd_env rd fd) (lp_ns lp) received (fst (rd_peer rd fd)) (snd (rd_peer rd fd)) of
                  None \<Rightarrow> None
                | Some (out, ns) \<Rightarrow>
                    scan_fds srv rd read_fds (fd + 1)
                      (lp\<lparr>lp_ns := ns, lp_active := lp_active lp - {fd}, lp_sent := lp_sent lp @ [(fd, out)]\<rparr>)))"
  by pat_completeness auto
termination
  by (relation "measure (\<lambda>(srv, rd, read_fds, fd, lp). nat (max (lp_max_fd lp) (rd_accept rd) + 1 - fd))") auto

declare scan_fds.simps [simp del]

definition loop_start :: "int \<Rightarrow> 'w NS \<Rightarrow> 'w Loop" where
  "loop_start srv ns = \<lparr>lp_ns = ns, lp_active = {srv}, lp_max_fd = srv, lp_sent = []\<rparr>"

text \<open>An interrupted \<open>select\<close>, an error and a timeout (result zero) only start the next round.\<close>

definition loop_round :: "int \<Rightarrow> 'w Round \<Rightarrow> 'w Loop \<Rightarrow> 'w Loop option" where
  "loop_round srv rd lp =
     (if rd_activity rd \<le> 0 then Some lp
      else scan_fds srv rd (lp_active lp \<inter> rd_ready rd) 0 lp)"

text \<open>
  \<open>main\<close> up to the loop: the exit status, with the loop's first state where it is entered. The
  listening socket is made at \<open>NS_PORT\<close>, 8080; the failure detection thread is not critical.
\<close>

abbreviation MAX_CONNECTIONS :: int where "MAX_CONNECTIONS \<equiv> 50"

definition ns_main :: "(nat \<Rightarrow> bool) \<Rightarrow> int \<Rightarrow> FS \<Rightarrow> 'w \<Rightarrow> Kernel \<Rightarrow> int \<times> (int \<times> 'w Loop) option \<times> Kernel" where
  "ns_main mem now fs w k =
     (let ns = init_registries mem now fs w;
          (server_socket, k) = open_listener 8080 MAX_CONNECTIONS k
      in if server_socket < 0 then (1, None, k)
         else (0, Some (server_socket, loop_start server_socket ns), k))"

text \<open>The loop itself, as many rounds as are given; it has no end of its own.\<close>

fun loop_rounds :: "int \<Rightarrow> 'w Round list \<Rightarrow> 'w Loop \<Rightarrow> 'w Loop option" where
  "loop_rounds srv [] lp = Some lp"
| "loop_rounds srv (rd # rds) lp =
     (case loop_round srv rd lp of None \<Rightarrow> None | Some lp' \<Rightarrow> loop_rounds srv rds lp')"

section \<open>What a round is to do\<close>

text \<open>The connections of a list are served one after the other.\<close>

fun serve_all :: "'w Round \<Rightarrow> int list \<Rightarrow> 'w NS \<Rightarrow> ((int \<times> Message list) list \<times> 'w NS) option" where
  "serve_all rd [] ns = Some ([], ns)"
| "serve_all rd (fd # fds) ns =
     do {
       received \<leftarrow> rd_received rd fd;
       (out, ns) \<leftarrow> handle_connection (rd_env rd fd) ns received (fst (rd_peer rd fd)) (snd (rd_peer rd fd));
       (outs, ns) \<leftarrow> serve_all rd fds ns;
       Some ((fd, out) # outs, ns)
     }"

text \<open>The connections of a set that are ready, in the order of their descriptors; the connections left open.\<close>

definition ready_fds :: "int \<Rightarrow> int set \<Rightarrow> int list" where
  "ready_fds srv R = sorted_list_of_set (R - {srv})"

definition left_open :: "int \<Rightarrow> 'w Round \<Rightarrow> int set \<Rightarrow> int set \<Rightarrow> int set" where
  "left_open srv rd R active =
     (active - (R - {srv})) \<union> (if srv \<in> R \<and> 0 \<le> rd_accept rd then {rd_accept rd} else {})"

definition round_result :: "int \<Rightarrow> 'w Round \<Rightarrow> int set \<Rightarrow> 'w Loop \<Rightarrow> 'w Loop option" where
  "round_result srv rd R lp =
     (if srv \<in> R \<and> FD_SETSIZE \<le> rd_accept rd then None
      else map_option (\<lambda>(outs, ns). lp\<lparr>lp_ns := ns, lp_active := left_open srv rd R (lp_active lp),
          lp_max_fd := (if srv \<in> R then max (lp_max_fd lp) (rd_accept rd) else lp_max_fd lp),
          lp_sent := lp_sent lp @ outs\<rparr>) (serve_all rd (ready_fds srv R) (lp_ns lp)))"

definition loop_inv :: "int \<Rightarrow> 'w Loop \<Rightarrow> bool" where
  "loop_inv srv lp \<longleftrightarrow> ns_inv (lp_ns lp) \<and> srv \<in> lp_active lp \<and>
     (\<forall>fd\<in>lp_active lp. 0 \<le> fd \<and> fd \<le> lp_max_fd lp \<and> fd < FD_SETSIZE)"

definition fds_ok :: "int \<Rightarrow> 'w Loop \<Rightarrow> bool" where
  "fds_ok srv lp \<longleftrightarrow> srv \<in> lp_active lp \<and> (\<forall>fd\<in>lp_active lp. 0 \<le> fd \<and> fd \<le> lp_max_fd lp)"

lemma loop_fds: "loop_inv srv lp \<Longrightarrow> fds_ok srv lp"
  by (simp add: loop_inv_def fds_ok_def)

lemma sorted_list_least:
  assumes "finite (R :: int set)" and "fd \<in> R" and "\<forall>x\<in>R. fd \<le> x"
  shows "sorted_list_of_set R = fd # sorted_list_of_set (R - {fd})"
proof -
  have "Min R = fd" using assms by (auto intro: Min_eqI)
  with assms show ?thesis by (metis empty_iff sorted_list_of_set_nonempty)
qed

lemma round_result_none:
  "R = {} \<Longrightarrow> round_result srv rd R lp = Some lp"
  by (simp add: round_result_def ready_fds_def left_open_def)

lemma round_result_listen:
  assumes "R = insert srv R'" and "srv \<notin> R'" and "rd_accept rd \<notin> R'" and "fds_ok srv lp"
  shows "round_result srv rd R lp = (if FD_SETSIZE \<le> rd_accept rd then None
    else round_result srv rd R' (if rd_accept rd < 0 then lp
      else lp\<lparr>lp_active := insert (rd_accept rd) (lp_active lp), lp_max_fd := max (lp_max_fd lp) (rd_accept rd)\<rparr>))"
proof -
  have "0 \<le> lp_max_fd lp" using assms(4) by (auto simp: fds_ok_def)
  moreover have "ready_fds srv R = ready_fds srv R'" unfolding ready_fds_def using assms(1,2) by simp
  moreover have "left_open srv rd R (lp_active lp) = left_open srv rd R' (if rd_accept rd < 0 then lp_active lp
      else insert (rd_accept rd) (lp_active lp))"
    using assms(1-3) by (auto simp: left_open_def)
  ultimately show ?thesis using assms(1,2) by (cases lp) (auto simp: round_result_def max_def)
qed

lemma round_result_serve:
  assumes "finite R" and "R = insert fd R'" and "fd \<notin> R'" and "\<forall>x\<in>R. fd \<le> x" and "fd \<noteq> srv"
  shows "round_result srv rd R lp =
    (case rd_received rd fd of None \<Rightarrow> None
     | Some received \<Rightarrow>
         (case handle_connection (rd_env rd fd) (lp_ns lp) received (fst (rd_peer rd fd)) (snd (rd_peer rd fd)) of
            None \<Rightarrow> None
          | Some (out, ns) \<Rightarrow> round_result srv rd R'
              (lp\<lparr>lp_ns := ns, lp_active := lp_active lp - {fd}, lp_sent := lp_sent lp @ [(fd, out)]\<rparr>)))"
proof -
  have "sorted_list_of_set (R - {srv}) = fd # sorted_list_of_set (R - {srv} - {fd})"
    by (rule sorted_list_least) (use assms in auto)
  moreover have "R - {srv} - {fd} = R' - {srv}" using assms(2,3) by auto
  ultimately have fds: "ready_fds srv R = fd # ready_fds srv R'" by (simp add: ready_fds_def)
  have act: "left_open srv rd R A = left_open srv rd R' (A - {fd})" for A
    using assms(2,3,5) by (auto simp: left_open_def)
  have srv: "srv \<in> R \<longleftrightarrow> srv \<in> R'" using assms(2,5) by auto
  show ?thesis
    by (cases "rd_received rd fd"; simp add: round_result_def fds act srv split: option.split)
      (auto simp: map_option_case bind_eq_Some_conv bind_eq_None_conv split: option.splits)
qed

lemma scan_serves:
  assumes "fds_ok srv lp" and "0 \<le> fd" and "{x \<in> F. fd \<le> x} \<subseteq> lp_active lp" and "rd_accept rd \<notin> F"
  shows "scan_fds srv rd F fd lp = round_result srv rd {x \<in> F. fd \<le> x} lp"
  using assms
proof (induction srv rd F fd lp rule: scan_fds.induct)
  case (1 srv rd F fd lp)
  let ?R = "{x \<in> F. fd \<le> x}" and ?R' = "{x \<in> F. fd + 1 \<le> x}"
  have fin: "finite ?R"
  proof (rule finite_subset)
    show "?R \<subseteq> {0..lp_max_fd lp}" using "1.prems"(1,3) by (auto simp: fds_ok_def)
  qed simp
  consider (over) "fd > lp_max_fd lp" | (quiet) "\<not> fd > lp_max_fd lp" "fd \<notin> F"
    | (listen) "\<not> fd > lp_max_fd lp" "fd \<in> F" "fd = srv" | (conn) "\<not> fd > lp_max_fd lp" "fd \<in> F" "fd \<noteq> srv"
    by blast
  then show ?case
  proof cases
    case over
    then have "?R = {}" using "1.prems"(1,3) by (force simp: fds_ok_def)
    with over show ?thesis by (simp only: scan_fds.simps [of srv rd F fd lp] round_result_none if_True)
  next
    case quiet
    then have "?R' = ?R" by (auto simp: add1_zle_eq order.order_iff_strict)
    with quiet "1.IH"(1) [OF quiet "1.prems"(1) _ _ "1.prems"(4)] "1.prems"(2,3) show ?thesis
      by (simp add: scan_fds.simps [of srv rd F fd lp])
  next
    case listen
    have R: "?R = insert srv ?R'" "srv \<notin> ?R'" using listen by (auto simp: add1_zle_eq order.order_iff_strict)
    have sub: "?R' \<subseteq> lp_active lp" using "1.prems"(3) R(1) by blast
    have new: "rd_accept rd \<notin> ?R'" using "1.prems"(4) by simp
    consider (failed) "rd_accept rd < 0" | (large) "\<not> rd_accept rd < 0" "rd_accept rd \<ge> FD_SETSIZE"
      | (fits) "\<not> rd_accept rd < 0" "\<not> rd_accept rd \<ge> FD_SETSIZE" by linarith
    then show ?thesis
    proof cases
      case failed
      have "scan_fds srv rd F (fd + 1) lp = round_result srv rd ?R' lp"
        using "1.IH"(2) [OF listen(1) _ listen(3) refl failed "1.prems"(1) _ sub "1.prems"(4)] "1.prems"(2) listen(2) by simp
      with failed listen show ?thesis unfolding round_result_listen [OF R new "1.prems"(1)]
        by (simp add: scan_fds.simps [of srv rd F srv lp])
    next
      case large
      with listen show ?thesis unfolding round_result_listen [OF R new "1.prems"(1)]
        by (simp add: scan_fds.simps [of srv rd F srv lp])
    next
      case fits
      let ?lp = "lp\<lparr>lp_active := insert (rd_accept rd) (lp_active lp),
        lp_max_fd := (if rd_accept rd > lp_max_fd lp then rd_accept rd else lp_max_fd lp)\<rparr>"
      have max: "(if rd_accept rd > lp_max_fd lp then rd_accept rd else lp_max_fd lp) = max (lp_max_fd lp) (rd_accept rd)" by simp
      have ok: "fds_ok srv ?lp" using "1.prems"(1) fits by (auto simp: fds_ok_def)
      have sub': "?R' \<subseteq> lp_active ?lp" using sub by auto
      have "scan_fds srv rd F (fd + 1) ?lp = round_result srv rd ?R' ?lp"
        using "1.IH"(3) [OF listen(1) _ listen(3) refl fits ok _ sub' "1.prems"(4)] "1.prems"(2) listen(2) by simp
      with fits listen show ?thesis unfolding round_result_listen [OF R new "1.prems"(1)] max
        by (simp add: scan_fds.simps [of srv rd F srv lp] max Let_def)
    qed
  next
    case conn
    have R: "?R = insert fd ?R'" "fd \<notin> ?R'" using conn by (auto simp: add1_zle_eq order.order_iff_strict)
    let ?ip = "fst (rd_peer rd fd)" and ?port = "snd (rd_peer rd fd)"
    have step: "scan_fds srv rd F (fd + 1) lp' = round_result srv rd ?R' lp'"
      if "rd_received rd fd = Some r" "handle_connection (rd_env rd fd) (lp_ns lp) r ?ip ?port = Some (out, ns)"
        "lp' = lp\<lparr>lp_ns := ns, lp_active := lp_active lp - {fd}, lp_sent := lp_sent lp @ [(fd, out)]\<rparr>" for r out ns lp'
    proof -
      have ok: "fds_ok srv lp'" using "1.prems"(1) conn(3) that(3) by (auto simp: fds_ok_def)
      have sub: "?R' \<subseteq> lp_active lp'" using "1.prems"(3) R that(3) by auto
      show ?thesis
        using "1.IH"(4) [OF conn(1) _ conn(3) that(1,2) refl, folded that(3), OF _ ok _ sub "1.prems"(4)] "1.prems"(2) conn(2)
        by simp
    qed
    have least: "\<forall>x\<in>?R. fd \<le> x" by simp
    show ?thesis unfolding round_result_serve [OF fin R least conn(3)] using conn step
      by (simp add: scan_fds.simps [of srv rd F fd lp] split: option.split)
  qed
qed

lemma loop_round_exact:
  assumes "fds_ok srv lp" and "rd_accept rd \<notin> lp_active lp"
  shows "loop_round srv rd lp = (if rd_activity rd \<le> 0 then Some lp
    else round_result srv rd (lp_active lp \<inter> rd_ready rd) lp)"
proof -
  have "{x \<in> lp_active lp \<inter> rd_ready rd. 0 \<le> x} = lp_active lp \<inter> rd_ready rd" using assms(1) by (auto simp: fds_ok_def)
  then show ?thesis using scan_serves [OF assms(1), of 0 "lp_active lp \<inter> rd_ready rd" rd] assms(2)
    by (simp add: loop_round_def)
qed

lemma round_result_fds:
  assumes "fds_ok srv lp" and "R \<subseteq> lp_active lp" and "round_result srv rd R lp = Some lp'"
  shows "fds_ok srv lp'"
proof -
  obtain outs ns where "serve_all rd (ready_fds srv R) (lp_ns lp) = Some (outs, ns)"
    "lp' = lp\<lparr>lp_ns := ns, lp_active := left_open srv rd R (lp_active lp),
       lp_max_fd := (if srv \<in> R then max (lp_max_fd lp) (rd_accept rd) else lp_max_fd lp), lp_sent := lp_sent lp @ outs\<rparr>"
    using assms(3) by (auto simp: round_result_def split: if_splits)
  with assms(1) show ?thesis by (auto simp: fds_ok_def left_open_def split: if_splits)
qed

section \<open>When a round returns\<close>

text \<open>Every message arrives whole and none of them may run into undefined behaviour when its turn comes.\<close>

fun serve_safe :: "('w \<Rightarrow> bool) \<Rightarrow> 'w Round \<Rightarrow> int list \<Rightarrow> 'w NS \<Rightarrow> bool" where
  "serve_safe W rd [] ns \<longleftrightarrow> True"
| "serve_safe W rd (fd # fds) ns \<longleftrightarrow>
     (case rd_received rd fd of
        None \<Rightarrow> False
      | Some r \<Rightarrow> env_ok (rd_env rd fd) \<and> received_ok r \<and>
          (case r of Received msg \<Rightarrow> safe_request W (rd_env rd fd) ns msg | _ \<Rightarrow> True) \<and>
          (case handle_connection (rd_env rd fd) ns r (fst (rd_peer rd fd)) (snd (rd_peer rd fd)) of
             None \<Rightarrow> True
           | Some (out, ns') \<Rightarrow> serve_safe W rd fds ns'))"

lemma connection_served:
  assumes "ns_inv ns" and "env_ok env" and "received_ok r"
    and "case r of Received msg \<Rightarrow> safe_request W env ns msg | _ \<Rightarrow> True"
  obtains out ns' where "handle_connection env ns r ip port = Some (out, ns')"
proof -
  have "handle_connection env ns r ip port \<noteq> None"
  proof (cases r)
    case (Received msg)
    with dispatch_ok(2) [OF assms(1,2), of msg W] assms(3,4) show ?thesis by (simp add: handle_connection_def)
  qed (simp_all add: handle_connection_def)
  with that show thesis by auto
qed

lemma serve_all_safe:
  assumes "ns_inv ns" and "serve_safe W rd fds ns"
  obtains outs ns' where "serve_all rd fds ns = Some (outs, ns')" "ns_inv ns'" "ns_reachable ns \<Longrightarrow> ns_reachable ns'"
    "\<forall>m\<in>\<Union> (set ` snd ` set outs). msg_wf m" "map fst outs = fds"
  using assms
proof (induction fds arbitrary: ns thesis)
  case (Cons fd fds)
  let ?ip = "fst (rd_peer rd fd)" and ?port = "snd (rd_peer rd fd)" and ?env = "rd_env rd fd"
  obtain r where r: "rd_received rd fd = Some r" "env_ok ?env" "received_ok r"
    "case r of Received msg \<Rightarrow> safe_request W ?env ns msg | _ \<Rightarrow> True"
    using Cons.prems(3) by (auto split: option.splits)
  obtain out ns1 where run: "handle_connection ?env ns r ?ip ?port = Some (out, ns1)"
    by (rule connection_served [OF Cons.prems(2) r(2-4)])
  have ok: "ns_inv ns1" "\<forall>m\<in>set out. msg_wf m" using connection_ok [OF Cons.prems(2) r(2,3) run] by simp_all
  have "serve_safe W rd fds ns1" using Cons.prems(3) r(1) run by simp
  then obtain outs ns' where rest: "serve_all rd fds ns1 = Some (outs, ns')" "ns_inv ns'" "ns_reachable ns1 \<Longrightarrow> ns_reachable ns'"
    "\<forall>m\<in>\<Union> (set ` snd ` set outs). msg_wf m" "map fst outs = fds"
    by (rule Cons.IH [OF _ ok(1), rotated]) blast
  have "ns_reachable ns \<Longrightarrow> ns_reachable ns1" by (rule ns_reachable.handle [OF _ r(2,3) run])
  with rest ok show ?case by (intro Cons.prems(1) [of "(fd, out) # outs" ns']) (simp_all add: r(1) run ball_Un)
qed simp

lemma loop_start_inv: "ns_inv ns \<Longrightarrow> 0 \<le> srv \<Longrightarrow> srv < FD_SETSIZE \<Longrightarrow> loop_inv srv (loop_start srv ns)"
  by (simp add: loop_inv_def loop_start_def)

lemma safe_round_returns:
  assumes "loop_inv srv lp" and "R \<subseteq> lp_active lp" and "rd_accept rd < FD_SETSIZE"
    and "serve_safe W rd (ready_fds srv R) (lp_ns lp)"
  obtains outs lp' where "round_result srv rd R lp = Some lp'" "loop_inv srv lp'" "lp_sent lp' = lp_sent lp @ outs"
    "\<forall>m\<in>\<Union> (set ` snd ` set outs). msg_wf m" "ns_reachable (lp_ns lp) \<Longrightarrow> ns_reachable (lp_ns lp')"
proof -
  have "ns_inv (lp_ns lp)" using assms(1) by (simp add: loop_inv_def)
  then obtain outs ns where run: "serve_all rd (ready_fds srv R) (lp_ns lp) = Some (outs, ns)" "ns_inv ns"
    "ns_reachable (lp_ns lp) \<Longrightarrow> ns_reachable ns" "\<forall>m\<in>\<Union> (set ` snd ` set outs). msg_wf m"
    by (rule serve_all_safe [OF _ assms(4)]) blast
  let ?lp = "lp\<lparr>lp_ns := ns, lp_active := left_open srv rd R (lp_active lp),
     lp_max_fd := (if srv \<in> R then max (lp_max_fd lp) (rd_accept rd) else lp_max_fd lp), lp_sent := lp_sent lp @ outs\<rparr>"
  have res: "round_result srv rd R lp = Some ?lp" using assms(3) run(1) by (simp add: round_result_def)
  have "loop_inv srv ?lp" using assms(1-3) run(2) by (auto simp: loop_inv_def left_open_def)
  with that [OF res] run show thesis by simp
qed

section \<open>Properties\<close>

text \<open>
  C13. A round of the main loop is the service of the ready connections: without activity it changes
  nothing; otherwise it hands each connection that is ready, in the order of the descriptors, to
  \<open>handle_connection\<close>, each in the state the one before left, sends exactly the answers these give,
  closes these connections, keeps all others and adds the one it accepted. It does not return, or is
  undefined, exactly when the accepted descriptor does not fit a set, the rest of a message never
  arrives or a handler is undefined; when none of this happens it returns, with the invariant of
  the name server kept and well-formed answers. (\<open>accept\<close> gives no descriptor that is open.)
\<close>

theorem ready_connections_served:
  assumes "loop_inv srv lp" and "rd_accept rd \<notin> lp_active lp"
  shows "loop_round srv rd lp =
      (if rd_activity rd \<le> 0 then Some lp
       else if srv \<in> rd_ready rd \<and> FD_SETSIZE \<le> rd_accept rd then None
       else map_option (\<lambda>(outs, ns). lp\<lparr>lp_ns := ns,
             lp_active := (lp_active lp - (rd_ready rd - {srv})) \<union>
               (if srv \<in> rd_ready rd \<and> 0 \<le> rd_accept rd then {rd_accept rd} else {}),
             lp_max_fd := (if srv \<in> rd_ready rd then max (lp_max_fd lp) (rd_accept rd) else lp_max_fd lp),
             lp_sent := lp_sent lp @ outs\<rparr>)
           (serve_all rd (sorted_list_of_set (lp_active lp \<inter> rd_ready rd - {srv})) (lp_ns lp))) \<and>
    (rd_accept rd < FD_SETSIZE \<and> serve_safe W rd (sorted_list_of_set (lp_active lp \<inter> rd_ready rd - {srv})) (lp_ns lp) \<longrightarrow>
      (\<exists>lp' outs. loop_round srv rd lp = Some lp' \<and> loop_inv srv lp' \<and> lp_sent lp' = lp_sent lp @ outs \<and>
         (\<forall>(fd, out)\<in>set outs. \<forall>m\<in>set out. msg_wf m)))"
proof
  let ?R = "lp_active lp \<inter> rd_ready rd"
  have srv: "srv \<in> ?R \<longleftrightarrow> srv \<in> rd_ready rd" using assms(1) by (auto simp: loop_inv_def)
  have act: "left_open srv rd ?R (lp_active lp) = (lp_active lp - (rd_ready rd - {srv})) \<union>
      (if srv \<in> rd_ready rd \<and> 0 \<le> rd_accept rd then {rd_accept rd} else {})"
    unfolding left_open_def srv by auto
  note exact = loop_round_exact [OF loop_fds [OF assms(1)] assms(2)]
  show "loop_round srv rd lp =
      (if rd_activity rd \<le> 0 then Some lp
       else if srv \<in> rd_ready rd \<and> FD_SETSIZE \<le> rd_accept rd then None
       else map_option (\<lambda>(outs, ns). lp\<lparr>lp_ns := ns,
             lp_active := (lp_active lp - (rd_ready rd - {srv})) \<union>
               (if srv \<in> rd_ready rd \<and> 0 \<le> rd_accept rd then {rd_accept rd} else {}),
             lp_max_fd := (if srv \<in> rd_ready rd then max (lp_max_fd lp) (rd_accept rd) else lp_max_fd lp),
             lp_sent := lp_sent lp @ outs\<rparr>)
           (serve_all rd (sorted_list_of_set (?R - {srv})) (lp_ns lp)))"
    unfolding exact round_result_def act srv ready_fds_def ..
  show "rd_accept rd < FD_SETSIZE \<and> serve_safe W rd (sorted_list_of_set (?R - {srv})) (lp_ns lp) \<longrightarrow>
      (\<exists>lp' outs. loop_round srv rd lp = Some lp' \<and> loop_inv srv lp' \<and> lp_sent lp' = lp_sent lp @ outs \<and>
         (\<forall>(fd, out)\<in>set outs. \<forall>m\<in>set out. msg_wf m))"
  proof (cases "rd_activity rd \<le> 0")
    case True
    with exact assms(1) show ?thesis by auto
  next
    case False
    show ?thesis
    proof
      assume safe: "rd_accept rd < FD_SETSIZE \<and> serve_safe W rd (sorted_list_of_set (?R - {srv})) (lp_ns lp)"
      obtain outs lp' where "round_result srv rd ?R lp = Some lp'" "loop_inv srv lp'" "lp_sent lp' = lp_sent lp @ outs"
        "\<forall>m\<in>\<Union> (set ` snd ` set outs). msg_wf m"
        by (rule safe_round_returns [OF assms(1) _ conjunct1 [OF safe] conjunct2 [OF safe, folded ready_fds_def]]) blast+
      with exact False show "\<exists>lp' outs. loop_round srv rd lp = Some lp' \<and> loop_inv srv lp' \<and> lp_sent lp' = lp_sent lp @ outs \<and>
         (\<forall>(fd, out)\<in>set outs. \<forall>m\<in>set out. msg_wf m)"
        by (intro exI [of _ lp'] exI [of _ outs]) auto
    qed
  qed
qed

text \<open>Three connections, of which one and the listening socket are ready.\<close>

definition sample_loop :: "unit Loop" where
  "sample_loop = \<lparr>lp_ns = sample_running, lp_active = {3, 4, 5}, lp_max_fd = 5, lp_sent = []\<rparr>"

definition sample_round :: "unit Round" where
  "sample_round = \<lparr>rd_activity = 2, rd_ready = {3, 4}, rd_accept = 6,
     rd_received = (\<lambda>fd. Some (Received (sample_registration 9000))), rd_peer = (\<lambda>fd. (''10.0.0.1'', 40000)),
     rd_env = (\<lambda>fd. sample_env)\<rparr>"

lemma sample_round_sel [simp]:
  "rd_accept sample_round = 6" "rd_received sample_round fd = Some (Received (sample_registration 9000))"
  "rd_env sample_round fd = sample_env" "rd_activity sample_round = 2"
  by (simp_all add: sample_round_def)

lemma sample_request_safe: "safe_request W env ns (sample_registration 9000)"
  by (simp add: safe_request_def sample_registration_def)

theorem ready_connections_served_witness:
  "\<exists>lp' m. loop_round 3 sample_round sample_loop = Some lp' \<and> lp_active lp' = {3, 5, 6} \<and> lp_sent lp' = [(4, [m])] \<and>
     m_error_code m = ERR_SUCCESS \<and> ss_count (lp_ns lp') = 3"
proof -
  have inv: "loop_inv 3 sample_loop"
    using reachable_inv [OF sample_running_reachable] by (simp add: loop_inv_def sample_loop_def)
  have sets: "lp_active sample_loop \<inter> rd_ready sample_round - {3} = {4}" "lp_active sample_loop - (rd_ready sample_round - {3}) = {3, 5}"
    "(3 \<in> rd_ready sample_round) = True" "lp_sent sample_loop = []" "lp_ns sample_loop = sample_running"
    by (auto simp: sample_loop_def sample_round_def)
  have "ns_servers sample_running = map sample_server [8081, 8091]" by (simp add: sample_running_def)
  then obtain m where run: "dispatch sample_env sample_running (sample_registration 9000) =
      Some ([m], sample_running\<lparr>ns_servers := ns_servers sample_running @ [sample_server 9000]\<rparr>)" "m_error_code m = ERR_SUCCESS"
    using sample_registers [of sample_running "[8081, 8091]" 9000] by auto
  have "rd_accept sample_round \<notin> lp_active sample_loop" by (simp add: sample_loop_def)
  from ready_connections_served [OF inv this, of "\<lambda>_. True", unfolded sets] run show ?thesis
    by (simp add: handle_connection_def ss_count_def insert_commute) (simp add: sample_running_def)
qed

text \<open>
  The server as it is meant: it serves, round by round, the connections that are ready, with
  the set of open connections as its only other state.
\<close>

fun serve_rounds :: "int \<Rightarrow> 'w Round list \<Rightarrow> int set \<Rightarrow> 'w NS \<Rightarrow> ((int \<times> Message list) list \<times> int set \<times> 'w NS) option" where
  "serve_rounds srv [] active ns = Some ([], active, ns)"
| "serve_rounds srv (rd # rds) active ns =
     (if rd_activity rd \<le> 0 then serve_rounds srv rds active ns
      else if srv \<in> rd_ready rd \<and> FD_SETSIZE \<le> rd_accept rd then None
      else do {
        (outs, ns) \<leftarrow> serve_all rd (ready_fds srv (active \<inter> rd_ready rd)) ns;
        (outs', st) \<leftarrow> serve_rounds srv rds (left_open srv rd (active \<inter> rd_ready rd) active) ns;
        Some (outs @ outs', st)
      })"

text \<open>What holds at each round of a run that has activity.\<close>

fun all_rounds :: "('w Round \<Rightarrow> int set \<Rightarrow> 'w NS \<Rightarrow> bool) \<Rightarrow> int \<Rightarrow> 'w Round list \<Rightarrow> int set \<Rightarrow> 'w NS \<Rightarrow> bool" where
  "all_rounds P srv [] active ns \<longleftrightarrow> True"
| "all_rounds P srv (rd # rds) active ns \<longleftrightarrow>
     (if rd_activity rd \<le> 0 then all_rounds P srv rds active ns
      else P rd active ns \<and>
        (case serve_all rd (ready_fds srv (active \<inter> rd_ready rd)) ns of
           None \<Rightarrow> True
         | Some (outs, ns) \<Rightarrow> all_rounds P srv rds (left_open srv rd (active \<inter> rd_ready rd) active) ns))"

definition fresh_accept :: "'w Round \<Rightarrow> int set \<Rightarrow> 'w NS \<Rightarrow> bool" where
  "fresh_accept rd active ns \<longleftrightarrow> rd_accept rd \<notin> active"

definition safe_round :: "('w \<Rightarrow> bool) \<Rightarrow> int \<Rightarrow> 'w Round \<Rightarrow> int set \<Rightarrow> 'w NS \<Rightarrow> bool" where
  "safe_round W srv rd active ns \<longleftrightarrow> rd_accept rd \<notin> active \<and> rd_accept rd < FD_SETSIZE \<and>
     serve_safe W rd (ready_fds srv (active \<inter> rd_ready rd)) ns"

lemma loop_rounds_exact:
  assumes "fds_ok srv lp" and "all_rounds fresh_accept srv rds (lp_active lp) (lp_ns lp)"
  shows "map_option (\<lambda>lp'. (lp_sent lp', lp_active lp', lp_ns lp')) (loop_rounds srv rds lp) =
    map_option (\<lambda>(outs, active, ns). (lp_sent lp @ outs, active, ns)) (serve_rounds srv rds (lp_active lp) (lp_ns lp))"
  using assms
proof (induction rds arbitrary: lp)
  case (Cons rd rds)
  let ?R = "lp_active lp \<inter> rd_ready rd"
  have srv: "srv \<in> ?R \<longleftrightarrow> srv \<in> rd_ready rd" using Cons.prems(1) by (auto simp: fds_ok_def)
  show ?case
  proof (cases "rd_activity rd \<le> 0")
    case True
    then show ?thesis using Cons by (simp add: loop_round_def)
  next
    case False
    then have fresh: "rd_accept rd \<notin> lp_active lp" using Cons.prems(2) by (simp add: fresh_accept_def)
    have round: "loop_round srv rd lp = round_result srv rd ?R lp"
      using loop_round_exact [OF Cons.prems(1) fresh] False by simp
    show ?thesis
    proof (cases "round_result srv rd ?R lp")
      case None
      then show ?thesis using False round srv by (auto simp: round_result_def split: if_splits)
    next
      case (Some lp')
      obtain outs ns where all: "serve_all rd (ready_fds srv ?R) (lp_ns lp) = Some (outs, ns)"
        and lp': "lp_ns lp' = ns" "lp_active lp' = left_open srv rd ?R (lp_active lp)" "lp_sent lp' = lp_sent lp @ outs"
        and fits: "\<not> (srv \<in> rd_ready rd \<and> FD_SETSIZE \<le> rd_accept rd)"
        using Some srv by (auto simp: round_result_def split: if_splits)
      have ok: "fds_ok srv lp'" by (rule round_result_fds [OF Cons.prems(1) _ Some]) simp
      have "all_rounds fresh_accept srv rds (lp_active lp') (lp_ns lp')" using Cons.prems(2) False all lp' by simp
      from Cons.IH [OF ok this] show ?thesis
        using False round Some all fits
        by (cases "serve_rounds srv rds (lp_active lp') (lp_ns lp')") (auto simp: lp')
    qed
  qed
qed simp

lemma loop_rounds_safe:
  assumes "loop_inv srv lp" and "ns_reachable (lp_ns lp)" and "all_rounds (safe_round W srv) srv rds (lp_active lp) (lp_ns lp)"
  shows "\<exists>lp'. loop_rounds srv rds lp = Some lp' \<and> loop_inv srv lp' \<and> ns_reachable (lp_ns lp')"
  using assms
proof (induction rds arbitrary: lp)
  case (Cons rd rds)
  let ?R = "lp_active lp \<inter> rd_ready rd"
  show ?case
  proof (cases "rd_activity rd \<le> 0")
    case True
    then show ?thesis using Cons by (simp add: loop_round_def)
  next
    case False
    then have safe: "rd_accept rd \<notin> lp_active lp" "rd_accept rd < FD_SETSIZE" "serve_safe W rd (ready_fds srv ?R) (lp_ns lp)"
      using Cons.prems(3) by (simp_all add: safe_round_def)
    obtain lp' where run: "round_result srv rd ?R lp = Some lp'" "loop_inv srv lp'"
      "ns_reachable (lp_ns lp) \<Longrightarrow> ns_reachable (lp_ns lp')"
      by (rule safe_round_returns [OF Cons.prems(1) _ safe(2,3)]) blast+
    obtain outs ns where "serve_all rd (ready_fds srv ?R) (lp_ns lp) = Some (outs, ns)"
      "lp_ns lp' = ns" "lp_active lp' = left_open srv rd ?R (lp_active lp)"
      using run(1) by (auto simp: round_result_def split: if_splits)
    then have "all_rounds (safe_round W srv) srv rds (lp_active lp') (lp_ns lp')" using Cons.prems(3) False by simp
    from Cons.IH [OF run(2) run(3) [OF Cons.prems(2)] this] show ?thesis
      using loop_round_exact [OF loop_fds [OF Cons.prems(1)] safe(1)] False run(1) by simp
  qed
qed simp

text \<open>
  C12. The name server comes up and serves: when the kernel answers its calls, \<open>main\<close> enters its loop
  with one socket that listens at port 8080, whatever the disk holds. From there any run of rounds
  is exactly the service described by \<open>serve_rounds\<close>: the same answers on the same connections, the
  same connections left open, the same state of the name server, and undefined or blocked where
  that is (\<open>accept\<close> gives no descriptor that is open). And a run in which every message arrives
  whole, every accepted descriptor is below 1024 and no request may run into undefined behaviour
  when its turn comes returns after any number of rounds, in a reachable state with the
  listening socket still watched.
\<close>

theorem name_server_keeps_running:
  assumes "willing k" and "length (kn_descs k) < nat FD_SETSIZE"
  shows "\<exists>srv lp k'. ns_main mem now fs w k = (0, Some (srv, lp), k') \<and>
    kn_descs k' = (srv, listener 8080 MAX_CONNECTIONS) # kn_descs k \<and>
    (\<forall>rds. all_rounds fresh_accept srv rds {srv} (init_registries mem now fs w) \<longrightarrow>
       map_option (\<lambda>lp'. (lp_sent lp', lp_active lp', lp_ns lp')) (loop_rounds srv rds lp) =
       serve_rounds srv rds {srv} (init_registries mem now fs w)) \<and>
    (\<forall>rds. all_rounds (safe_round W srv) srv rds {srv} (init_registries mem now fs w) \<longrightarrow>
       (\<exists>lp'. loop_rounds srv rds lp = Some lp' \<and> ns_reachable (lp_ns lp') \<and> srv \<in> lp_active lp'))"
proof -
  obtain srv k' where srv: "open_listener 8080 MAX_CONNECTIONS k = (srv, k')" by fastforce
  note opened = listener_opened [OF srv assms(1)]
  let ?ns = "init_registries mem now fs w"
  let ?lp = "loop_start srv ?ns"
  have lp: "lp_active ?lp = {srv}" "lp_ns ?lp = ?ns" "lp_sent ?lp = []" by (simp_all add: loop_start_def)
  have "srv < FD_SETSIZE" using opened(1) assms(2) by simp
  then have inv: "loop_inv srv ?lp" using opened(1) init_registries_inv by (intro loop_start_inv) simp_all
  have exact: "map_option (\<lambda>lp'. (lp_sent lp', lp_active lp', lp_ns lp')) (loop_rounds srv rds ?lp) = serve_rounds srv rds {srv} ?ns"
    if "all_rounds fresh_accept srv rds {srv} ?ns" for rds
    using loop_rounds_exact [OF loop_fds [OF inv], unfolded lp, OF that] by (simp add: option.map_id option.map_ident case_prod_eta)
  have safe: "\<exists>lp'. loop_rounds srv rds ?lp = Some lp' \<and> ns_reachable (lp_ns lp') \<and> srv \<in> lp_active lp'"
    if "all_rounds (safe_round W srv) srv rds {srv} ?ns" for rds
    using loop_rounds_safe [OF inv, unfolded lp, OF ns_reachable.start that] by (auto simp: loop_inv_def)
  from srv opened exact safe show ?thesis
    by (intro exI [of _ srv] exI [of _ ?lp] exI [of _ k']) (simp add: ns_main_def)
qed

text \<open>A first round with a new connection, and one with a message on it.\<close>

definition sample_rounds :: "unit Round list" where
  "sample_rounds = [sample_round\<lparr>rd_ready := {0}\<rparr>, sample_round\<lparr>rd_ready := {6}, rd_accept := - 1\<rparr>]"

theorem name_server_keeps_running_witness:
  "\<exists>lp k' lp'. ns_main (\<lambda>_. True) 0 \<lparr>fs_cwd = [], fs_nodes = [[] \<mapsto> FDir]\<rparr> () \<lparr>kn_descs = [], kn_answers = [], kn_route = (10, 0, 0, 7)\<rparr> =
     (0, Some (0, lp), k') \<and> loop_rounds 0 sample_rounds lp = Some lp' \<and> ns_reachable (lp_ns lp') \<and> 0 \<in> lp_active lp'"
proof -
  let ?fs = "\<lparr>fs_cwd = [], fs_nodes = [[] \<mapsto> FDir]\<rparr>" and ?k = "\<lparr>kn_descs = [], kn_answers = [], kn_route = (10, 0, 0, 7)\<rparr>"
  let ?ns = "init_registries (\<lambda>_. True) 0 ?fs ()"
  have "willing ?k" "length (kn_descs ?k) < nat FD_SETSIZE" by (simp_all add: willing_def)
  from name_server_keeps_running [OF this, of "\<lambda>_. True" 0 ?fs "()" "\<lambda>_. True"]
  obtain srv lp k' where run: "ns_main (\<lambda>_. True) 0 ?fs () ?k = (0, Some (srv, lp), k')"
    and rounds: "\<forall>rds. all_rounds (safe_round (\<lambda>_. True) srv) srv rds {srv} ?ns \<longrightarrow>
       (\<exists>lp'. loop_rounds srv rds lp = Some lp' \<and> ns_reachable (lp_ns lp') \<and> srv \<in> lp_active lp')" by blast
  have "fst (open_listener 8080 MAX_CONNECTIONS ?k) = 0" by code_simp
  with run have srv: "srv = 0" by (auto simp: ns_main_def Let_def split: prod.splits if_splits)
  have fds: "ready_fds 0 {0} = []" "left_open 0 (sample_round\<lparr>rd_ready := {0}\<rparr>) {0} {0} = {0, 6}" "ready_fds 0 {6} = [6]"
    by (auto simp: ready_fds_def left_open_def)
  have "all_rounds (safe_round (\<lambda>_. True) srv) srv sample_rounds {srv} ?ns"
    unfolding srv
    by (simp add: sample_rounds_def safe_round_def fds sample_registration_ok sample_env_ok sample_request_safe split: option.split)
  from rounds [rule_format, OF this] run show ?thesis unfolding srv by blast
qed

end
