(* ===== verification/System_Invariant.thy ===== *)
theory System_Invariant
  imports Registration
begin

text \<open>
  The system under any interleaving: clients and storage servers open, use and drop connections
  in any order, servers join, clocks move on, the name server detects failures and restarts. The
  invariants of the name server and of every storage server hold in every state so reached.
\<close>

section \<open>What the name server does to the rest of the world\<close>

text \<open>
  The requests it relays: well-formed, with a file name that fits the search index of the storage
  servers unless the file is only asked about.
\<close>

definition relay_ok :: "Message \<Rightarrow> bool" where
  "relay_ok m \<longleftrightarrow> msg_wf m \<and> (m_operation m \<noteq> OP_GET_METADATA \<longrightarrow> length (m_filename m) < MAX_FILENAME_LEN - 1)"

text \<open>\<open>W\<close> is kept by an exchange with a server, and by the commands of EXEC.\<close>

definition world_kept :: "('w \<Rightarrow> bool) \<Rightarrow> 'w NsEnv \<Rightarrow> bool" where
  "world_kept W env \<longleftrightarrow> (\<forall>w ip port m. W w \<and> relay_ok m \<longrightarrow> W (snd (ne_contact env w ip port m))) \<and>
     (\<forall>w c. W w \<longrightarrow> W (snd (ne_popen env w c)))"

definition in_world :: "('w \<Rightarrow> bool) \<Rightarrow> 'w NS \<Rightarrow> bool" where
  "in_world W ns \<longleftrightarrow> W (ns_world ns)"

abbreviation stays :: "('w \<Rightarrow> bool) \<Rightarrow> 'w ns_result \<Rightarrow> bool" where
  "stays W r \<equiv> gives (\<lambda>out. in_world W) r"

lemma in_world_update [simp]:
  "in_world W (ns\<lparr>ns_acl := a\<rparr>) = in_world W ns" "in_world W (ns\<lparr>ns_lru := c\<rparr>) = in_world W ns"
  "in_world W (ns\<lparr>ns_file_map := m\<rparr>) = in_world W ns" "in_world W (ns\<lparr>ns_servers := s\<rparr>) = in_world W ns"
  "in_world W (ns\<lparr>ns_clients := l\<rparr>) = in_world W ns" "in_world W (ns\<lparr>ns_requests := q\<rparr>) = in_world W ns"
  "in_world W (ns\<lparr>ns_last_used := i\<rparr>) = in_world W ns" "in_world W (ns\<lparr>ns_fs := fs\<rparr>) = in_world W ns"
  "in_world W (ns\<lparr>ns_replication := r\<rparr>) = in_world W ns"
  "in_world W (persist_acl ns) = in_world W ns" "in_world W (upd_server j u ns) = in_world W ns"
  "in_world W (add_replication_entry f i j ns) = in_world W ns" "in_world W (mark_client_disconnected ip port ns) = in_world W ns"
  "in_world W (snd (find_available_ss ns)) = in_world W ns"
  by (simp_all add: in_world_def persist_acl_def upd_server_def add_replication_entry_def mark_client_disconnected_def
      find_available_ss_def Let_def split: option.split)

lemma hashmap_world: "hashmap_add env f i ns = Some ns' \<Longrightarrow> in_world W ns' = in_world W ns"
    "hashmap_remove f ns = Some ns' \<Longrightarrow> in_world W ns' = in_world W ns"
  by (auto simp: hashmap_add_def hashmap_remove_def bind_eq_Some_conv Let_def split: if_splits)

lemma hashmap_add_all_world: "hashmap_add_all env i fs ns = Some ns' \<Longrightarrow> in_world W ns' = in_world W ns"
  by (induction fs arbitrary: ns) (auto simp: bind_eq_Some_conv dest!: hashmap_world(1) [where W = W])

lemma add_file_world: "add_file_to_ss env i f ns = Some ns' \<Longrightarrow> in_world W ns' = in_world W ns"
  by (auto simp: add_file_to_ss_def hashmap_world split: if_splits)

lemma find_world: "find_ss_for_file env f ns = Some (i, ns') \<Longrightarrow> in_world W ns' = in_world W ns"
    "ns_file_exists env f ns = Some (e, ns') \<Longrightarrow> in_world W ns' = in_world W ns"
proof -
  show find: "find_ss_for_file env f ns = Some (i, ns') \<Longrightarrow> in_world W ns' = in_world W ns" for i ns'
    by (auto simp: find_ss_for_file_def bind_eq_Some_conv Let_def split: if_splits)
  show "ns_file_exists env f ns = Some (e, ns') \<Longrightarrow> in_world W ns' = in_world W ns"
    by (auto simp: ns_file_exists_def find)
qed

lemma contact_world:
  assumes "world_kept W env" and "relay_ok m" and "in_world W ns"
  shows "contact_nm env i m ns = (r, ns') \<Longrightarrow> in_world W ns'" "contact_client_port env i m ns = (r, ns') \<Longrightarrow> in_world W ns'"
  using assms
  by (auto simp: contact_nm_def contact_client_port_def in_world_def world_kept_def case_prod_beta)

lemma gives_bind: "(\<And>x. r = Some x \<Longrightarrow> gives P (k x)) \<Longrightarrow> gives P (Option.bind r k)"
  by (cases r) (simp_all add: gives_def)

lemma gives_answer: "P [ns_reply env code txt] ns \<Longrightarrow> gives P (answer env code txt ns)"
  by (simp add: gives_def answer_def)

text \<open>Handlers that talk to nobody, and those that only look a file up.\<close>

lemma quiet_world:
  assumes "in_world W ns"
  shows "stays W (handle_ss_registration env ns msg)" "stays W (handle_client_registration env ns msg)"
    "stays W (handle_heartbeat env ns msg)" "stays W (handle_addaccess_request env ns msg)"
    "stays W (handle_remaccess_request env ns msg)" "stays W (handle_requestaccess_request env ns msg)"
    "stays W (handle_viewrequests_request env ns msg)" "stays W (handle_approverequest_request env ns msg)"
    "stays W (handle_denyrequest_request env ns msg)" "stays W (handle_list_request env ns msg)"
    "stays W (ns_handle_read_request env ns msg)" "stays W (ns_handle_write_request env ns msg)"
    "stays W (ns_handle_undo_request env ns msg)" "stays W (ns_handle_stream_request env ns msg)"
proof -
  note w = assms
  show "stays W (handle_ss_registration env ns msg)"
    using w by (auto simp: handle_ss_registration_def Let_def hashmap_add_all_world intro!: gives_bind gives_answer)
  show "stays W (handle_client_registration env ns msg)" "stays W (handle_heartbeat env ns msg)"
    "stays W (handle_list_request env ns msg)" "stays W (handle_viewrequests_request env ns msg)"
    using w by (auto simp: handle_client_registration_def handle_heartbeat_def handle_list_request_def handle_viewrequests_request_def
        Let_def intro!: gives_answer)
  show "stays W (handle_addaccess_request env ns msg)" "stays W (handle_remaccess_request env ns msg)"
    using w by (auto simp: handle_addaccess_request_def handle_remaccess_request_def Let_def case_prod_beta intro!: gives_answer)
  show "stays W (handle_requestaccess_request env ns msg)"
    using w by (auto simp: handle_requestaccess_request_def Let_def case_prod_beta intro!: gives_answer split: option.split)
  show "stays W (handle_approverequest_request env ns msg)" "stays W (handle_denyrequest_request env ns msg)"
    using w by (auto simp: handle_approverequest_request_def handle_denyrequest_request_def Let_def case_prod_beta intro!: gives_answer)
  show "stays W (ns_handle_read_request env ns msg)" "stays W (ns_handle_write_request env ns msg)"
    "stays W (ns_handle_undo_request env ns msg)" "stays W (ns_handle_stream_request env ns msg)"
    using w by (auto simp: ns_handle_read_request_def ns_handle_write_request_def ns_handle_undo_request_def ns_handle_stream_request_def
        gives_SomeD dest!: find_world [where W = W] intro!: gives_bind gives_answer)
qed

text \<open>Handlers that talk to a storage server.\<close>

lemma available_world: "find_available_ss ns = (i, ns') \<Longrightarrow> in_world W ns' = in_world W ns"
  using in_world_update(14) [of W ns] by simp

lemma relay_msgs:
  "msg_wf msg \<Longrightarrow> length (m_filename msg) < MAX_FILENAME_LEN - 1 \<Longrightarrow> relay_ok msg"
  "length (m_filename msg) < MAX_FILENAME_LEN - 1 \<Longrightarrow> relay_ok (replicate_msg env msg)"
  "relay_ok (metadata_req env f)" "relay_ok (search_msg env msg)"
  "length f < MAX_FILENAME_LEN - 1 \<Longrightarrow> relay_ok ((INIT_MESSAGE now)\<lparr>m_operation := OP_READ, m_filename := cbuf MAX_FILENAME_LEN f\<rparr>)"
  by (simp_all add: relay_ok_def replicate_msg_def metadata_req_def search_msg_def msg_wf_def INIT_MESSAGE_def length_cbuf min_less_iff_disj)

lemma stays_contact:
  assumes "world_kept W env" and "relay_ok m" and "in_world W ns"
    and "\<And>r ns'. in_world W ns' \<Longrightarrow> stays W (k r ns')"
  shows "stays W (let (r, ns) = contact_nm env i m ns in k r ns)" "stays W (case contact_nm env i m ns of (r, ns) \<Rightarrow> k r ns)"
  using contact_world(1) [OF assms(1-3)] assms(4) by (cases "contact_nm env i m ns"; force)+

lemma stays_available:
  assumes "in_world W ns" and "\<And>i ns'. in_world W ns' \<Longrightarrow> stays W (k i ns')"
  shows "stays W (case find_available_ss ns of (i, ns) \<Rightarrow> k i ns)"
  using available_world [where W = W and ns = ns] assms by (cases "find_available_ss ns") auto

lemma replicate_world:
  assumes "world_kept W env" and "length (m_filename msg) < MAX_FILENAME_LEN - 1" and "in_world W ns" and "replicate_file env i msg ns = Some ns'"
  shows "in_world W ns'"
proof -
  obtain j ns1 where j: "find_available_ss ns = (j, ns1)" by fastforce
  let ?ns2 = "add_replication_entry (m_filename msg) i j ns1"
  obtain r ns3 where r: "contact_nm env j (replicate_msg env msg) ?ns2 = (r, ns3)" by fastforce
  have "in_world W ns1" using available_world [OF j] assms(3) by simp
  moreover from this have "in_world W ns3" using contact_world(1) [OF assms(1) relay_msgs(2) [OF assms(2)] _ r] by simp
  ultimately show ?thesis using assms(3,4) j r
    by (auto simp: replicate_file_def Let_def add_file_world [where W = W] split: if_splits dest!: add_file_world [where W = W])
qed

lemma created_world:
  assumes "world_kept W env" and "length (m_filename msg) < MAX_FILENAME_LEN - 1" and "in_world W ns" and "register_created env i msg ns = Some ns'"
  shows "in_world W ns'"
proof -
  obtain ns1 where ns1: "add_file_to_ss env i (m_filename msg) ns = Some ns1"
    using assms(4) by (auto simp: register_created_def bind_eq_Some_conv)
  obtain code acl where acl: "acl_add_file (ne_mem_acl env) (ne_now env) (ns_acl ns1) (m_filename msg) (m_sender_id msg) = (code, acl)"
    by fastforce
  have "replicate_file env i msg (if code = 0 then persist_acl (ns1\<lparr>ns_acl := acl\<rparr>) else ns1\<lparr>ns_acl := acl\<rparr>) = Some ns'"
    using assms(4) by (simp add: register_created_def ns1 acl Let_def)
  with replicate_world [OF assms(1,2) _ this] add_file_world [OF ns1, of W] assms(3) show ?thesis by (simp split: if_splits)
qed

lemma metadata_row_world:
  assumes "world_kept W env" and "in_world W ns" and "metadata_row env f ns = Some (row, ns')"
  shows "in_world W ns'"
proof -
  obtain i ns1 where i: "find_ss_for_file env f ns = Some (i, ns1)" using assms(3) by (auto simp: metadata_row_def bind_eq_Some_conv)
  obtain r ns2 where r: "contact_nm env i (metadata_req env f) ns1 = (r, ns2)" by fastforce
  have 1: "in_world W ns1" using find_world(1) [OF i, of W] assms(2) by simp
  with contact_world(1) [OF assms(1) relay_msgs(3) 1 r] assms(3) i r show ?thesis
    by (auto simp: metadata_row_def Let_def bind_eq_Some_conv simp del: scan_ints.simps split: if_splits Contact.splits)
qed

lemma view_rows_world:
  "world_kept W env \<Longrightarrow> in_world W ns \<Longrightarrow> view_rows env fs buf ns = Some (buf', ns') \<Longrightarrow> in_world W ns'"
proof (induction env fs buf ns rule: view_rows.induct)
  case (2 env f fs buf ns)
  then show ?case by (auto simp: bind_eq_Some_conv split: if_splits dest: metadata_row_world)
qed simp

lemma search_loop_world:
  assumes "world_kept W env" and "in_world W ns" and "search_loop env msg idxs results n q ns = Some (results', n', q', ns')"
  shows "in_world W ns'"
  using assms(2,3)
proof (induction idxs arbitrary: results n q ns)
  case (Cons i idxs)
  obtain r ns1 where r: "contact_client_port env (int i) (search_msg env msg) ns = (r, ns1)" by fastforce
  have "in_world W ns1" by (rule contact_world(2) [OF assms(1) relay_msgs(4) Cons.prems(1) r])
  with Cons r show ?case by (cases r) (auto simp: Let_def split: if_splits)
qed simp

lemma talking_world:
  assumes env: "world_kept W env" and wf: "msg_wf msg" and len: "length (m_filename msg) < MAX_FILENAME_LEN - 1" and w: "in_world W ns"
  shows "stays W (handle_create_request env ns msg)" "stays W (handle_delete_request env ns msg)"
    "stays W (handle_exec_request env ns msg)" "stays W (handle_view_request env ns msg)"
    "stays W (handle_info_request env ns msg)" "stays W (ns_handle_createfolder_request env ns msg)"
    "stays W (ns_handle_viewfolder_request env ns msg)" "stays W (ns_handle_move_request env ns msg)"
    "stays W (ns_handle_search_request env ns msg)"
proof -
  note relay = relay_msgs(1) [OF wf len] relay_msgs(3) relay_msgs(5) [OF len]
  have fwd: "stays W (forward env i msg ns)" for i
    unfolding forward_def by (rule stays_contact [OF env relay(1) w]) (auto simp: gives_SomeD intro!: gives_answer split: Contact.split)
  then show "stays W (ns_handle_createfolder_request env ns msg)" "stays W (ns_handle_viewfolder_request env ns msg)"
    "stays W (ns_handle_move_request env ns msg)"
    using w by (auto simp: ns_handle_createfolder_request_def ns_handle_viewfolder_request_def ns_handle_move_request_def Let_def intro!: gives_answer)
  show "stays W (handle_create_request env ns msg)"
    unfolding handle_create_request_def using w
    by (auto intro!: gives_answer gives_bind stays_available stays_contact [OF env relay(1)] simp: gives_SomeD
        dest!: find_world [where W = W] split: Contact.split) (blast intro: created_world [OF env len])+
  show "stays W (handle_delete_request env ns msg)"
    unfolding handle_delete_request_def using w
    by (auto intro!: gives_answer gives_bind stays_contact [OF env relay(1)] simp: gives_SomeD
        dest!: find_world [where W = W] hashmap_world(2) [where W = W] split: Contact.split)
      (auto simp: gives_SomeD Let_def split: prod.split)
  show "stays W (handle_view_request env ns msg)"
    unfolding handle_view_request_def Let_def using w
    by (auto intro!: gives_answer gives_bind dest: view_rows_world [OF env])
  show "stays W (ns_handle_search_request env ns msg)"
    unfolding ns_handle_search_request_def using w
    by (auto intro!: gives_answer gives_bind dest: search_loop_world [OF env])
  show "stays W (handle_info_request env ns msg)"
    unfolding handle_info_request_def using w
    by (auto intro!: gives_answer gives_bind stays_contact [OF env relay(2)] simp: gives_SomeD Let_def
        dest!: find_world [where W = W] split: Contact.split)
  have pop: "in_world W (ns1\<lparr>ns_world := w\<rparr>)" if "ne_popen env (ns_world ns1) c = (run, w)" "in_world W ns1" for ns1 c run w
  proof -
    have "W (snd (ne_popen env (ns_world ns1) c))" using env that(2) by (simp add: world_kept_def in_world_def)
    then show ?thesis by (simp add: that(1) in_world_def)
  qed
  show "stays W (handle_exec_request env ns msg)"
    unfolding handle_exec_request_def using w
    by (auto intro!: gives_answer gives_bind stays_contact [OF env relay(3)] simp: gives_SomeD
        dest!: find_world [where W = W] split: Contact.split) (auto simp: Let_def pop intro!: gives_answer split: prod.split option.split)
qed

lemma dispatch_world:
  assumes "world_kept W env" and "msg_wf msg" and "length (m_filename msg) < MAX_FILENAME_LEN - 1" and "in_world W ns"
  shows "stays W (dispatch env ns msg)"
  unfolding dispatch_def Let_def using assms
  by (auto simp: gives_SomeD intro!: talking_world quiet_world gives_answer)

section \<open>The storage servers\<close>

definition memory_ok :: "Env \<Rightarrow> bool" where
  "memory_ok env \<longleftrightarrow> e_mem_node env \<and> e_mem_content env \<and> e_mem_restore env"

definition node_inv :: "Node \<Rightarrow> bool" where
  "node_inv n \<longleftrightarrow> ss_inv (nd_ss n) \<and> memory_ok (nd_env n)"

abbreviation nodes_inv :: "Node list \<Rightarrow> bool" where
  "nodes_inv \<equiv> list_all node_inv"

lemma relay_req: "relay_ok m \<Longrightarrow> memory_ok env \<Longrightarrow> req_ok env m"
  by (simp add: relay_ok_def memory_ok_def req_ok_def)

lemma handle_at_inv:
  assumes "node_inv n" and "\<And>st' out. serve (nd_env n) (nd_ss n) msg = Some (st', out) \<Longrightarrow> ss_inv st'"
  shows "nodes_inv (snd (handle_at serve msg n))"
proof (cases "serve (nd_env n) (nd_ss n) msg")
  case (Some r)
  obtain st out where "r = (st, out)" by (cases r)
  with Some assms(1) assms(2) [of st out] show ?thesis by (cases out) (simp_all add: handle_at_def node_inv_def)
qed (simp add: handle_at_def)

lemma net_contact_inv:
  assumes "relay_ok m" and "nodes_inv net"
  shows "nodes_inv (snd (net_contact net ip port m))"
  using assms(2)
proof (induction net)
  case (Cons n net)
  then have n: "node_inv n" "ss_inv (nd_ss n)" "req_ok (nd_env n) m" using relay_req [OF assms(1)] by (simp_all add: node_inv_def)
  have "ss_inv st'" if "ns_request (nd_env n) (nd_ss n) m = Some (st', out)" for st' out
    using ns_request_keeps [OF n(2,3) that] by (simp add: ss_post_def)
  moreover have "ss_inv st'" if "client_connection (nd_ss n) (nd_env n) m [] = Some (st', out)" for st' out
    using client_connection_keeps [OF n(2,3) _ that] by (simp add: ss_post_def)
  ultimately show ?case using Cons handle_at_inv [OF n(1)] by simp
qed simp

lemma on_port_inv:
  assumes "nodes_inv net" and "on_port nm cp ip port net = Some (out, net')"
    and "\<And>env st st' out. ss_inv st \<Longrightarrow> memory_ok env \<Longrightarrow> nm env st = Some (st', out) \<Longrightarrow> ss_inv st'"
    and "\<And>env st st' out. ss_inv st \<Longrightarrow> memory_ok env \<Longrightarrow> cp env st = Some (st', out) \<Longrightarrow> ss_inv st'"
  shows "nodes_inv net'"
  using assms(1,2)
proof (induction net arbitrary: net')
  case (Cons n net)
  then show ?case
    by (auto simp: serve_node_def node_inv_def split: if_splits option.splits)
      (blast intro: assms(3,4))+
qed simp

text \<open>The state of a world of \<open>Client_System\<close>.\<close>

definition docs_nodes :: "Docs \<Rightarrow> bool" where
  "docs_nodes w \<longleftrightarrow> in_world nodes_inv (dw_ns w)"

lemma node_serves_nodes:
  assumes "docs_nodes w" and "node_serves nm cp sk w = (out, w')"
    and "\<And>env st st' out. ss_inv st \<Longrightarrow> memory_ok env \<Longrightarrow> nm env st = Some (st', out) \<Longrightarrow> ss_inv st'"
    and "\<And>env st st' out. ss_inv st \<Longrightarrow> memory_ok env \<Longrightarrow> cp env st = Some (st', out) \<Longrightarrow> ss_inv st'"
  shows "docs_nodes w'"
proof (cases "on_port nm cp (sk_ip sk) (sk_port sk) (ns_world (dw_ns w))")
  case (Some r)
  obtain out1 net where r: "r = (out1, net)" by (cases r)
  have "nodes_inv net" by (rule on_port_inv [OF _ Some [unfolded r] assms(3,4)]) (use assms(1) in \<open>auto simp: docs_nodes_def in_world_def\<close>)
  with Some r assms(2) show ?thesis by (auto simp: node_serves_def docs_nodes_def in_world_def)
qed (use assms(1,2) in \<open>auto simp: node_serves_def\<close>)

text \<open>EXEC runs what a document says; here it leaves the storage servers alone.\<close>

definition commands_tame :: "Node list NsEnv \<Rightarrow> bool" where
  "commands_tame env \<longleftrightarrow> (\<forall>net c. nodes_inv net \<longrightarrow> nodes_inv (snd (ne_popen env net c)))"

lemma system_world: "commands_tame env \<Longrightarrow> world_kept nodes_inv (system_env env)"
  using net_contact_inv by (simp add: world_kept_def commands_tame_def) (simp add: system_env_def)

lemma handled_nodes:
  assumes "docs_nodes w" and "commands_tame env" and "relay_ok m" and "handled env sk m w = (out, w')"
    and short: "length (m_filename m) < MAX_FILENAME_LEN - 1"
  shows "docs_nodes w'"
proof -
  have req: "req_ok e m" if "memory_ok e" for e using relay_req [OF assms(3) that] .
  have ns: "docs_nodes w'" if "ns_serves env m w = (out, w')"
  proof -
    have "stays nodes_inv (dispatch (system_env env) (dw_ns w) m)"
      using assms(1,3) short by (intro dispatch_world system_world assms(2)) (simp_all add: relay_ok_def docs_nodes_def)
    with that assms(1) show ?thesis by (auto simp: ns_serves_def docs_nodes_def gives_def split: if_splits option.splits)
  qed
  have first: "ss_inv st'" if "ss_inv st" "memory_ok e" "first_message m e st = Some (st', out)" for e st st' out
    using that session_keeps [OF that(1) req [OF that(2)]] client_connection_keeps [OF that(1) req [OF that(2)], where rest = "[]"]
    by (auto simp: first_message_def ss_post_def split: if_splits)
  have more: "ss_inv st'" if "ss_inv st" "memory_ok e" "session_message m e st = Some (st', out)" for e st st' out
    using that session_keeps [OF that(1) req [OF that(2)]] by (auto simp: session_message_def ss_post_def split: if_splits)
  have ns_req: "ss_inv st'" if "ss_inv st" "memory_ok e" "ns_request e st m = Some (st', out)" for e st st' out
    using ns_request_keeps [OF that(1) req [OF that(2)] that(3)] by (simp add: ss_post_def)
  show ?thesis using assms(1,4) ns
      node_serves_nodes [OF assms(1), of "\<lambda>env st. ns_request env st m" "first_message m" sk out w', OF _ ns_req first]
      node_serves_nodes [OF assms(1), of "\<lambda>env st. Some (st, [])" "session_message m" sk out w', OF _ _ more]
    by (auto simp: handled_def split: if_splits)
qed

section \<open>Any interleaving\<close>

definition docs_message :: "Message \<Rightarrow> bool" where
  "docs_message m \<longleftrightarrow> msg_wf m \<and> (m_operation m = OP_REGISTER_SS \<longrightarrow> files_ok m) \<and> length (m_filename m) < MAX_FILENAME_LEN - 1"

text \<open>A storage server that comes up, on a disk in any state.\<close>

definition node_started :: "Node \<Rightarrow> bool" where
  "node_started n \<longleftrightarrow> memory_ok (nd_env n) \<and>
     (\<exists>mem sd fs names files. start_ok sd fs names \<and> ss_start mem sd fs names = Some (nd_ss n, files))"

text \<open>
  The steps of the system: a process makes, connects, uses or closes a socket; the name server
  looks for dead storage servers, or starts again from its disk; a storage server joins, cleans up
  its locks, or its clock and the rest of its environment move on. A storage server serves the
  connections it has in any order, so that the one connection at a time of the code is a case.
\<close>

inductive docs_reachable :: "Docs \<Rightarrow> bool" where
  start: "list_all node_started net \<Longrightarrow>
    docs_reachable \<lparr>dw_ns = init_registries mem now fs net, dw_up = True, dw_socks = Map.empty, dw_next = 3\<rparr>"
| making: "docs_reachable w \<Longrightarrow> docs_socket w = (s, w') \<Longrightarrow> docs_reachable w'"
| connecting: "docs_reachable w \<Longrightarrow> s \<in> dom (dw_socks w) \<Longrightarrow> docs_connect s ip port w = (r, w') \<Longrightarrow> docs_reachable w'"
| sending: "docs_reachable w \<Longrightarrow> s \<in> dom (dw_socks w) \<Longrightarrow> commands_tame env \<Longrightarrow> docs_message m \<Longrightarrow>
    docs_send env s m w = (r, w') \<Longrightarrow> docs_reachable w'"
| receiving: "docs_reachable w \<Longrightarrow> s \<in> dom (dw_socks w) \<Longrightarrow> docs_receive s w = ((r, m), w') \<Longrightarrow> docs_reachable w'"
| closing: "docs_reachable w \<Longrightarrow> docs_reachable (docs_close s w)"
| detecting: "docs_reachable w \<Longrightarrow> docs_reachable (w\<lparr>dw_ns := failure_detection_round now (dw_ns w)\<rparr>)"
| restarting: "docs_reachable w \<Longrightarrow>
    docs_reachable (w\<lparr>dw_ns := init_registries mem now (ns_fs (dw_ns w)) (ns_world (dw_ns w)), dw_up := True\<rparr>)"
| joining: "docs_reachable w \<Longrightarrow> node_started n \<Longrightarrow>
    docs_reachable (w\<lparr>dw_ns := (dw_ns w)\<lparr>ns_world := ns_world (dw_ns w) @ [n]\<rparr>\<rparr>)"
| ticking: "docs_reachable w \<Longrightarrow> ns_world (dw_ns w) = pre @ n # post \<Longrightarrow> memory_ok env \<Longrightarrow>
    st = nd_ss n \<or> st = lock_cleanup_round env (nd_ss n) \<Longrightarrow>
    docs_reachable (w\<lparr>dw_ns := (dw_ns w)\<lparr>ns_world := pre @ n\<lparr>nd_env := env, nd_ss := st\<rparr> # post\<rparr>\<rparr>)"

lemma started_inv: "node_started n \<Longrightarrow> node_inv n"
  using start_inv by (auto simp: node_started_def node_inv_def)

lemma keeps_nothing: "keeps user Map.empty w = docs_inv w"
  by (simp add: keeps_def)

lemma send_keeps_system:
  assumes "docs_inv w" and "docs_nodes w" and "s \<in> dom (dw_socks w)" and "commands_tame env" and "docs_message m" and "docs_send env s m w = (r, w')"
  shows "docs_inv w' \<and> docs_nodes w'"
proof
  have "peer_message (m_sender_id m) m" using assms(5) by (auto simp: docs_message_def peer_message_def msg_wf_def cbuf_id)
  with docs_send_inv [of "m_sender_id m" Map.empty w s m env r w'] assms show "docs_inv w'" by (simp add: keeps_nothing)
  obtain sk where sk: "dw_socks w s = Some sk" using assms(3) by auto
  obtain out w1 where h: "handled env sk m w = (out, w1)" by (cases "handled env sk m w")
  have m: "relay_ok m" "length (m_filename m) < MAX_FILENAME_LEN - 1" using assms(5) by (simp_all add: docs_message_def relay_ok_def)
  have "docs_nodes w1" by (rule handled_nodes [OF assms(2,4) m(1) h m(2)])
  with assms(2,6) sk h show "docs_nodes w'" by (auto simp: docs_send_def docs_nodes_def split: if_splits)
qed

lemma close_keeps_nodes:
  assumes "docs_nodes w"
  shows "docs_nodes (docs_close s w)"
proof (cases "dw_socks w s")
  case (Some sk)
  obtain out w1 where n: "node_serves (\<lambda>env st. Some (st, [])) (\<lambda>env st. write_loop st []) sk w = (out, w1)"
    by (cases "node_serves (\<lambda>env st. Some (st, [])) (\<lambda>env st. write_loop st []) sk w")
  have "docs_nodes w1"
    by (rule node_serves_nodes [OF assms n]) (use write_loop_keeps [where rest = "[]"] in \<open>auto simp: ss_post_def\<close>)
  with Some n assms show ?thesis by (simp add: docs_close_def docs_nodes_def Let_def)
qed (simp add: docs_close_def assms)

lemma tick_keeps_node:
  assumes "node_inv n" and "memory_ok env" and "st = nd_ss n \<or> st = lock_cleanup_round env (nd_ss n)"
  shows "node_inv (n\<lparr>nd_env := env, nd_ss := st\<rparr>)"
proof -
  have "ss_inv (lock_cleanup_round env (nd_ss n))"
    using ss_step_keeps [OF _ ss_step.cleanup, of "nd_ss n" env] assms(1) by (simp add: node_inv_def ss_post_def)
  with assms show ?thesis by (auto simp: node_inv_def)
qed

lemma socket_calls_ns:
  "docs_socket w = (s, w') \<Longrightarrow> dw_ns w' = dw_ns w" "docs_connect s ip port w = (r, w') \<Longrightarrow> dw_ns w' = dw_ns w"
  "docs_receive s w = ((r, m), w') \<Longrightarrow> dw_ns w' = dw_ns w"
  by (auto simp: docs_socket_def docs_connect_def docs_receive_def split: if_splits option.splits list.splits)

lemma init_world: "ns_world (init_registries mem now fs net) = net"
  by (simp only: init_registries_def NS.select_convs)

lemma reachable_system: "docs_reachable w \<Longrightarrow> docs_inv w \<and> docs_nodes w"
proof (induction rule: docs_reachable.induct)
  case (start net mem now fs)
  have "list_all node_inv net" using start(1) started_inv by (auto simp: list_all_iff)
  then show ?case using init_registries_inv [of mem now fs net]
    unfolding docs_inv_def docs_nodes_def in_world_def by (simp add: init_world)
next
  case (making w s w')
  then have "docs_inv w'" using docs_socket_inv [of "[]" Map.empty w s w'] unfolding keeps_nothing by blast
  moreover have "docs_nodes w'" using making unfolding docs_nodes_def by (simp add: socket_calls_ns(1))
  ultimately show ?case ..
next
  case (connecting w s ip port r w')
  then have "docs_inv w'" using docs_connect_inv [of "[]" Map.empty w s ip port r w'] unfolding keeps_nothing by blast
  moreover have "docs_nodes w'" using connecting unfolding docs_nodes_def by (simp add: socket_calls_ns(2))
  ultimately show ?case ..
next
  case (sending w s env m r w')
  then show ?case using send_keeps_system by blast
next
  case (receiving w s r m w')
  then have "docs_inv w'" using docs_receive_inv [of "[]" Map.empty w s r m w'] unfolding keeps_nothing by blast
  moreover have "docs_nodes w'" using receiving unfolding docs_nodes_def by (simp add: socket_calls_ns(3))
  ultimately show ?case ..
next
  case (closing w s)
  then show ?case using docs_close_inv [of "[]" Map.empty w s] close_keeps_nodes unfolding keeps_nothing by blast
next
  case (detecting w now)
  then show ?case using failure_detection_inv [of "dw_ns w" now]
    by (auto simp: docs_inv_def docs_nodes_def failure_detection_round_def)
next
  case (restarting w mem now)
  then show ?case using init_registries_inv [of mem now "ns_fs (dw_ns w)" "ns_world (dw_ns w)"]
    unfolding docs_inv_def docs_nodes_def in_world_def by (simp add: init_world)
next
  case (joining w n)
  then show ?case using started_inv by (auto simp: docs_inv_def docs_nodes_def in_world_def)
next
  case (ticking w pre n post env st)
  then show ?case using tick_keeps_node [OF _ ticking(3,4)] by (auto simp: docs_inv_def docs_nodes_def in_world_def)
qed

text \<open>
  C5. The invariant of the system: however clients, storage servers and the name server interleave
  their connections, messages, failures and restarts, the name server's tables are in order, so
  are the disk, the locks, the undo buffer, the search index and the session of every storage
  server, and every message waiting on a socket is within its fields. The name server starts and
  restarts from whatever its disk holds, an access file another program wrote included. The steps
  leave out: messages with a file name of 255 characters or a registration that lists such a name,
  failed allocations of the storage servers' locks and buffers, and commands run by EXEC that
  break the storage servers.
\<close>

theorem system_invariant:
  assumes "docs_reachable w"
  shows "ns_inv (dw_ns w) \<and> list_all (\<lambda>n. ss_inv (nd_ss n)) (ns_world (dw_ns w)) \<and>
    (case dw_socks w s of None \<Rightarrow> True | Some sk \<Rightarrow> s < dw_next w \<and> list_all msg_wf (sk_inbox sk))"
  using reachable_system [OF assms]
  by (auto simp: docs_inv_def docs_nodes_def in_world_def node_inv_def list_all_iff split: option.split)

text \<open>A storage server comes up, and a process registers it at the name server.\<close>

lemma sample_registration_sent: "docs_message (sample_registration port)"
proof -
  have "length (m_filename (sample_registration port)) < MAX_FILENAME_LEN - 1"
    by (simp add: sample_registration_def INIT_MESSAGE_def)
  then show ?thesis unfolding docs_message_def by (simp only: sample_registration_ok simp_thms)
qed

lemma first_registration:
  assumes "ns_servers ns = []"
  shows "\<exists>m. dispatch (system_env NS_Registry.sample_env) ns (sample_registration port) = Some ([m], ns\<lparr>ns_servers := [sample_server port]\<rparr>)"
proof -
  have "find_server (sample_registration port) ns = - 1" by (simp add: find_server_def assms)
  moreover have "listed_files (sample_registration port) = []"
    by (simp add: listed_files_def sample_registration_def INIT_MESSAGE_def cbuf_def)
  ultimately show ?thesis using assms
    by (simp add: dispatch_def handle_ss_registration_def sample_registration_def answer_def Let_def ns_reply_def)
      (simp add: sample_server_def NS_Registry.sample_env_def system_env_def cbuf_def)
qed

theorem system_invariant_witness:
  "\<exists>w n. docs_reachable w \<and> ns_world (dw_ns w) = [n] \<and> ns_servers (dw_ns w) = [sample_server 9000] \<and>
     dw_socks w 3 \<noteq> None \<and> ns_inv (dw_ns w) \<and> ss_inv (nd_ss n)"
proof -
  let ?fs = "\<lparr>fs_cwd = [], fs_nodes = [[] \<mapsto> FDir]\<rparr>" and ?env = "NS_Registry.sample_env :: Node list NsEnv"
  obtain st where st: "ss_start (\<lambda>_ _. True) ''s'' ckpt_fs [''.'', ''a'', ''.checkpoints'', ''..''] = Some (st, [''a''])" using boot_start by blast
  define n where "n = \<lparr>nd_ip = ''10.0.0.1'', nd_nm_port = 9000, nd_client_port = 9001, nd_env = Write_Path.sample_env, nd_ss = st\<rparr>"
  have "start_ok ''s'' ckpt_fs [''.'', ''a'', ''.checkpoints'', ''..'']" by code_simp
  then have "\<exists>mem sd fs names files. start_ok sd fs names \<and> ss_start mem sd fs names = Some (st, files)" using st by blast
  then have started: "node_started n" by (simp add: node_started_def n_def memory_ok_def Write_Path.sample_env_def)
  from docs_reachable.start [of "[n]" "\<lambda>_. True" 0 ?fs] started
  have r0: "docs_reachable \<lparr>dw_ns = fresh_start [n], dw_up = True, dw_socks = Map.empty, dw_next = 3\<rparr>" (is "docs_reachable ?w0")
    by (simp add: fresh_start_def)
  obtain w1 where w1: "docs_socket ?w0 = (3, w1)" "dw_up w1" "3 \<in> dom (dw_socks w1)" "dw_ns w1 = fresh_start [n]"
    by (simp add: docs_socket_def)
  note r1 = docs_reachable.making [OF r0 w1(1)]
  obtain w2 sk where w2: "docs_connect 3 NS_IP NS_PORT w1 = (0, w2)" "dw_socks w2 3 = Some sk" "dw_up w2"
      "dw_ns w2 = fresh_start [n]" and sk: "sk_phase sk = Fresh" "is_ns (sk_ip sk) (sk_port sk)"
    using w1(2-4) by (auto simp: docs_connect_def listens_def is_ns_def)
  note r2 = docs_reachable.connecting [OF r1 w1(3) w2(1)]
  obtain r w3 where w3: "docs_send ?env 3 (sample_registration 9000) w2 = (r, w3)" by fastforce
  have tame: "commands_tame ?env" by (simp add: commands_tame_def NS_Registry.sample_env_def)
  have "3 \<in> dom (dw_socks w2)" using w2(2) by auto
  note r3 = docs_reachable.sending [OF r2 this tame sample_registration_sent w3]
  obtain m where "dispatch (system_env ?env) (dw_ns w2) (sample_registration 9000) =
      Some ([m], (dw_ns w2)\<lparr>ns_servers := [sample_server 9000]\<rparr>)"
    using first_registration [of "dw_ns w2"] w2(4) by auto
  with w2 w3 sk have at: "dw_ns w3 = (fresh_start [n])\<lparr>ns_servers := [sample_server 9000]\<rparr>" "dw_socks w3 3 \<noteq> None"
    by (auto simp: docs_send_def handled_def ns_serves_def)
  with r3 system_invariant [OF r3, of 3] show ?thesis
    by (intro exI [of _ w3] exI [of _ n]) simp
qed

end
