(* ===== verification/Fresh_Start.thy ===== *)
theory Fresh_Start
  imports Server_Invariant
begin

text \<open>
  The first start of a storage server, in a place where its directory is not there yet: no
  checkpoint can be made, in any state reached afterwards.
\<close>

section \<open>A place where no directory is and none can come\<close>

definition barren :: "cstring list \<Rightarrow> cstring list \<Rightarrow> FS \<Rightarrow> bool" where
  "barren c d fs \<longleftrightarrow> fs_cwd fs = c \<and> fs_nodes fs d \<noteq> Some FDir \<and> (\<forall>r. r \<noteq> [] \<longrightarrow> fs_nodes fs (d @ r) = None)"

named_theorems barren_intros \<open>file system operations that leave a barren place barren\<close>

lemma barren_remove [barren_intros]: "barren c d fs \<Longrightarrow> barren c d (set_node fs s None)"
  by (auto simp: barren_def)

lemma barren_no_child: "barren c d fs \<Longrightarrow> fs_nodes fs p = Some FDir \<Longrightarrow> p \<noteq> d @ r"
  unfolding barren_def by (cases "r = []") auto

lemma can_make_outside:
  assumes "barren c d fs" and "can_make fs s" and "r \<noteq> []"
  shows "resolve fs s \<noteq> d @ r"
proof
  assume "resolve fs s = d @ r"
  then have "butlast (resolve fs s) = d @ butlast r" using assms(3) by (simp add: butlast_append)
  moreover have "fs_nodes fs (butlast (resolve fs s)) = Some FDir" using assms(2) by (simp add: can_make_def Let_def)
  ultimately show False using barren_no_child [OF assms(1)] by blast
qed

lemma barren_make:
  assumes "barren c d fs" and "can_make fs s" and "n = Some FDir \<longrightarrow> resolve fs s \<noteq> d"
  shows "barren c d (set_node fs s n)"
proof -
  have "d @ r \<noteq> resolve fs s" if "r \<noteq> []" for r using can_make_outside [OF assms(1,2) that] by simp
  with assms(1,3) show ?thesis by (auto simp: barren_def)
qed

lemma barren_rewrite:
  assumes "barren c d fs" and "fs_lookup fs s = Some (FReg bs)" and "n \<noteq> Some FDir"
  shows "barren c d (set_node fs s n)"
  using assms lookup_reg_node [OF assms(2)] by (auto simp: barren_def)

lemma barren_fopen_w [barren_intros]: "fopen_w fs s = Some fs' \<Longrightarrow> barren c d fs \<Longrightarrow> barren c d fs'"
  by (auto simp: fopen_w_def split: option.splits FNode.splits if_splits intro: barren_make barren_rewrite)

lemma barren_fwrite [barren_intros]: "barren c d fs \<Longrightarrow> barren c d (fwrite fs s bs)"
  by (auto simp: fwrite_def barren_def split: option.splits FNode.splits)

lemma barren_unlink [barren_intros]: "unlink fs s = Some fs' \<Longrightarrow> barren c d fs \<Longrightarrow> barren c d fs'"
  by (auto simp: unlink_def split: option.splits FNode.splits intro: barren_remove)

lemma can_make_remove: "can_make (set_node fs s None) t \<Longrightarrow> can_make fs t"
  by (auto simp: can_make_def Let_def split: if_splits)

lemma set_node_swap:
  assumes "resolve fs a \<noteq> resolve fs b"
  shows "set_node (set_node fs a n) b k = set_node (set_node fs b k) a n"
  unfolding set_node_def [of "set_node fs a n"] set_node_def [of "set_node fs b k"] using assms
  by simp (simp add: set_node_def fun_upd_twist)

lemma barren_rename [barren_intros]:
  assumes "rename_file fs a b = Some fs'" and "barren c d fs"
  shows "barren c d fs'"
proof -
  from assms(1) obtain bs where a: "fs_lookup fs a = Some (FReg bs)"
    by (auto simp: rename_file_def split: option.splits FNode.splits)
  show ?thesis
  proof (cases "resolve fs a = resolve fs b")
    case False
    with assms(1) a have b: "fs_lookup fs b \<noteq> Some FDir" "fs_lookup fs b = None \<longrightarrow> can_make fs b"
      and fs': "fs' = set_node (set_node fs a None) b (Some (FReg bs))"
      by (auto simp: rename_file_def split: if_splits)
    have "barren c d (set_node fs b (Some (FReg bs)))"
    proof (cases "fs_lookup fs b")
      case None
      with b(2) show ?thesis by (intro barren_make [OF assms(2)]) auto
    next
      case (Some n)
      with b(1) obtain x where "n = FReg x" by (cases n) auto
      with Some show ?thesis by (intro barren_rewrite [OF assms(2)]) auto
    qed
    moreover have "fs' = set_node (set_node fs b (Some (FReg bs))) a None"
      unfolding fs' using False by (rule set_node_swap)
    ultimately show ?thesis by (simp add: barren_remove)
  qed (use assms a in \<open>simp add: rename_file_def\<close>)
qed

lemma barren_copy_loop [barren_intros]: "barren c d fs \<Longrightarrow> barren c d (copy_loop fs dest rest)"
proof (induction fs dest rest rule: copy_loop.induct)
  case (1 fs dest rest)
  then show ?case using barren_fwrite [of c d fs dest "take 4096 rest"] by (simp add: copy_loop.simps [of fs dest rest])
qed

lemma barren_copy_file [barren_intros]: "copy_file fs s t k = (r, fs') \<Longrightarrow> barren c d fs \<Longrightarrow> barren c d fs'"
  by (auto simp: copy_file_def split: option.splits intro: barren_fopen_w barren_copy_loop)

section \<open>The operations of the server\<close>

lemma barren_files:
  "barren c d fs \<Longrightarrow> create_file sd fs n = (r, fs') \<Longrightarrow> barren c d fs'"
  "barren c d fs \<Longrightarrow> delete_file sd fs n = (r, fs') \<Longrightarrow> barren c d fs'"
  "barren c d fs \<Longrightarrow> folder_move_file sd fs n f = (r, fs') \<Longrightarrow> barren c d fs'"
  "barren c d fs \<Longrightarrow> checkpoint_revert sd fs n tag = (r, fs') \<Longrightarrow> barren c d fs'"
  by (auto simp: create_file_def delete_file_def folder_move_file_def checkpoint_revert_def Let_def
      split: option.splits if_splits intro: barren_intros)

text \<open>The place in question, as seen from the storage directory.\<close>

definition no_checkpoints :: "cstring \<Rightarrow> FS \<Rightarrow> SS \<Rightarrow> bool" where
  "no_checkpoints sd fs st \<longleftrightarrow> ss_dir st = sd \<and> barren (fs_cwd fs) (resolve fs sd @ [CHECKPOINT_DIR]) (ss_fs st)"

lemma checkpoint_fails:
  assumes "sd \<noteq> []" and st: "no_checkpoints sd fs st" and f: "ckpt_ok sd f tag"
  shows "checkpoint_create sd (ss_fs st) f tag =
    (if file_exists sd (ss_fs st) f then ERR_SERVER_ERROR else ERR_NOT_FOUND, ss_fs st)"
proof -
  let ?fs = "ss_fs st" and ?d = "get_checkpoint_dir sd f"
  have b: "fs_cwd ?fs = fs_cwd fs" "fs_nodes ?fs (resolve fs sd @ [CHECKPOINT_DIR]) \<noteq> Some FDir"
    "r \<noteq> [] \<Longrightarrow> fs_nodes ?fs (resolve fs sd @ CHECKPOINT_DIR # r) = None" for r
    using st by (auto simp: no_checkpoints_def barren_def)
  have plain: "plain_name f" using f by (simp add: ckpt_ok_def name_ok_def)
  have "resolve ?fs ?d = resolve ?fs (sd @ SLASH # CHECKPOINT_DIR) @ [f]"
    unfolding ckpt_dir_eq [OF f] by (rule resolve_child [OF _ plain]) simp
  then have d: "resolve ?fs ?d = resolve fs sd @ [CHECKPOINT_DIR, f]"
    using plain_ckpt_resolve [OF assms(1), of ?fs] b(1) by (simp add: resolve_def)
  have none: "fs_nodes ?fs (resolve ?fs ?d) = None" unfolding d by (rule b(3)) simp
  then have "\<not> stat_ok ?fs ?d" by (simp add: stat_ok_def fs_lookup_def)
  moreover have "\<not> can_make ?fs ?d" using b(2) by (simp add: can_make_def Let_def d butlast_append)
  ultimately show ?thesis by (simp add: checkpoint_create_def src_path mkdir_def file_exists_def)
qed

text \<open>
  Requests that do not make the missing directory by hand: none is CREATEFOLDER, and the
  checkpoints asked for are of plain file names that fit their path.
\<close>

definition calm :: "cstring \<Rightarrow> Message \<Rightarrow> bool" where
  "calm sd m \<longleftrightarrow> m_operation m \<noteq> OP_CREATEFOLDER \<and>
     (m_operation m = OP_CHECKPOINT \<longrightarrow> ckpt_ok sd (m_filename m) (m_checkpoint_tag m))"

lemma session_barren:
  assumes "no_checkpoints sd fs st" and "handle_write_session env st m = Some (st', out)"
  shows "no_checkpoints sd fs st'"
proof -
  note b = assms(1) [unfolded no_checkpoints_def]
  let ?b = "barren (fs_cwd fs) (resolve fs sd @ [CHECKPOINT_DIR])"
  have wr: "?b (fwrite fs1 p c)" if "fopen_w (ss_fs st) p = Some fs1" for fs1 p c
    using b that by (blast intro: barren_intros)
  have rn: "?b fs3" if "fopen_w (ss_fs st) p = Some fs1" "rename_file (fwrite fs1 p c) p q = Some fs3" for fs1 fs3 p q c
    using wr [OF that(1)] that(2) by (blast intro: barren_intros)
  have "no_checkpoints sd fs st'" if "handle_write_commit env st = Some (st', out)"
    using that b wr rn by (auto simp: handle_write_commit_def no_checkpoints_def Let_def
        split: if_splits option.splits prod.splits)
  with assms show ?thesis
    by (auto simp: handle_write_session_def handle_write_start_def handle_write_update_def no_checkpoints_def Let_def
        split: if_splits option.splits prod.splits)
qed

lemma write_loop_barren:
  "no_checkpoints sd fs st \<Longrightarrow> write_loop st rest = Some (st', out) \<Longrightarrow> no_checkpoints sd fs st'"
proof (induction st rest arbitrary: st' out rule: write_loop.induct)
  case (1 st)
  then show ?case by (auto simp: no_checkpoints_def split: if_splits)
next
  case (2 st env m rest)
  show ?case
  proof (cases "m_operation m = OP_WRITE_UPDATE")
    case True
    with "2.prems"(2) obtain st1 out1 out2 where h: "handle_write_session env st m = Some (st1, out1)"
      "write_loop st1 rest = Some (st', out2)" by (auto split: option.splits)
    from "2.IH" [OF True h(1) refl session_barren [OF "2.prems"(1) h(1)] h(2)] show ?thesis .
  next
    case False
    with "2.prems" show ?thesis by (auto split: if_splits intro: session_barren)
  qed
qed

lemma client_barren:
  assumes sd: "sd \<noteq> []" and st: "no_checkpoints sd fs st" and m: "calm sd m" and h: "client_connection st env m rest = Some (st', out)"
  shows "no_checkpoints sd fs st'"
proof (cases "m_operation m = OP_WRITE_START")
  case True
  with h obtain st1 out1 out2 where "handle_write_session env st m = Some (st1, out1)" "write_loop st1 rest = Some (st', out2)"
    by (auto simp: client_connection_def split: option.splits)
  with session_barren [OF st] write_loop_barren show ?thesis by blast
next
  case False
  note b = st [unfolded no_checkpoints_def]
  have wr: "barren (fs_cwd fs) (resolve fs sd @ [CHECKPOINT_DIR]) (fwrite fs1 p c)" if "fopen_w (ss_fs st) p = Some fs1" for fs1 p c
    using b that by (blast intro: barren_intros)
  have undo: "no_checkpoints sd fs st'" if "handle_undo_request env st m = Some (st', out)"
    using that b wr by (auto simp: handle_undo_request_def no_checkpoints_def Let_def
        split: if_splits option.splits prod.splits)
  have ckpt: "no_checkpoints sd fs st'" if "handle_checkpoint_request env st m = Some (st', out)" "m_operation m = OP_CHECKPOINT"
    using that m b checkpoint_fails [OF sd st, of "m_filename m" "m_checkpoint_tag m"]
    by (auto simp: handle_checkpoint_request_def calm_def no_checkpoints_def)
  have revert: "no_checkpoints sd fs st'" if "handle_revert_request env st m = Some (st', out)"
    using that b by (auto simp: handle_revert_request_def no_checkpoints_def split: prod.splits intro: barren_files)
  show ?thesis using False h st undo ckpt revert
    by (auto simp: client_connection_def handle_read_from_client_def handle_stream_request_def handle_viewcheckpoint_request_def
        handle_listcheckpoints_request_def handle_search_request_def Let_def split: if_splits option.splits prod.splits)
qed

lemma name_server_barren:
  assumes "no_checkpoints sd fs st" and "calm sd m" and "ns_request env st m = Some (st', out)"
  shows "no_checkpoints sd fs st'"
  using assms unfolding no_checkpoints_def calm_def
  by (auto simp: ns_request_def handle_move_request_def handle_viewfolder_request_def Let_def
      split: if_splits option.splits prod.splits intro: barren_files)

section \<open>No checkpoint after a first start\<close>

text \<open>The states a server gets into from its start, by requests as above and lock clean-ups.\<close>

inductive calm_reachable :: "(cstring \<Rightarrow> nat \<Rightarrow> bool) \<Rightarrow> cstring \<Rightarrow> FS \<Rightarrow> cstring list \<Rightarrow> SS \<Rightarrow> bool" for mem sd fs names where
  start: "ss_start mem sd fs names = Some (st, files) \<Longrightarrow> calm_reachable mem sd fs names st"
| client: "calm_reachable mem sd fs names st \<Longrightarrow> calm sd m \<Longrightarrow> client_connection st env m rest = Some (st', out) \<Longrightarrow>
    calm_reachable mem sd fs names st'"
| name_server: "calm_reachable mem sd fs names st \<Longrightarrow> calm sd m \<Longrightarrow> ns_request env st m = Some (st', out) \<Longrightarrow>
    calm_reachable mem sd fs names st'"
| cleanup: "calm_reachable mem sd fs names st \<Longrightarrow> calm_reachable mem sd fs names (lock_cleanup_round env st)"

lemma calm_barren:
  assumes ok: "start_ok sd fs names" and fresh: "\<forall>p. fs_nodes fs (resolve fs sd @ p) = None"
    and st: "calm_reachable mem sd fs names st"
  shows "no_checkpoints sd fs st"
proof -
  have sd: "sd \<noteq> []" using ok by (simp add: start_ok_def)
  show ?thesis using st
  proof (induction rule: calm_reachable.induct)
    case (start st files)
    have "fs_nodes fs (resolve fs sd) = None" using fresh [rule_format, of "[]"] by simp
    then have "\<not> stat_ok fs sd" by (simp add: stat_ok_def fs_lookup_def)
    then have "ss_fs st = set_node fs sd (Some FDir)" "ss_dir st = sd" using start_storage [OF ok start] by auto
    with fresh show ?case by (simp add: no_checkpoints_def barren_def)
  next
    case (client st m env rest st' out)
    then show ?case using client_barren [OF sd] by blast
  next
    case (name_server st m env st' out)
    then show ?case using name_server_barren by blast
  next
    case (cleanup st env)
    then show ?case by (simp add: no_checkpoints_def lock_cleanup_round_def)
  qed
qed

text \<open>
  C37. After a first start no checkpoint can be made: \<open>main\<close> creates the checkpoint directory before
  the storage directory, so where the storage directory does not exist yet the first \<open>mkdir\<close>
  fails, and nothing repeats it. Whatever connections, requests of the name server and lock
  clean-ups follow, as long as nobody creates a folder by hand, every CHECKPOINT of a file that
  is there answers \<open>ERR_SERVER_ERROR\<close> and changes nothing.
\<close>

theorem fresh_start_checkpoint_fails:
  assumes "start_ok sd fs names" and "\<forall>p. fs_nodes fs (resolve fs sd @ p) = None" and "calm_reachable mem sd fs names st"
    and "m_operation m = OP_CHECKPOINT" and "ckpt_ok sd (m_filename m) (m_checkpoint_tag m)"
  shows "\<exists>r. client_connection st env m rest = Some (st, [r]) \<and>
    m_error_code r = (if file_exists sd (ss_fs st) (m_filename m) then ERR_SERVER_ERROR else ERR_NOT_FOUND)"
proof -
  have st: "no_checkpoints sd fs st" by (rule calm_barren [OF assms(1-3)])
  have "sd \<noteq> []" using assms(1) by (simp add: start_ok_def)
  note fails = checkpoint_fails [OF this st assms(5)]
  have "ss_dir st = sd" using st by (simp add: no_checkpoints_def)
  with fails assms(4) show ?thesis
    by (simp add: client_connection_def handle_checkpoint_request_def ack_def reply_def)
qed

text \<open>A server that starts on an empty disk, is given a file, and is then asked for a checkpoint of it.\<close>

theorem fresh_start_checkpoint_fails_witness:
  "\<exists>st env m r. calm_reachable (\<lambda>_ _. True) ''s'' \<lparr>fs_cwd = [], fs_nodes = [[] \<mapsto> FDir]\<rparr> [] st \<and>
     file_exists ''s'' (ss_fs st) ''a'' \<and> m_filename m = ''a'' \<and>
     client_connection st env m [] = Some (st, [r]) \<and> m_error_code r = ERR_SERVER_ERROR"
proof -
  let ?fs = "\<lparr>fs_cwd = [], fs_nodes = [[] \<mapsto> FDir]\<rparr>" and ?mem = "\<lambda>_ _. True"
  have res: "resolve ?fs ''s'' = [''s'']" by (simp add: resolve_def runs_one)
  have nost: "\<not> stat_ok ?fs ''s''" by (simp add: stat_ok_def fs_lookup_def res)
  have start: "start_ok ''s'' ?fs []" by (simp add: start_ok_def is_reg_def fs_lookup_def res)
  have init: "checkpoint_init ''s'' ?fs = ?fs" by (simp add: checkpoint_init_eq res)
  have "mkdir ?fs ''s'' = Some (set_node ?fs ''s'' (Some FDir))"
    by (simp add: mkdir_def res can_make_def)
  with nost have "ensure_storage_dir ''s'' (checkpoint_init ''s'' ?fs) = (0, set_node ?fs ''s'' (Some FDir))"
    unfolding init by (simp add: ensure_storage_dir_def)
  from ss_start_defined [OF this, of ?mem "[]"] obtain st files where st: "ss_start ?mem ''s'' ?fs [] = Some (st, files)"
    by auto
  define env where "env = \<lparr>e_now = 0, e_mem_node = True, e_mem_content = True, e_mem_restore = True, e_mem_index = (\<lambda>_ _. True),
    e_times = (0, 0, 0), e_dir_size = 0, e_names = [], e_sent = 0\<rparr>"
  define mk where "mk = (INIT_MESSAGE 0)\<lparr>m_operation := OP_CREATE, m_filename := ''a''\<rparr>"
  define m where "m = (INIT_MESSAGE 0)\<lparr>m_operation := OP_CHECKPOINT, m_filename := ''a'', m_checkpoint_tag := ''v1''\<rparr>"
  have na: "name_ok ''a''" by simp
  have sto: "storage_ok ''s'' (ss_fs st)" and dir: "ss_dir st = ''s''" using start_storage [OF start st] by auto
  let ?fs1 = "if file_exists ''s'' (ss_fs st) ''a'' then ss_fs st else set_node (ss_fs st) (get_file_path ''s'' ''a'') (Some (FReg []))"
  obtain st1 out where run: "ns_request env st mk = Some (st1, out)" and fs1: "ss_fs st1 = ?fs1"
    using create_file_eq [OF sto na] dir
    by (cases "file_exists ''s'' (ss_fs st) ''a''") (simp_all add: ns_request_def mk_def Let_def)
  have ex: "file_exists ''s'' (ss_fs st1) ''a''"
    using file_lookup [OF storage_ok_set_node [OF sto na] na] file_resolve [OF sto na]
    by (simp add: fs1 file_exists_def stat_ok_def)
  have r: "calm_reachable ?mem ''s'' ?fs [] st1"
    by (rule calm_reachable.name_server [OF calm_reachable.start [OF st] _ run]) (simp add: calm_def mk_def)
  have m: "m_operation m = OP_CHECKPOINT" "ckpt_ok ''s'' (m_filename m) (m_checkpoint_tag m)"
    by (simp_all add: m_def ckpt_ok_def)
  have fn: "m_filename m = ''a''" by (simp add: m_def)
  have "\<forall>p. fs_nodes ?fs (resolve ?fs ''s'' @ p) = None" by (simp add: res)
  then obtain r where "client_connection st1 env m [] = Some (st1, [r])" "m_error_code r = ERR_SERVER_ERROR"
    using fresh_start_checkpoint_fails [OF start _ r m, of env "[]"] ex unfolding fn by auto
  with r ex fn show ?thesis by blast
qed

end
