(* ===== verification/Spec2Isabelle.thy ===== *)
theory Spec2Isabelle
  imports Metadata Socket_Utils Client_Write Logger Registration NS_Loop System_Invariant Fresh_Start
begin

text \<open>
  \<^bold>\<open>Docs++ (a network file system for shared documents, in C): a verification development.\<close>

  \<^bold>\<open>The program.\<close> Clients (\<^verbatim>\<open>src/client\<close>) talk to one name server (\<^verbatim>\<open>src/nameserver\<close>), which
  knows which storage server (\<^verbatim>\<open>src/storage_server\<close>) holds a file and who may read and write
  it. CREATE, DELETE, EXEC, the access commands, folders and searches go through the name
  server, which contacts the storage servers itself; for READ, WRITE, UNDO and STREAM it only
  checks the rights and answers with the address of a storage server, which the client then
  contacts directly. Every exchange is one fixed-size \<open>Message\<close> (\<^verbatim>\<open>src/common/protocol.h\<close>). A
  write locks one sentence of the document, edits its words and commits.

  \<^bold>\<open>Theories, from the bottom up.\<close> One theory per source file or group of functions:

  \<^item> \<open>Docs_Prelude\<close>: C strings and bounded buffers (\<open>cbuf\<close> is \<open>strncpy\<close> or \<open>snprintf\<close> into an
    array), decimal printing, character classes, collision chains and the locale
    \<open>chained_hash\<close> all hash tables of the program are instances of. \<open>Refinement\<close>: the locale
    \<open>op_refinement\<close> of components that implement a step function of a specification.
  \<^item> \<open>Protocol\<close>: \<^verbatim>\<open>common/protocol.h\<close>, the codes, the record \<open>Message\<close>, \<open>msg_wf\<close> (every string
    within its array).
  \<^item> \<open>File_System\<close>: the POSIX calls the storage server makes, on a tree of nodes; the locale
    \<open>byte_store\<close> of what their users need.
  \<^item> Storage server: \<open>Sentence_Parser\<close> (\<^verbatim>\<open>sentence_parser.c\<close>), \<open>Sentence_Lock\<close>
    (\<^verbatim>\<open>sentence_lock.c\<close>, locale \<open>lock_service\<close>), \<open>Undo_Buffer\<close> (\<^verbatim>\<open>undo_buffer.c\<close>, locale
    \<open>undo_service\<close>), \<open>Inverted_Index\<close> (\<^verbatim>\<open>inverted_index.c\<close>, locale \<open>posting_store\<close>),
    \<open>Checkpoint_Manager\<close>, \<open>Folder_Manager\<close>, \<open>File_Store\<close> (the file operations of
    \<^verbatim>\<open>storage_server.c\<close>) and \<open>Storage_Server\<close> (its handlers, its two serving threads and its
    start-up, over the record \<open>SS\<close> of its globals). \<open>Write_Path\<close> and \<open>Server_Invariant\<close> are the
    theorems about whole connections and about reachable states (\<open>ss_step\<close>, \<open>ss_reachable\<close>);
    \<open>Fresh_Start\<close> is about a server whose storage directory was not there.
  \<^item> Name server: \<open>Acl\<close> (\<^verbatim>\<open>acl.c\<close>, locale \<open>access_control\<close>), \<open>Access_Requests\<close>
    (\<^verbatim>\<open>access_requests.c\<close>), \<open>LRU_Cache\<close> (the doubly linked cache of \<^verbatim>\<open>nameserver.c\<close>, pointer by
    pointer), \<open>NS_Registry\<close> (its tables and lookups, over the record \<open>NS\<close> of its globals, locale
    \<open>location_cache\<close>), \<open>Name_Server\<close> (its handlers and their dispatch). \<open>NS_Invariant\<close> and
    \<open>NS_Properties\<close> are the theorems about reachable states (\<open>ns_reachable\<close>) and about what the
    handlers do for a client.
  \<^item> Both: \<open>System\<close> (the world of the name server is a list of storage servers in the state of
    \<open>Storage_Server\<close>), \<open>Metadata\<close> (what a storage server prints about a file is what the name
    server reads, so that the two together answer INFO and the long VIEW).
  \<^item> \<^verbatim>\<open>common/socket_utils.c\<close>: \<open>Socket_Utils\<close> (the loops that send and receive, and the bytes of a
    message) and \<open>Socket_Calls\<close> (making and configuring sockets, on the kernel's table of
    descriptors); \<open>Network\<close> is the record of these functions as the programs use them.
    \<^verbatim>\<open>common/logger.c\<close>: \<open>Logger\<close>.
  \<^item> Client (\<^verbatim>\<open>client.c\<close>): \<open>Client\<close> (every command, the write session, the loop and \<open>main\<close>, over a
    \<open>Network\<close>), \<open>Client_Contract\<close> (the locale \<open>server_side\<close>: what a client may assume of the
    network and what then holds of its runs), \<open>Client_System\<close> (the network whose other end is the
    modelled name server and storage servers, an interpretation of \<open>server_side\<close>),
    \<open>Client_Properties\<close> and \<open>Client_Write\<close> (commands end to end).
  \<^item> The processes: \<open>Storage_Main\<close> (command line, \<open>main\<close>, registration and heartbeat of
    \<^verbatim>\<open>storage_server.c\<close>) with \<open>Registration\<close> (what they do at the name server), and \<open>NS_Loop\<close> (\<open>main\<close>
    of \<^verbatim>\<open>nameserver.c\<close> and its \<open>select\<close> loop).
  \<^item> \<open>System_Invariant\<close>: clients, storage servers and the name server in any interleaving of
    connections, messages, failures and restarts (\<open>docs_reachable\<close>).

  Every locale states what a client of the component relies on and is interpreted on the
  model's own definitions in the theory that provides them.

  \<^bold>\<open>How the model reads.\<close> A struct is a record with a prefix per struct (\<open>ws_\<close>, \<open>le_\<close>, \<open>es_\<close>),
  a C string the \<open>char list\<close> before its NUL, an array of chains a function from bucket numbers
  to lists in link order, the hash functions are on 32- and 64-bit words as in the code. A
  function of the code is a definition of the same name (\<open>ns_handle_\<close> where two files share
  one); it takes the state and returns the new one with its result code or the messages it
  sends, in order. What the code cannot compute comes in through records of the environment
  (\<open>Env\<close>, \<open>NsEnv\<close>): the clock, allocation results, file times and the text of a time, the order of a directory, the
  outcome of a network exchange (\<open>Contact\<close>), the output of a command, what \<open>select\<close> reports
  (\<open>Round\<close>), which socket calls succeed (\<open>Kernel\<close>). \<open>None\<close> as the result of
  a handler is undefined behaviour of the C code (a buffer overrun, a freed or null pointer,
  memory that was never written, a number that its type cannot hold); that it does not occur is
  proved, except where it is real and stated as such: SEARCH overruns the buffer it collects
  results in, INFO the one of the access list, some words of a write their array; INFO and the
  long VIEW hand the null pointer \<open>localtime\<close> gives for an absurd time to \<open>strftime\<close>; a file of more
  than \<open>INT_MAX\<close> characters overflows the counters of its metadata. In the client \<open>None\<close> is an
  address copied without its terminator, a number that is no \<open>int\<close>, or a STREAM whose server
  never stops; in the name server's loop a descriptor too large for an \<open>fd_set\<close>, or a message whose
  end never arrives, for which the whole server waits.

  \<^bold>\<open>What is proved.\<close> The properties, C1 to C40, stand after the text that names them:

  \<^item> documents: a write session from START to COMMIT replaces exactly the sentence it locked and
    releases the lock, UNDO takes the file back, a lost connection changes nothing, READ and
    STREAM deliver the document, REVERT restores a checkpoint; at every moment of a commit the
    document is on the disk, in its old or in its new form;
  \<^item> invariants of every reachable state of either server and of the whole system, whatever the
    name server's disk holds when it starts or starts again; every request answered but for the
    cases of undefined behaviour named above, every message within its fields;
  \<^item> access: rights change only on the command of someone entitled, routing happens exactly for
    those with the right and to a live server; a lookup answers the cached live server, else the
    location, else the replica, else none; CREATE gives its creator access;
  \<^item> the system: CREATE and DELETE end to end, through the name server to the disk of a storage
    server; READ and a whole WRITE session from the prompt of a client to that disk and back; no
    run of a client, whatever is typed, breaks the name server or touches the rights of files
    its user may not write;
  \<^item> the processes: a storage server comes up registered with the files of its directory (those in
    folders are not scanned), heartbeats keep it alive, the name server comes up and its loop is
    exactly the service of the ready connections (\<open>serve_all\<close>, \<open>serve_rounds\<close>), round after round;
  \<^item> the wire: a message survives any splitting of the byte stream;
  \<^item> components: the lock table, the access table, the request table and the location cache
    refine a map or a list, the search index is exact, the sentence splitting is unique, and
    what is saved is loaded;
  \<^item> deviations: behaviour the program does not intend (a replica that replaces the primary as
    the only known location, approvals that are not saved, an abandoned session that another
    user can commit, checkpoints that fail on a fresh server or are reported as failed, a reader
    who reverts a file) is stated as theorems too.

  \<^bold>\<open>Hypotheses.\<close> \<open>env_ok\<close>: what comes off the network fits a \<open>Message\<close>; \<open>msg_wf\<close> likewise for the
  message handled; \<open>files_ok\<close>: the names in a registration fit a file name; \<open>req_ok\<close>: the same
  for a storage server, with memory available; \<open>storage_ok\<close>, \<open>name_ok\<close>: the storage directory is
  there and a file name is a plain one; \<open>located\<close>, \<open>client_of\<close>: the name server knows the file at a
  live storage server of the system, and the client is logged in with no socket open; \<open>willing\<close>:
  the kernel refuses no socket call; \<open>fresh_accept\<close>: \<open>accept\<close> gives a descriptor that is not open;
  \<open>serve_safe\<close>, \<open>safe_request\<close>: the messages of a round arrive whole, and none is one of the
  requests whose undefined behaviour is named above; \<open>times_printable\<close>: the times of a storage
  server's files are numbers \<open>localtime\<close> and \<open>strftime\<close> can print; \<open>calm\<close>: nobody makes a folder
  in place of the missing checkpoint directory;
  \<open>docs_message\<close>: file names leave a byte of their array free, as the search index needs;
  \<open>commands_tame\<close>: the commands EXEC runs leave the storage servers alone, which nothing in the
  code sees to. Each has a witness.

  \<^bold>\<open>Termination and bounds.\<close> Loops are recursive functions with a proved measure
  (\<open>copy_loop\<close>, \<open>fgets_lines\<close>, \<open>exec_output\<close>, \<open>runs\<close>, \<open>scan_fds\<close>, the loops of \<open>Socket_Utils\<close>, and
  \<open>main_loop\<close> and \<open>write_lines\<close> of the client, which consume what is typed). Two are
  \<open>partial_function (option)\<close>: \<open>lru_walk\<close>, which follows pointers and has no result on a cyclic list
  (\<open>lru_cache_refines_list\<close> shows it has one on every list the cache builds), and \<open>stream_words\<close> of
  the client, which ends when its server ends the stream. The name server's loop has no end; its
  rounds are given as a list (\<open>loop_rounds\<close>). No fuel is used.

  \<^bold>\<open>Not modelled.\<close> A handler is one step: the name server's main thread handles one connection
  at a time, its failure detector, the clean-up thread and the heartbeat of the storage server
  are steps of their own, but the interleaving of two threads inside a handler is not there
  (most of the shared tables have a lock; those that have none are listed as findings of the
  manifest). SIGINT at the client is a function of its own and not an interrupt of the loop. The
  log calls of the other files are left out of their models, as are functions that only log
  (\<open>acl_stats\<close>, \<open>hashmap_stats\<close>), and the time stamp of a log line is the text \<open>strftime\<close> makes.
  \<open>malloc\<close> failures are modelled where the code tests for them: a value of the environment or, where
  a function allocates many times, a predicate on the line or the word it allocates for. At the client the local address is
  what \<open>get_local_ip\<close> found, an argument.
\<close>

end
